(* ===== verification/Prelude.thy ===== *)
theory Prelude
  imports Main "HOL-Library.Char_ord" "HOL-Library.List_Lexorder" "HOL-Library.Sublist"
begin

text \<open>
  What every component shares: Go strings as lists of bytes with the operations of the packages
  \<^verbatim>\<open>strings\<close>, \<^verbatim>\<open>strconv\<close>, \<^verbatim>\<open>sort\<close> and \<^verbatim>\<open>unicode/utf8\<close> that the sources call, and generic lemmas.
  A Go string is a sequence of bytes, so \<^typ>\<open>string\<close> (a list of 8-bit characters) is its exact type;
  functions that work on runes decode UTF-8 the way Go does, an invalid byte being one rune.
\<close>

named_theorems gostr \<comment> \<open>facts about Go strings that the component proofs rewrite with\<close>

section \<open>Trimming white space\<close>

text \<open>
  The UTF-8 encodings of the runes for which \<^verbatim>\<open>unicode.IsSpace\<close> holds. \<^verbatim>\<open>strings.TrimSpace\<close>
  removes leading and trailing runes of this set. No encoding is a proper prefix or suffix of
  the encoding of another rune, so removing encodings from either end is what decoding a rune
  at either end and testing it does, on invalid UTF-8 too.
\<close>

definition space_runes :: "string list" where
  "space_runes =
     [[CHR 0x20], [CHR 0x09], [CHR 0x0A], [CHR 0x0B], [CHR 0x0C], [CHR 0x0D],
      [CHR 0xC2, CHR 0x85], [CHR 0xC2, CHR 0xA0], [CHR 0xE1, CHR 0x9A, CHR 0x80],
      [CHR 0xE2, CHR 0x80, CHR 0x80], [CHR 0xE2, CHR 0x80, CHR 0x81], [CHR 0xE2, CHR 0x80, CHR 0x82],
      [CHR 0xE2, CHR 0x80, CHR 0x83], [CHR 0xE2, CHR 0x80, CHR 0x84], [CHR 0xE2, CHR 0x80, CHR 0x85],
      [CHR 0xE2, CHR 0x80, CHR 0x86], [CHR 0xE2, CHR 0x80, CHR 0x87], [CHR 0xE2, CHR 0x80, CHR 0x88],
      [CHR 0xE2, CHR 0x80, CHR 0x89], [CHR 0xE2, CHR 0x80, CHR 0x8A], [CHR 0xE2, CHR 0x80, CHR 0xA8],
      [CHR 0xE2, CHR 0x80, CHR 0xA9], [CHR 0xE2, CHR 0x80, CHR 0xAF], [CHR 0xE2, CHR 0x81, CHR 0x9F],
      [CHR 0xE3, CHR 0x80, CHR 0x80]]"

definition starts_with :: "string \<Rightarrow> string \<Rightarrow> bool" where
  "starts_with s w \<longleftrightarrow> take (length w) s = w"

function strip_leading :: "string list \<Rightarrow> string \<Rightarrow> string" where
  "strip_leading ws s =
     (case find (\<lambda>w. w \<noteq> [] \<and> starts_with s w) ws of
        None \<Rightarrow> s
      | Some w \<Rightarrow> strip_leading ws (drop (length w) s))"
  by pat_completeness auto

lemma find_starts_with_shorter:
  "find (\<lambda>w. w \<noteq> [] \<and> starts_with s w) ws = Some w \<Longrightarrow> length (drop (length w) s) < length s"
  by (cases s) (auto simp: find_Some_iff starts_with_def)

termination strip_leading
  by (relation "measure (\<lambda>(ws, s). length s)") (auto dest: find_starts_with_shorter)

declare strip_leading.simps [simp del]

definition TrimSpace :: "string \<Rightarrow> string" where
  "TrimSpace s = rev (strip_leading (map rev space_runes) (rev (strip_leading space_runes s)))"

text \<open>A stripped string has none of the stripped words at its head, and is a suffix of the original.\<close>

definition clean_head :: "string list \<Rightarrow> string \<Rightarrow> bool" where
  "clean_head ws s \<longleftrightarrow> find (\<lambda>w. w \<noteq> [] \<and> starts_with s w) ws = None"

lemma clean_head_iff: "clean_head ws s \<longleftrightarrow> (\<forall>w\<in>set ws. w \<noteq> [] \<longrightarrow> \<not> prefix w s)"
  by (auto simp: clean_head_def find_None_iff starts_with_def prefix_def)
     (metis append_eq_conv_conj append_take_drop_id)+

lemma strip_leading_clean: "clean_head ws (strip_leading ws s)"
proof (induction ws s rule: strip_leading.induct)
  case (1 ws s)
  show ?case
    by (cases "find (\<lambda>w. w \<noteq> [] \<and> starts_with s w) ws")
       (use 1 in \<open>auto simp: strip_leading.simps [of ws s] clean_head_def\<close>)
qed

lemma strip_leading_id: "clean_head ws s \<Longrightarrow> strip_leading ws s = s"
  by (simp add: clean_head_def strip_leading.simps [of ws s])

lemma strip_leading_suffix: "suffix (strip_leading ws s) s"
proof (induction ws s rule: strip_leading.induct)
  case (1 ws s)
  show ?case
  proof (cases "find (\<lambda>w. w \<noteq> [] \<and> starts_with s w) ws")
    case (Some w)
    with 1 have "suffix (strip_leading ws (drop (length w) s)) (drop (length w) s)" by simp
    then show ?thesis
      using Some suffix_order.trans [OF _ suffix_drop]
      by (simp add: strip_leading.simps [of ws s])
  qed (simp add: strip_leading.simps [of ws s])
qed

lemma clean_head_prefix: "clean_head ws s \<Longrightarrow> prefix t s \<Longrightarrow> clean_head ws t"
  by (auto simp: clean_head_iff dest: prefix_order.trans)

definition trimmed :: "string \<Rightarrow> bool" where
  "trimmed s \<longleftrightarrow> TrimSpace s = s"

lemma trimmed_iff: "trimmed s \<longleftrightarrow> clean_head space_runes s \<and> clean_head (map rev space_runes) (rev s)"
proof
  assume t: "trimmed s"
  let ?l = "strip_leading space_runes s"
  have "suffix (rev (TrimSpace s)) (rev ?l)"
    unfolding TrimSpace_def by (simp add: strip_leading_suffix)
  then have "prefix s ?l" using t by (metis trimmed_def suffix_to_prefix rev_rev_ident)
  moreover have "suffix ?l s" by (rule strip_leading_suffix)
  ultimately have eq: "?l = s"
    using suffix_length_le by (fastforce simp: prefix_def)
  then have "clean_head space_runes s" by (metis strip_leading_clean)
  moreover have "clean_head (map rev space_runes) (rev s)"
    using t eq unfolding trimmed_def TrimSpace_def by (metis rev_rev_ident strip_leading_clean)
  ultimately show "clean_head space_runes s \<and> clean_head (map rev space_runes) (rev s)" by simp
next
  assume "clean_head space_runes s \<and> clean_head (map rev space_runes) (rev s)"
  then show "trimmed s" by (simp add: trimmed_def TrimSpace_def strip_leading_id)
qed

lemma trimmed_TrimSpace [simp, intro]: "trimmed (TrimSpace s)"
proof -
  let ?l = "strip_leading space_runes s"
  have "prefix (TrimSpace s) ?l"
    unfolding TrimSpace_def
    by (metis rev_rev_ident strip_leading_suffix suffix_to_prefix)
  then have "clean_head space_runes (TrimSpace s)"
    by (rule clean_head_prefix [OF strip_leading_clean])
  then show ?thesis
    unfolding trimmed_iff by (simp add: TrimSpace_def strip_leading_clean)
qed

lemma TrimSpace_idem [simp, gostr]: "TrimSpace (TrimSpace s) = TrimSpace s"
  using trimmed_TrimSpace by (simp add: trimmed_def)

lemma TrimSpace_trimmed: "trimmed s \<Longrightarrow> TrimSpace s = s"
  by (simp add: trimmed_def)

lemma TrimSpace_Nil [simp, gostr]: "TrimSpace [] = []"
  by (simp add: TrimSpace_def strip_leading.simps starts_with_def space_runes_def)

text \<open>A string that begins and ends with a printable ASCII byte is left as it is.\<close>

definition printable :: "char \<Rightarrow> bool" where
  "printable c \<longleftrightarrow> 0x20 < (of_char c :: nat) \<and> (of_char c :: nat) < 0x7F"

lemma clean_head_printable:
  "list_all (\<lambda>w. w \<noteq> [] \<longrightarrow> \<not> printable (hd w)) ws \<Longrightarrow> printable (hd s) \<Longrightarrow> s \<noteq> [] \<Longrightarrow> clean_head ws s"
  by (cases s) (auto simp: clean_head_iff list_all_iff prefix_Cons)

lemma space_runes_unprintable:
  "list_all (\<lambda>w. w \<noteq> [] \<longrightarrow> \<not> printable (hd w)) space_runes"
  "list_all (\<lambda>w. w \<noteq> [] \<longrightarrow> \<not> printable (hd w)) (map rev space_runes)"
  by (simp_all add: space_runes_def printable_def)

lemma TrimSpace_printable [gostr]:
  "s \<noteq> [] \<Longrightarrow> printable (hd s) \<Longrightarrow> printable (last s) \<Longrightarrow> TrimSpace s = s"
  using trimmed_iff [of s] clean_head_printable space_runes_unprintable
  by (metis hd_rev rev_is_Nil_conv trimmed_def)

section \<open>Runes, letter case and splitting\<close>

text \<open>
  The number of bytes \<^verbatim>\<open>utf8.DecodeRune\<close> takes from the head of a non-empty string: the length of
  a well-formed encoding (no overlong form, no surrogate, nothing beyond U+10FFFF), else 1.
\<close>

definition cont_byte :: "nat \<Rightarrow> nat \<Rightarrow> char list \<Rightarrow> bool" where
  "cont_byte lo hi s \<longleftrightarrow> s \<noteq> [] \<and> lo \<le> of_char (hd s) \<and> of_char (hd s) \<le> hi"

definition rune_width :: "string \<Rightarrow> nat" where
  "rune_width s =
     (let b = (of_char (hd s) :: nat); t = tl s; any = cont_byte 0x80 0xBF in
      if 0xC2 \<le> b \<and> b \<le> 0xDF \<and> any t then 2
      else if 0xE0 \<le> b \<and> b \<le> 0xEF
        \<and> cont_byte (if b = 0xE0 then 0xA0 else 0x80) (if b = 0xED then 0x9F else 0xBF) t \<and> any (tl t) then 3
      else if 0xF0 \<le> b \<and> b \<le> 0xF4
        \<and> cont_byte (if b = 0xF0 then 0x90 else 0x80) (if b = 0xF4 then 0x8F else 0xBF) t
        \<and> any (tl t) \<and> any (tl (tl t)) then 4
      else 1)"

lemma rune_width_pos [simp]: "0 < rune_width s"
  by (simp add: rune_width_def Let_def)

text \<open>\<^verbatim>\<open>len([]rune(s))\<close>.\<close>

function rune_count :: "string \<Rightarrow> nat" where
  "rune_count s = (if s = [] then 0 else Suc (rune_count (drop (rune_width s) s)))"
  by pat_completeness auto
termination rune_count
  by (relation "measure length") (auto simp: diff_less)

declare rune_count.simps [simp del]

lemma rune_count_Nil [simp]: "rune_count [] = 0"
  by (simp add: rune_count.simps)

lemma rune_count_le_length: "rune_count s \<le> length s"
proof (induction s rule: rune_count.induct)
  case (1 s)
  then show ?case
    using rune_width_pos [of s]
    by (cases "s = []") (auto simp: rune_count.simps [of s] Suc_le_eq intro: le_less_trans)
qed

lemma rune_count_pos: "s \<noteq> [] \<Longrightarrow> 0 < rune_count s"
  by (simp add: rune_count.simps [of s])

text \<open>
  \<^verbatim>\<open>strings.ToLower\<close>: ASCII letters, and the two runes beyond ASCII whose lower case is an ASCII
  letter (the Kelvin sign, and the capital I with dot). Other runes map to runes beyond ASCII
  and are kept here: the sources compare the result with ASCII words only, so which
  non-ASCII rune results is not observed.
\<close>

definition lower_byte :: "char \<Rightarrow> char" where
  "lower_byte c = (if 0x41 \<le> (of_char c :: nat) \<and> (of_char c :: nat) \<le> 0x5A then char_of (of_char c + 0x20 :: nat) else c)"

fun ToLower :: "string \<Rightarrow> string" where
  "ToLower [] = []"
| "ToLower (c # s) =
     (if c = CHR 0xC4 \<and> starts_with s [CHR 0xB0] then CHR ''i'' # ToLower (drop 1 s)
      else if c = CHR 0xE2 \<and> starts_with s [CHR 0x84, CHR 0xAA] then CHR ''k'' # ToLower (drop 2 s)
      else lower_byte c # ToLower s)"

text \<open>\<^verbatim>\<open>strings.Split(s, sep)\<close> for a separator of one byte, \<^verbatim>\<open>strings.HasPrefix\<close>, \<^verbatim>\<open>strings.TrimPrefix\<close>.\<close>

fun split_on :: "char \<Rightarrow> string \<Rightarrow> string list" where
  "split_on c [] = [[]]"
| "split_on c (x # xs) =
     (if x = c then [] # split_on c xs
      else (case split_on c xs of [] \<Rightarrow> [[x]] | y # ys \<Rightarrow> (x # y) # ys))"

lemma split_on_append: "c \<notin> set a \<Longrightarrow> split_on c (a @ c # b) = a # split_on c b"
  by (induction a) auto

lemma split_on_single: "c \<notin> set a \<Longrightarrow> split_on c a = [a]"
  by (induction a) auto

lemma starts_with_append [simp]: "starts_with (w @ s) w"
  by (simp add: starts_with_def)

lemma starts_with_iff_prefix: "starts_with s w \<longleftrightarrow> prefix w s"
  by (metis append_eq_conv_conj prefix_def starts_with_def append_take_drop_id)

definition TrimPrefix :: "string \<Rightarrow> string \<Rightarrow> string" where
  "TrimPrefix s w = (if starts_with s w then drop (length w) s else s)"

section \<open>Decimal integers\<close>

text \<open>A value of Go's \<^verbatim>\<open>int64\<close> is an \<^typ>\<open>int\<close> in the signed 64-bit range; \<open>wrap64\<close> is the wrap-around of an overflow.\<close>

definition wrap64 :: "int \<Rightarrow> int" where
  "wrap64 x = signed_take_bit 63 x"

definition int64 :: "int \<Rightarrow> bool" where
  "int64 x \<longleftrightarrow> - (2 ^ 63) \<le> x \<and> x < 2 ^ 63"

lemma wrap64_id: "int64 x \<Longrightarrow> wrap64 x = x"
  by (simp add: wrap64_def int64_def signed_take_bit_int_eq_self)

definition digit_char :: "nat \<Rightarrow> char" where
  "digit_char d = char_of (0x30 + d)"

lemma digit_char_simps [simp]:
  "digit_char 0 = CHR ''0''" "digit_char 1 = CHR ''1''" "digit_char (Suc 0) = CHR ''1''" "digit_char 2 = CHR ''2''"
  "digit_char 3 = CHR ''3''" "digit_char 4 = CHR ''4''" "digit_char 5 = CHR ''5''" "digit_char 6 = CHR ''6''"
  "digit_char 7 = CHR ''7''" "digit_char 8 = CHR ''8''" "digit_char 9 = CHR ''9''"
  by (simp_all add: digit_char_def char_of_def bit_0)

definition digit_val :: "char \<Rightarrow> nat option" where
  "digit_val c = (let n = (of_char c :: nat) in if 0x30 \<le> n \<and> n \<le> 0x39 then Some (n - 0x30) else None)"

lemma digit_val_digit_char [simp]: "d < 10 \<Longrightarrow> digit_val (digit_char d) = Some d"
  by (simp add: digit_val_def digit_char_def Let_def)

fun decimal :: "nat \<Rightarrow> string" where
  "decimal n = (if n < 10 then [digit_char n] else decimal (n div 10) @ [digit_char (n mod 10)])"

declare decimal.simps [simp del]

fun parse_digits :: "nat \<Rightarrow> string \<Rightarrow> nat option" where
  "parse_digits acc [] = Some acc"
| "parse_digits acc (c # s) =
     (case digit_val c of None \<Rightarrow> None | Some d \<Rightarrow> parse_digits (10 * acc + d) s)"

lemma parse_digits_append:
  "parse_digits acc (s @ t) = Option.bind (parse_digits acc s) (\<lambda>a. parse_digits a t)"
  by (induction s arbitrary: acc) (auto split: option.splits)

lemma decimal_nonempty [simp]: "decimal n \<noteq> []"
  by (simp add: decimal.simps [of n])

lemma parse_decimal: "parse_digits 0 (decimal n) = Some n"
proof (induction n rule: decimal.induct)
  case (1 n)
  then show ?case
    by (cases "n < 10") (simp_all add: decimal.simps [of n] parse_digits_append)
qed

lemma decimal_digits: "c \<in> set (decimal n) \<Longrightarrow> \<exists>d<10. c = digit_char d"
proof (induction n rule: decimal.induct)
  case (1 n)
  have m: "\<exists>d<10. digit_char (n mod 10) = digit_char d"
    by (rule exI [of _ "n mod 10"]) simp
  from 1 m show ?case
    by (cases "n < 10") (auto simp: decimal.simps [of n])
qed

text \<open>\<^verbatim>\<open>strconv.FormatInt(x, 10)\<close> and \<^verbatim>\<open>strconv.ParseInt(s, 10, 64)\<close>; a syntax or range error is \<^const>\<open>None\<close>.\<close>

definition FormatInt :: "int \<Rightarrow> string" where
  "FormatInt x = (if x < 0 then CHR ''-'' # decimal (nat (- x)) else decimal (nat x))"

definition ParseInt :: "string \<Rightarrow> int option" where
  "ParseInt s =
     (let neg = (s \<noteq> [] \<and> hd s = CHR ''-'');
          body = (if s \<noteq> [] \<and> (hd s = CHR ''+'' \<or> hd s = CHR ''-'') then tl s else s)
      in if body = [] then None
         else (case parse_digits 0 body of
             None \<Rightarrow> None
           | Some n \<Rightarrow>
               let x = (if neg then - int n else int n)
               in if int64 x then Some x else None))"

lemma digit_char_not_sign: "d < 10 \<Longrightarrow> digit_char d \<noteq> CHR ''-'' \<and> digit_char d \<noteq> CHR ''+''"
  using digit_val_digit_char [of d] by (auto simp: digit_val_def)

lemma decimal_not_sign: "hd (decimal n) \<noteq> CHR ''-'' \<and> hd (decimal n) \<noteq> CHR ''+''"
  using decimal_digits [OF hd_in_set [OF decimal_nonempty]] digit_char_not_sign by metis

lemma ParseInt_FormatInt: "int64 x \<Longrightarrow> ParseInt (FormatInt x) = Some x"
  using decimal_not_sign [of "nat x"]
  by (auto simp: ParseInt_def FormatInt_def parse_decimal Let_def)

lemma FormatInt_nonempty [simp]: "FormatInt x \<noteq> []"
  by (simp add: FormatInt_def)

lemma FormatInt_inject: "int64 x \<Longrightarrow> int64 y \<Longrightarrow> FormatInt x = FormatInt y \<Longrightarrow> x = y"
  by (metis ParseInt_FormatInt option.inject)

lemma printable_digit_char: "d < 10 \<Longrightarrow> printable (digit_char d)"
  by (simp add: printable_def digit_char_def)

lemma digit_char_not_colon: "d < 10 \<Longrightarrow> digit_char d \<noteq> CHR '':''"
  using digit_val_digit_char [of d] by (auto simp: digit_val_def)

lemma FormatInt_chars: "c \<in> set (FormatInt x) \<Longrightarrow> printable c \<and> c \<noteq> CHR '':''"
proof -
  assume "c \<in> set (FormatInt x)"
  then consider "c = CHR ''-''" | n where "c \<in> set (decimal n)"
    by (auto simp: FormatInt_def split: if_splits)
  then show ?thesis
  proof cases
    case (2 n)
    then obtain d where "d < 10" "c = digit_char d" using decimal_digits by blast
    then show ?thesis by (simp add: printable_digit_char digit_char_not_colon)
  qed (simp add: printable_def)
qed

lemma TrimSpace_FormatInt [simp, gostr]: "TrimSpace (FormatInt x) = FormatInt x"
  by (rule TrimSpace_printable)
     (simp_all add: FormatInt_chars [THEN conjunct1, OF hd_in_set] FormatInt_chars [THEN conjunct1, OF last_in_set])

section \<open>Sorted lists without duplicates\<close>

text \<open>
  The loops that drop repeated neighbours of a sorted list, and those that keep a set of values
  seen, compute the same thing: the elements, each once. Both are stated over
  \<^const>\<open>sorted_list_of_set\<close> where the result is sorted.
\<close>

fun drop_repeats :: "string \<Rightarrow> string list \<Rightarrow> string list" where
  "drop_repeats previous [] = []"
| "drop_repeats previous (v # vs) =
     (if v = previous then drop_repeats previous vs else v # drop_repeats v vs)"

fun keep_first :: "'a set \<Rightarrow> 'a list \<Rightarrow> 'a list" where
  "keep_first seen [] = []"
| "keep_first seen (v # vs) =
     (if v \<in> seen then keep_first seen vs else v # keep_first (insert v seen) vs)"

lemma set_keep_first: "set (keep_first seen xs) = set xs - seen"
  by (induction xs arbitrary: seen) auto

lemma distinct_keep_first: "distinct (keep_first seen xs)"
  by (induction xs arbitrary: seen) (auto simp: set_keep_first)

lemma keep_first_distinct: "distinct xs \<Longrightarrow> set xs \<inter> seen = {} \<Longrightarrow> keep_first seen xs = xs"
  by (induction xs arbitrary: seen) auto

lemma drop_repeats_sorted:
  "sorted (p # xs) \<Longrightarrow> set (drop_repeats p xs) = set xs - {p} \<and> sorted (drop_repeats p xs)
     \<and> distinct (drop_repeats p xs)"
proof (induction p xs rule: drop_repeats.induct)
  case (2 p v vs)
  show ?case
  proof (cases "v = p")
    case True
    with 2 show ?thesis by auto
  next
    case False
    with 2 have IH: "set (drop_repeats v vs) = set vs - {v} \<and> sorted (drop_repeats v vs) \<and> distinct (drop_repeats v vs)"
      and le: "p \<le> v" "\<forall>x\<in>set vs. v \<le> x" by auto
    then have "p \<notin> set vs" using False by force
    with IH le False show ?thesis by auto
  qed
qed simp

lemma Nil_le_string [simp]: "([] :: string) \<le> s"
  by (cases s) auto

lemma drop_repeats_sort:
  "drop_repeats [] (sort xs) = sorted_list_of_set (set xs - {[]})"
proof -
  have "sorted ([] # sort xs)" by simp
  from drop_repeats_sorted [OF this] show ?thesis
    by (metis sorted_list_of_set.idem_if_sorted_distinct set_sort)
qed

lemma sort_keep_first: "sort (keep_first {} xs) = sorted_list_of_set (set xs)"
  by (metis distinct_keep_first distinct_sort set_keep_first set_sort sorted_sort Diff_empty
      sorted_list_of_set.idem_if_sorted_distinct)

end
