(* ===== verification/App_Errors.thy ===== *)
theory App_Errors
  imports Prelude
begin

text \<open>
  \<^verbatim>\<open>pkg/apperror\<close> and \<^verbatim>\<open>pkg/rpcerror\<close>: the error values of the services, the gRPC statuses they
  travel as, and the HTTP statuses they are rendered with. A Go error is a value of
  \<open>goerror\<close>; the fallible operations of the development return \<open>goerror + 'a\<close>.
\<close>

section \<open>Error values\<close>

datatype Code =
    CodeOK | CodeInvalidArgument | CodeUnauthenticated | CodeForbidden | CodeNotFound
  | CodeAlreadyExists | CodeRateLimited | CodeServiceUnavailable | CodeInternal

datatype grpc_code =
    codes_InvalidArgument | codes_Unauthenticated | codes_PermissionDenied | codes_NotFound
  | codes_AlreadyExists | codes_ResourceExhausted | codes_Unavailable | codes_Internal | codes_Unimplemented

text \<open>
  \<open>AppError\<close> is \<^verbatim>\<open>*apperror.Error\<close>, \<open>StatusError\<close> the value of \<^verbatim>\<open>status.Error\<close>, \<open>internalError\<close> the
  type of that name in \<^verbatim>\<open>rpcerror\<close>, \<open>Wrapped\<close> what \<^verbatim>\<open>fmt.Errorf\<close> builds with \<^verbatim>\<open>%w\<close>, and
  \<open>PlainError\<close> any other error.
\<close>

datatype goerror =
    AppError Code string
  | StatusError grpc_code string
  | internalError goerror
  | Wrapped string goerror
  | PlainError string

type_synonym 'a result = "goerror + 'a"

abbreviation InvalidArgument :: "string \<Rightarrow> goerror" where
  "InvalidArgument \<equiv> AppError CodeInvalidArgument"
abbreviation Unauthenticated :: "string \<Rightarrow> goerror" where
  "Unauthenticated \<equiv> AppError CodeUnauthenticated"
abbreviation Forbidden :: "string \<Rightarrow> goerror" where
  "Forbidden \<equiv> AppError CodeForbidden"
abbreviation NotFound :: "string \<Rightarrow> goerror" where
  "NotFound \<equiv> AppError CodeNotFound"
abbreviation AlreadyExists :: "string \<Rightarrow> goerror" where
  "AlreadyExists \<equiv> AppError CodeAlreadyExists"
abbreviation RateLimited :: "string \<Rightarrow> goerror" where
  "RateLimited \<equiv> AppError CodeRateLimited"
abbreviation ServiceUnavailable :: "string \<Rightarrow> goerror" where
  "ServiceUnavailable \<equiv> AppError CodeServiceUnavailable"
abbreviation Internal :: "string \<Rightarrow> goerror" where
  "Internal \<equiv> AppError CodeInternal"

text \<open>\<^verbatim>\<open>errors.As(err, &appErr)\<close> walks the chain of wrapped errors.\<close>

fun as_app :: "goerror \<Rightarrow> (Code \<times> string) option" where
  "as_app (AppError c m) = Some (c, m)"
| "as_app (StatusError _ _) = None"
| "as_app (internalError e) = as_app e"
| "as_app (Wrapped _ e) = as_app e"
| "as_app (PlainError _) = None"

definition From :: "goerror option \<Rightarrow> (Code \<times> string) option" where
  "From err =
     (case err of
        None \<Rightarrow> None
      | Some e \<Rightarrow> (case as_app e of
            Some appErr \<Rightarrow> Some appErr
          | None \<Rightarrow> Some (CodeInternal, ''internal server error'')))"

definition HTTPStatus :: "goerror option \<Rightarrow> nat" where
  "HTTPStatus err =
     (case From err of
        None \<Rightarrow> 200
      | Some (c, _) \<Rightarrow> (case c of
            CodeInvalidArgument \<Rightarrow> 400
          | CodeUnauthenticated \<Rightarrow> 401
          | CodeForbidden \<Rightarrow> 403
          | CodeNotFound \<Rightarrow> 404
          | CodeAlreadyExists \<Rightarrow> 409
          | CodeRateLimited \<Rightarrow> 429
          | CodeServiceUnavailable \<Rightarrow> 503
          | _ \<Rightarrow> 500))"

section \<open>Errors on the wire\<close>

definition ToStatus :: "goerror \<Rightarrow> goerror" where
  "ToStatus e =
     (case as_app e of
        None \<Rightarrow> internalError e
      | Some (c, m) \<Rightarrow> (case c of
            CodeInvalidArgument \<Rightarrow> StatusError codes_InvalidArgument m
          | CodeUnauthenticated \<Rightarrow> StatusError codes_Unauthenticated m
          | CodeForbidden \<Rightarrow> StatusError codes_PermissionDenied m
          | CodeNotFound \<Rightarrow> StatusError codes_NotFound m
          | CodeAlreadyExists \<Rightarrow> StatusError codes_AlreadyExists m
          | CodeRateLimited \<Rightarrow> StatusError codes_ResourceExhausted m
          | CodeServiceUnavailable \<Rightarrow> StatusError codes_Unavailable m
          | _ \<Rightarrow> StatusError codes_Internal m))"

text \<open>
  \<open>GRPCStatus\<close> is what the server puts on the wire for an error that carries a status: the
  code and message of \<^verbatim>\<open>status.Error\<close>, and the method \<^verbatim>\<open>GRPCStatus\<close> of \<open>internalError\<close>, which
  hides the cause. The client sees that pair as a status error, not wrapped.
\<close>

fun GRPCStatus :: "goerror \<Rightarrow> (grpc_code \<times> string) option" where
  "GRPCStatus (StatusError c m) = Some (c, m)"
| "GRPCStatus (internalError e) = Some (codes_Internal, ''internal server error'')"
| "GRPCStatus _ = None"

definition FromStatus :: "goerror \<Rightarrow> goerror" where
  "FromStatus e =
     (case GRPCStatus e of
        None \<Rightarrow> e
      | Some (c, m) \<Rightarrow> (case c of
            codes_InvalidArgument \<Rightarrow> InvalidArgument m
          | codes_Unauthenticated \<Rightarrow> Unauthenticated m
          | codes_PermissionDenied \<Rightarrow> Forbidden m
          | codes_NotFound \<Rightarrow> NotFound m
          | codes_AlreadyExists \<Rightarrow> AlreadyExists m
          | codes_ResourceExhausted \<Rightarrow> RateLimited m
          | codes_Unavailable \<Rightarrow> ServiceUnavailable m
          | _ \<Rightarrow> Internal ''internal server error''))"

definition over_wire :: "goerror \<Rightarrow> goerror" where
  "over_wire e = (case GRPCStatus e of Some (c, m) \<Rightarrow> StatusError c m | None \<Rightarrow> e)"

text \<open>The error a client of a service sees when the service's logic fails with \<open>e\<close>.\<close>

definition rpc_error :: "goerror \<Rightarrow> goerror" where
  "rpc_error e = FromStatus (over_wire (ToStatus e))"

lemma rpc_error_app [simp]:
  "rpc_error (AppError c m) =
     (if c = CodeInternal \<or> c = CodeOK then Internal ''internal server error'' else AppError c m)"
  by (cases c) (simp_all add: rpc_error_def ToStatus_def over_wire_def FromStatus_def)

lemma rpc_error_bare: "as_app e = None \<Longrightarrow> rpc_error e = Internal ''internal server error''"
  by (simp add: rpc_error_def ToStatus_def over_wire_def FromStatus_def)

lemma rpc_error_as_app: "as_app e = Some (c, m) \<Longrightarrow> rpc_error e = rpc_error (AppError c m)"
  by (simp add: rpc_error_def ToStatus_def)

lemma rpc_error_idem: "rpc_error (rpc_error e) = rpc_error e"
proof (cases "as_app e")
  case None
  then show ?thesis by (simp add: rpc_error_bare)
next
  case (Some a)
  obtain c m where "a = (c, m)" by (cases a)
  with Some show ?thesis by (simp add: rpc_error_as_app)
qed

text \<open>
  C40: crossing a service boundary does not change what an error means: the client's error has the
  same HTTP status as the service's own, it is again an application error, its message is the
  service's except that an internal error is always reported by the same generic message, and a
  second hop changes nothing more.
\<close>

theorem rpc_error_preserves_meaning:
  "HTTPStatus (Some (rpc_error e)) = HTTPStatus (Some e)
   \<and> (\<exists>c m. rpc_error e = AppError c m \<and> c \<noteq> CodeOK
        \<and> (if HTTPStatus (Some e) = 500 then m = ''internal server error'' else as_app e = Some (c, m)))
   \<and> rpc_error (rpc_error e) = rpc_error e"
proof (cases "as_app e")
  case None
  then show ?thesis by (simp add: rpc_error_bare HTTPStatus_def From_def)
next
  case (Some a)
  obtain c m where a: "a = (c, m)" by (cases a)
  have "HTTPStatus (Some e) = HTTPStatus (Some (AppError c m))" using Some a by (simp add: HTTPStatus_def From_def)
  then show ?thesis
    using Some a by (cases c) (simp_all add: rpc_error_as_app HTTPStatus_def From_def)
qed

end
