(* ===== verification/Infra.thy ===== *)
theory Infra
  imports App_Errors
begin

text \<open>
  Calls to the infrastructure (Redis, Kafka, PostgreSQL, other services), which may fail. A
  computation runs on a state and on a list of faults, one entry per call: a call goes
  through, fails before it had an effect, or fails after it (a lost reply). Theorems quantify over the list, so
  they hold for every pattern of failures; past its end every call succeeds.
  \<open>valid\<close> is the Hoare triple of such computations, with one rule per combinator.
\<close>

datatype fault = NoFault | FailBefore | FailAfter

type_synonym 'w world = "'w \<times> fault list"
type_synonym ('w, 'a) act = "'w world \<Rightarrow> 'a result \<times> 'w world"

definition ret :: "'a \<Rightarrow> ('w, 'a) act" where
  "ret x = (\<lambda>w. (Inr x, w))"

definition raise :: "goerror \<Rightarrow> ('w, 'a) act" where
  "raise e = (\<lambda>w. (Inl e, w))"

definition andThen :: "('w, 'a) act \<Rightarrow> ('a \<Rightarrow> ('w, 'b) act) \<Rightarrow> ('w, 'b) act" where
  "andThen m f = (\<lambda>w. case m w of (Inl e, w') \<Rightarrow> (Inl e, w') | (Inr x, w') \<Rightarrow> f x w')"

definition call :: "string \<Rightarrow> ('w \<Rightarrow> 'a \<times> 'w) \<Rightarrow> ('w, 'a) act" where
  "call what f = (\<lambda>(w, fs). case fs of
       [] \<Rightarrow> (Inr (fst (f w)), (snd (f w), []))
     | NoFault # fs' \<Rightarrow> (Inr (fst (f w)), (snd (f w), fs'))
     | FailBefore # fs' \<Rightarrow> (Inl (PlainError what), (w, fs'))
     | FailAfter # fs' \<Rightarrow> (Inl (PlainError what), (snd (f w), fs')))"

text \<open>A loop that returns at its first error.\<close>

fun for_each :: "('x \<Rightarrow> ('w, unit) act) \<Rightarrow> 'x list \<Rightarrow> ('w, unit) act" where
  "for_each f [] = ret ()"
| "for_each f (x # xs) = andThen (f x) (\<lambda>_. for_each f xs)"

text \<open>
  Goroutines of one \<^verbatim>\<open>errgroup\<close>: all of them run, and the first error is the result. They are run
  one after another; a goroutine cut short by the cancelled context is one whose next call fails.
\<close>

fun run_all :: "('x \<Rightarrow> ('w, unit) act) \<Rightarrow> 'x list \<Rightarrow> ('w, unit) act" where
  "run_all f [] = ret ()"
| "run_all f (x # xs) = (\<lambda>w. case f x w of
       (Inr _, w') \<Rightarrow> run_all f xs w'
     | (Inl e, w') \<Rightarrow> (Inl e, snd (run_all f xs w')))"

text \<open>
  An SQL statement, which may be refused by the database, and a transaction: the statements work
  on a private copy that the commit makes visible; an error anywhere rolls back.
\<close>

definition stmt :: "('w \<Rightarrow> goerror + 'w) \<Rightarrow> ('w, unit) act" where
  "stmt f = andThen (call ''exec'' (\<lambda>w. case f w of Inl e \<Rightarrow> (Inl e, w) | Inr w' \<Rightarrow> (Inr (), w')))
     (\<lambda>r. case r of Inl e \<Rightarrow> raise e | Inr u \<Rightarrow> ret u)"

definition transact :: "('w, 'a) act \<Rightarrow> ('w, 'a) act" where
  "transact body = (\<lambda>(w, fs). case body (w, fs) of
       (Inl e, (_, fs')) \<Rightarrow> (Inl e, (w, fs'))
     | (Inr x, (w', fs')) \<Rightarrow> call ''commit'' (\<lambda>_. (x, w')) (w, fs'))"

text \<open>A query, which may find nothing, and a statement that returns a row.\<close>

definition query :: "('w \<Rightarrow> 'a result) \<Rightarrow> ('w, 'a) act" where
  "query f = andThen (call ''query'' (\<lambda>w. (f w, w))) (\<lambda>r. case r of Inl e \<Rightarrow> raise e | Inr x \<Rightarrow> ret x)"

definition exec_row :: "('w \<Rightarrow> ('a \<times> 'w) result) \<Rightarrow> ('w, 'a) act" where
  "exec_row f = andThen (call ''query'' (\<lambda>w. case f w of Inl e \<Rightarrow> (Inl e, w) | Inr (x, w') \<Rightarrow> (Inr x, w')))
     (\<lambda>r. case r of Inl e \<Rightarrow> raise e | Inr x \<Rightarrow> ret x)"

definition ErrNotFound :: goerror where
  "ErrNotFound = PlainError ''sql: no rows in result set''"

definition not_found_as :: "string \<Rightarrow> ('w, 'a) act \<Rightarrow> ('w, 'a) act" where
  "not_found_as msg m = (\<lambda>w. case m w of
       (Inl e, w') \<Rightarrow> (Inl (if e = ErrNotFound then NotFound msg else e), w')
     | r \<Rightarrow> r)"

text \<open>A row or its absence; any other error is one.\<close>

definition found :: "('w, 'a) act \<Rightarrow> ('w, 'a option) act" where
  "found m = (\<lambda>w. case m w of
       (Inl e, w') \<Rightarrow> (if e = ErrNotFound then Inr None else Inl e, w')
     | (Inr x, w') \<Rightarrow> (Inr (Some x), w'))"

text \<open>Rules of the logic, and the gRPC status as which its errors leave a handler.\<close>

definition lift_result :: "'a result \<Rightarrow> ('w, 'a) act" where
  "lift_result r = (case r of Inl e \<Rightarrow> raise e | Inr x \<Rightarrow> ret x)"

definition check :: "goerror option \<Rightarrow> ('w, unit) act" where
  "check e = (case e of Some err \<Rightarrow> raise err | None \<Rightarrow> ret ())"

definition with_status :: "('w, 'a) act \<Rightarrow> ('w, 'a) act" where
  "with_status m = (\<lambda>w. case m w of (Inl e, w') \<Rightarrow> (Inl (ToStatus e), w') | r \<Rightarrow> r)"

section \<open>Hoare triples\<close>

definition valid :: "('w \<Rightarrow> bool) \<Rightarrow> ('w, 'a) act \<Rightarrow> ('a \<Rightarrow> 'w \<Rightarrow> bool) \<Rightarrow> ('w \<Rightarrow> bool) \<Rightarrow> bool" where
  "valid P m Q E \<longleftrightarrow>
     (\<forall>w fs. P w \<longrightarrow> (case m (w, fs) of (Inr x, (w', _)) \<Rightarrow> Q x w' | (Inl _, (w', _)) \<Rightarrow> E w'))"

lemma validI:
  assumes "\<And>w fs x w' fs'. P w \<Longrightarrow> m (w, fs) = (Inr x, (w', fs')) \<Longrightarrow> Q x w'"
    and "\<And>w fs e w' fs'. P w \<Longrightarrow> m (w, fs) = (Inl e, (w', fs')) \<Longrightarrow> E w'"
  shows "valid P m Q E"
  using assms unfolding valid_def by (auto split: sum.splits)

lemma validD_ok: "valid P m Q E \<Longrightarrow> P w \<Longrightarrow> m (w, fs) = (Inr x, (w', fs')) \<Longrightarrow> Q x w'"
  by (auto simp: valid_def dest!: spec [of _ w] spec [of _ fs])

lemma validD_err: "valid P m Q E \<Longrightarrow> P w \<Longrightarrow> m (w, fs) = (Inl e, (w', fs')) \<Longrightarrow> E w'"
  by (auto simp: valid_def dest!: spec [of _ w] spec [of _ fs])

lemma valid_conseq:
  "valid P' m Q' E' \<Longrightarrow> (\<And>w. P w \<Longrightarrow> P' w) \<Longrightarrow> (\<And>x w. Q' x w \<Longrightarrow> Q x w) \<Longrightarrow> (\<And>w. E' w \<Longrightarrow> E w) \<Longrightarrow> valid P m Q E"
  unfolding valid_def by (fastforce split: sum.splits prod.splits)

lemma valid_conjI:
  "valid P m Q E \<Longrightarrow> valid P' m Q' E' \<Longrightarrow> valid (\<lambda>w. P w \<and> P' w) m (\<lambda>x w. Q x w \<and> Q' x w) (\<lambda>w. E w \<and> E' w)"
  unfolding valid_def by (fastforce split: sum.splits prod.splits)

lemma valid_ret: "(\<And>w. P w \<Longrightarrow> Q x w) \<Longrightarrow> valid P (ret x) Q E"
  by (simp add: valid_def ret_def)

lemma valid_raise: "(\<And>w. P w \<Longrightarrow> E w) \<Longrightarrow> valid P (raise e) Q E"
  by (simp add: valid_def raise_def)

lemma valid_andThen:
  assumes m: "valid P m R E" and f: "\<And>x. valid (R x) (f x) Q E"
  shows "valid P (andThen m f) Q E"
proof (rule validI)
  fix w fs x w' fs'
  assume "P w" and r: "andThen m f (w, fs) = (Inr x, (w', fs'))"
  moreover obtain y w1 fs1 where "m (w, fs) = (Inr y, (w1, fs1))" "f y (w1, fs1) = (Inr x, (w', fs'))"
    using r by (auto simp: andThen_def split: prod.splits sum.splits)
  ultimately show "Q x w'" using validD_ok [OF m] validD_ok [OF f] by blast
next
  fix w fs e w' fs'
  assume P: "P w" and r: "andThen m f (w, fs) = (Inl e, (w', fs'))"
  then consider "m (w, fs) = (Inl e, (w', fs'))"
    | y w1 fs1 where "m (w, fs) = (Inr y, (w1, fs1))" "f y (w1, fs1) = (Inl e, (w', fs'))"
    by (auto simp: andThen_def split: prod.splits sum.splits)
  then show "E w'"
  proof cases
    case 1
    with P show ?thesis by (rule validD_err [OF m])
  next
    case 2
    with P show ?thesis using validD_ok [OF m] validD_err [OF f] by blast
  qed
qed

lemma valid_call:
  assumes "\<And>w. P w \<Longrightarrow> Q (fst (f w)) (snd (f w))" "\<And>w. P w \<Longrightarrow> E w" "\<And>w. P w \<Longrightarrow> E (snd (f w))"
  shows "valid P (call what f) Q E"
  unfolding valid_def call_def by (auto simp: assms split: list.splits fault.splits)

text \<open>The loop rule: an assertion indexed by the elements treated so far.\<close>

lemma valid_for_each:
  assumes step: "\<And>pre x todo. xs = pre @ x # todo \<Longrightarrow>
      valid (J pre) (f x) (\<lambda>_. J (pre @ [x])) E"
  shows "valid (J []) (for_each f xs) (\<lambda>_. J xs) E"
proof -
  { fix pre todo assume "xs = pre @ todo"
    then have "valid (J pre) (for_each f todo) (\<lambda>_. J xs) E"
    proof (induction todo arbitrary: pre)
      case Nil
      then show ?case by (simp add: valid_ret)
    next
      case (Cons x todo)
      have "valid (J pre) (f x) (\<lambda>_. J (pre @ [x])) E" by (rule step [OF Cons.prems])
      moreover have "valid (J (pre @ [x])) (for_each f todo) (\<lambda>_. J xs) E"
        using Cons.prems by (intro Cons.IH) simp
      ultimately show ?case by (simp add: valid_andThen)
    qed }
  from this [of "[]" xs] show ?thesis by simp
qed

text \<open>
  All of a group run: whatever one of them leaves behind on failure must be stable under the
  others; if none fails, the assertion has been established for each.
\<close>

lemma valid_run_all:
  assumes step: "\<And>pre x todo. xs = pre @ x # todo \<Longrightarrow> valid (J pre) (f x) (\<lambda>_. J (pre @ [x])) E"
    and stable: "\<And>x. x \<in> set xs \<Longrightarrow> valid E (f x) (\<lambda>_. E) E"
  shows "valid (J []) (run_all f xs) (\<lambda>_. J xs) E"
proof -
  have err: "E (fst (snd (run_all f ys (w, fs))))" if "set ys \<subseteq> set xs" "E w" for ys w fs
    using that
  proof (induction ys arbitrary: w fs)
    case (Cons y ys)
    obtain r w' fs' where y: "f y (w, fs) = (r, (w', fs'))" by (metis prod.exhaust)
    then have "E w'"
      using stable [of y] Cons.prems by (cases r) (auto dest: validD_ok validD_err)
    then show ?case using y Cons by (cases r) auto
  qed (simp add: ret_def)
  { fix pre todo assume "xs = pre @ todo"
    then have "valid (J pre) (run_all f todo) (\<lambda>_. J xs) E"
    proof (induction todo arbitrary: pre)
      case Nil
      then show ?case by (simp add: valid_ret)
    next
      case (Cons x todo)
      note st = step [OF Cons.prems] and IH = Cons.IH [of "pre @ [x]"]
      show ?case
      proof (rule validI)
        fix w fs u w' fs'
        assume J: "J pre w" and "run_all f (x # todo) (w, fs) = (Inr u, (w', fs'))"
        then obtain v w1 fs1 where "f x (w, fs) = (Inr v, (w1, fs1))" "run_all f todo (w1, fs1) = (Inr u, (w', fs'))"
          by (auto split: prod.splits sum.splits)
        then show "J xs w'" using validD_ok [OF st J] validD_ok [OF IH] Cons.prems by fastforce
      next
        fix w fs e w' fs'
        assume J: "J pre w" and r: "run_all f (x # todo) (w, fs) = (Inl e, (w', fs'))"
        obtain q w1 fs1 where x: "f x (w, fs) = (q, (w1, fs1))" by (metis prod.exhaust)
        show "E w'"
        proof (cases q)
          case (Inl e')
          then have "E w1" using x validD_err [OF st J] by blast
          then show ?thesis using err [of todo w1 fs1] x r Inl Cons.prems by auto
        next
          case (Inr v)
          then have "J (pre @ [x]) w1" using x validD_ok [OF st J] by blast
          then show ?thesis using x r Inr validD_err [OF IH] Cons.prems by auto
        qed
      qed
    qed }
  from this [of "[]" xs] show ?thesis by simp
qed

lemma valid_stmt:
  assumes "\<And>w w'. P w \<Longrightarrow> f w = Inr w' \<Longrightarrow> Q () w' \<and> E w'" "\<And>w. P w \<Longrightarrow> E w"
  shows "valid P (stmt f) Q E"
  unfolding stmt_def
proof (rule valid_andThen [where R = "\<lambda>r w. (case r of Inl _ \<Rightarrow> E w | Inr _ \<Rightarrow> Q () w)"])
  show "valid P (call ''exec'' (\<lambda>w. case f w of Inl e \<Rightarrow> (Inl e, w) | Inr w' \<Rightarrow> (Inr (), w')))
      (\<lambda>r w. case r of Inl _ \<Rightarrow> E w | Inr _ \<Rightarrow> Q () w) E"
    by (rule valid_call) (auto simp: assms split: sum.splits)
qed (auto split: sum.splits intro: valid_ret valid_raise)

text \<open>A transaction has the effect of its whole body or none.\<close>

lemma valid_transact:
  assumes "\<And>w0. P w0 \<Longrightarrow> valid (\<lambda>w. w = w0) body (\<lambda>x w. Q x w \<and> E w) (\<lambda>_. True)" "\<And>w. P w \<Longrightarrow> E w"
  shows "valid P (transact body) Q E"
proof (rule validI)
  fix w fs x w' fs'
  assume P: "P w" and "transact body (w, fs) = (Inr x, (w', fs'))"
  then obtain w1 fs1 y where "body (w, fs) = (Inr y, (w1, fs1))" "x = y" "w' = w1"
    by (auto simp: transact_def call_def split: prod.splits sum.splits list.splits fault.splits)
  then show "Q x w'" using validD_ok [OF assms(1) [OF P]] by blast
next
  fix w fs e w' fs'
  assume P: "P w" and "transact body (w, fs) = (Inl e, (w', fs'))"
  then consider "w' = w" | fs1 y where "body (w, fs) = (Inr y, (w', fs1))"
    by (auto simp: transact_def call_def split: prod.splits sum.splits list.splits fault.splits)
  then show "E w'"
    using assms(2) [OF P] validD_ok [OF assms(1) [OF P]] by cases blast+
qed

lemma transact_cases:
  assumes "transact body (w, fs) = (r, (w', fs'))"
  shows "(isl r \<longrightarrow> w' = w \<or> (\<exists>x fs1. body (w, fs) = (Inr x, (w', fs1))))
    \<and> (\<forall>x. r = Inr x \<longrightarrow> (\<exists>fs1. body (w, fs) = (Inr x, (w', fs1))))"
  using assms by (auto simp: transact_def call_def split: prod.splits sum.splits list.splits fault.splits)

text \<open>An invariant of a computation, whichever way it ends.\<close>

definition keeps :: "('w \<Rightarrow> bool) \<Rightarrow> ('w, 'a) act \<Rightarrow> bool" where
  "keeps I m \<longleftrightarrow> valid I m (\<lambda>_. I) I"

named_theorems keeps_intros

lemma keeps_ret [keeps_intros]: "keeps I (ret x)"
  by (simp add: keeps_def valid_ret)

lemma keeps_raise [keeps_intros]: "keeps I (raise e)"
  by (simp add: keeps_def valid_raise)

lemma keeps_andThen [keeps_intros]: "keeps I m \<Longrightarrow> (\<And>x. keeps I (f x)) \<Longrightarrow> keeps I (andThen m f)"
  unfolding keeps_def by (rule valid_andThen)

lemma keeps_call: "(\<And>w. I w \<Longrightarrow> I (snd (f w))) \<Longrightarrow> keeps I (call what f)"
  unfolding keeps_def by (rule valid_call)

lemma keeps_for_each: "(\<And>x. x \<in> set xs \<Longrightarrow> keeps I (f x)) \<Longrightarrow> keeps I (for_each f xs)"
  unfolding keeps_def by (rule valid_for_each [where J = "\<lambda>_. I"]) simp

lemma keeps_run_all: "(\<And>x. x \<in> set xs \<Longrightarrow> keeps I (f x)) \<Longrightarrow> keeps I (run_all f xs)"
  unfolding keeps_def by (rule valid_run_all [where J = "\<lambda>_. I"]) simp_all

lemma keeps_stmt: "(\<And>w w'. I w \<Longrightarrow> f w = Inr w' \<Longrightarrow> I w') \<Longrightarrow> keeps I (stmt f)"
  unfolding keeps_def by (rule valid_stmt) auto

lemma keeps_transact: "keeps I body \<Longrightarrow> keeps I (transact body)"
  unfolding keeps_def by (rule valid_transact) (auto intro: valid_conseq)

lemma keepsD: "keeps I m \<Longrightarrow> I w \<Longrightarrow> m (w, fs) = (r, (w', fs')) \<Longrightarrow> I w'"
  by (cases r) (auto simp: keeps_def dest: validD_ok validD_err)

lemma keeps_query [keeps_intros]: "keeps I (query f)"
  unfolding query_def by (intro keeps_andThen keeps_call) (auto split: sum.split intro: keeps_intros)

lemma keeps_exec_row: "(\<And>w x w'. I w \<Longrightarrow> f w = Inr (x, w') \<Longrightarrow> I w') \<Longrightarrow> keeps I (exec_row f)"
  unfolding exec_row_def by (intro keeps_andThen keeps_call) (auto split: sum.splits intro: keeps_intros)

lemma keeps_with_status [keeps_intros]: "keeps I m \<Longrightarrow> keeps I (with_status m)"
  unfolding keeps_def valid_def with_status_def by (fastforce split: sum.splits prod.splits)

lemma keeps_not_found_as [keeps_intros]: "keeps I m \<Longrightarrow> keeps I (not_found_as msg m)"
  unfolding keeps_def valid_def not_found_as_def by (fastforce split: sum.splits prod.splits)

lemma keeps_found [keeps_intros]: "keeps I m \<Longrightarrow> keeps I (found m)"
  unfolding keeps_def valid_def found_def by (fastforce split: sum.splits prod.splits if_splits)

lemma keeps_lift_result [keeps_intros]: "keeps I (lift_result r)"
  by (cases r) (simp_all add: lift_result_def keeps_intros)

lemma keeps_check [keeps_intros]: "keeps I (check e)"
  by (cases e) (simp_all add: check_def keeps_intros)

section \<open>Runs without faults\<close>

text \<open>With no fault ahead a computation made of calls succeeds, and evaluates as a function of the state.\<close>

lemma call_clean [simp]: "call what f (w, []) = (Inr (fst (f w)), (snd (f w), []))"
  by (simp add: call_def)

lemma andThen_clean [simp]:
  "m (w, fs) = (Inr x, (w', fs')) \<Longrightarrow> andThen m f (w, fs) = f x (w', fs')"
  by (simp add: andThen_def)

lemma stmt_clean:
  "stmt f (w, []) = (case f w of Inl e \<Rightarrow> (Inl e, (w, [])) | Inr w' \<Rightarrow> (Inr (), (w', [])))"
  by (auto simp: stmt_def andThen_def ret_def raise_def split: sum.splits)

lemma transact_clean:
  "body (w, []) = (Inr x, (w', [])) \<Longrightarrow> transact body (w, []) = (Inr x, (w', []))"
  by (simp add: transact_def)

lemma run_all_clean:
  assumes "\<And>x w. x \<in> set xs \<Longrightarrow> f x (w, []) = (Inr (), (g x w, []))"
  shows "run_all f xs (w, []) = (Inr (), (fold g xs w, []))"
  using assms by (induction xs arbitrary: w) (auto simp: ret_def)

lemma for_each_clean:
  assumes "\<And>x w. x \<in> set xs \<Longrightarrow> f x (w, []) = (Inr (), (g x w, []))"
  shows "for_each f xs (w, []) = (Inr (), (fold g xs w, []))"
  using assms by (induction xs arbitrary: w) (auto simp: ret_def)

section \<open>Runs that succeeded\<close>

named_theorems runs \<comment> \<open>what the success of a computation says of its parts\<close>

lemma andThen_ok [runs]:
  "andThen m f w = (Inr x, w') \<longleftrightarrow> (\<exists>y w1. m w = (Inr y, w1) \<and> f y w1 = (Inr x, w'))"
  by (auto simp: andThen_def split: prod.splits sum.splits)

lemma ret_ok [runs]: "ret x w = (Inr y, w') \<longleftrightarrow> y = x \<and> w' = w"
  by (auto simp: ret_def)

lemma raise_ok [runs]: "raise e w = (Inr y, w') \<longleftrightarrow> False"
  by (simp add: raise_def)

lemma call_okD: "call what f (w, fs) = (Inr x, (w', fs')) \<Longrightarrow> f w = (x, w')"
  by (auto simp: call_def split: list.splits fault.splits)

lemma stmt_okD: "stmt f (w, fs) = (Inr u, (w', fs')) \<Longrightarrow> f w = Inr w'"
  by (cases "f w") (auto simp: stmt_def andThen_def call_def ret_def raise_def split: list.splits fault.splits)

lemma transact_okD: "transact body (w, fs) = (Inr x, (w', fs')) \<Longrightarrow> \<exists>fs1. body (w, fs) = (Inr x, (w', fs1))"
  using transact_cases by fastforce

lemma keeps_transact_okD:
  "(\<And>w fs x w' fs'. I w \<Longrightarrow> body (w, fs) = (Inr x, (w', fs')) \<Longrightarrow> I w') \<Longrightarrow> keeps I (transact body)"
  unfolding keeps_def by (rule validI) (metis transact_okD, metis transact_cases isl_def)

lemma query_okD: "query f (w, fs) = (Inr x, (w', fs')) \<Longrightarrow> f w = Inr x \<and> w' = w"
  by (cases "f w") (auto simp: query_def andThen_def call_def ret_def raise_def split: list.splits fault.splits)

lemma exec_row_okD: "exec_row f (w, fs) = (Inr x, (w', fs')) \<Longrightarrow> f w = Inr (x, w')"
  by (cases "f w") (auto simp: exec_row_def andThen_def call_def ret_def raise_def split: list.splits fault.splits)

lemma check_ok [runs]: "check e w = (Inr u, w') \<longleftrightarrow> e = None \<and> w' = w"
  by (auto simp: check_def runs split: option.splits)

lemma lift_result_ok [runs]: "lift_result r w = (Inr x, w') \<longleftrightarrow> r = Inr x \<and> w' = w"
  by (auto simp: lift_result_def runs split: sum.splits)

lemma with_status_ok [runs]: "with_status m w = (Inr x, w') \<longleftrightarrow> m w = (Inr x, w')"
  by (auto simp: with_status_def split: prod.splits sum.splits)

lemma not_found_as_ok [runs]: "not_found_as msg m w = (Inr x, w') \<longleftrightarrow> m w = (Inr x, w')"
  by (auto simp: not_found_as_def split: prod.splits sum.splits)

lemma found_ok:
  "found m w = (Inr r, w') \<longleftrightarrow> (case r of Some x \<Rightarrow> m w = (Inr x, w') | None \<Rightarrow> m w = (Inl ErrNotFound, w'))"
  by (auto simp: found_def split: prod.splits sum.splits option.splits)

text \<open>A query that found nothing has changed nothing.\<close>

lemma found_query_okD:
  "found (query f) (w, fs) = (Inr r, (w', fs')) \<Longrightarrow> w' = w \<and> f w = (case r of Some x \<Rightarrow> Inr x | None \<Rightarrow> Inl ErrNotFound)"
  by (cases "f w"; cases r)
    (auto simp: found_def query_def andThen_def call_def ret_def raise_def ErrNotFound_def split: list.splits fault.splits if_splits)

section \<open>Computations that only read\<close>

definition readonly :: "('w, 'a) act \<Rightarrow> bool" where
  "readonly m \<longleftrightarrow> (\<forall>w fs. fst (snd (m (w, fs))) = w)"

named_theorems readonly_intros

lemma readonlyD: "readonly m \<Longrightarrow> m (w, fs) = (r, (w', fs')) \<Longrightarrow> w' = w"
  unfolding readonly_def by (metis fst_conv snd_conv)

lemma readonly_basic [readonly_intros]:
  "readonly (ret x)" "readonly (raise e)" "readonly (lift_result r)" "readonly (check err)" "readonly (query f)"
  by (auto simp: readonly_def ret_def raise_def lift_result_def check_def query_def andThen_def call_def
      split: sum.splits option.splits list.splits fault.splits)

lemma readonly_andThen [readonly_intros]: "readonly m \<Longrightarrow> (\<And>x. readonly (f x)) \<Longrightarrow> readonly (andThen m f)"
proof -
  assume m: "readonly m" and f: "\<And>x. readonly (f x)"
  have "fst (snd (andThen m f (w, fs))) = w" for w fs
  proof -
    obtain q w1 fs1 where q: "m (w, fs) = (q, (w1, fs1))" by (metis prod.exhaust)
    then have "w1 = w" by (rule readonlyD [OF m])
    then show ?thesis using f by (cases q) (simp_all add: andThen_def q readonly_def)
  qed
  then show ?thesis by (simp add: readonly_def)
qed

lemma state_wrap:
  "fst (snd (with_status m W)) = fst (snd (m W))" "fst (snd (not_found_as msg m W)) = fst (snd (m W))"
  "fst (snd (found m W)) = fst (snd (m W))"
  by (auto simp: with_status_def not_found_as_def found_def split: prod.splits sum.splits)

lemma readonly_wrap [readonly_intros]:
  "readonly m \<Longrightarrow> readonly (found m)" "readonly m \<Longrightarrow> readonly (not_found_as msg m)" "readonly m \<Longrightarrow> readonly (with_status m)"
  by (simp_all add: readonly_def state_wrap)

text \<open>How a computation that starts with reads can end.\<close>

lemma andThen_reads:
  assumes "readonly m" "andThen m f (w, fs) = (r, (w', fs'))"
  obtains "w' = w" "isl r" | x fs1 where "m (w, fs) = (Inr x, (w, fs1))" "f x (w, fs1) = (r, (w', fs'))"
proof -
  obtain q w1 fs1 where m: "m (w, fs) = (q, (w1, fs1))" by (metis prod.exhaust)
  then have [simp]: "w1 = w" by (rule readonlyD [OF assms(1)])
  show ?thesis using that assms(2) m by (cases q) (auto simp: andThen_def)
qed

lemma exec_row_cases:
  "exec_row f (w, fs) = (r, (w', fs')) \<Longrightarrow> w' = w \<and> isl r \<or> (\<exists>x. f w = Inr (x, w'))"
  by (cases "f w") (auto simp: exec_row_def andThen_def call_def ret_def raise_def split: list.splits fault.splits)

section \<open>Failures that cannot be avoided\<close>

lemma andThen_fails_first: "isl (fst (m w)) \<Longrightarrow> isl (fst (andThen m f w))"
  by (auto simp: andThen_def split: prod.splits sum.splits)

lemma andThen_fails_second: "(\<And>x w. isl (fst (f x w))) \<Longrightarrow> isl (fst (andThen m f w))"
  by (auto simp: andThen_def split: prod.splits sum.splits)

lemma for_each_fails:
  "x \<in> set xs \<Longrightarrow> (\<And>w. isl (fst (f x w))) \<Longrightarrow> isl (fst (for_each f xs w))"
proof (induction xs arbitrary: w)
  case (Cons y ys)
  then show ?case
    using andThen_fails_first [of "f y" w] andThen_fails_second [of "\<lambda>_. for_each f ys" "f y" w]
    by (cases "x = y") simp_all
qed simp

lemma transact_fails: "(\<And>w. isl (fst (body w))) \<Longrightarrow> isl (fst (transact body w))"
proof -
  assume b: "\<And>w. isl (fst (body w))"
  obtain v fs where w: "w = (v, fs)" by (cases w)
  obtain e w' where "body (v, fs) = (Inl e, w')" using b [of "(v, fs)"] by (cases "body (v, fs)") (auto simp: isl_def)
  then show ?thesis by (auto simp: w transact_def split: prod.splits)
qed

section \<open>Reproducible computations\<close>

text \<open>
  A computation that is reproducible: a run that succeeded did what a run without faults does.
  Every computation built from calls is.
\<close>

definition reproducible :: "('w, 'a) act \<Rightarrow> bool" where
  "reproducible m \<longleftrightarrow> (\<forall>w fs x w' fs'. m (w, fs) = (Inr x, (w', fs')) \<longrightarrow> m (w, []) = (Inr x, (w', [])))"

named_theorems reproducible_intros

lemma reproducibleD: "reproducible m \<Longrightarrow> m (w, fs) = (Inr x, (w', fs')) \<Longrightarrow> m (w, []) = (Inr x, (w', []))"
  unfolding reproducible_def by blast

lemma reproducible_ret [reproducible_intros]: "reproducible (ret x)"
  by (simp add: reproducible_def ret_def)

lemma reproducible_raise [reproducible_intros]: "reproducible (raise e)"
  by (simp add: reproducible_def raise_def)

lemma reproducible_call [reproducible_intros]: "reproducible (call what f)"
  by (auto simp: reproducible_def call_def split: list.splits fault.splits)

lemma reproducible_andThen [reproducible_intros]:
  assumes "reproducible m" "\<And>x. reproducible (f x)"
  shows "reproducible (andThen m f)"
  unfolding reproducible_def
proof (intro allI impI)
  fix w fs x w' fs'
  assume "andThen m f (w, fs) = (Inr x, (w', fs'))"
  then obtain y w1 fs1 where "m (w, fs) = (Inr y, (w1, fs1))" "f y (w1, fs1) = (Inr x, (w', fs'))"
    by (auto simp: andThen_def split: prod.splits sum.splits)
  then have "m (w, []) = (Inr y, (w1, []))" "f y (w1, []) = (Inr x, (w', []))"
    using assms by (auto dest: reproducibleD)
  then show "andThen m f (w, []) = (Inr x, (w', []))" by simp
qed

lemma reproducible_for_each [reproducible_intros]:
  "(\<And>x. reproducible (f x)) \<Longrightarrow> reproducible (for_each f xs)"
  by (induction xs) (simp_all add: reproducible_ret reproducible_andThen)

lemma reproducible_stmt [reproducible_intros]: "reproducible (stmt f)"
  unfolding stmt_def by (intro reproducible_intros) (auto split: sum.split intro: reproducible_intros)

lemma reproducible_transact [reproducible_intros]:
  assumes "reproducible body"
  shows "reproducible (transact body)"
  unfolding reproducible_def
proof (intro allI impI)
  fix w fs x w' fs'
  assume "transact body (w, fs) = (Inr x, (w', fs'))"
  then obtain fs1 where "body (w, fs) = (Inr x, (w', fs1))" using transact_cases [of body w fs "Inr x" w' fs'] by auto
  then show "transact body (w, []) = (Inr x, (w', []))" by (intro transact_clean reproducibleD [OF assms])
qed

section \<open>Calls between services\<close>

lemma runE: obtains r w' fs' where "x = (r, (w', fs'))"
  by (cases x) auto

text \<open>The outcome of a computation as a value, for code that goes on after an error.\<close>

definition attempt :: "('w, 'a) act \<Rightarrow> ('w, 'a result) act" where
  "attempt m = (\<lambda>w. case m w of (r, w') \<Rightarrow> (Inr r, w'))"

text \<open>A unary call: the status crosses the wire and becomes an application error again.\<close>

definition rpc :: "('w, 'a) act \<Rightarrow> ('w, 'a) act" where
  "rpc m = (\<lambda>W. case m W of (Inl e, W') \<Rightarrow> (Inl (FromStatus (over_wire e)), W') | (Inr x, W') \<Rightarrow> (Inr x, W'))"

text \<open>The same over a network that may lose the request or the response.\<close>

definition transport :: "('w, unit) act" where
  "transport = (\<lambda>W. case call ''transport'' (\<lambda>w. ((), w)) W of
     (Inl _, W') \<Rightarrow> (Inl (StatusError codes_Unavailable ''transport is closing''), W') | r \<Rightarrow> r)"

definition remote :: "('w, 'a) act \<Rightarrow> ('w, 'a) act" where
  "remote m = andThen transport (\<lambda>_. andThen (attempt m) (\<lambda>r. andThen transport (\<lambda>_. lift_result r)))"

text \<open>A computation on a part of the state.\<close>

definition zoom :: "('w \<Rightarrow> 'v) \<Rightarrow> ('v \<Rightarrow> 'w \<Rightarrow> 'w) \<Rightarrow> ('v, 'a) act \<Rightarrow> ('w, 'a) act" where
  "zoom get put m = (\<lambda>(w, fs). case m (get w, fs) of (r, (v, fs')) \<Rightarrow> (r, (put v w, fs')))"

lemma rpc_state: "rpc m W = (r, W') \<Longrightarrow> \<exists>q. m W = (q, W') \<and> (\<forall>x. r = Inr x \<longrightarrow> q = Inr x)"
  by (cases "m W"; cases "fst (m W)") (auto simp: rpc_def)

lemma transport_cases: "transport (w, fs) = (r, (w', fs')) \<Longrightarrow> w' = w"
  by (auto simp: transport_def call_def split: list.splits fault.splits)

lemma transport_clean [simp]: "transport (w, []) = (Inr (), (w, []))"
  by (simp add: transport_def)

lemma remote_cases:
  assumes "remote m (w, fs) = (r, (w', fs'))"
  shows "w' = w \<and> isl r \<or> (\<exists>fs1 q fs2. m (w, fs1) = (q, (w', fs2)) \<and> (\<forall>x. r = Inr x \<longrightarrow> q = Inr x))"
proof -
  obtain a w1 fs1 where a: "transport (w, fs) = (a, (w1, fs1))" by (rule runE)
  then have w1: "w1 = w" by (rule transport_cases)
  show ?thesis
  proof (cases a)
    case (Inl e)
    then show ?thesis using assms a w1 by (auto simp: remote_def andThen_def)
  next
    case (Inr x)
    obtain q w2 fs2 where q: "m (w, fs1) = (q, (w2, fs2))" by (rule runE)
    obtain b w3 fs3 where b: "transport (w2, fs2) = (b, (w3, fs3))" by (rule runE)
    then have "w3 = w2" by (rule transport_cases)
    moreover have run: "(case b of Inl e \<Rightarrow> (Inl e, (w3, fs3)) | Inr _ \<Rightarrow> lift_result q (w3, fs3)) = (r, (w', fs'))"
      using assms a Inr w1 q b by (simp add: remote_def andThen_def attempt_def)
    ultimately have "w' = w2 \<and> (\<forall>x. r = Inr x \<longrightarrow> q = Inr x)"
      by (cases b; cases q) (auto simp: lift_result_def ret_def raise_def)
    with q show ?thesis by blast
  qed
qed

lemma keeps_attempt [keeps_intros]: "keeps I m \<Longrightarrow> keeps I (attempt m)"
  unfolding keeps_def valid_def attempt_def by (fastforce split: sum.splits prod.splits)

lemma keeps_rpc [keeps_intros]: "keeps I m \<Longrightarrow> keeps I (rpc m)"
  unfolding keeps_def valid_def rpc_def by (fastforce split: sum.splits prod.splits)

lemma keeps_transport [keeps_intros]: "keeps I transport"
  unfolding keeps_def by (rule validI) (auto dest: transport_cases)

lemma keeps_remote [keeps_intros]: "keeps I m \<Longrightarrow> keeps I (remote m)"
  unfolding remote_def by (intro keeps_intros)

lemma keeps_zoom:
  assumes "\<And>w v. I w \<Longrightarrow> I (put v w)"
  shows "keeps I (zoom get put m)"
  unfolding keeps_def by (rule validI) (auto simp: zoom_def assms split: prod.splits)

lemma rpc_ok [runs]: "rpc m w = (Inr x, w') \<longleftrightarrow> m w = (Inr x, w')"
  by (auto simp: rpc_def split: prod.splits sum.splits)

end
