(* ===== verification/Events.thy ===== *)
theory Events
  imports Infra
begin

text \<open>
  \<^verbatim>\<open>pkg/messaging\<close>: the event that travels the message pipeline, its validation, its coding as a
  Kafka record, the topics, and the producer and consumer loops. The JSON library is a
  parameter: \<open>json_lib\<close> holds the functions of \<^verbatim>\<open>encoding/json\<close> the pipeline calls, and every theorem
  holds for all of them.
\<close>

section \<open>Events\<close>

definition EventTypeMessageAccepted :: string where "EventTypeMessageAccepted = ''message.accepted''"
definition EventTypeMessageRead :: string where "EventTypeMessageRead = ''message.read''"
definition EventTypeMessageSubmitted :: string where "EventTypeMessageSubmitted = ''message.submitted''"
definition ChatTypeSingle :: string where "ChatTypeSingle = ''single''"
definition ChatTypeGroup :: string where "ChatTypeGroup = ''group''"
definition MessageOriginHuman :: string where "MessageOriginHuman = ''human''"
definition MessageOriginAI :: string where "MessageOriginAI = ''ai''"
definition MessageOriginSystem :: string where "MessageOriginSystem = ''system''"

lemmas event_consts =
  EventTypeMessageAccepted_def EventTypeMessageRead_def EventTypeMessageSubmitted_def
  ChatTypeSingle_def ChatTypeGroup_def MessageOriginHuman_def MessageOriginAI_def MessageOriginSystem_def

record MessageEventPayload =
  p_ClientMsgID :: string
  p_ReceiverID :: string
  p_ReceiverIDs :: "string list"
  p_GroupID :: string
  p_ContentType :: string
  p_Content :: string
  p_MessageOrigin :: string
  p_AgentAccountID :: string
  p_TriggerServerMsgID :: string
  p_AgentRunID :: string
  p_AllowRecursiveTrigger :: bool
  p_UserID :: string
  p_HasReadSeq :: int
  p_ReadAt :: int
  p_VisibleUserIDs :: "string list"
  p_AtUserIDs :: "string list"
  p_PayloadHash :: string
  p_SendTime :: int
  p_TraceID :: string
  p_RequestID :: string
  p_TraceParent :: string
  p_TraceState :: string

record MessageEvent =
  EventID :: string
  EventType :: string
  ConversationID :: string
  ServerMsgID :: string
  Seq :: int
  SenderID :: string
  ChatType :: string
  CreatedAt :: int
  Payload :: MessageEventPayload

text \<open>
  \<open>json_valid\<close> is \<^verbatim>\<open>json.Valid\<close>; \<open>event_encode\<close> and \<open>event_decode\<close> are \<^verbatim>\<open>json.Marshal\<close> and
  \<^verbatim>\<open>json.Unmarshal\<close> at the type of events; \<open>at_decode\<close> is \<^verbatim>\<open>json.Unmarshal\<close> at the content of an
  \<^verbatim>\<open>at\<close> message (its text and user list); \<open>text_encode\<close> and \<open>text_decode\<close> code \<^verbatim>\<open>{"text": ...}\<close>;
  \<open>media_id_decode\<close> reads the field \<^verbatim>\<open>mediaId\<close>; \<open>jsonb_text\<close> is the text PostgreSQL gives back
  for a document stored in a \<^verbatim>\<open>jsonb\<close> column.
\<close>

record json_lib =
  json_valid :: "string \<Rightarrow> bool"
  event_encode :: "MessageEvent \<Rightarrow> string"
  event_decode :: "string \<Rightarrow> MessageEvent result"
  at_decode :: "string \<Rightarrow> (string \<times> string list) option"
  text_encode :: "string \<Rightarrow> string"
  text_decode :: "string \<Rightarrow> string option"
  media_id_decode :: "string \<Rightarrow> string option"
  jsonb_text :: "string \<Rightarrow> string"

text \<open>A JSON library small enough to evaluate examples with.\<close>

definition demo_json :: json_lib where
  "demo_json =
     \<lparr>json_valid = (\<lambda>s. s \<noteq> []), event_encode = EventID, event_decode = (\<lambda>_. Inl (PlainError ''EOF'')),
      at_decode = (\<lambda>_. None), text_encode = (\<lambda>s. CHR ''t'' # s),
      text_decode = (\<lambda>s. case s of [] \<Rightarrow> None | _ # t \<Rightarrow> Some t), media_id_decode = (\<lambda>_. None), jsonb_text = (\<lambda>s. s)\<rparr>"

section \<open>Validation\<close>

definition Validate :: "json_lib \<Rightarrow> MessageEvent \<Rightarrow> goerror option" where
  "Validate js e =
     (let p = Payload e in
      if EventID e = [] then Some (PlainError ''event_id is required'')
      else if EventType e \<notin> {EventTypeMessageAccepted, EventTypeMessageRead, EventTypeMessageSubmitted}
      then Some (PlainError ''unsupported event_type'')
      else if ConversationID e = [] then Some (PlainError ''conversation_id is required'')
      else if CreatedAt e \<le> 0 then Some (PlainError ''created_at must be a unix millisecond timestamp'')
      else if ChatType e \<noteq> ChatTypeSingle \<and> ChatType e \<noteq> ChatTypeGroup then Some (PlainError ''unsupported chat_type'')
      else if p_Content p \<noteq> [] \<and> \<not> json_valid js (p_Content p)
      then Some (PlainError ''payload.content must be valid JSON when set'')
      else if EventType e = EventTypeMessageAccepted then
        (if ServerMsgID e = [] then Some (PlainError ''server_msg_id is required for message.accepted'')
         else if Seq e \<le> 0 then Some (PlainError ''seq must be greater than 0 for message.accepted'')
         else if SenderID e = [] then Some (PlainError ''sender_id is required for message.accepted'')
         else None)
      else if EventType e = EventTypeMessageRead then
        (if Seq e < 0 then Some (PlainError ''seq must be greater than or equal to 0 for message.read'')
         else if p_UserID p = [] then Some (PlainError ''payload.user_id is required for message.read'')
         else None)
      else
        (if ServerMsgID e = [] then Some (PlainError ''server_msg_id is required for message.submitted'')
         else if Seq e \<noteq> 0 then Some (PlainError ''seq must be 0 for message.submitted'')
         else if SenderID e = [] then Some (PlainError ''sender_id is required for message.submitted'')
         else if p_ClientMsgID p = [] then Some (PlainError ''payload.client_msg_id is required for message.submitted'')
         else if p_VisibleUserIDs p = [] then Some (PlainError ''payload.visible_user_ids is required for message.submitted'')
         else None))"

definition PartitionKey :: "MessageEvent \<Rightarrow> string" where
  "PartitionKey e = ConversationID e"

text \<open>Copies of immutable values are the values, so \<^verbatim>\<open>Clone\<close> is the identity of the model.\<close>

definition Clone :: "MessageEvent \<Rightarrow> MessageEvent" where
  "Clone e = e\<lparr>Payload := Payload e\<rparr>"

lemma Clone_id [simp]: "Clone e = e"
  by (simp add: Clone_def)

definition MarshalMessageEvent :: "json_lib \<Rightarrow> MessageEvent \<Rightarrow> string result" where
  "MarshalMessageEvent js e = (case Validate js e of Some err \<Rightarrow> Inl err | None \<Rightarrow> Inr (event_encode js e))"

definition UnmarshalMessageEvent :: "json_lib \<Rightarrow> string \<Rightarrow> MessageEvent result" where
  "UnmarshalMessageEvent js data =
     (case event_decode js data of
        Inl err \<Rightarrow> Inl err
      | Inr e \<Rightarrow> (case Validate js e of Some err \<Rightarrow> Inl err | None \<Rightarrow> Inr e))"

text \<open>A coded event is decoded to itself and passes the validation again.\<close>

definition event_codec :: "json_lib \<Rightarrow> bool" where
  "event_codec js \<longleftrightarrow> (\<forall>e. event_decode js (event_encode js e) = Inr e)"

lemma Unmarshal_Marshal:
  "event_codec js \<Longrightarrow> MarshalMessageEvent js e = Inr data \<Longrightarrow> UnmarshalMessageEvent js data = Inr e"
  by (auto simp: MarshalMessageEvent_def UnmarshalMessageEvent_def event_codec_def split: option.splits)

lemma Unmarshal_valid: "UnmarshalMessageEvent js data = Inr e \<Longrightarrow> Validate js e = None"
  by (auto simp: UnmarshalMessageEvent_def split: sum.splits option.splits)

lemma Validate_submitted:
  "EventType e = EventTypeMessageSubmitted \<Longrightarrow> Validate js e = None \<longleftrightarrow>
     EventID e \<noteq> [] \<and> ConversationID e \<noteq> [] \<and> 0 < CreatedAt e
     \<and> (ChatType e = ChatTypeSingle \<or> ChatType e = ChatTypeGroup)
     \<and> (p_Content (Payload e) = [] \<or> json_valid js (p_Content (Payload e)))
     \<and> ServerMsgID e \<noteq> [] \<and> Seq e = 0 \<and> SenderID e \<noteq> [] \<and> p_ClientMsgID (Payload e) \<noteq> []
     \<and> p_VisibleUserIDs (Payload e) \<noteq> []"
  by (auto simp: Validate_def Let_def EventTypeMessageAccepted_def EventTypeMessageRead_def
      EventTypeMessageSubmitted_def)

lemma Validate_accepted:
  "EventType e = EventTypeMessageAccepted \<Longrightarrow> Validate js e = None \<longleftrightarrow>
     EventID e \<noteq> [] \<and> ConversationID e \<noteq> [] \<and> 0 < CreatedAt e
     \<and> (ChatType e = ChatTypeSingle \<or> ChatType e = ChatTypeGroup)
     \<and> (p_Content (Payload e) = [] \<or> json_valid js (p_Content (Payload e)))
     \<and> ServerMsgID e \<noteq> [] \<and> 0 < Seq e \<and> SenderID e \<noteq> []"
  by (auto simp: Validate_def Let_def EventTypeMessageAccepted_def EventTypeMessageRead_def
      EventTypeMessageSubmitted_def)

section \<open>Topics, producer and consumer\<close>

definition TopicToTransfer :: string where "TopicToTransfer = ''msg.toTransfer.v1''"
definition TopicToPostgres :: string where "TopicToPostgres = ''msg.toPostgres.v1''"
definition TopicToPush :: string where "TopicToPush = ''msg.toPush.v1''"
definition TopicToOfflinePush :: string where "TopicToOfflinePush = ''msg.toOfflinePush.v1''"
definition TopicAgentTrigger :: string where "TopicAgentTrigger = ''agent.trigger.v1''"

lemmas topic_defs =
  TopicToTransfer_def TopicToPostgres_def TopicToPush_def TopicToOfflinePush_def TopicAgentTrigger_def

text \<open>The broker: the records of the topics, oldest first, each with its event.\<close>

type_synonym broker_log = "(string \<times> MessageEvent) list"

text \<open>
  \<^verbatim>\<open>PublishEvent\<close>: an event that does not validate is refused without a call to the broker; a
  record is appended when the broker acknowledged it, and may have been when the call failed.
\<close>

definition PublishEvent ::
  "json_lib \<Rightarrow> ((broker_log \<Rightarrow> broker_log) \<Rightarrow> 'w \<Rightarrow> 'w) \<Rightarrow> string \<Rightarrow> MessageEvent \<Rightarrow> ('w, unit) act" where
  "PublishEvent js upd topic e =
     (case Validate js e of
        Some err \<Rightarrow> raise err
      | None \<Rightarrow> call ''produce'' (\<lambda>w. ((), upd (\<lambda>log. log @ [(topic, e)]) w)))"

text \<open>
  The consumer's inner loop retries one batch in place until the handler returns nil, and only
  then commits. \<open>retry_batch\<close> runs at most \<open>n\<close> attempts; \<^const>\<open>None\<close> says that the batch is still
  uncommitted after them.
\<close>

fun retry_batch :: "('r list \<Rightarrow> ('w, unit) act) \<Rightarrow> nat \<Rightarrow> 'r list \<Rightarrow> 'w world \<Rightarrow> 'w world option" where
  "retry_batch handler 0 records w = None"
| "retry_batch handler (Suc n) records w =
     (case handler records w of
        (Inr _, w') \<Rightarrow> Some w'
      | (Inl _, w') \<Rightarrow> retry_batch handler n records w')"

text \<open>Every attempt, failed or not, keeps what one run of the handler keeps.\<close>

lemma retry_batch_keeps:
  assumes "keeps I (handler records)" "I (fst w)" "retry_batch handler n records w = Some w'"
  shows "I (fst w')"
  using assms(2,3)
proof (induction n arbitrary: w)
  case (Suc n)
  obtain r w1 fs1 where h: "handler records w = (r, (w1, fs1))" by (cases "handler records w") auto
  have "I w1" using keepsD [OF assms(1), of "fst w" "snd w"] h Suc.prems(1) by simp
  then show ?case using Suc.IH [of "(w1, fs1)"] Suc.prems(2) h by (cases r) auto
qed simp

text \<open>The attempt that ends the loop ran the handler to success from a state the loop had reached.\<close>

lemma retry_batch_last:
  assumes "keeps I (handler records)" "I (fst w)" "retry_batch handler n records w = Some w'"
  shows "\<exists>w0. I (fst w0) \<and> handler records w0 = (Inr (), w')"
  using assms(2,3)
proof (induction n arbitrary: w)
  case (Suc n)
  obtain r w1 fs1 where h: "handler records w = (r, (w1, fs1))" by (cases "handler records w") auto
  have "I w1" using keepsD [OF assms(1), of "fst w" "snd w"] h Suc.prems(1) by simp
  then show ?case using Suc.IH [of "(w1, fs1)"] Suc.prems h
    by (cases w; cases r) auto
qed simp

text \<open>A batch whose handler fails from every state it can reach is never committed.\<close>

lemma retry_batch_stuck:
  assumes "\<And>w. J w \<Longrightarrow> \<exists>e w'. handler records w = (Inl e, w') \<and> J w'" "J w"
  shows "retry_batch handler n records w = None"
  using assms(2)
proof (induction n arbitrary: w)
  case (Suc n)
  from assms(1) [OF Suc.prems] obtain e w' where "handler records w = (Inl e, w')" "J w'" by blast
  with Suc.IH show ?case by simp
qed simp

end
