(* ===== verification/Msg_Model.thy ===== *)
theory Msg_Model
  imports Events
begin

text \<open>
  The vocabulary of the message domain (\<^verbatim>\<open>service/msg/rpc/internal/model\<close>): the integer codes of
  the enumerated columns, conversation ids, visibility, unread counts, the coding of message
  contents, the row of the table \<^verbatim>\<open>messages\<close>, and its conversion to the wire message.
\<close>

section \<open>Enumerations\<close>

definition ContentTypeText :: string where "ContentTypeText = ''text''"
definition ContentTypeImage :: string where "ContentTypeImage = ''image''"
definition ContentTypeFile :: string where "ContentTypeFile = ''file''"
definition ContentTypeAt :: string where "ContentTypeAt = ''at''"

lemmas content_consts = ContentTypeText_def ContentTypeImage_def ContentTypeFile_def ContentTypeAt_def

definition ConversationTypeValue :: "string \<Rightarrow> int result" where
  "ConversationTypeValue chatType =
     (let t = TrimSpace (ToLower chatType)
      in if t = ChatTypeSingle then Inr 1
         else if t = ChatTypeGroup then Inr 2
         else Inl (InvalidArgument ''chat_type must be single or group''))"

definition ConversationTypeString :: "int \<Rightarrow> string" where
  "ConversationTypeString v =
     (if v = 1 then ChatTypeSingle else if v = 2 then ChatTypeGroup else FormatInt v)"

definition ContentTypeValue :: "string \<Rightarrow> int result" where
  "ContentTypeValue contentType =
     (let t = TrimSpace (ToLower contentType)
      in if t = ContentTypeText then Inr 1
         else if t = ContentTypeImage then Inr 2
         else if t = ContentTypeFile then Inr 3
         else if t = ContentTypeAt then Inr 106
         else Inl (InvalidArgument ''content_type must be text, image, file, or at''))"

definition ContentTypeString :: "int \<Rightarrow> string" where
  "ContentTypeString v =
     (if v = 1 then ContentTypeText else if v = 2 then ContentTypeImage
      else if v = 3 then ContentTypeFile else if v = 106 then ContentTypeAt else FormatInt v)"

definition MessageOriginValue :: "string \<Rightarrow> int result" where
  "MessageOriginValue origin =
     (let t = TrimSpace (ToLower origin)
      in if t = [] \<or> t = MessageOriginHuman then Inr 1
         else if t = MessageOriginAI then Inr 2
         else if t = MessageOriginSystem then Inr 3
         else Inl (InvalidArgument ''message_origin must be human, ai, or system''))"

definition MessageOriginString :: "int \<Rightarrow> string" where
  "MessageOriginString v =
     (if v = 1 then MessageOriginHuman else if v = 2 then MessageOriginAI
      else if v = 3 then MessageOriginSystem else ''unknown:'' @ FormatInt v)"

section \<open>Conversations\<close>

definition orderedSingleUsers :: "string \<Rightarrow> string \<Rightarrow> string \<times> string" where
  "orderedSingleUsers userA userB = (if userA \<le> userB then (userA, userB) else (userB, userA))"

definition SingleConversationID :: "string \<Rightarrow> string \<Rightarrow> string" where
  "SingleConversationID userA userB =
     (let (lower, higher) = orderedSingleUsers userA userB in ''single:'' @ lower @ '':'' @ higher)"

definition GroupConversationID :: "string \<Rightarrow> string" where
  "GroupConversationID groupID = ''group:'' @ groupID"

definition singleConversationParticipants :: "string \<Rightarrow> (string \<times> string) option" where
  "singleConversationParticipants conversationID =
     (if \<not> starts_with conversationID ''single:'' then None
      else (case split_on CHR '':'' conversationID of
          [_, a, b] \<Rightarrow>
            let userA = TrimSpace a; userB = TrimSpace b
            in if userA = [] \<or> userB = [] then None else Some (userA, userB)
        | _ \<Rightarrow> None))"

definition groupIDFromConversationID :: "string \<Rightarrow> string option" where
  "groupIDFromConversationID conversationID =
     (if \<not> starts_with conversationID ''group:'' then None
      else let groupID = TrimSpace (TrimPrefix conversationID ''group:'')
           in if groupID \<noteq> [] then Some groupID else None)"

definition unreadCountFromVisibleStart :: "int \<Rightarrow> int \<Rightarrow> int \<Rightarrow> int" where
  "unreadCountFromVisibleStart maxSeq hasReadSeq visibleStartSeq =
     (let h = (if hasReadSeq < visibleStartSeq then visibleStartSeq else hasReadSeq)
      in if maxSeq \<le> h then 0 else maxSeq - h)"

text \<open>The set of ids the loop collects, then the sorted list of its elements.\<close>

definition VisibleUserIDs :: "string \<Rightarrow> string \<Rightarrow> string \<Rightarrow> string list \<Rightarrow> string list" where
  "VisibleUserIDs senderID receiverID chatType participants =
     (let seen = fold (\<lambda>i acc. if TrimSpace i \<noteq> [] then insert (TrimSpace i) acc else acc)
            (participants @ [senderID] @ (if chatType = ChatTypeSingle then [receiverID] else [])) {}
      in sorted_list_of_set seen)"

section \<open>Contents and rows\<close>

text \<open>The raw value of a valid JSON document: the text without the white space JSON allows around it.\<close>

definition json_space :: "string list" where
  "json_space = [[CHR 0x20], [CHR 0x09], [CHR 0x0A], [CHR 0x0D]]"

definition json_raw :: "string \<Rightarrow> string" where
  "json_raw s = rev (strip_leading json_space (rev (strip_leading json_space s)))"

definition EncodeMessageContent :: "json_lib \<Rightarrow> string \<Rightarrow> string \<Rightarrow> string result" where
  "EncodeMessageContent js contentType content =
     (if contentType = ContentTypeText then Inr (text_encode js content)
      else if json_valid js content then Inr (json_raw content)
      else Inl (PlainError ''invalid JSON''))"

definition DecodeMessageContent :: "json_lib \<Rightarrow> int \<Rightarrow> string \<Rightarrow> string" where
  "DecodeMessageContent js contentType content =
     (if contentType \<noteq> 1 then content
      else (case text_decode js content of
          Some t \<Rightarrow> if t \<noteq> [] then t else content
        | None \<Rightarrow> content))"

record Messages =
  MessageId :: int
  ClientMsgId :: string
  SenderAccountId :: string
  ConversationId :: string
  MsgSeq :: int
  ConversationType :: int
  ReceiverAccountId :: string
  GroupId :: string
  ContentType :: int
  Content :: string
  MessageOrigin :: int
  AgentAccountId :: string
  TriggerMessageId :: string
  AgentRunId :: string
  AllowRecursiveTrigger :: bool
  PayloadHash :: string
  ClientSendTime :: "int option"
  ServerReceivedAt :: int

definition MessageSendTime :: "Messages \<Rightarrow> int" where
  "MessageSendTime m = (case ClientSendTime m of Some t \<Rightarrow> t | None \<Rightarrow> ServerReceivedAt m)"

text \<open>The wire message of \<^verbatim>\<open>msg.proto\<close>.\<close>

record PbMessage =
  pb_ServerMsgId :: string
  pb_ClientMsgId :: string
  pb_ConversationId :: string
  pb_Seq :: int
  pb_SenderId :: string
  pb_ReceiverId :: string
  pb_GroupId :: string
  pb_ChatType :: string
  pb_ContentType :: string
  pb_Content :: string
  pb_MessageOrigin :: string
  pb_AgentAccountId :: string
  pb_TriggerServerMsgId :: string
  pb_AgentRunId :: string
  pb_AllowRecursiveTrigger :: bool
  pb_SendTime :: int
  pb_CreatedAt :: int

definition messageToPB :: "json_lib \<Rightarrow> Messages \<Rightarrow> PbMessage" where
  "messageToPB js m =
     \<lparr>pb_ServerMsgId = FormatInt (MessageId m),
      pb_ClientMsgId = ClientMsgId m,
      pb_ConversationId = ConversationId m,
      pb_Seq = MsgSeq m,
      pb_SenderId = SenderAccountId m,
      pb_ReceiverId = ReceiverAccountId m,
      pb_GroupId = GroupId m,
      pb_ChatType = ConversationTypeString (ConversationType m),
      pb_ContentType = ContentTypeString (ContentType m),
      pb_Content = DecodeMessageContent js (ContentType m) (Content m),
      pb_MessageOrigin = MessageOriginString (MessageOrigin m),
      pb_AgentAccountId = AgentAccountId m,
      pb_TriggerServerMsgId = TriggerMessageId m,
      pb_AgentRunId = AgentRunId m,
      pb_AllowRecursiveTrigger = AllowRecursiveTrigger m,
      pb_SendTime = MessageSendTime m,
      pb_CreatedAt = ServerReceivedAt m\<rparr>"

section \<open>Facts about conversations\<close>

lemma orderedSingleUsers_sym: "orderedSingleUsers a b = orderedSingleUsers b a"
  by (auto simp: orderedSingleUsers_def)

lemma SingleConversationID_sym: "SingleConversationID a b = SingleConversationID b a"
  by (simp add: SingleConversationID_def orderedSingleUsers_sym)

lemma split_single_id:
  "CHR '':'' \<notin> set a \<Longrightarrow> CHR '':'' \<notin> set b \<Longrightarrow>
     split_on CHR '':'' (''single:'' @ a @ '':'' @ b) = [''single'', a, b]"
  using split_on_append [of "CHR '':''" "''single''" "a @ '':'' @ b"]
    split_on_append [of "CHR '':''" a b] split_on_single [of "CHR '':''" b] by simp

lemma participants_of_parts:
  assumes "trimmed a" "trimmed b" "a \<noteq> []" "b \<noteq> []" "CHR '':'' \<notin> set a" "CHR '':'' \<notin> set b"
  shows "singleConversationParticipants (''single:'' @ a @ '':'' @ b) = Some (a, b)"
  unfolding singleConversationParticipants_def split_single_id [OF assms(5,6)]
  by (simp only: starts_with_append TrimSpace_trimmed assms not_True_eq_False if_False list.case Let_def simp_thms)

lemma participants_SingleConversationID:
  assumes "trimmed a" "trimmed b" "a \<noteq> []" "b \<noteq> []" "CHR '':'' \<notin> set a" "CHR '':'' \<notin> set b"
  shows "singleConversationParticipants (SingleConversationID a b) = Some (orderedSingleUsers a b)"
  using participants_of_parts [OF assms] participants_of_parts [of b a] assms
  by (simp only: SingleConversationID_def orderedSingleUsers_def Let_def split: if_splits) simp

lemma SingleConversationID_inject:
  assumes "trimmed a" "trimmed b" "a \<noteq> []" "b \<noteq> []" "CHR '':'' \<notin> set a" "CHR '':'' \<notin> set b"
    and "trimmed c" "trimmed d" "c \<noteq> []" "d \<noteq> []" "CHR '':'' \<notin> set c" "CHR '':'' \<notin> set d"
    and "SingleConversationID a b = SingleConversationID c d"
  shows "{a, b} = {c, d}"
proof -
  have "orderedSingleUsers a b = orderedSingleUsers c d"
    using participants_SingleConversationID [OF assms(1-6)] participants_SingleConversationID [OF assms(7-12)]
      assms(13) by simp
  then show ?thesis by (auto simp: orderedSingleUsers_def split: if_splits)
qed

lemma group_id_not_single: "singleConversationParticipants (GroupConversationID g) = None"
  by (simp add: singleConversationParticipants_def GroupConversationID_def starts_with_def)

lemma groupID_GroupConversationID:
  "trimmed g \<Longrightarrow> g \<noteq> [] \<Longrightarrow> groupIDFromConversationID (GroupConversationID g) = Some g"
  using starts_with_append [of "''group:''" g]
  by (auto simp: groupIDFromConversationID_def GroupConversationID_def TrimPrefix_def TrimSpace_trimmed)

lemma fold_collect:
  "fold (\<lambda>i acc. if TrimSpace i \<noteq> [] then insert (TrimSpace i) acc else acc) xs S
     = S \<union> {TrimSpace i |i. i \<in> set xs \<and> TrimSpace i \<noteq> []}"
  by (induction xs arbitrary: S) auto

lemma VisibleUserIDs_set:
  "set (VisibleUserIDs s r c ps) =
     {TrimSpace i |i. i \<in> set ps \<union> {s} \<union> (if c = ChatTypeSingle then {r} else {}) \<and> TrimSpace i \<noteq> []}"
  unfolding VisibleUserIDs_def Let_def fold_collect
  by (subst set_sorted_list_of_set) auto

lemma VisibleUserIDs_sorted: "sorted (VisibleUserIDs s r c ps) \<and> distinct (VisibleUserIDs s r c ps)"
  by (simp add: VisibleUserIDs_def Let_def)

lemma unread_bounds:
  "0 \<le> unreadCountFromVisibleStart m h v"
  "v \<le> h \<Longrightarrow> h \<le> m \<Longrightarrow> unreadCountFromVisibleStart m h v = m - h"
  by (simp_all add: unreadCountFromVisibleStart_def Let_def)

end
