(* ===== verification/Id_Gen.thy ===== *)
theory Id_Gen
  imports App_Errors "HOL-Library.Word" "HOL-Library.Product_Lexorder"
begin

text \<open>
  \<^verbatim>\<open>pkg/idgen\<close>: the Snowflake, account-id and routed generators. Milliseconds and ids are
  \<^typ>\<open>int\<close> values of Go's \<^verbatim>\<open>int64\<close>, shifts wrap with \<^const>\<open>wrap64\<close>. The clock is the list of readings
  that successive calls of \<^verbatim>\<open>now\<close> return; a call that is still polling the clock when the readings end has not returned
  (\<^const>\<open>None\<close>). The mutex makes a call of \<^verbatim>\<open>Next\<close> atomic, so it is one function of the state.
  The locale \<open>flake\<close> holds the argument the three generators share.
\<close>

unbundle bit_operations_syntax

section \<open>Bit fields\<close>

definition shl :: "int \<Rightarrow> nat \<Rightarrow> int" where
  "shl x n = wrap64 (push_bit n x)"

text \<open>\<^verbatim>\<open>int64(-1) ^ (int64(-1) << bits)\<close>.\<close>

definition low_mask :: "nat \<Rightarrow> int" where
  "low_mask bits = (-1) XOR shl (-1) bits"

lemma low_mask_eq: "bits < 63 \<Longrightarrow> low_mask bits = 2 ^ bits - 1"
proof -
  assume b: "bits < 63"
  then have "(2::int) ^ bits \<le> 2 ^ 63" by (intro power_increasing) auto
  moreover have "(0::int) < 2 ^ bits" by simp
  ultimately have "int64 (push_bit bits (-1))" unfolding int64_def push_bit_eq_mult by linarith
  then have "low_mask bits = NOT (push_bit bits (-1))"
    by (simp add: low_mask_def shl_def wrap64_id)
  then show ?thesis by (simp add: not_int_def push_bit_eq_mult)
qed

lemma push_or_low:
  assumes "0 \<le> b" "b < 2 ^ n"
  shows "push_bit n a OR b = a * 2 ^ n + (b::int)"
proof -
  have b: "take_bit n b = b" using assms by (simp add: take_bit_int_eq_self)
  have "push_bit n a AND take_bit n b = 0" by (rule bit_eqI) (auto simp: bit_simps)
  then have "push_bit n a OR b = push_bit n a + b"
    by (metis b disjunctive_add_eq_or)
  then show ?thesis by (simp add: push_bit_eq_mult)
qed

lemma shl_small: "0 \<le> x \<Longrightarrow> x < 2 ^ (63 - n) \<Longrightarrow> n \<le> 63 \<Longrightarrow> shl x n = push_bit n x"
proof -
  assume x: "0 \<le> x" "x < 2 ^ (63 - n)" "n \<le> 63"
  have "x * 2 ^ n < 2 ^ (63 - n) * 2 ^ n" using x by (intro mult_strict_right_mono) auto
  also have "\<dots> = (2::int) ^ 63" using x by (simp flip: power_add)
  finally have "int64 (push_bit n x)" using x by (simp add: int64_def push_bit_eq_mult order_trans [of "-_" 0])
  then show ?thesis by (simp add: shl_def wrap64_id)
qed

lemma and_low_mask: "bits < 63 \<Longrightarrow> x AND low_mask bits = x mod 2 ^ bits"
  by (simp add: low_mask_eq mask_eq_exp_minus_1 [symmetric] take_bit_eq_mask [symmetric] take_bit_eq_mod)

section \<open>The clock\<close>

type_synonym clock = "int list"

text \<open>The loop \<^verbatim>\<open>waitNextMillis\<close>, the same in the three files.\<close>

fun waitNextMillis :: "int \<Rightarrow> clock \<Rightarrow> (int \<times> clock) option" where
  "waitNextMillis currentMs [] = None"
| "waitNextMillis currentMs (ms # clk) =
     (if ms > currentMs then Some (ms, clk) else waitNextMillis currentMs clk)"

lemma waitNextMillis_returns: "(\<exists>r. waitNextMillis c clk = Some r) \<longleftrightarrow> (\<exists>ms\<in>set clk. c < ms)"
  by (induction clk) auto

lemma waitNextMillis_Some:
  "waitNextMillis c clk = Some (ms, clk') \<Longrightarrow> c < ms \<and> ms \<in> set clk \<and> set clk' \<subseteq> set clk"
  by (induction clk) (auto split: if_splits)

text \<open>
  The part of \<^verbatim>\<open>Next\<close> that reads the clock and moves the sequence, the same in the three
  generators but for the mask: the millisecond and sequence to use, or the error for a
  clock that moved backwards.
\<close>

definition next_stamp :: "int \<Rightarrow> int \<Rightarrow> int \<Rightarrow> clock \<Rightarrow> ((goerror + int \<times> int) \<times> clock) option" where
  "next_stamp seqMask lastMs sequence clk =
     (case clk of
        [] \<Rightarrow> None
      | ms # clk' \<Rightarrow>
          if ms < lastMs then Some (Inl (PlainError ''clock moved backwards''), clk')
          else if ms = lastMs then
            (let s = (sequence + 1) AND seqMask
             in if s = 0
                then map_option (\<lambda>(ms', clk''). (Inr (ms', s), clk'')) (waitNextMillis ms clk')
                else Some (Inr (ms, s), clk'))
          else Some (Inr (ms, 0), clk'))"

lemma next_stamp_Inr:
  assumes "next_stamp (low_mask b) l s clk = Some (Inr (ms, s'), clk')" "b < 63" "0 \<le> s" "s < 2 ^ b"
  shows "(l, s) < (ms, s')" "l \<le> ms" "0 \<le> s'" "s' < 2 ^ b" "ms \<in> set clk" "set clk' \<subseteq> set clk"
    "l < ms \<Longrightarrow> s' = 0"
proof -
  have wrap: "(s + 1) AND low_mask b = (if s + 1 = 2 ^ b then 0 else s + 1)"
    using assms(2-4) by (auto simp: and_low_mask)
  show "(l, s) < (ms, s')" "l \<le> ms" "0 \<le> s'" "s' < 2 ^ b" "ms \<in> set clk" "set clk' \<subseteq> set clk"
    "l < ms \<Longrightarrow> s' = 0"
    using assms
    by (auto simp: next_stamp_def Let_def wrap split: list.splits if_splits dest!: waitNextMillis_Some)
qed

lemma next_stamp_Inl: "next_stamp m l s clk = Some (Inl e, clk') \<Longrightarrow> set clk' \<subseteq> set clk"
  by (auto simp: next_stamp_def Let_def split: list.splits if_splits dest!: waitNextMillis_Some)

lemma next_stamp_returns:
  "clk \<noteq> [] \<Longrightarrow> hd clk \<noteq> l \<or> (\<exists>ms\<in>set (tl clk). l < ms) \<Longrightarrow> \<exists>r. next_stamp m l s clk = Some r"
  using waitNextMillis_returns [of l "tl clk"]
  by (auto simp: next_stamp_def Let_def neq_Nil_conv)

section \<open>What the generators share\<close>

text \<open>
  A run of calls, one per request (a route hint or a facet); the ids it mints, in order. It
  ends early when a call does not return.
\<close>

fun mint_run :: "('g \<Rightarrow> 'h \<Rightarrow> clock \<Rightarrow> ((goerror + int) \<times> 'g \<times> clock) option) \<Rightarrow> 'g \<Rightarrow> 'h list \<Rightarrow> clock \<Rightarrow> int list" where
  "mint_run nxt g [] clk = []"
| "mint_run nxt g (h # hs) clk =
     (case nxt g h clk of
        None \<Rightarrow> []
      | Some (r, g', clk') \<Rightarrow>
          (case r of Inl _ \<Rightarrow> mint_run nxt g' hs clk' | Inr i \<Rightarrow> i # mint_run nxt g' hs clk'))"

text \<open>
  The contract: a generator has a stamp (millisecond, sequence) and a machine number; a call
  that mints an id moves the stamp forward and the id determines the stamp and the machine;
  a failing call leaves the stamp; the machine never changes. Readings are bounded by \<open>limit\<close>.
\<close>

locale flake =
  fixes nxt :: "'g \<Rightarrow> 'h \<Rightarrow> clock \<Rightarrow> ((goerror + int) \<times> 'g \<times> clock) option"
    and wf :: "'g \<Rightarrow> bool"
    and stamp :: "'g \<Rightarrow> int \<times> int"
    and machine :: "'g \<Rightarrow> int"
    and stamp_of :: "int \<Rightarrow> int \<times> int"
    and machine_of :: "int \<Rightarrow> int"
    and limit :: int
  assumes minted: "wf g \<Longrightarrow> \<forall>ms\<in>set clk. ms \<le> limit \<Longrightarrow> nxt g h clk = Some (Inr i, g', clk') \<Longrightarrow>
      stamp g < stamp g' \<and> stamp_of i = stamp g' \<and> machine_of i = machine g"
    and refused: "wf g \<Longrightarrow> \<forall>ms\<in>set clk. ms \<le> limit \<Longrightarrow> nxt g h clk = Some (Inl e, g', clk') \<Longrightarrow>
      stamp g' = stamp g"
    and kept: "wf g \<Longrightarrow> \<forall>ms\<in>set clk. ms \<le> limit \<Longrightarrow> nxt g h clk = Some (r, g', clk') \<Longrightarrow>
      wf g' \<and> machine g' = machine g \<and> set clk' \<subseteq> set clk"
begin

lemma run_stamps:
  "wf g \<Longrightarrow> \<forall>ms\<in>set clk. ms \<le> limit \<Longrightarrow>
     sorted_wrt (<) (map stamp_of (mint_run nxt g hs clk))
     \<and> (\<forall>i\<in>set (mint_run nxt g hs clk). stamp g < stamp_of i \<and> machine_of i = machine g)"
proof (induction hs arbitrary: g clk)
  case (Cons h hs)
  show ?case
  proof (cases "nxt g h clk")
    case (Some a)
    obtain r g' clk' where a: "a = (r, g', clk')" by (cases a)
    with Some Cons.prems kept have g': "wf g'" "machine g' = machine g" "set clk' \<subseteq> set clk" by blast+
    then have lim: "\<forall>ms\<in>set clk'. ms \<le> limit" using Cons.prems(2) by blast
    note IH = Cons.IH [OF g'(1) lim]
    show ?thesis
    proof (cases r)
      case (Inl e)
      with refused [OF Cons.prems] Some a have "stamp g' = stamp g" by blast
      with IH Some a Inl g' show ?thesis by simp
    next
      case (Inr i)
      with minted [OF Cons.prems] Some a have "stamp g < stamp g'" "stamp_of i = stamp g'" "machine_of i = machine g"
        by blast+
      with IH Some a Inr g' show ?thesis by (auto intro: less_trans)
    qed
  qed simp
qed simp

lemma run_distinct:
  assumes "wf g" "\<forall>ms\<in>set clk. ms \<le> limit"
  shows "distinct (mint_run nxt g hs clk)"
proof -
  have "distinct (map stamp_of (mint_run nxt g hs clk))"
    using run_stamps [OF assms] strict_sorted_iff by blast
  then show ?thesis by (simp add: distinct_map)
qed

lemma run_disjoint:
  assumes "wf g" "\<forall>ms\<in>set clk. ms \<le> limit" "wf g'" "\<forall>ms\<in>set clk'. ms \<le> limit" "machine g \<noteq> machine g'"
  shows "set (mint_run nxt g hs clk) \<inter> set (mint_run nxt g' hs' clk') = {}"
  using run_stamps [OF assms(1,2)] run_stamps [OF assms(3,4)] assms(5) by (metis disjoint_iff)

end

section \<open>Snowflake\<close>

definition snowflakeEpochMs :: int where
  "snowflakeEpochMs = 1767225600000"

abbreviation maxNodeID :: int where "maxNodeID \<equiv> low_mask 10"
abbreviation sequenceMask :: int where "sequenceMask \<equiv> low_mask 12"

record Snowflake =
  sf_nodeID :: int
  sf_lastMs :: int
  sf_sequence :: int

definition NewSnowflake :: "int \<Rightarrow> goerror + Snowflake" where
  "NewSnowflake nodeID =
     (if nodeID < 0 \<or> nodeID > maxNodeID then Inl (PlainError ''snowflake node id out of range'')
      else Inr \<lparr>sf_nodeID = nodeID, sf_lastMs = -1, sf_sequence = 0\<rparr>)"

definition Snowflake_Next :: "Snowflake \<Rightarrow> unit \<Rightarrow> clock \<Rightarrow> ((goerror + int) \<times> Snowflake \<times> clock) option" where
  "Snowflake_Next g _ clk =
     (case next_stamp sequenceMask (sf_lastMs g) (sf_sequence g) clk of
        None \<Rightarrow> None
      | Some (Inl e, clk') \<Rightarrow> Some (Inl e, g, clk')
      | Some (Inr (ms, s), clk') \<Rightarrow>
          let g1 = g\<lparr>sf_sequence := s\<rparr>;
              elapsed = ms - snowflakeEpochMs
          in if elapsed < 0 then Some (Inl (PlainError ''clock is before snowflake epoch''), g1, clk')
             else let i = (shl elapsed 22 OR shl (sf_nodeID g) 12) OR s
                  in Some (Inr (take_bit 64 i), g1\<lparr>sf_lastMs := ms\<rparr>, clk'))"

section \<open>Account ids\<close>

definition accountEpochMs :: int where
  "accountEpochMs = 1767225600000"

abbreviation maxAccountTimestamp :: int where "maxAccountTimestamp \<equiv> low_mask 41"
abbreviation maxAccountMachineID :: int where "maxAccountMachineID \<equiv> low_mask 9"
abbreviation accountSequenceMask :: int where "accountSequenceMask \<equiv> low_mask 10"
abbreviation accountFacetMask :: int where "accountFacetMask \<equiv> low_mask 3"

definition FacetAgent :: int where "FacetAgent = 0"
definition FacetHuman :: int where "FacetHuman = 1"

definition Facet_Valid :: "int \<Rightarrow> bool" where
  "Facet_Valid f \<longleftrightarrow> f = FacetAgent \<or> f = FacetHuman"

text \<open>\<^verbatim>\<open>>>\<close> on \<^verbatim>\<open>int64\<close> is the arithmetic shift, which \<^const>\<open>drop_bit\<close> on \<^typ>\<open>int\<close> is.\<close>

definition AccountFacet :: "int \<Rightarrow> int" where
  "AccountFacet i = drop_bit 19 i AND accountFacetMask"

definition IsAgent :: "int \<Rightarrow> bool" where
  "IsAgent i \<longleftrightarrow> AccountFacet i = FacetAgent"

definition IsAgentAccountID :: "string \<Rightarrow> bool" where
  "IsAgentAccountID s =
     (case ParseInt (TrimSpace s) of
        None \<Rightarrow> False
      | Some parsed \<Rightarrow> if parsed \<le> 0 then False else IsAgent parsed)"

record AccountIDGenerator =
  ag_machineID :: int
  ag_lastMs :: int
  ag_sequence :: int

definition NewAccountIDGenerator :: "int \<Rightarrow> goerror + AccountIDGenerator" where
  "NewAccountIDGenerator machineID =
     (if machineID < 0 \<or> machineID > maxAccountMachineID
      then Inl (PlainError ''account id machine id out of range'')
      else Inr \<lparr>ag_machineID = machineID, ag_lastMs = -1, ag_sequence = 0\<rparr>)"

definition Account_Next ::
  "AccountIDGenerator \<Rightarrow> int \<Rightarrow> clock \<Rightarrow> ((goerror + int) \<times> AccountIDGenerator \<times> clock) option" where
  "Account_Next g facet clk =
     (if \<not> Facet_Valid facet then Some (Inl (PlainError ''account facet is not issuable''), g, clk)
      else case next_stamp accountSequenceMask (ag_lastMs g) (ag_sequence g) clk of
        None \<Rightarrow> None
      | Some (Inl e, clk') \<Rightarrow> Some (Inl e, g, clk')
      | Some (Inr (ms, s), clk') \<Rightarrow>
          let g1 = g\<lparr>ag_sequence := s\<rparr>;
              tick = ms - accountEpochMs
          in if tick < 0 then Some (Inl (PlainError ''clock is before account id epoch''), g1, clk')
             else if tick > maxAccountTimestamp then Some (Inl (PlainError ''account id timestamp overflow''), g1, clk')
             else let i = ((shl tick 22 OR shl facet 19) OR shl (ag_machineID g) 10) OR s
                  in Some (Inr i, g1\<lparr>ag_lastMs := ms\<rparr>, clk'))"

text \<open>The decimal transport form.\<close>

definition Account_NextString ::
  "AccountIDGenerator \<Rightarrow> int \<Rightarrow> clock \<Rightarrow> ((goerror + string) \<times> AccountIDGenerator \<times> clock) option" where
  "Account_NextString g facet clk =
     map_option (\<lambda>(r, g', clk'). (map_sum id FormatInt r, g', clk')) (Account_Next g facet clk)"

section \<open>Routed ids\<close>

record RoutedFlakeConfig =
  HintBits :: "64 word"
  MachineBits :: "64 word"
  MachineID :: int

record RoutedFlake =
  hintShift :: nat
  hintMax :: int
  machinePart :: int
  rf_lastMs :: int
  rf_sequence :: int

abbreviation maxFlakeTimestamp :: int where "maxFlakeTimestamp \<equiv> low_mask 41"
abbreviation flakeSequenceMask :: int where "flakeSequenceMask \<equiv> low_mask 10"

definition NewRoutedFlake :: "RoutedFlakeConfig \<Rightarrow> goerror + RoutedFlake" where
  "NewRoutedFlake cfg =
     (if MachineBits cfg < 1 then Inl (PlainError ''machine bits must be >= 1'')
      else if HintBits cfg + MachineBits cfg > 12 then Inl (PlainError ''bits exceed the middle segment'')
      else let maxMachineID = low_mask (unat (MachineBits cfg))
           in if MachineID cfg < 0 \<or> MachineID cfg > maxMachineID then Inl (PlainError ''machine id out of range'')
              else Inr \<lparr>hintShift = unat (10 + (12 - HintBits cfg)),
                        hintMax = low_mask (unat (HintBits cfg)),
                        machinePart = shl (MachineID cfg) 10,
                        rf_lastMs = -1, rf_sequence = 0\<rparr>)"

definition RoutedFlake_Next ::
  "RoutedFlake \<Rightarrow> int \<Rightarrow> clock \<Rightarrow> ((goerror + int) \<times> RoutedFlake \<times> clock) option" where
  "RoutedFlake_Next g hint clk =
     (if hint < 0 \<or> hint > hintMax g then Some (Inl (PlainError ''hint out of range''), g, clk)
      else case next_stamp flakeSequenceMask (rf_lastMs g) (rf_sequence g) clk of
        None \<Rightarrow> None
      | Some (Inl e, clk') \<Rightarrow> Some (Inl e, g, clk')
      | Some (Inr (ms, s), clk') \<Rightarrow>
          let g1 = g\<lparr>rf_sequence := s\<rparr>;
              tick = ms - snowflakeEpochMs
          in if tick < 0 then Some (Inl (PlainError ''clock is before epoch''), g1, clk')
             else if tick > maxFlakeTimestamp then Some (Inl (PlainError ''timestamp overflow''), g1, clk')
             else let i = ((shl tick 22 OR shl hint (hintShift g)) OR machinePart g) OR s
                  in Some (Inr i, g1\<lparr>rf_lastMs := ms\<rparr>, clk'))"

definition RoutedFlake_NextString ::
  "RoutedFlake \<Rightarrow> int \<Rightarrow> clock \<Rightarrow> ((goerror + string) \<times> RoutedFlake \<times> clock) option" where
  "RoutedFlake_NextString g hint clk =
     map_option (\<lambda>(r, g', clk'). (map_sum id FormatInt r, g', clk')) (RoutedFlake_Next g hint clk)"

text \<open>
  The machine number of an instance. \<open>env\<close> is \<^verbatim>\<open>os.Getenv\<close>, the empty string for a variable that
  is not set.
\<close>

definition ordinalFromName :: "string \<Rightarrow> int option" where
  "ordinalFromName name =
     (if CHR ''-'' \<notin> set name then None
      else let last_part = rev (takeWhile (\<lambda>c. c \<noteq> CHR ''-'') (rev name))
           in if last_part = [] then None
              else (case ParseInt last_part of
                  None \<Rightarrow> None
                | Some v \<Rightarrow> if v < 0 then None else Some v))"

fun first_ordinal :: "(string \<Rightarrow> string) \<Rightarrow> string list \<Rightarrow> int option" where
  "first_ordinal env [] = None"
| "first_ordinal env (source # sources) =
     (let name = TrimSpace (env source)
      in if name = [] then first_ordinal env sources
         else (case ordinalFromName name of
             Some v \<Rightarrow> Some v
           | None \<Rightarrow> first_ordinal env sources))"

definition ResolveMachineID :: "(string \<Rightarrow> string) \<Rightarrow> goerror + int" where
  "ResolveMachineID env =
     (let raw = TrimSpace (env ''AGENTS_IM_SNOWFLAKE_MACHINE_ID'')
      in if raw \<noteq> []
         then (case ParseInt raw of
             None \<Rightarrow> Inl (PlainError ''not a non-negative integer'')
           | Some v \<Rightarrow> if v < 0 then Inl (PlainError ''not a non-negative integer'') else Inr v)
         else (case first_ordinal env [''POD_NAME'', ''HOSTNAME''] of
             Some v \<Rightarrow> Inr v
           | None \<Rightarrow> Inl (PlainError ''no stable machine id'')))"

text \<open>The legacy node number: an explicit value in range, else the FNV-1a hash of the host name.\<close>

definition fnv32a :: "string \<Rightarrow> 32 word" where
  "fnv32a s = foldl (\<lambda>h c. (h XOR of_char c) * 16777619) 2166136261 s"

definition defaultNodeID :: "(string \<Rightarrow> string) \<Rightarrow> string option \<Rightarrow> int" where
  "defaultNodeID env hostname =
     (let raw = TrimSpace (env ''AGENTS_IM_SNOWFLAKE_NODE_ID'');
          explicit = (if raw = [] then None
                      else (case ParseInt raw of
                          None \<Rightarrow> None
                        | Some v \<Rightarrow> if 0 \<le> v \<and> v \<le> maxNodeID then Some v else None))
      in case explicit of
           Some v \<Rightarrow> v
         | None \<Rightarrow> (case hostname of
               None \<Rightarrow> 0
             | Some host \<Rightarrow>
                 if TrimSpace host = [] then 0
                 else uint (fnv32a host mod word_of_int (maxNodeID + 1))))"

definition defaultAccountMachineID :: "(string \<Rightarrow> string) \<Rightarrow> string option \<Rightarrow> int" where
  "defaultAccountMachineID env hostname =
     (let raw = TrimSpace (env ''AGENTS_IM_SNOWFLAKE_NODE_ID'');
          explicit = (if raw = [] then None
                      else (case ParseInt raw of
                          None \<Rightarrow> None
                        | Some v \<Rightarrow> if 0 \<le> v \<and> v \<le> maxAccountMachineID then Some v else None))
      in case explicit of
           Some v \<Rightarrow> v
         | None \<Rightarrow> (case hostname of
               None \<Rightarrow> 0
             | Some host \<Rightarrow>
                 if TrimSpace host = [] then 0
                 else uint (fnv32a host mod word_of_int (maxAccountMachineID + 1))))"

section \<open>The layout of an id\<close>

lemma mult_or_low: "0 \<le> b \<Longrightarrow> b < 2 ^ n \<Longrightarrow> (a * 2 ^ n) OR b = a * 2 ^ n + (b::int)"
  using push_or_low [of b n a] by (simp add: push_bit_eq_mult)

lemma shl_eq_mult: "0 \<le> x \<Longrightarrow> x < 2 ^ k \<Longrightarrow> k + n \<le> 63 \<Longrightarrow> shl x n = x * 2 ^ n"
proof -
  assume "0 \<le> x" "x < 2 ^ k" "k + n \<le> 63"
  moreover have "(2::int) ^ k \<le> 2 ^ (63 - n)" using \<open>k + n \<le> 63\<close> by (intro power_increasing) auto
  ultimately have "x < 2 ^ (63 - n)" by linarith
  with \<open>0 \<le> x\<close> \<open>k + n \<le> 63\<close> show ?thesis by (simp add: shl_small push_bit_eq_mult)
qed

lemma snowflake_layout:
  assumes "0 \<le> t" "t < 2 ^ 41" "0 \<le> n" "n < 2 ^ 10" "0 \<le> s" "s < 2 ^ 12"
  shows "(shl t 22 OR shl n 12) OR s = t * 2 ^ 22 + n * 2 ^ 12 + s"
proof -
  have "shl t 22 = t * 2 ^ 22" "shl n 12 = n * 2 ^ 12"
    using assms by (simp_all add: shl_eq_mult [where k = 41] shl_eq_mult [where k = 10])
  moreover have "(t * 2 ^ 22) OR (n * 2 ^ 12) = (t * 2 ^ 10 + n) * 2 ^ 12"
    using assms by (subst mult_or_low) auto
  moreover have "((t * 2 ^ 10 + n) * 2 ^ 12) OR s = (t * 2 ^ 10 + n) * 2 ^ 12 + s"
    using assms by (intro mult_or_low) auto
  ultimately show ?thesis by simp
qed

lemma account_layout:
  assumes "0 \<le> t" "t < 2 ^ 41" "0 \<le> f" "f < 2 ^ 3" "0 \<le> m" "m < 2 ^ 9" "0 \<le> s" "s < 2 ^ 10"
  shows "((shl t 22 OR shl f 19) OR shl m 10) OR s = t * 2 ^ 22 + f * 2 ^ 19 + m * 2 ^ 10 + s"
proof -
  have "shl t 22 = t * 2 ^ 22" "shl f 19 = f * 2 ^ 19" "shl m 10 = m * 2 ^ 10"
    using assms
    by (simp_all add: shl_eq_mult [where k = 41] shl_eq_mult [where k = 3] shl_eq_mult [where k = 9])
  moreover have "(t * 2 ^ 22) OR (f * 2 ^ 19) = (t * 2 ^ 3 + f) * 2 ^ 19"
    using assms by (subst mult_or_low) auto
  moreover have "((t * 2 ^ 3 + f) * 2 ^ 19) OR (m * 2 ^ 10) = ((t * 2 ^ 3 + f) * 2 ^ 9 + m) * 2 ^ 10"
    using assms by (subst mult_or_low) auto
  moreover have "(((t * 2 ^ 3 + f) * 2 ^ 9 + m) * 2 ^ 10) OR s = ((t * 2 ^ 3 + f) * 2 ^ 9 + m) * 2 ^ 10 + s"
    using assms by (intro mult_or_low) auto
  ultimately show ?thesis by simp
qed

lemma routed_layout:
  assumes "0 \<le> t" "t < 2 ^ 41" "0 \<le> h" "h < 2 ^ hb" "0 \<le> m" "m < 2 ^ mb" "hb + mb \<le> 12" "0 \<le> s" "s < 2 ^ 10"
  shows "((shl t 22 OR shl h (22 - hb)) OR shl m 10) OR s = t * 2 ^ 22 + h * 2 ^ (22 - hb) + m * 2 ^ 10 + s"
proof -
  have "22 = hb + (22 - hb)" "22 - hb = (12 - hb) + 10" using assms(7) by simp_all
  then have e: "(2::int) ^ 22 = 2 ^ hb * 2 ^ (22 - hb)" "(2::int) ^ (22 - hb) = 2 ^ (12 - hb) * 2 ^ 10"
    by (metis power_add)+
  have "h * 2 ^ (22 - hb) < 2 ^ hb * 2 ^ (22 - hb)"
    using assms by (intro mult_strict_right_mono) auto
  then have hlt: "h * 2 ^ (22 - hb) < 2 ^ 22" by (simp only: e)
  have "m < 2 ^ (12 - hb)"
    using assms(6,7) power_increasing [of mb "12 - hb" "2::int"] by linarith
  then have mlt: "m * 2 ^ 10 < 2 ^ (22 - hb)" unfolding e by (intro mult_strict_right_mono) auto
  have "shl t 22 = t * 2 ^ 22" "shl h (22 - hb) = h * 2 ^ (22 - hb)" "shl m 10 = m * 2 ^ 10"
    using assms shl_eq_mult [of t 41 22] shl_eq_mult [of h hb "22 - hb"] shl_eq_mult [of m mb 10] by auto
  moreover have "(t * 2 ^ 22) OR (h * 2 ^ (22 - hb)) = t * 2 ^ 22 + h * 2 ^ (22 - hb)"
    using assms hlt by (intro mult_or_low) auto
  moreover have "\<dots> = (t * 2 ^ hb + h) * 2 ^ (22 - hb)" by (simp only: e) (simp add: algebra_simps)
  moreover have "\<dots> OR (m * 2 ^ 10) = (t * 2 ^ hb + h) * 2 ^ (22 - hb) + m * 2 ^ 10"
    using assms mlt by (intro mult_or_low) auto
  moreover have "\<dots> = ((t * 2 ^ hb + h) * 2 ^ (12 - hb) + m) * 2 ^ 10" by (simp only: e) (simp add: algebra_simps)
  moreover have "\<dots> OR s = ((t * 2 ^ hb + h) * 2 ^ (12 - hb) + m) * 2 ^ 10 + s"
    using assms by (intro mult_or_low) auto
  ultimately show ?thesis by metis
qed

text \<open>Reading the fields of a positional sum back.\<close>

lemma div_field: "0 \<le> r \<Longrightarrow> r < b \<Longrightarrow> (a * b + r) div b = (a::int)"
  by (simp add: div_add1_eq)

lemma mod_field: "0 \<le> r \<Longrightarrow> r < b \<Longrightarrow> (a * b + r) mod b = (r::int)"
  by simp

section \<open>The contract holds for the three generators\<close>

text \<open>
  Before the first id the stamp is \<open>(-1, 0)\<close>; a refused call on a clock before the epoch may
  move the sequence then, but no id carries it.
\<close>

definition stamp_at :: "int \<Rightarrow> int \<Rightarrow> int \<times> int" where
  "stamp_at lastMs sequence = (if lastMs < snowflakeEpochMs then (-1, 0) else (lastMs, sequence))"

definition stamp_wf :: "nat \<Rightarrow> int \<Rightarrow> int \<Rightarrow> bool" where
  "stamp_wf b lastMs sequence \<longleftrightarrow> 0 \<le> sequence \<and> sequence < 2 ^ b"

lemma accountEpochMs_eq [simp]: "accountEpochMs = snowflakeEpochMs"
  by (simp add: accountEpochMs_def snowflakeEpochMs_def)

definition lastFlakeMs :: int where
  "lastFlakeMs = snowflakeEpochMs + maxFlakeTimestamp"

lemma next_stamp_step:
  assumes n: "next_stamp (low_mask b) l s clk = Some (Inr (ms, s'), clk')" and b: "b < 63" and wf: "stamp_wf b l s"
  shows "stamp_wf b ms s' \<and> stamp_wf b l s' \<and> ms \<in> set clk \<and> set clk' \<subseteq> set clk
    \<and> (snowflakeEpochMs \<le> ms \<longrightarrow> stamp_at l s < stamp_at ms s')
    \<and> (ms < snowflakeEpochMs \<longrightarrow> stamp_at l s' = stamp_at l s)"
  using next_stamp_Inr [OF n b] wf
  by (auto simp: stamp_at_def stamp_wf_def snowflakeEpochMs_def)

definition Snowflake_wf :: "Snowflake \<Rightarrow> bool" where
  "Snowflake_wf g \<longleftrightarrow> 0 \<le> sf_nodeID g \<and> sf_nodeID g < 2 ^ 10 \<and> stamp_wf 12 (sf_lastMs g) (sf_sequence g)"

text \<open>What a successful call of each generator did: the stamp it took and the id it composed.\<close>

lemma Snowflake_Next_Inr:
  assumes wf: "Snowflake_wf g" and lim: "\<forall>ms\<in>set clk. ms \<le> lastFlakeMs"
    and nxt: "Snowflake_Next g u clk = Some (Inr i, g', clk')"
  obtains ms s where "next_stamp sequenceMask (sf_lastMs g) (sf_sequence g) clk = Some (Inr (ms, s), clk')"
    and "g' = g\<lparr>sf_sequence := s, sf_lastMs := ms\<rparr>"
    and "i = (ms - snowflakeEpochMs) * 2 ^ 22 + sf_nodeID g * 2 ^ 12 + s"
    and "snowflakeEpochMs \<le> ms" "ms \<le> lastFlakeMs"
proof -
  from nxt obtain ms s where
    n: "next_stamp sequenceMask (sf_lastMs g) (sf_sequence g) clk = Some (Inr (ms, s), clk')"
    and e: "snowflakeEpochMs \<le> ms" and g': "g' = g\<lparr>sf_sequence := s, sf_lastMs := ms\<rparr>"
    and i: "i = take_bit 64 ((shl (ms - snowflakeEpochMs) 22 OR shl (sf_nodeID g) 12) OR s)"
    by (auto simp: Snowflake_Next_def Let_def split: option.splits sum.splits if_splits)
  have node: "0 \<le> sf_nodeID g" "sf_nodeID g < 2 ^ 10" and sw: "stamp_wf 12 (sf_lastMs g) (sf_sequence g)"
    using wf by (auto simp: Snowflake_wf_def)
  from next_stamp_step [OF n _ sw] have s: "0 \<le> s" "s < 2 ^ 12" and ms: "ms \<le> lastFlakeMs"
    using lim by (auto simp: stamp_wf_def)
  then have t: "ms - snowflakeEpochMs < 2 ^ 41" by (simp add: lastFlakeMs_def low_mask_eq)
  have lay: "(shl (ms - snowflakeEpochMs) 22 OR shl (sf_nodeID g) 12) OR s
      = (ms - snowflakeEpochMs) * 2 ^ 22 + sf_nodeID g * 2 ^ 12 + s"
    using e t s node by (intro snowflake_layout) auto
  moreover have "0 \<le> (ms - snowflakeEpochMs) * 2 ^ 22 + sf_nodeID g * 2 ^ 12 + s"
    "(ms - snowflakeEpochMs) * 2 ^ 22 + sf_nodeID g * 2 ^ 12 + s < 2 ^ 64"
    using e t s node by auto
  ultimately have "i = (ms - snowflakeEpochMs) * 2 ^ 22 + sf_nodeID g * 2 ^ 12 + s"
    unfolding i by (simp add: take_bit_int_eq_self)
  with n e g' ms show thesis using that by blast
qed

lemma Snowflake_Next_Inl:
  assumes "Snowflake_wf g" "Snowflake_Next g u clk = Some (Inl e, g', clk')"
  shows "stamp_at (sf_lastMs g') (sf_sequence g') = stamp_at (sf_lastMs g) (sf_sequence g)
    \<and> Snowflake_wf g' \<and> sf_nodeID g' = sf_nodeID g \<and> set clk' \<subseteq> set clk"
  using assms
  by (auto simp: Snowflake_Next_def Let_def Snowflake_wf_def
      split: option.splits sum.splits if_splits dest!: next_stamp_Inl next_stamp_step del: subsetI)

interpretation snowflake: flake Snowflake_Next Snowflake_wf
  "\<lambda>g. stamp_at (sf_lastMs g) (sf_sequence g)" sf_nodeID
  "\<lambda>i. (i div 2 ^ 22 + snowflakeEpochMs, i mod 2 ^ 12)" "\<lambda>i. i div 2 ^ 12 mod 2 ^ 10" lastFlakeMs
proof (unfold_locales, goal_cases)
  case (1 g clk h i g' clk')
  from 1(3) obtain ms s where
    n: "next_stamp sequenceMask (sf_lastMs g) (sf_sequence g) clk = Some (Inr (ms, s), clk')"
    and g': "g' = g\<lparr>sf_sequence := s, sf_lastMs := ms\<rparr>"
    and i: "i = (ms - snowflakeEpochMs) * 2 ^ 22 + sf_nodeID g * 2 ^ 12 + s"
    and e: "snowflakeEpochMs \<le> ms"
    using Snowflake_Next_Inr [OF 1(1,2)] by metis
  have wf: "0 \<le> sf_nodeID g" "sf_nodeID g < 2 ^ 10" "stamp_wf 12 (sf_lastMs g) (sf_sequence g)"
    using 1(1) by (auto simp: Snowflake_wf_def)
  note st = next_stamp_step [OF n _ wf(3)]
  then have s: "0 \<le> s" "s < 2 ^ 12" by (auto simp: stamp_wf_def)
  have i': "i = ((ms - snowflakeEpochMs) * 2 ^ 10 + sf_nodeID g) * 2 ^ 12 + s" unfolding i by simp
  have "i div 2 ^ 22 = ms - snowflakeEpochMs"
    unfolding i add.assoc by (rule div_field) (use wf s in auto)
  moreover have "i mod 2 ^ 12 = s" unfolding i' by (rule mod_field [OF s])
  moreover have "i div 2 ^ 12 mod 2 ^ 10 = sf_nodeID g"
    unfolding i' div_field [OF s] by (rule mod_field) (use wf in auto)
  ultimately show ?case using st e g' by (simp add: stamp_at_def)
next
  case (2 g clk h e g' clk')
  then show ?case using Snowflake_Next_Inl by blast
next
  case (3 g clk h r g' clk')
  show ?case
  proof (cases r)
    case (Inl e)
    with 3 show ?thesis using Snowflake_Next_Inl by blast
  next
    case (Inr i)
    with 3(3) obtain ms s where
      "next_stamp sequenceMask (sf_lastMs g) (sf_sequence g) clk = Some (Inr (ms, s), clk')"
      "g' = g\<lparr>sf_sequence := s, sf_lastMs := ms\<rparr>"
      using Snowflake_Next_Inr [OF 3(1,2)] by metis
    with 3(1) show ?thesis by (auto simp: Snowflake_wf_def dest!: next_stamp_step)
  qed
qed

lemma within_limit: "\<forall>ms\<in>set clk. ms \<le> lastFlakeMs \<Longrightarrow> a \<in> set clk \<Longrightarrow> \<not> maxFlakeTimestamp < a - snowflakeEpochMs"
  by (fastforce simp: lastFlakeMs_def)

definition Account_wf :: "AccountIDGenerator \<Rightarrow> bool" where
  "Account_wf g \<longleftrightarrow> 0 \<le> ag_machineID g \<and> ag_machineID g < 2 ^ 9 \<and> stamp_wf 10 (ag_lastMs g) (ag_sequence g)"

lemma Account_Next_Inr:
  assumes wf: "Account_wf g" and nxt: "Account_Next g f clk = Some (Inr i, g', clk')"
  obtains ms s where "next_stamp accountSequenceMask (ag_lastMs g) (ag_sequence g) clk = Some (Inr (ms, s), clk')"
    and "g' = g\<lparr>ag_sequence := s, ag_lastMs := ms\<rparr>" and "Facet_Valid f" "0 \<le> f" "f < 2 ^ 3"
    and "i = (ms - snowflakeEpochMs) * 2 ^ 22 + f * 2 ^ 19 + ag_machineID g * 2 ^ 10 + s"
    and "snowflakeEpochMs \<le> ms" "ms \<le> lastFlakeMs" "0 \<le> s" "s < 2 ^ 10"
proof -
  from nxt obtain ms s where
    n: "next_stamp accountSequenceMask (ag_lastMs g) (ag_sequence g) clk = Some (Inr (ms, s), clk')"
    and e: "snowflakeEpochMs \<le> ms" "ms - snowflakeEpochMs \<le> maxAccountTimestamp"
    and g': "g' = g\<lparr>ag_sequence := s, ag_lastMs := ms\<rparr>" and f: "Facet_Valid f"
    and i: "i = ((shl (ms - snowflakeEpochMs) 22 OR shl f 19) OR shl (ag_machineID g) 10) OR s"
    by (auto simp: Account_Next_def Let_def split: option.splits sum.splits if_splits)
  have m: "0 \<le> ag_machineID g" "ag_machineID g < 2 ^ 9" and sw: "stamp_wf 10 (ag_lastMs g) (ag_sequence g)"
    using wf by (auto simp: Account_wf_def)
  from next_stamp_step [OF n _ sw] have s: "0 \<le> s" "s < 2 ^ 10" by (auto simp: stamp_wf_def)
  have f': "0 \<le> f" "f < 2 ^ 3" using f by (auto simp: Facet_Valid_def FacetAgent_def FacetHuman_def)
  have ms: "ms \<le> lastFlakeMs" "ms - snowflakeEpochMs < 2 ^ 41"
    using e by (auto simp: lastFlakeMs_def low_mask_eq)
  have "i = (ms - snowflakeEpochMs) * 2 ^ 22 + f * 2 ^ 19 + ag_machineID g * 2 ^ 10 + s"
    unfolding i using e ms f' m s by (intro account_layout) auto
  then show thesis using that n g' f f' e ms s by blast
qed

lemma Account_Next_Inl:
  assumes wf: "Account_wf g" and lim: "\<forall>ms\<in>set clk. ms \<le> lastFlakeMs"
    and nxt: "Account_Next g f clk = Some (Inl e, g', clk')"
  shows "stamp_at (ag_lastMs g') (ag_sequence g') = stamp_at (ag_lastMs g) (ag_sequence g)
    \<and> Account_wf g' \<and> ag_machineID g' = ag_machineID g \<and> set clk' \<subseteq> set clk"
proof -
  from nxt consider "g' = g" "set clk' \<subseteq> set clk"
    | ms s where "next_stamp accountSequenceMask (ag_lastMs g) (ag_sequence g) clk = Some (Inr (ms, s), clk')"
        "g' = g\<lparr>ag_sequence := s\<rparr>" "ms < snowflakeEpochMs \<or> maxFlakeTimestamp < ms - snowflakeEpochMs"
    by (auto simp: Account_Next_def Let_def split: option.splits sum.splits if_splits dest!: next_stamp_Inl)
  then show ?thesis
  proof cases
    case (2 ms s)
    have "stamp_wf 10 (ag_lastMs g) (ag_sequence g)" using wf by (simp add: Account_wf_def)
    note st = next_stamp_step [OF 2(1) _ this]
    with 2(3) within_limit [OF lim] have "ms < snowflakeEpochMs" by auto
    with st 2(2) wf show ?thesis by (simp add: Account_wf_def)
  qed (use wf in simp)
qed

interpretation account: flake Account_Next Account_wf
  "\<lambda>g. stamp_at (ag_lastMs g) (ag_sequence g)" ag_machineID
  "\<lambda>i. (i div 2 ^ 22 + snowflakeEpochMs, i mod 2 ^ 10)" "\<lambda>i. i div 2 ^ 10 mod 2 ^ 9" lastFlakeMs
proof (unfold_locales, goal_cases)
  case (1 g clk f i g' clk')
  from 1(3) obtain ms s where
    n: "next_stamp accountSequenceMask (ag_lastMs g) (ag_sequence g) clk = Some (Inr (ms, s), clk')"
    and g': "g' = g\<lparr>ag_sequence := s, ag_lastMs := ms\<rparr>"
    and f: "0 \<le> f" "f < 2 ^ 3"
    and i: "i = (ms - snowflakeEpochMs) * 2 ^ 22 + f * 2 ^ 19 + ag_machineID g * 2 ^ 10 + s"
    and e: "snowflakeEpochMs \<le> ms" and s: "0 \<le> s" "s < 2 ^ 10"
    using Account_Next_Inr [OF 1(1)] by metis
  have wf: "0 \<le> ag_machineID g" "ag_machineID g < 2 ^ 9" "stamp_wf 10 (ag_lastMs g) (ag_sequence g)"
    using 1(1) by (auto simp: Account_wf_def)
  have i': "i = (((ms - snowflakeEpochMs) * 2 ^ 3 + f) * 2 ^ 9 + ag_machineID g) * 2 ^ 10 + s" unfolding i by simp
  have "i div 2 ^ 22 = ms - snowflakeEpochMs"
    unfolding i add.assoc by (rule div_field) (use wf s f in auto)
  moreover have "i mod 2 ^ 10 = s" unfolding i' by (rule mod_field [OF s])
  moreover have "i div 2 ^ 10 mod 2 ^ 9 = ag_machineID g"
    unfolding i' div_field [OF s] by (rule mod_field) (use wf in auto)
  ultimately show ?case using next_stamp_step [OF n _ wf(3)] e g' by (simp add: stamp_at_def)
next
  case (2 g clk f e g' clk')
  then show ?case using Account_Next_Inl by blast
next
  case (3 g clk f r g' clk')
  show ?case
  proof (cases r)
    case (Inl e)
    with 3 show ?thesis using Account_Next_Inl by blast
  next
    case (Inr i)
    with 3(3) obtain ms s where
      "next_stamp accountSequenceMask (ag_lastMs g) (ag_sequence g) clk = Some (Inr (ms, s), clk')"
      "g' = g\<lparr>ag_sequence := s, ag_lastMs := ms\<rparr>"
      using Account_Next_Inr [OF 3(1)] by metis
    with 3(1) show ?thesis by (auto simp: Account_wf_def dest!: next_stamp_step)
  qed
qed

text \<open>
  A routed generator for \<open>hb\<close> hint bits and \<open>mb\<close> machine bits: the state keeps the shifted machine
  number only, so its well-formedness carries the widths.
\<close>

definition RoutedFlake_wf :: "nat \<Rightarrow> nat \<Rightarrow> RoutedFlake \<Rightarrow> bool" where
  "RoutedFlake_wf hb mb g \<longleftrightarrow>
     hb + mb \<le> 12 \<and> hintShift g = 22 - hb \<and> hintMax g = 2 ^ hb - 1
     \<and> (\<exists>m. 0 \<le> m \<and> m < 2 ^ mb \<and> machinePart g = shl m 10)
     \<and> stamp_wf 10 (rf_lastMs g) (rf_sequence g)"

definition routed_machine :: "RoutedFlake \<Rightarrow> int" where
  "routed_machine g = machinePart g div 2 ^ 10"

lemma routed_machine_shl: "0 \<le> m \<Longrightarrow> m < 2 ^ mb \<Longrightarrow> mb \<le> 12 \<Longrightarrow> shl m 10 div 2 ^ 10 = m"
  by (simp add: shl_eq_mult [where k = mb])

lemma RoutedFlake_wf_machine:
  assumes "RoutedFlake_wf hb mb g"
  shows "0 \<le> routed_machine g" "routed_machine g < 2 ^ mb" "machinePart g = shl (routed_machine g) 10"
  using assms routed_machine_shl [of _ mb] by (auto simp: RoutedFlake_wf_def routed_machine_def simp del: power_numeral)

lemma RoutedFlake_Next_Inr:
  assumes wf: "RoutedFlake_wf hb mb g" and nxt: "RoutedFlake_Next g h clk = Some (Inr i, g', clk')"
  obtains ms s where "next_stamp flakeSequenceMask (rf_lastMs g) (rf_sequence g) clk = Some (Inr (ms, s), clk')"
    and "g' = g\<lparr>rf_sequence := s, rf_lastMs := ms\<rparr>" and "0 \<le> h" "h < 2 ^ hb"
    and "i = (ms - snowflakeEpochMs) * 2 ^ 22 + h * 2 ^ (22 - hb) + routed_machine g * 2 ^ 10 + s"
    and "snowflakeEpochMs \<le> ms" "ms \<le> lastFlakeMs" "0 \<le> s" "s < 2 ^ 10"
proof -
  from nxt obtain ms s where
    n: "next_stamp flakeSequenceMask (rf_lastMs g) (rf_sequence g) clk = Some (Inr (ms, s), clk')"
    and e: "snowflakeEpochMs \<le> ms" "ms - snowflakeEpochMs \<le> maxFlakeTimestamp"
    and g': "g' = g\<lparr>rf_sequence := s, rf_lastMs := ms\<rparr>" and h: "0 \<le> h" "h \<le> hintMax g"
    and i: "i = ((shl (ms - snowflakeEpochMs) 22 OR shl h (hintShift g)) OR machinePart g) OR s"
    by (auto simp: RoutedFlake_Next_def Let_def split: option.splits sum.splits if_splits)
  have bits: "hb + mb \<le> 12" "hintShift g = 22 - hb" "hintMax g = 2 ^ hb - 1"
    and sw: "stamp_wf 10 (rf_lastMs g) (rf_sequence g)" using wf by (auto simp: RoutedFlake_wf_def)
  from next_stamp_step [OF n _ sw] have s: "0 \<le> s" "s < 2 ^ 10" by (auto simp: stamp_wf_def)
  have h': "h < 2 ^ hb" using h bits by simp
  have ms: "ms \<le> lastFlakeMs" "ms - snowflakeEpochMs < 2 ^ 41"
    using e by (auto simp: lastFlakeMs_def low_mask_eq)
  have "i = (ms - snowflakeEpochMs) * 2 ^ 22 + h * 2 ^ (22 - hb) + routed_machine g * 2 ^ 10 + s"
    unfolding i bits RoutedFlake_wf_machine(3) [OF wf]
    using e ms h h' s bits RoutedFlake_wf_machine [OF wf] by (intro routed_layout) auto
  then show thesis using that n g' h h' e ms s by blast
qed

lemma routed_fields:
  fixes i :: int
  assumes "0 \<le> h" "h < 2 ^ hb" "0 \<le> m" "m < 2 ^ mb" "hb + mb \<le> 12" "0 \<le> s" "s < 2 ^ 10"
    and i: "i = t * 2 ^ 22 + h * 2 ^ (22 - hb) + m * 2 ^ 10 + s"
  shows "i div 2 ^ 22 = t" "i mod 2 ^ 10 = s" "i div 2 ^ 10 mod 2 ^ mb = m" "i div 2 ^ (22 - hb) mod 2 ^ hb = h"
proof -
  let ?gap = "12 - hb - mb"
  have e: "(2::int) ^ 22 = 2 ^ hb * 2 ^ ?gap * 2 ^ mb * 2 ^ 10" "(2::int) ^ (22 - hb) = 2 ^ ?gap * 2 ^ mb * 2 ^ 10"
    using assms(5) by (simp_all only: power_add [symmetric]) simp_all
  have low: "0 \<le> m * 2 ^ 10 + s" "m * 2 ^ 10 + s < 2 ^ mb * 2 ^ 10"
    using assms mult_right_mono [of "m + 1" "2 ^ mb" "2 ^ 10"] by auto
  have "(2::int) ^ mb * 2 ^ 10 \<le> 2 ^ (22 - hb)"
    unfolding e by (simp add: mult_le_cancel_right1)
  with low have low': "m * 2 ^ 10 + s < 2 ^ (22 - hb)" by linarith
  have i1: "i = (t * 2 ^ hb + h) * 2 ^ (22 - hb) + (m * 2 ^ 10 + s)"
    unfolding i e by (simp add: algebra_simps)
  have i2: "i = ((t * 2 ^ hb + h) * 2 ^ ?gap * 2 ^ mb + m) * 2 ^ 10 + s"
    unfolding i e by (simp add: algebra_simps)
  have d1: "i div 2 ^ (22 - hb) = t * 2 ^ hb + h" unfolding i1 using low(1) low' by (rule div_field)
  have d2: "i div 2 ^ 10 = (t * 2 ^ hb + h) * 2 ^ ?gap * 2 ^ mb + m" unfolding i2 using assms(6,7) by (rule div_field)
  show "i mod 2 ^ 10 = s" unfolding i2 using assms(6,7) by (rule mod_field)
  show "i div 2 ^ 10 mod 2 ^ mb = m" unfolding d2 using assms(3,4) by (rule mod_field)
  show "i div 2 ^ (22 - hb) mod 2 ^ hb = h" unfolding d1 using assms(1,2) by (rule mod_field)
  have "22 = (22 - hb) + hb" using assms(5) by simp
  then have "i div 2 ^ 22 = i div 2 ^ (22 - hb) div 2 ^ hb" by (metis power_add zdiv_zmult2_eq zero_le_numeral zero_le_power)
  then show "i div 2 ^ 22 = t" unfolding d1 using div_field [OF assms(1,2)] by simp
qed

lemma RoutedFlake_Next_Inl:
  assumes wf: "RoutedFlake_wf hb mb g" and lim: "\<forall>ms\<in>set clk. ms \<le> lastFlakeMs"
    and nxt: "RoutedFlake_Next g h clk = Some (Inl e, g', clk')"
  shows "stamp_at (rf_lastMs g') (rf_sequence g') = stamp_at (rf_lastMs g) (rf_sequence g)
    \<and> RoutedFlake_wf hb mb g' \<and> routed_machine g' = routed_machine g \<and> set clk' \<subseteq> set clk"
proof -
  from nxt consider "g' = g" "set clk' \<subseteq> set clk"
    | ms s where "next_stamp flakeSequenceMask (rf_lastMs g) (rf_sequence g) clk = Some (Inr (ms, s), clk')"
        "g' = g\<lparr>rf_sequence := s\<rparr>" "ms < snowflakeEpochMs \<or> maxFlakeTimestamp < ms - snowflakeEpochMs"
    by (auto simp: RoutedFlake_Next_def Let_def split: option.splits sum.splits if_splits dest!: next_stamp_Inl)
  then show ?thesis
  proof cases
    case (2 ms s)
    have "stamp_wf 10 (rf_lastMs g) (rf_sequence g)" using wf by (simp add: RoutedFlake_wf_def)
    note st = next_stamp_step [OF 2(1) _ this]
    with 2(3) within_limit [OF lim] have "ms < snowflakeEpochMs" by auto
    with st 2(2) wf show ?thesis by (simp add: RoutedFlake_wf_def routed_machine_def)
  qed (use wf in simp)
qed

interpretation routed: flake RoutedFlake_Next "RoutedFlake_wf hb mb"
  "\<lambda>g. stamp_at (rf_lastMs g) (rf_sequence g)" routed_machine
  "\<lambda>i. (i div 2 ^ 22 + snowflakeEpochMs, i mod 2 ^ 10)" "\<lambda>i. i div 2 ^ 10 mod 2 ^ mb" lastFlakeMs
  for hb mb
proof (unfold_locales, goal_cases)
  case (1 g clk h i g' clk')
  from 1(3) obtain ms s where
    n: "next_stamp flakeSequenceMask (rf_lastMs g) (rf_sequence g) clk = Some (Inr (ms, s), clk')"
    and g': "g' = g\<lparr>rf_sequence := s, rf_lastMs := ms\<rparr>" and h: "0 \<le> h" "h < 2 ^ hb"
    and i: "i = (ms - snowflakeEpochMs) * 2 ^ 22 + h * 2 ^ (22 - hb) + routed_machine g * 2 ^ 10 + s"
    and e: "snowflakeEpochMs \<le> ms" and s: "0 \<le> s" "s < 2 ^ 10"
    using RoutedFlake_Next_Inr [OF 1(1)] by metis
  note m = RoutedFlake_wf_machine [OF 1(1)]
  have bits: "hb + mb \<le> 12" and sw: "stamp_wf 10 (rf_lastMs g) (rf_sequence g)"
    using 1(1) by (auto simp: RoutedFlake_wf_def)
  note f = routed_fields [OF h m(1,2) bits s i]
  show ?case using next_stamp_step [OF n _ sw] e g' f by (simp add: stamp_at_def)
next
  case (2 g clk h e g' clk')
  then show ?case using RoutedFlake_Next_Inl by blast
next
  case (3 g clk h r g' clk')
  show ?case
  proof (cases r)
    case (Inl e)
    with 3 show ?thesis using RoutedFlake_Next_Inl by blast
  next
    case (Inr i)
    with 3(3) obtain ms s where
      "next_stamp flakeSequenceMask (rf_lastMs g) (rf_sequence g) clk = Some (Inr (ms, s), clk')"
      "g' = g\<lparr>rf_sequence := s, rf_lastMs := ms\<rparr>"
      using RoutedFlake_Next_Inr [OF 3(1)] by metis
    moreover have "stamp_wf 10 (rf_lastMs g) (rf_sequence g)" using 3(1) by (simp add: RoutedFlake_wf_def)
    ultimately show ?thesis
      using 3(1) next_stamp_step by (fastforce simp: RoutedFlake_wf_def routed_machine_def)
  qed
qed

section \<open>Fresh generators are well-formed\<close>

lemma NewSnowflake_wf: "NewSnowflake n = Inr g \<Longrightarrow> Snowflake_wf g \<and> sf_nodeID g = n"
  by (auto simp: NewSnowflake_def Snowflake_wf_def stamp_wf_def low_mask_eq split: if_splits)

lemma NewAccountIDGenerator_wf: "NewAccountIDGenerator m = Inr g \<Longrightarrow> Account_wf g \<and> ag_machineID g = m"
  by (auto simp: NewAccountIDGenerator_def Account_wf_def stamp_wf_def low_mask_eq split: if_splits)

lemma NewRoutedFlake_wf:
  assumes new: "NewRoutedFlake cfg = Inr g" and small: "HintBits cfg < 64" "MachineBits cfg < 64"
  shows "RoutedFlake_wf (unat (HintBits cfg)) (unat (MachineBits cfg)) g \<and> routed_machine g = MachineID cfg"
proof -
  let ?h = "unat (HintBits cfg)" and ?m = "unat (MachineBits cfg)"
  from small have hm: "?h < 64" "?m < 64" by (simp_all add: word_less_nat_alt)
  have "unat (HintBits cfg + MachineBits cfg) = ?h + ?m"
    using hm by (intro unat_add_lem [THEN iffD1]) simp
  moreover from new have le: "HintBits cfg + MachineBits cfg \<le> 12"
    and id: "0 \<le> MachineID cfg" "MachineID cfg \<le> low_mask ?m"
    and g: "g = \<lparr>hintShift = unat (22 - HintBits cfg), hintMax = low_mask ?h,
        machinePart = shl (MachineID cfg) 10, rf_lastMs = -1, rf_sequence = 0\<rparr>"
    by (auto simp: NewRoutedFlake_def Let_def not_less split: if_splits)
  ultimately have sum: "?h + ?m \<le> 12" by (simp add: word_le_nat_alt)
  then have shift: "unat (22 - HintBits cfg) = 22 - ?h" by (subst unat_sub) (simp_all add: word_le_nat_alt)
  have m: "MachineID cfg < 2 ^ ?m" using id sum by (simp add: low_mask_eq)
  have "routed_machine g = MachineID cfg"
    using routed_machine_shl [OF id(1) m] sum g by (simp add: routed_machine_def)
  moreover have "RoutedFlake_wf ?h ?m g"
    using sum shift id m g by (auto simp: RoutedFlake_wf_def stamp_wf_def low_mask_eq)
  ultimately show ?thesis by simp
qed

section \<open>Properties\<close>



lemma Account_Next_facet:
  assumes wf: "Account_wf g" and nxt: "Account_Next g f clk = Some (Inr i, g', clk')"
  shows "AccountFacet i = f \<and> 0 \<le> i \<and> i < 2 ^ 63
    \<and> (i \<noteq> 0 \<longrightarrow> (IsAgentAccountID (FormatInt i) \<longleftrightarrow> f = FacetAgent))"
proof -
  obtain ms s where f: "0 \<le> f" "f < 2 ^ 3"
    and i: "i = (ms - snowflakeEpochMs) * 2 ^ 22 + f * 2 ^ 19 + ag_machineID g * 2 ^ 10 + s"
    and e: "snowflakeEpochMs \<le> ms" "ms \<le> lastFlakeMs" and s: "0 \<le> s" "s < 2 ^ 10"
    using Account_Next_Inr [OF wf nxt] by metis
  have m: "0 \<le> ag_machineID g" "ag_machineID g < 2 ^ 9" using wf by (auto simp: Account_wf_def)
  have t: "ms - snowflakeEpochMs < 2 ^ 41" using e by (simp add: lastFlakeMs_def low_mask_eq)
  have r: "0 \<le> i \<and> i < 2 ^ 63" unfolding i using e t f m s by auto
  have "i = ((ms - snowflakeEpochMs) * 2 ^ 3 + f) * 2 ^ 19 + (ag_machineID g * 2 ^ 10 + s)" unfolding i by simp
  then have "i div 2 ^ 19 = (ms - snowflakeEpochMs) * 2 ^ 3 + f"
    using m s by (simp only:) (rule div_field, auto)
  then have "i div 2 ^ 19 mod 2 ^ 3 = f" by (simp only: mod_field [OF f])
  then have facet: "AccountFacet i = f" by (simp add: AccountFacet_def drop_bit_eq_div and_low_mask)
  have "i \<noteq> 0 \<Longrightarrow> IsAgentAccountID (FormatInt i) \<longleftrightarrow> f = FacetAgent"
    using r facet by (simp add: IsAgentAccountID_def ParseInt_FormatInt int64_def IsAgent_def)
  with r facet show ?thesis by blast
qed

text \<open>
  The facet written into an account id is the facet read back from it, also from its decimal
  form: an id is classified as an agent's exactly when it was minted for an agent.
\<close>

theorem account_facet_roundtrip:
  assumes wf: "Account_wf g" and nxt: "Account_Next g f clk = Some (Inr i, g', clk')"
  shows "AccountFacet i = f \<and> 0 \<le> i \<and> i < 2 ^ 63
    \<and> (i \<noteq> 0 \<longrightarrow> (IsAgentAccountID (FormatInt i) \<longleftrightarrow> f = FacetAgent))"
  by (rule Account_Next_facet [OF wf nxt])

theorem account_facet_roundtrip_witness:
  "AccountFacet 21496832 = FacetHuman \<and> \<not> IsAgentAccountID ''21496832''"
proof -
  have wf: "Account_wf \<lparr>ag_machineID = 1, ag_lastMs = -1, ag_sequence = 0\<rparr>"
    by (simp add: Account_wf_def stamp_wf_def)
  have nxt: "Account_Next \<lparr>ag_machineID = 1, ag_lastMs = -1, ag_sequence = 0\<rparr> FacetHuman [1767225600005]
      = Some (Inr 21496832, \<lparr>ag_machineID = 1, ag_lastMs = 1767225600005, ag_sequence = 0\<rparr>, [])"
    by code_simp
  have "FormatInt 21496832 = ''21496832''" by (simp add: FormatInt_def decimal.simps)
  with account_facet_roundtrip [OF wf nxt] show ?thesis by (simp add: FacetAgent_def FacetHuman_def)
qed



text \<open>
  After a call that failed because the clock had run past the 41-bit range, a clock set back to
  the last millisecond makes the generator mint an id it has minted before: the failing call has
  already reset the sequence while the last millisecond stays.
\<close>

theorem account_overflow_repeats_id:
  "\<exists>g clk. Account_wf g \<and> \<not> distinct (mint_run Account_Next g (replicate 4 FacetHuman) clk)"
proof (intro exI conjI)
  let ?g = "\<lparr>ag_machineID = 0, ag_lastMs = -1, ag_sequence = 0\<rparr>"
  let ?clk = "[1767225600005, 1767225600005, 4000000000000, 1767225600005]"
  show "Account_wf ?g" by (simp add: Account_wf_def stamp_wf_def)
  have "mint_run Account_Next ?g (replicate 4 FacetHuman) ?clk = [21495808, 21495809, 21495809]"
    by code_simp
  then show "\<not> distinct (mint_run Account_Next ?g (replicate 4 FacetHuman) ?clk)" by simp
qed

text \<open>
  The process-wide generators can always be built: the default node and machine numbers are in
  range for every environment and host name, so their construction never panics.
\<close>

theorem default_generators_total:
  "(\<exists>g. NewSnowflake (defaultNodeID env host) = Inr g)
   \<and> (\<exists>g. NewAccountIDGenerator (defaultAccountMachineID env host) = Inr g)"
proof -
  have u: "uint (w mod 1024 :: 32 word) < 1024" "uint (w mod 512 :: 32 word) < 512" for w
    by (simp_all add: uint_mod)
  have "0 \<le> defaultNodeID env host \<and> defaultNodeID env host \<le> maxNodeID"
    using u(1) [THEN zless_imp_add1_zle]
    by (auto simp: defaultNodeID_def Let_def low_mask_eq split: option.splits if_splits)
  moreover have "0 \<le> defaultAccountMachineID env host \<and> defaultAccountMachineID env host \<le> maxAccountMachineID"
    using u(2) [THEN zless_imp_add1_zle]
    by (auto simp: defaultAccountMachineID_def Let_def low_mask_eq split: option.splits if_splits)
  ultimately show ?thesis by (simp add: NewSnowflake_def NewAccountIDGenerator_def)
qed

end
