(* ===== verification/Msg_Send.thy ===== *)
theory Msg_Send
  imports Msg_Model Id_Gen
begin

text \<open>
  The write path of msg-rpc (\<^verbatim>\<open>service/msg/rpc/internal/logic\<close>): the rules that normalise a send
  request (\<^verbatim>\<open>message_rules.go\<close>), \<^verbatim>\<open>SendMessage\<close> with the resolution of group participants, and
  \<^verbatim>\<open>sendDirectKafka\<close>, whose only write is one record on \<^verbatim>\<open>msg.toTransfer.v1\<close>. The
  validators of other services (media-rpc, groups-rpc) are parameters.
\<close>

section \<open>Rules\<close>

definition normalizeMessageRequiredID :: "string \<Rightarrow> string \<Rightarrow> string result" where
  "normalizeMessageRequiredID value field =
     (let v = TrimSpace value
      in if v = [] then Inl (InvalidArgument (field @ '' is required''))
         else if rune_count v > 128 then Inl (InvalidArgument (field @ '' must be 128 characters or fewer''))
         else if CHR 0x00 \<in> set v then Inl (InvalidArgument (field @ '' cannot contain NUL''))
         else Inr v)"

definition normalizeMessageConversationComponentID :: "string \<Rightarrow> string \<Rightarrow> string result" where
  "normalizeMessageConversationComponentID value field =
     (case normalizeMessageRequiredID value field of
        Inl e \<Rightarrow> Inl e
      | Inr v \<Rightarrow> if CHR '':'' \<in> set v then Inl (InvalidArgument (field @ '' cannot contain colon'')) else Inr v)"

definition normalizeConversationID :: "string \<Rightarrow> string result" where
  "normalizeConversationID value =
     (let v = TrimSpace value
      in if v = [] then Inl (InvalidArgument ''conversation_id is required'')
         else if rune_count v > 256 then Inl (InvalidArgument ''conversation_id must be 256 characters or fewer'')
         else if CHR 0x00 \<in> set v then Inl (InvalidArgument ''conversation_id cannot contain NUL'')
         else Inr v)"

fun collect_at_ids :: "string set \<Rightarrow> string list \<Rightarrow> string list result" where
  "collect_at_ids seen [] = Inr []"
| "collect_at_ids seen (raw # raws) =
     (let i = TrimSpace raw
      in if i = [] then collect_at_ids seen raws
         else if rune_count i > 128 then Inl (InvalidArgument ''atUserList entry must be 128 characters or fewer'')
         else if i \<in> seen then collect_at_ids seen raws
         else map_sum id (\<lambda>is. i # is) (collect_at_ids (insert i seen) raws))"

definition parseAtContent :: "json_lib \<Rightarrow> string \<Rightarrow> string list result" where
  "parseAtContent js content =
     (if \<not> json_valid js content then Inl (InvalidArgument ''content must be valid JSON for at messages'')
      else case at_decode js content of
        None \<Rightarrow> Inl (InvalidArgument ''content must be valid JSON for at messages'')
      | Some (rawText, atUserList) \<Rightarrow>
          let t = TrimSpace rawText
          in if t = [] then Inl (InvalidArgument ''at message text is required'')
             else if rune_count t > 4096 then Inl (InvalidArgument ''at message text must be 4096 characters or fewer'')
             else case collect_at_ids {} atUserList of
               Inl e \<Rightarrow> Inl e
             | Inr ids \<Rightarrow>
                 if ids = [] then Inl (InvalidArgument ''atUserList must contain at least one user id'')
                 else if length ids > 50 then Inl (InvalidArgument ''atUserList must contain 50 user ids or fewer'')
                 else Inr ids)"

definition extractAtUserIDs :: "json_lib \<Rightarrow> string \<Rightarrow> string \<Rightarrow> string list" where
  "extractAtUserIDs js contentType content =
     (if contentType \<noteq> ContentTypeAt then []
      else (case parseAtContent js content of Inl _ \<Rightarrow> [] | Inr ids \<Rightarrow> ids))"

text \<open>\<open>media\<close> is the injected validator, \<^const>\<open>None\<close> when it is not configured; it returns the error of media-rpc, if any.\<close>

type_synonym media_validator = "(string \<Rightarrow> string \<Rightarrow> string \<Rightarrow> goerror option) option"

definition normalizeMessageContent ::
  "json_lib \<Rightarrow> media_validator \<Rightarrow> string \<Rightarrow> string \<Rightarrow> string \<Rightarrow> (string \<times> string) result" where
  "normalizeMessageContent js media senderID rawContentType rawContent =
     (let contentType = ToLower (TrimSpace rawContentType); content = TrimSpace rawContent
      in if contentType = ContentTypeText then
           (if content = [] then Inl (InvalidArgument ''content is required'')
            else if rune_count content > 4096 then Inl (InvalidArgument ''content must be 4096 characters or fewer'')
            else Inr (contentType, content))
         else if contentType = ContentTypeImage \<or> contentType = ContentTypeFile then
           (if content = [] then Inl (InvalidArgument ''content is required'')
            else if rune_count content > 8192 then Inl (InvalidArgument ''content must be 8192 characters or fewer'')
            else if \<not> json_valid js content then Inl (InvalidArgument ''content must be valid JSON for image/file messages'')
            else case media of
              None \<Rightarrow> Inl (Internal ''media validator is not configured'')
            | Some validate \<Rightarrow>
                (case validate senderID contentType content of
                   Some e \<Rightarrow> Inl e
                 | None \<Rightarrow> Inr (contentType, content)))
         else if contentType = ContentTypeAt then
           (if content = [] then Inl (InvalidArgument ''content is required'')
            else if rune_count content > 8192 then Inl (InvalidArgument ''content must be 8192 characters or fewer'')
            else case parseAtContent js content of
              Inl e \<Rightarrow> Inl e
            | Inr _ \<Rightarrow> Inr (contentType, content))
         else Inl (InvalidArgument ''content_type must be text, image, file, or at''))"

record normalizedSend =
  n_SenderID :: string
  n_ReceiverID :: string
  n_GroupID :: string
  n_ChatType :: string
  n_ClientMsgID :: string
  n_ContentType :: string
  n_Content :: string
  n_MessageOrigin :: string
  n_AgentAccountID :: string
  n_TriggerServerMsgID :: string
  n_AgentRunID :: string
  n_AllowRecursiveTrigger :: bool
  n_ParticipantUserIDs :: "string list"
  n_ConversationID :: string

definition applyMessageOriginMetadata ::
  "normalizedSend \<Rightarrow> string \<Rightarrow> string \<Rightarrow> string \<Rightarrow> string \<Rightarrow> bool \<Rightarrow> normalizedSend result" where
  "applyMessageOriginMetadata input rawOrigin agentAccountID triggerServerMsgID agentRunID allowRecursiveTrigger =
     (let o1 = ToLower (TrimSpace rawOrigin);
          origin = (if o1 = [] then MessageOriginHuman else o1)
      in if origin \<notin> {MessageOriginHuman, MessageOriginAI, MessageOriginSystem}
         then Inl (InvalidArgument ''message_origin must be human, ai, or system'')
         else let i1 = input\<lparr>n_MessageOrigin := origin,
                    n_AgentAccountID := TrimSpace agentAccountID,
                    n_TriggerServerMsgID := TrimSpace triggerServerMsgID,
                    n_AgentRunID := TrimSpace agentRunID,
                    n_AllowRecursiveTrigger := allowRecursiveTrigger\<rparr>
         in if origin \<noteq> MessageOriginAI then
              (if n_AgentAccountID i1 \<noteq> [] \<or> n_TriggerServerMsgID i1 \<noteq> [] \<or> n_AgentRunID i1 \<noteq> []
                  \<or> n_AllowRecursiveTrigger i1
               then Inl (InvalidArgument ''agent metadata is only allowed for ai messages'')
               else Inr i1)
            else let i2 = (if n_AgentAccountID i1 = [] then i1\<lparr>n_AgentAccountID := n_SenderID i1\<rparr> else i1)
                 in if n_AgentAccountID i2 \<noteq> n_SenderID i2
                    then Inl (InvalidArgument ''agent_account_id must match sender_id for ai messages'')
                    else Inr i2)"

section \<open>SendMessage: normalisation\<close>

record SendMessageRequest =
  r_SenderId :: string
  r_ReceiverId :: string
  r_GroupId :: string
  r_ChatType :: string
  r_ClientMsgId :: string
  r_ContentType :: string
  r_Content :: string
  r_MessageOrigin :: string
  r_AgentAccountId :: string
  r_TriggerServerMsgId :: string
  r_AgentRunId :: string
  r_AllowRecursiveTrigger :: bool

record GroupMemberInfo =
  gm_UserID :: string
  gm_State :: string

text \<open>\<open>groups g u\<close> is \<^verbatim>\<open>ListMembers\<close> of groups-rpc for the group \<open>g\<close>, asked by \<open>u\<close>.\<close>

type_synonym group_lister = "(string \<Rightarrow> string \<Rightarrow> GroupMemberInfo list result) option"

fun active_participants :: "string set \<Rightarrow> GroupMemberInfo list \<Rightarrow> string list" where
  "active_participants seen [] = []"
| "active_participants seen (m # ms) =
     (if gm_State m \<noteq> [] \<and> gm_State m \<noteq> ''active'' then active_participants seen ms
      else let userID = TrimSpace (gm_UserID m)
           in if userID = [] then active_participants seen ms
              else if userID \<in> seen then active_participants seen ms
              else userID # active_participants (insert userID seen) ms)"

definition resolveGroupParticipants :: "group_lister \<Rightarrow> string \<Rightarrow> string \<Rightarrow> string list result" where
  "resolveGroupParticipants groups groupID senderID =
     (case groups of
        None \<Rightarrow> Inl (Internal ''group membership validator is not configured'')
      | Some listMembers \<Rightarrow>
          (case listMembers groupID senderID of
             Inl e \<Rightarrow> Inl e
           | Inr members \<Rightarrow>
               let participantIDs = active_participants {} members
               in if senderID \<notin> set participantIDs then Inl (Forbidden ''sender is not a group member'')
                  else Inr participantIDs))"

definition normalize_chat ::
  "group_lister \<Rightarrow> SendMessageRequest \<Rightarrow> normalizedSend \<Rightarrow> normalizedSend result" where
  "normalize_chat groups req ns =
     (if n_ChatType ns = ChatTypeSingle then
        (case normalizeMessageConversationComponentID (r_ReceiverId req) ''receiver_id'' of
           Inl e \<Rightarrow> Inl e
         | Inr receiverID \<Rightarrow>
             if n_SenderID ns = receiverID
             then Inl (InvalidArgument ''sender_id and receiver_id must be different'')
             else if TrimSpace (r_GroupId req) \<noteq> []
             then Inl (InvalidArgument ''group_id must be empty for single chat'')
             else Inr (ns\<lparr>n_ReceiverID := receiverID,
                          n_ParticipantUserIDs := [n_SenderID ns, receiverID],
                          n_ConversationID := SingleConversationID (n_SenderID ns) receiverID\<rparr>))
      else if n_ChatType ns = ChatTypeGroup then
        (case normalizeMessageConversationComponentID (r_GroupId req) ''group_id'' of
           Inl e \<Rightarrow> Inl e
         | Inr groupID \<Rightarrow>
             if TrimSpace (r_ReceiverId req) \<noteq> []
             then Inl (InvalidArgument ''receiver_id must be empty for group chat'')
             else (case resolveGroupParticipants groups groupID (n_SenderID ns) of
                 Inl e \<Rightarrow> Inl e
               | Inr participants \<Rightarrow>
                   Inr (ns\<lparr>n_GroupID := groupID,
                          n_ParticipantUserIDs := participants,
                          n_ConversationID := GroupConversationID groupID\<rparr>)))
      else Inl (InvalidArgument ''chat_type must be single or group''))"

definition normalize ::
  "json_lib \<Rightarrow> media_validator \<Rightarrow> group_lister \<Rightarrow> SendMessageRequest \<Rightarrow> normalizedSend result" where
  "normalize js media groups req =
     (case normalizeMessageConversationComponentID (r_SenderId req) ''sender_id'' of
        Inl e \<Rightarrow> Inl e
      | Inr senderID \<Rightarrow>
          (let chatType = ToLower (TrimSpace (r_ChatType req))
           in case normalizeMessageRequiredID (r_ClientMsgId req) ''client_msg_id'' of
                Inl e \<Rightarrow> Inl e
              | Inr clientMsgID \<Rightarrow>
                  (case normalizeMessageContent js media senderID (r_ContentType req) (r_Content req) of
                     Inl e \<Rightarrow> Inl e
                   | Inr (contentType, content) \<Rightarrow>
                       (case applyMessageOriginMetadata
                           \<lparr>n_SenderID = senderID, n_ReceiverID = [], n_GroupID = [], n_ChatType = chatType,
                            n_ClientMsgID = clientMsgID, n_ContentType = contentType, n_Content = content,
                            n_MessageOrigin = [], n_AgentAccountID = [], n_TriggerServerMsgID = [],
                            n_AgentRunID = [], n_AllowRecursiveTrigger = False,
                            n_ParticipantUserIDs = [], n_ConversationID = []\<rparr>
                           (r_MessageOrigin req) (r_AgentAccountId req) (r_TriggerServerMsgId req)
                           (r_AgentRunId req) (r_AllowRecursiveTrigger req) of
                          Inl e \<Rightarrow> Inl e
                        | Inr ns0 \<Rightarrow>
                            (case normalize_chat groups req ns0 of
                               Inl e \<Rightarrow> Inl e
                             | Inr ns \<Rightarrow>
                                 (case normalizeConversationID (n_ConversationID ns) of
                                    Inl e \<Rightarrow> Inl e
                                  | Inr _ \<Rightarrow> Inr ns))))))"

section \<open>SendMessage: publication\<close>

definition MsgHintForChatType :: "string \<Rightarrow> int" where
  "MsgHintForChatType chatType = (if chatType = ChatTypeSingle then 1 else 0)"

definition normalizedOrigin :: "string \<Rightarrow> string" where
  "normalizedOrigin origin = (if origin = [] then MessageOriginHuman else origin)"

text \<open>
  What the handler changes: the message-id generator of the service, the process-wide event-id
  generator, the clock readings left, and the broker. \<open>hash\<close> is the hex SHA-256 of the JSON of the
  request, \<open>trace\<close> the four fields of the trace context.
\<close>

record send_world =
  w_msgIDGen :: RoutedFlake
  w_snowflake :: Snowflake
  w_clock :: clock
  w_log :: broker_log

type_synonym trace = "string \<times> string \<times> string \<times> string"

definition submitted_event ::
  "json_lib \<Rightarrow> normalizedSend \<Rightarrow> string \<Rightarrow> trace \<Rightarrow> int \<Rightarrow> string \<Rightarrow> string \<Rightarrow> int \<Rightarrow> MessageEvent" where
  "submitted_event js ns payloadHash trace serverMsgIDInt eventID contentJSON now =
     (let (traceID, requestID, traceParent, traceState) = trace in
      \<lparr>EventID = eventID,
       EventType = EventTypeMessageSubmitted,
       ConversationID = n_ConversationID ns,
       ServerMsgID = FormatInt serverMsgIDInt,
       Seq = 0,
       SenderID = n_SenderID ns,
       ChatType = n_ChatType ns,
       CreatedAt = now,
       Payload =
         \<lparr>p_ClientMsgID = n_ClientMsgID ns,
          p_ReceiverID = n_ReceiverID ns,
          p_ReceiverIDs = [],
          p_GroupID = n_GroupID ns,
          p_ContentType = n_ContentType ns,
          p_Content = contentJSON,
          p_MessageOrigin = normalizedOrigin (n_MessageOrigin ns),
          p_AgentAccountID = n_AgentAccountID ns,
          p_TriggerServerMsgID = n_TriggerServerMsgID ns,
          p_AgentRunID = n_AgentRunID ns,
          p_AllowRecursiveTrigger = n_AllowRecursiveTrigger ns,
          p_UserID = [], p_HasReadSeq = 0, p_ReadAt = 0,
          p_VisibleUserIDs = VisibleUserIDs (n_SenderID ns) (n_ReceiverID ns) (n_ChatType ns) (n_ParticipantUserIDs ns),
          p_AtUserIDs = extractAtUserIDs js (n_ContentType ns) (n_Content ns),
          p_PayloadHash = payloadHash,
          p_SendTime = now,
          p_TraceID = traceID, p_RequestID = requestID,
          p_TraceParent = traceParent, p_TraceState = traceState\<rparr>\<rparr>)"

definition ack_message ::
  "json_lib \<Rightarrow> normalizedSend \<Rightarrow> string \<Rightarrow> int \<Rightarrow> string \<Rightarrow> int \<Rightarrow> (PbMessage \<times> bool) result" where
  "ack_message js ns payloadHash serverMsgIDInt contentJSON now =
     (case ConversationTypeValue (n_ChatType ns) of
        Inl e \<Rightarrow> Inl (ToStatus e)
      | Inr conversationType \<Rightarrow>
          (case ContentTypeValue (n_ContentType ns) of
             Inl e \<Rightarrow> Inl (ToStatus e)
           | Inr contentType \<Rightarrow>
               (case MessageOriginValue (n_MessageOrigin ns) of
                  Inl e \<Rightarrow> Inl (ToStatus e)
                | Inr messageOrigin \<Rightarrow>
                    Inr (messageToPB js
                      \<lparr>MessageId = serverMsgIDInt, ClientMsgId = n_ClientMsgID ns,
                       SenderAccountId = n_SenderID ns, ConversationId = n_ConversationID ns, MsgSeq = 0,
                       ConversationType = conversationType, ReceiverAccountId = n_ReceiverID ns,
                       GroupId = n_GroupID ns, ContentType = contentType, Content = contentJSON,
                       MessageOrigin = messageOrigin, AgentAccountId = n_AgentAccountID ns,
                       TriggerMessageId = n_TriggerServerMsgID ns, AgentRunId = n_AgentRunID ns,
                       AllowRecursiveTrigger = n_AllowRecursiveTrigger ns, PayloadHash = payloadHash,
                       ClientSendTime = Some now, ServerReceivedAt = now\<rparr>, False))))"

definition sendDirectKafka ::
  "json_lib \<Rightarrow> trace \<Rightarrow> normalizedSend \<Rightarrow> string \<Rightarrow> send_world world
     \<Rightarrow> ((PbMessage \<times> bool) result \<times> send_world world) option" where
  "sendDirectKafka js trace ns payloadHash W =
     (let (w, fs) = W in
      case RoutedFlake_Next (w_msgIDGen w) (MsgHintForChatType (n_ChatType ns)) (w_clock w) of
        None \<Rightarrow> None
      | Some (Inl _, g', clk1) \<Rightarrow>
          Some (Inl (ToStatus (Internal ''could not allocate message id'')), (w\<lparr>w_msgIDGen := g', w_clock := clk1\<rparr>, fs))
      | Some (Inr serverMsgIDInt, g', clk1) \<Rightarrow>
          (let w1 = w\<lparr>w_msgIDGen := g', w_clock := clk1\<rparr> in
           case Snowflake_Next (w_snowflake w1) () clk1 of
             None \<Rightarrow> None
           | Some (Inl e, sf, clk2) \<Rightarrow> Some (Inl (ToStatus e), (w1\<lparr>w_snowflake := sf, w_clock := clk2\<rparr>, fs))
           | Some (Inr eventID, sf, clk2) \<Rightarrow>
               (let w2 = w1\<lparr>w_snowflake := sf, w_clock := clk2\<rparr> in
                case EncodeMessageContent js (n_ContentType ns) (n_Content ns) of
                  Inl e \<Rightarrow> Some (Inl (ToStatus e), (w2, fs))
                | Inr contentJSON \<Rightarrow>
                    (case clk2 of
                       [] \<Rightarrow> None
                     | now # clk3 \<Rightarrow>
                         (let event = submitted_event js ns payloadHash trace serverMsgIDInt (FormatInt eventID) contentJSON now
                          in case PublishEvent js w_log_update TopicToTransfer event (w2\<lparr>w_clock := clk3\<rparr>, fs) of
                               (Inl _, W') \<Rightarrow> Some (Inl (ToStatus (Internal ''message queue unavailable'')), W')
                             | (Inr _, W') \<Rightarrow> Some (ack_message js ns payloadHash serverMsgIDInt contentJSON now, W'))))))"

definition SendMessage ::
  "json_lib \<Rightarrow> media_validator \<Rightarrow> group_lister \<Rightarrow> (normalizedSend \<Rightarrow> string) \<Rightarrow> bool \<Rightarrow> trace \<Rightarrow> SendMessageRequest
     \<Rightarrow> send_world world \<Rightarrow> ((PbMessage \<times> bool) result \<times> send_world world) option" where
  "SendMessage js media groups messagePayloadHash hasProducer trace req W =
     (case normalize js media groups req of
        Inl e \<Rightarrow> Some (Inl (ToStatus e), W)
      | Inr ns \<Rightarrow>
          if \<not> hasProducer then Some (Inl (ToStatus (Internal ''kafka producer is not configured'')), W)
          else sendDirectKafka js trace ns (messagePayloadHash ns) W)"

section \<open>What normalisation guarantees\<close>

lemma normalizeMessageRequiredID_Inr:
  "normalizeMessageRequiredID value field = Inr v \<Longrightarrow>
     v = TrimSpace value \<and> v \<noteq> [] \<and> trimmed v \<and> rune_count v \<le> 128 \<and> CHR 0x00 \<notin> set v"
  by (auto simp: normalizeMessageRequiredID_def Let_def trimmed_TrimSpace split: if_splits)

lemma normalizeMessageConversationComponentID_Inr:
  "normalizeMessageConversationComponentID value field = Inr v \<Longrightarrow>
     v = TrimSpace value \<and> v \<noteq> [] \<and> trimmed v \<and> rune_count v \<le> 128 \<and> CHR 0x00 \<notin> set v \<and> CHR '':'' \<notin> set v"
  by (auto simp: normalizeMessageConversationComponentID_def trimmed_TrimSpace
      dest!: normalizeMessageRequiredID_Inr split: if_splits sum.splits)

lemma collect_at_ids_Inr:
  "collect_at_ids seen raws = Inr ids \<Longrightarrow>
     distinct ids \<and> set ids \<inter> seen = {} \<and> set ids \<union> seen = seen \<union> {TrimSpace r |r. r \<in> set raws \<and> TrimSpace r \<noteq> []}"
proof (induction raws arbitrary: seen ids)
  case (Cons r raws)
  let ?i = "TrimSpace r"
  show ?case
  proof (cases "?i = [] \<or> ?i \<in> seen")
    case True
    then have "collect_at_ids seen raws = Inr ids"
      using Cons.prems by (auto simp: Let_def split: if_splits)
    from Cons.IH [OF this] True show ?thesis by auto
  next
    case False
    then obtain ids' where "ids = ?i # ids'" "collect_at_ids (insert ?i seen) raws = Inr ids'"
      using Cons.prems by (cases "collect_at_ids (insert ?i seen) raws") (auto simp: Let_def split: if_splits)
    with Cons.IH [OF this(2)] False show ?thesis by (auto simp: set_eq_iff)
  qed
qed simp

lemma parseAtContent_Inr:
  "parseAtContent js content = Inr ids \<Longrightarrow> json_valid js content \<and> ids \<noteq> [] \<and> length ids \<le> 50 \<and> distinct ids \<and> [] \<notin> set ids"
  by (auto simp: parseAtContent_def Let_def split: if_splits option.splits sum.splits prod.splits
      dest!: collect_at_ids_Inr)

lemma normalizeMessageContent_Inr:
  "normalizeMessageContent js media senderID rawType raw = Inr (t, c) \<Longrightarrow>
     t = ToLower (TrimSpace rawType) \<and> t \<in> {ContentTypeText, ContentTypeImage, ContentTypeFile, ContentTypeAt}
     \<and> c = TrimSpace raw \<and> c \<noteq> [] \<and> rune_count c \<le> 8192 \<and> (t \<noteq> ContentTypeText \<longrightarrow> json_valid js c)"
  by (auto simp: normalizeMessageContent_def Let_def split: if_splits option.splits sum.splits
      dest: parseAtContent_Inr)

lemma applyMessageOriginMetadata_Inr:
  "applyMessageOriginMetadata ns o' a t r b = Inr ns' \<Longrightarrow>
     n_MessageOrigin ns' \<in> {MessageOriginHuman, MessageOriginAI, MessageOriginSystem}
     \<and> (n_MessageOrigin ns' \<noteq> MessageOriginAI \<longrightarrow>
          n_AgentAccountID ns' = [] \<and> n_TriggerServerMsgID ns' = [] \<and> n_AgentRunID ns' = [] \<and> \<not> n_AllowRecursiveTrigger ns')
     \<and> (n_MessageOrigin ns' = MessageOriginAI \<longrightarrow> n_AgentAccountID ns' = n_SenderID ns)
     \<and> n_SenderID ns' = n_SenderID ns \<and> n_ReceiverID ns' = n_ReceiverID ns \<and> n_GroupID ns' = n_GroupID ns
     \<and> n_ChatType ns' = n_ChatType ns \<and> n_ClientMsgID ns' = n_ClientMsgID ns
     \<and> n_ContentType ns' = n_ContentType ns \<and> n_Content ns' = n_Content ns"
  by (auto simp: applyMessageOriginMetadata_def Let_def split: if_splits)

lemma active_participants_set:
  "set (active_participants seen ms) =
     {TrimSpace (gm_UserID m) |m. m \<in> set ms \<and> gm_State m \<in> {[], ''active''} \<and> TrimSpace (gm_UserID m) \<noteq> []} - seen"
proof (induction ms arbitrary: seen)
  case (Cons m ms)
  show ?case
    by (cases "gm_State m \<in> {[], ''active''} \<and> TrimSpace (gm_UserID m) \<noteq> [] \<and> TrimSpace (gm_UserID m) \<notin> seen")
      (auto simp: Let_def Cons.IH)
qed simp

lemma distinct_active_participants: "distinct (active_participants seen ms)"
  by (induction ms arbitrary: seen) (auto simp: Let_def active_participants_set)

lemma resolveGroupParticipants_Inr:
  "resolveGroupParticipants groups g s = Inr ps \<Longrightarrow>
     s \<in> set ps \<and> distinct ps \<and> (\<forall>p\<in>set ps. trimmed p \<and> p \<noteq> [])
     \<and> (\<exists>lister ms. groups = Some lister \<and> lister g s = Inr ms \<and> ps = active_participants {} ms)"
  by (auto simp: resolveGroupParticipants_def Let_def distinct_active_participants active_participants_set
      trimmed_TrimSpace split: option.splits sum.splits if_splits)

text \<open>What every normalised send satisfies; the rest of the handler and the pipeline rely on it.\<close>

definition send_wf :: "json_lib \<Rightarrow> group_lister \<Rightarrow> normalizedSend \<Rightarrow> bool" where
  "send_wf js groups ns \<longleftrightarrow>
     n_SenderID ns \<noteq> [] \<and> trimmed (n_SenderID ns) \<and> CHR '':'' \<notin> set (n_SenderID ns)
     \<and> n_ClientMsgID ns \<noteq> [] \<and> trimmed (n_ClientMsgID ns)
     \<and> n_ContentType ns \<in> {ContentTypeText, ContentTypeImage, ContentTypeFile, ContentTypeAt}
     \<and> n_Content ns \<noteq> [] \<and> trimmed (n_Content ns)
     \<and> (n_ContentType ns \<noteq> ContentTypeText \<longrightarrow> json_valid js (n_Content ns))
     \<and> n_MessageOrigin ns \<in> {MessageOriginHuman, MessageOriginAI, MessageOriginSystem}
     \<and> (n_MessageOrigin ns = MessageOriginAI \<longrightarrow> n_AgentAccountID ns = n_SenderID ns)
     \<and> (n_MessageOrigin ns \<noteq> MessageOriginAI \<longrightarrow> n_AgentAccountID ns = [] \<and> n_TriggerServerMsgID ns = []
          \<and> n_AgentRunID ns = [] \<and> \<not> n_AllowRecursiveTrigger ns)
     \<and> n_SenderID ns \<in> set (n_ParticipantUserIDs ns) \<and> distinct (n_ParticipantUserIDs ns)
     \<and> (\<forall>p\<in>set (n_ParticipantUserIDs ns). trimmed p \<and> p \<noteq> [])
     \<and> (n_ChatType ns = ChatTypeSingle \<and> n_GroupID ns = []
          \<and> n_ReceiverID ns \<noteq> [] \<and> n_ReceiverID ns \<noteq> n_SenderID ns
          \<and> n_ParticipantUserIDs ns = [n_SenderID ns, n_ReceiverID ns]
          \<and> singleConversationParticipants (n_ConversationID ns) = Some (orderedSingleUsers (n_SenderID ns) (n_ReceiverID ns))
        \<or> n_ChatType ns = ChatTypeGroup \<and> n_ReceiverID ns = []
          \<and> resolveGroupParticipants groups (n_GroupID ns) (n_SenderID ns) = Inr (n_ParticipantUserIDs ns)
          \<and> n_ConversationID ns = GroupConversationID (n_GroupID ns)
          \<and> groupIDFromConversationID (n_ConversationID ns) = Some (n_GroupID ns))"

lemma normalize_chat_Inr:
  assumes r: "normalize_chat groups req ns = Inr ns'" and s: "trimmed (n_SenderID ns)" "n_SenderID ns \<noteq> []"
      "CHR '':'' \<notin> set (n_SenderID ns)" and e: "n_ReceiverID ns = []" "n_GroupID ns = []"
  shows "(n_ChatType ns' = ChatTypeSingle \<and> n_GroupID ns' = []
          \<and> n_ReceiverID ns' \<noteq> [] \<and> n_ReceiverID ns' \<noteq> n_SenderID ns \<and> trimmed (n_ReceiverID ns')
          \<and> n_ParticipantUserIDs ns' = [n_SenderID ns, n_ReceiverID ns']
          \<and> singleConversationParticipants (n_ConversationID ns') = Some (orderedSingleUsers (n_SenderID ns) (n_ReceiverID ns'))
        \<or> n_ChatType ns' = ChatTypeGroup \<and> n_ReceiverID ns' = []
          \<and> resolveGroupParticipants groups (n_GroupID ns') (n_SenderID ns) = Inr (n_ParticipantUserIDs ns')
          \<and> n_ConversationID ns' = GroupConversationID (n_GroupID ns')
          \<and> groupIDFromConversationID (n_ConversationID ns') = Some (n_GroupID ns'))
    \<and> n_SenderID ns' = n_SenderID ns \<and> n_ClientMsgID ns' = n_ClientMsgID ns \<and> n_ContentType ns' = n_ContentType ns
    \<and> n_Content ns' = n_Content ns \<and> n_MessageOrigin ns' = n_MessageOrigin ns \<and> n_AgentAccountID ns' = n_AgentAccountID ns
    \<and> n_TriggerServerMsgID ns' = n_TriggerServerMsgID ns \<and> n_AgentRunID ns' = n_AgentRunID ns
    \<and> n_AllowRecursiveTrigger ns' = n_AllowRecursiveTrigger ns"
proof (cases "n_ChatType ns = ChatTypeSingle")
  case True
  then obtain v where v: "normalizeMessageConversationComponentID (r_ReceiverId req) ''receiver_id'' = Inr v"
      "v \<noteq> n_SenderID ns"
      "ns' = ns\<lparr>n_ReceiverID := v, n_ParticipantUserIDs := [n_SenderID ns, v],
                n_ConversationID := SingleConversationID (n_SenderID ns) v\<rparr>"
    using r by (auto simp: normalize_chat_def split: sum.splits if_splits)
  then show ?thesis
    using normalizeMessageConversationComponentID_Inr [OF v(1)] s e True
    by (auto simp: participants_SingleConversationID)
next
  case False
  then obtain g ps where g: "normalizeMessageConversationComponentID (r_GroupId req) ''group_id'' = Inr g"
      "resolveGroupParticipants groups g (n_SenderID ns) = Inr ps" "n_ChatType ns = ChatTypeGroup"
      "ns' = ns\<lparr>n_GroupID := g, n_ParticipantUserIDs := ps, n_ConversationID := GroupConversationID g\<rparr>"
    using r by (auto simp: normalize_chat_def split: sum.splits if_splits)
  then show ?thesis
    using normalizeMessageConversationComponentID_Inr [OF g(1)] e by (auto simp: groupID_GroupConversationID)
qed

lemma normalize_Inr:
  assumes "normalize js media groups req = Inr ns"
  shows "send_wf js groups ns \<and> n_SenderID ns = TrimSpace (r_SenderId req)
    \<and> n_ClientMsgID ns = TrimSpace (r_ClientMsgId req) \<and> n_Content ns = TrimSpace (r_Content req)"
proof -
  obtain senderID clientMsgID contentType content ns0 where
    c: "normalizeMessageConversationComponentID (r_SenderId req) ''sender_id'' = Inr senderID"
       "normalizeMessageRequiredID (r_ClientMsgId req) ''client_msg_id'' = Inr clientMsgID"
       "normalizeMessageContent js media senderID (r_ContentType req) (r_Content req) = Inr (contentType, content)"
    and m: "applyMessageOriginMetadata
             \<lparr>n_SenderID = senderID, n_ReceiverID = [], n_GroupID = [], n_ChatType = ToLower (TrimSpace (r_ChatType req)),
              n_ClientMsgID = clientMsgID, n_ContentType = contentType, n_Content = content,
              n_MessageOrigin = [], n_AgentAccountID = [], n_TriggerServerMsgID = [],
              n_AgentRunID = [], n_AllowRecursiveTrigger = False,
              n_ParticipantUserIDs = [], n_ConversationID = []\<rparr>
             (r_MessageOrigin req) (r_AgentAccountId req) (r_TriggerServerMsgId req)
             (r_AgentRunId req) (r_AllowRecursiveTrigger req) = Inr ns0"
    and n: "normalize_chat groups req ns0 = Inr ns"
    using assms by (auto simp: normalize_def Let_def split: sum.splits prod.splits)
  note m' = applyMessageOriginMetadata_Inr [OF m, simplified]
  note c1 = normalizeMessageConversationComponentID_Inr [OF c(1)]
    and c2 = normalizeMessageRequiredID_Inr [OF c(2)] and c3 = normalizeMessageContent_Inr [OF c(3)]
  have e: "trimmed (n_SenderID ns0)" "n_SenderID ns0 \<noteq> []" "CHR '':'' \<notin> set (n_SenderID ns0)"
      "n_ReceiverID ns0 = []" "n_GroupID ns0 = []"
    using c1 m' by auto
  note n' = normalize_chat_Inr [OF n e]
  have "n_SenderID ns \<in> set (n_ParticipantUserIDs ns) \<and> distinct (n_ParticipantUserIDs ns)
      \<and> (\<forall>p\<in>set (n_ParticipantUserIDs ns). trimmed p \<and> p \<noteq> [])"
    using n' e resolveGroupParticipants_Inr by fastforce
  then show ?thesis
    unfolding send_wf_def using n' m' c1 c2 c3 e trimmed_TrimSpace by (auto simp: event_consts)
qed

section \<open>What a send publishes\<close>

lemma PublishEvent_cases:
  assumes "PublishEvent js upd topic e (w, fs) = (r, (w', fs'))"
  shows "(r = Inr () \<longrightarrow> Validate js e = None \<and> w' = upd (\<lambda>log. log @ [(topic, e)]) w)
    \<and> (isl r \<longrightarrow> w' = w \<or> Validate js e = None \<and> w' = upd (\<lambda>log. log @ [(topic, e)]) w)"
  using assms
  by (cases fs) (auto simp: PublishEvent_def raise_def call_def split: option.splits fault.splits)

lemma enum_values:
  "ConversationTypeValue ChatTypeSingle = Inr 1" "ConversationTypeValue ChatTypeGroup = Inr 2"
  "ContentTypeValue ContentTypeText = Inr 1" "ContentTypeValue ContentTypeImage = Inr 2"
  "ContentTypeValue ContentTypeFile = Inr 3" "ContentTypeValue ContentTypeAt = Inr 106"
  "MessageOriginValue MessageOriginHuman = Inr 1" "MessageOriginValue MessageOriginAI = Inr 2"
  "MessageOriginValue MessageOriginSystem = Inr 3"
  by code_simp+

lemma enum_strings:
  "ConversationTypeString 1 = ChatTypeSingle" "ConversationTypeString 2 = ChatTypeGroup"
  "ContentTypeString 1 = ContentTypeText" "ContentTypeString 2 = ContentTypeImage"
  "ContentTypeString 3 = ContentTypeFile" "ContentTypeString 106 = ContentTypeAt"
  "MessageOriginString 1 = MessageOriginHuman" "MessageOriginString 2 = MessageOriginAI"
  "MessageOriginString 3 = MessageOriginSystem"
  by (simp_all add: ConversationTypeString_def ContentTypeString_def MessageOriginString_def)

lemma content_distinct:
  "ContentTypeImage \<noteq> ContentTypeText" "ContentTypeFile \<noteq> ContentTypeText" "ContentTypeAt \<noteq> ContentTypeText"
  by (simp_all add: content_consts)

lemma send_wf_enums:
  "send_wf js groups ns \<Longrightarrow>
     (n_ChatType ns = ChatTypeSingle \<or> n_ChatType ns = ChatTypeGroup)
     \<and> n_ContentType ns \<in> {ContentTypeText, ContentTypeImage, ContentTypeFile, ContentTypeAt}
     \<and> n_MessageOrigin ns \<in> {MessageOriginHuman, MessageOriginAI, MessageOriginSystem}"
  unfolding send_wf_def by blast

lemma send_wf_participants:
  "send_wf js groups ns \<Longrightarrow>
     n_SenderID ns \<in> set (n_ParticipantUserIDs ns) \<and> (\<forall>p\<in>set (n_ParticipantUserIDs ns). trimmed p \<and> p \<noteq> [])
     \<and> (n_ChatType ns = ChatTypeSingle \<longrightarrow> n_ReceiverID ns \<in> set (n_ParticipantUserIDs ns))"
  unfolding send_wf_def event_consts by (elim conjE disjE) simp_all

text \<open>The acknowledgement of a well-formed send always exists and repeats the send.\<close>

lemma ack_message_wf:
  assumes "send_wf js groups ns"
  shows "\<exists>m. ack_message js ns h i content now = Inr (m, False) \<and> pb_Seq m = 0
    \<and> pb_ServerMsgId m = FormatInt i \<and> pb_ConversationId m = n_ConversationID ns
    \<and> pb_SenderId m = n_SenderID ns \<and> pb_ClientMsgId m = n_ClientMsgID ns
    \<and> pb_ChatType m = n_ChatType ns \<and> pb_ContentType m = n_ContentType ns
    \<and> pb_MessageOrigin m = n_MessageOrigin ns
    \<and> pb_Content m = (if n_ContentType ns = ContentTypeText then DecodeMessageContent js 1 content else content)"
proof -
  obtain ct where ct: "ConversationTypeValue (n_ChatType ns) = Inr ct" "ConversationTypeString ct = n_ChatType ns"
    using send_wf_enums [OF assms] by (auto simp: enum_values enum_strings)
  obtain t where t: "ContentTypeValue (n_ContentType ns) = Inr t" "ContentTypeString t = n_ContentType ns"
      "t = 1 \<longleftrightarrow> n_ContentType ns = ContentTypeText"
    using send_wf_enums [OF assms] by (auto simp: enum_values enum_strings content_distinct)
  obtain og where og: "MessageOriginValue (n_MessageOrigin ns) = Inr og" "MessageOriginString og = n_MessageOrigin ns"
    using send_wf_enums [OF assms] by (auto simp: enum_values enum_strings)
  show ?thesis
    unfolding ack_message_def ct og t(1) sum.case messageToPB_def
    using t(2) by (cases "t = 1") (simp_all add: ct og t(2) t(3) [symmetric] DecodeMessageContent_def)
qed

lemma submitted_event_fields:
  "EventType (submitted_event js ns h tr i eid c now) = EventTypeMessageSubmitted"
  "ServerMsgID (submitted_event js ns h tr i eid c now) = FormatInt i"
  "Seq (submitted_event js ns h tr i eid c now) = 0"
  "SenderID (submitted_event js ns h tr i eid c now) = n_SenderID ns"
  "ConversationID (submitted_event js ns h tr i eid c now) = n_ConversationID ns"
  "ChatType (submitted_event js ns h tr i eid c now) = n_ChatType ns"
  "EventID (submitted_event js ns h tr i eid c now) = eid"
  "CreatedAt (submitted_event js ns h tr i eid c now) = now"
  "p_ClientMsgID (Payload (submitted_event js ns h tr i eid c now)) = n_ClientMsgID ns"
  "p_Content (Payload (submitted_event js ns h tr i eid c now)) = c"
  "p_ContentType (Payload (submitted_event js ns h tr i eid c now)) = n_ContentType ns"
  "p_VisibleUserIDs (Payload (submitted_event js ns h tr i eid c now)) =
     VisibleUserIDs (n_SenderID ns) (n_ReceiverID ns) (n_ChatType ns) (n_ParticipantUserIDs ns)"
  by (simp_all add: submitted_event_def split: prod.splits)

lemma send_visible:
  assumes "send_wf js groups ns"
  shows "set (VisibleUserIDs (n_SenderID ns) (n_ReceiverID ns) (n_ChatType ns) (n_ParticipantUserIDs ns))
    = set (n_ParticipantUserIDs ns)"
proof -
  let ?ps = "set (n_ParticipantUserIDs ns)"
  have all: "TrimSpace p = p \<and> p \<noteq> []" if "p \<in> ?ps" for p
    using that send_wf_participants [OF assms] by (simp add: TrimSpace_trimmed)
  have "?ps \<union> {n_SenderID ns} \<union> (if n_ChatType ns = ChatTypeSingle then {n_ReceiverID ns} else {}) = ?ps"
    using send_wf_participants [OF assms] by auto
  then show ?thesis unfolding VisibleUserIDs_set set_eq_iff mem_Collect_eq by (metis all)
qed

text \<open>The three ways the publication ends: before the broker was called, refused or lost, acknowledged.\<close>

lemma sendDirectKafka_cases:
  assumes "sendDirectKafka js tr ns h (w, fs) = Some (r, (w', fs'))"
  shows "isl r \<and> w_log w' = w_log w
    \<or> (\<exists>i eid c now. let e = submitted_event js ns h tr i eid c now in
         Validate js e = None \<and> w_log w' = w_log w @ [(TopicToTransfer, e)]
         \<and> EncodeMessageContent js (n_ContentType ns) (n_Content ns) = Inr c
         \<and> (isl r \<or> r = ack_message js ns h i c now))"
proof -
  obtain ri g clk1 where f: "RoutedFlake_Next (w_msgIDGen w) (MsgHintForChatType (n_ChatType ns)) (w_clock w) = Some (ri, g, clk1)"
    using assms by (auto simp: sendDirectKafka_def split: option.splits)
  show ?thesis
  proof (cases ri)
    case (Inl e)
    with assms f show ?thesis by (auto simp: sendDirectKafka_def)
  next
    case (Inr i)
    let ?w1 = "w\<lparr>w_msgIDGen := g, w_clock := clk1\<rparr>"
    obtain rs sf clk2 where sn: "Snowflake_Next (w_snowflake w) () clk1 = Some (rs, sf, clk2)"
      using assms f Inr by (auto simp: sendDirectKafka_def Let_def split: option.splits)
    show ?thesis
    proof (cases "isl rs \<or> isl (EncodeMessageContent js (n_ContentType ns) (n_Content ns))")
      case True
      with assms f Inr sn show ?thesis by (auto simp: sendDirectKafka_def Let_def split: sum.splits)
    next
      case False
      then obtain eid c where c: "rs = Inr eid" "EncodeMessageContent js (n_ContentType ns) (n_Content ns) = Inr c"
        by (metis sum.collapse(2))
      then obtain now clk3 where clk: "clk2 = now # clk3"
        using assms f Inr sn by (auto simp: sendDirectKafka_def Let_def split: list.splits)
      let ?e = "submitted_event js ns h tr i (FormatInt eid) c now"
      let ?w2 = "w\<lparr>w_msgIDGen := g, w_snowflake := sf, w_clock := clk3\<rparr>"
      obtain rp wp fp where pub: "PublishEvent js w_log_update TopicToTransfer ?e (?w2, fs) = (rp, (wp, fp))"
        by (metis prod.exhaust)
      have "(r, (w', fs')) = (case rp of Inl _ \<Rightarrow> (Inl (ToStatus (Internal ''message queue unavailable'')), (wp, fp))
          | Inr _ \<Rightarrow> (ack_message js ns h i c now, (wp, fp)))"
        using assms f Inr sn c clk pub by (auto simp: sendDirectKafka_def Let_def split: sum.splits)
      with PublishEvent_cases [OF pub]
      have "isl r \<and> w_log w' = w_log w \<or> Validate js ?e = None \<and> w_log w' = w_log w @ [(TopicToTransfer, ?e)]
          \<and> (isl r \<or> r = ack_message js ns h i c now)"
        by (cases rp) auto
      with c show ?thesis unfolding Let_def by blast
    qed
  qed
qed

text \<open>
  C3: a send either is acknowledged, and then exactly one record was appended to
  \<^verbatim>\<open>msg.toTransfer.v1\<close>: a valid submitted event keyed by the conversation, with the sender, client id
  and server id of the acknowledgement, visible to exactly the participants; the acknowledgement
  carries no sequence number yet. Or it fails, and then nothing was appended, or the one valid record
  whose acknowledgement the broker lost; a request the rules reject changes nothing at all.
\<close>

theorem send_publishes_once:
  assumes "SendMessage js media groups hash hasProducer tr req (w, fs) = Some (r, (w', fs'))"
  shows "(case r of
      Inr (m, dedup) \<Rightarrow> \<not> dedup \<and> pb_Seq m = 0
        \<and> (\<exists>e. w_log w' = w_log w @ [(TopicToTransfer, e)] \<and> Validate js e = None
             \<and> EventType e = EventTypeMessageSubmitted \<and> PartitionKey e = pb_ConversationId m
             \<and> ServerMsgID e = pb_ServerMsgId m \<and> SenderID e = TrimSpace (r_SenderId req)
             \<and> p_ClientMsgID (Payload e) = TrimSpace (r_ClientMsgId req)
             \<and> (\<exists>ns. normalize js media groups req = Inr ns
                  \<and> set (p_VisibleUserIDs (Payload e)) = set (n_ParticipantUserIDs ns)))
    | Inl _ \<Rightarrow> w_log w' = w_log w
        \<or> (\<exists>e. w_log w' = w_log w @ [(TopicToTransfer, e)] \<and> Validate js e = None))
    \<and> (isl (normalize js media groups req) \<longrightarrow> isl r \<and> (w', fs') = (w, fs))"
proof (cases "normalize js media groups req")
  case (Inl e)
  with assms show ?thesis by (auto simp: SendMessage_def)
next
  case (Inr ns)
  note ns = normalize_Inr [OF Inr]
  show ?thesis
  proof (cases hasProducer)
    case True
    then have "sendDirectKafka js tr ns (hash ns) (w, fs) = Some (r, (w', fs'))"
      using assms Inr by (simp add: SendMessage_def)
    from sendDirectKafka_cases [OF this]
    consider "isl r" "w_log w' = w_log w"
      | i eid c now where "Validate js (submitted_event js ns (hash ns) tr i eid c now) = None"
          "w_log w' = w_log w @ [(TopicToTransfer, submitted_event js ns (hash ns) tr i eid c now)]"
          "isl r \<or> r = ack_message js ns (hash ns) i c now"
      by (auto simp: Let_def)
    then show ?thesis
    proof cases
      case 1
      then show ?thesis using Inr by (cases r) auto
    next
      case 2
      then show ?thesis
        using ack_message_wf [of js groups ns "hash ns" i c now] ns Inr send_visible [of js groups ns]
        by (cases r) (auto simp: submitted_event_fields PartitionKey_def)
    qed
  next
    case False
    with assms Inr show ?thesis by (auto simp: SendMessage_def)
  qed
qed

lemma trimmed_json_raw: "trimmed s \<Longrightarrow> json_raw s = s"
proof -
  assume "trimmed s"
  then have "clean_head space_runes s" "clean_head (map rev space_runes) (rev s)" by (auto simp: trimmed_iff)
  moreover have "set json_space \<subseteq> set space_runes" "set json_space \<subseteq> set (map rev space_runes)"
    by (simp_all add: json_space_def space_runes_def)
  ultimately have "clean_head json_space s" "clean_head json_space (rev s)"
    unfolding clean_head_iff by blast+
  then show ?thesis by (simp add: json_raw_def strip_leading_id)
qed

lemma send_wf_content:
  "send_wf js groups ns \<Longrightarrow> n_Content ns \<noteq> [] \<and> trimmed (n_Content ns)
     \<and> (n_ContentType ns \<noteq> ContentTypeText \<longrightarrow> json_valid js (n_Content ns))"
  unfolding send_wf_def by blast

lemma send_wf_ids:
  "send_wf js groups ns \<Longrightarrow> n_SenderID ns \<noteq> [] \<and> n_ClientMsgID ns \<noteq> [] \<and> n_ConversationID ns \<noteq> []"
  unfolding send_wf_def GroupConversationID_def singleConversationParticipants_def starts_with_def
  by (elim conjE disjE) (auto split: if_splits)

lemma EncodeMessageContent_wf:
  "send_wf js groups ns \<Longrightarrow> EncodeMessageContent js (n_ContentType ns) (n_Content ns) =
     Inr (if n_ContentType ns = ContentTypeText then text_encode js (n_Content ns) else n_Content ns)"
  using send_wf_content [of js groups ns] by (auto simp: EncodeMessageContent_def trimmed_json_raw)

text \<open>The publication of a well-formed send, when the generators mint and the broker answers.\<close>

definition sent_content :: "json_lib \<Rightarrow> normalizedSend \<Rightarrow> string" where
  "sent_content js ns = (if n_ContentType ns = ContentTypeText then text_encode js (n_Content ns) else n_Content ns)"

lemma sendDirectKafka_runs:
  assumes wf: "send_wf js groups ns"
    and i: "RoutedFlake_Next (w_msgIDGen w) (MsgHintForChatType (n_ChatType ns)) (w_clock w) = Some (Inr i, g, clk1)"
    and e: "Snowflake_Next (w_snowflake w) () clk1 = Some (Inr eid, sf, now # clk3)"
    and now: "0 < now" and valid: "\<forall>t. json_valid js (text_encode js t)"
  shows "sendDirectKafka js tr ns h (w, []) =
      Some (ack_message js ns h i (sent_content js ns) now,
        (w\<lparr>w_msgIDGen := g, w_snowflake := sf, w_clock := clk3,
           w_log := w_log w @ [(TopicToTransfer, submitted_event js ns h tr i (FormatInt eid) (sent_content js ns) now)]\<rparr>, []))"
proof -
  let ?e = "submitted_event js ns h tr i (FormatInt eid) (sent_content js ns) now"
  have vis: "p_VisibleUserIDs (Payload ?e) \<noteq> []"
    using send_visible [OF wf] send_wf_participants [OF wf] by (auto simp: submitted_event_fields)
  have "Validate js ?e = None"
    using vis send_wf_ids [OF wf] send_wf_enums [OF wf] send_wf_content [OF wf] valid now
    by (auto simp: Validate_submitted submitted_event_fields FormatInt_nonempty sent_content_def)
  then show ?thesis
    using i e EncodeMessageContent_wf [OF wf]
    by (simp add: sendDirectKafka_def Let_def PublishEvent_def sent_content_def [symmetric])
qed

lemma SendMessage_runs:
  assumes ns: "normalize js media groups req = Inr ns"
    and i: "RoutedFlake_Next (w_msgIDGen w) (MsgHintForChatType (n_ChatType ns)) (w_clock w) = Some (Inr i, g, clk1)"
    and e: "Snowflake_Next (w_snowflake w) () clk1 = Some (Inr eid, sf, now # clk3)"
    and now: "0 < now" and valid: "\<forall>t. json_valid js (text_encode js t)"
  shows "\<exists>m w'. SendMessage js media groups hash True tr req (w, []) = Some (Inr (m, False), (w', []))
    \<and> pb_ServerMsgId m = FormatInt i
    \<and> pb_Content m = (if n_ContentType ns = ContentTypeText
         then DecodeMessageContent js 1 (text_encode js (n_Content ns)) else n_Content ns)"
proof -
  note wf = normalize_Inr [OF ns, THEN conjunct1]
  obtain m where m: "ack_message js ns (hash ns) i (sent_content js ns) now = Inr (m, False)"
      "pb_ServerMsgId m = FormatInt i"
      "pb_Content m = (if n_ContentType ns = ContentTypeText
         then DecodeMessageContent js 1 (sent_content js ns) else sent_content js ns)"
    using ack_message_wf [OF wf, of "hash ns" i "sent_content js ns" now] by blast
  with sendDirectKafka_runs [OF wf i e now valid, of tr "hash ns"] ns show ?thesis
    by (simp add: SendMessage_def sent_content_def split: if_splits)
qed

text \<open>A send evaluated: a text from \<^verbatim>\<open>u1\<close> to \<^verbatim>\<open>u2\<close> on generators that have minted nothing yet.\<close>

definition demo_request :: SendMessageRequest where
  "demo_request =
     \<lparr>r_SenderId = ''u1'', r_ReceiverId = '' u2'', r_GroupId = [], r_ChatType = ''Single'', r_ClientMsgId = ''c1'',
      r_ContentType = ''text'', r_Content = ''hello'', r_MessageOrigin = [], r_AgentAccountId = [],
      r_TriggerServerMsgId = [], r_AgentRunId = [], r_AllowRecursiveTrigger = False\<rparr>"

definition demo_send_world :: send_world where
  "demo_send_world =
     \<lparr>w_msgIDGen = \<lparr>hintShift = 20, hintMax = 3, machinePart = 0, rf_lastMs = -1, rf_sequence = 0\<rparr>,
      w_snowflake = \<lparr>sf_nodeID = 0, sf_lastMs = -1, sf_sequence = 0\<rparr>,
      w_clock = [1767225600001, 1767225600002, 1767225600003], w_log = []\<rparr>"

lemma demo_normalize:
  "normalize demo_json None None demo_request =
     Inr \<lparr>n_SenderID = ''u1'', n_ReceiverID = ''u2'', n_GroupID = [], n_ChatType = ''single'', n_ClientMsgID = ''c1'',
          n_ContentType = ''text'', n_Content = ''hello'', n_MessageOrigin = ''human'', n_AgentAccountID = [],
          n_TriggerServerMsgID = [], n_AgentRunID = [], n_AllowRecursiveTrigger = False,
          n_ParticipantUserIDs = [''u1'', ''u2''], n_ConversationID = ''single:u1:u2''\<rparr>"
  by code_simp

lemma demo_ids:
  "RoutedFlake_Next (w_msgIDGen demo_send_world) (MsgHintForChatType ''single'') (w_clock demo_send_world) =
     Some (Inr 5242880, (w_msgIDGen demo_send_world)\<lparr>rf_lastMs := 1767225600001\<rparr>, [1767225600002, 1767225600003])"
  "Snowflake_Next (w_snowflake demo_send_world) () [1767225600002, 1767225600003] =
     Some (Inr 8388608, (w_snowflake demo_send_world)\<lparr>sf_lastMs := 1767225600002\<rparr>, [1767225600003])"
  by code_simp+

lemma demo_json_texts: "\<forall>t. json_valid demo_json (text_encode demo_json t)"
  "\<forall>t. text_decode demo_json (text_encode demo_json t) = Some t"
  by (simp_all add: demo_json_def)

lemmas demo_send_runs =
  SendMessage_runs [OF demo_normalize, simplified, OF demo_ids _ demo_json_texts(1), simplified]

theorem send_publishes_once_witness:
  "\<exists>m w' e. SendMessage demo_json None None (\<lambda>_. []) True ([], [], [], []) demo_request (demo_send_world, [])
       = Some (Inr (m, False), (w', []))
     \<and> pb_Seq m = 0 \<and> w_log w' = [(TopicToTransfer, e)] \<and> ServerMsgID e = pb_ServerMsgId m \<and> SenderID e = ''u1''"
proof -
  obtain m w' where d: "SendMessage demo_json None None (\<lambda>_. []) True ([], [], [], []) demo_request (demo_send_world, [])
       = Some (Inr (m, False), (w', []))"
    using demo_send_runs by blast
  have "w_log demo_send_world = []" "TrimSpace (r_SenderId demo_request) = ''u1''"
    by (simp add: demo_send_world_def) code_simp
  with send_publishes_once [OF d] d show ?thesis by auto
qed

text \<open>
  A send never fails for a reason of its own: when the request passes the rules, the generators
  have an id to give and the broker answers, the message is acknowledged, and the acknowledgement
  repeats the content as it was sent, less surrounding white space. The assumptions on the JSON
  library are that a coded text is valid JSON and decodes to the text.
\<close>

theorem send_succeeds:
  assumes ns: "normalize js media groups req = Inr ns"
    and i: "RoutedFlake_Next (w_msgIDGen w) (MsgHintForChatType (n_ChatType ns)) (w_clock w) = Some (Inr i, g, clk1)"
    and e: "Snowflake_Next (w_snowflake w) () clk1 = Some (Inr eid, sf, now # clk3)"
    and now: "0 < now"
    and codec: "\<forall>t. json_valid js (text_encode js t) \<and> text_decode js (text_encode js t) = Some t"
  shows "\<exists>m w'. SendMessage js media groups hash True tr req (w, []) = Some (Inr (m, False), (w', []))
    \<and> pb_ServerMsgId m = FormatInt i \<and> pb_Content m = TrimSpace (r_Content req)"
proof -
  have "DecodeMessageContent js 1 (text_encode js (n_Content ns)) = n_Content ns"
    using codec send_wf_content [of js groups ns] normalize_Inr [OF ns] by (simp add: DecodeMessageContent_def)
  with SendMessage_runs [OF ns i e now, of hash tr] codec normalize_Inr [OF ns] show ?thesis
    by (simp split: if_splits)
qed

theorem send_succeeds_witness:
  "\<exists>m w'. SendMessage demo_json None None (\<lambda>_. []) True ([], [], [], []) demo_request (demo_send_world, [])
       = Some (Inr (m, False), (w', []))
     \<and> pb_ServerMsgId m = FormatInt 5242880 \<and> pb_Content m = TrimSpace ''hello''"
  using send_succeeds [OF demo_normalize, simplified, OF demo_ids, of "\<lambda>_. []" "([], [], [], [])"] demo_json_texts
  by (simp add: demo_request_def)

end
