(* ===== verification/Archive.thy ===== *)
theory Archive
  imports Msg_Model "HOL-Library.AList"
begin

text \<open>
  The archive of messages in PostgreSQL and its writer
  (\<^verbatim>\<open>service/msgtransfer/internal/model/writer.go\<close>), and the consumer of \<^verbatim>\<open>msg.toPostgres.v1\<close>
  (\<^verbatim>\<open>service/msgtransfer/internal/chain/persist.go\<close>). The three tables keep the columns the queries
  name, and their uniqueness constraints: an insert that breaks one is refused. The text around a
  wrapped error is not kept.
\<close>

section \<open>Tables\<close>

record ConversationThreads =
  ct_ConversationType :: int
  ct_SingleAccountA :: string
  ct_SingleAccountB :: string
  ct_GroupId :: string
  ct_MaxSeq :: int
  ct_LastMessageId :: string
  ct_LastMessageAt :: "int option"

record UserConversationStates =
  us_LastReadSeq :: int
  us_VisibleStartSeq :: int

text \<open>Threads by conversation id, messages in the order they were inserted, states by account and conversation.\<close>

record pg_db =
  threads :: "(string \<times> ConversationThreads) list"
  messages :: "Messages list"
  states :: "((string \<times> string) \<times> UserConversationStates) list"

definition unique_violation :: goerror where
  "unique_violation = PlainError ''23505''"

fun IsUniqueViolation :: "goerror \<Rightarrow> bool" where
  "IsUniqueViolation (Wrapped _ e) = IsUniqueViolation e"
| "IsUniqueViolation e \<longleftrightarrow> e = unique_violation"

text \<open>The partial unique indexes on the pair of accounts and on the group.\<close>

definition thread_clash :: "ConversationThreads \<Rightarrow> ConversationThreads \<Rightarrow> bool" where
  "thread_clash t t' \<longleftrightarrow>
     ct_ConversationType t = 1 \<and> ct_ConversationType t' = 1
       \<and> ct_SingleAccountA t = ct_SingleAccountA t' \<and> ct_SingleAccountB t = ct_SingleAccountB t'
   \<or> ct_ConversationType t = 2 \<and> ct_ConversationType t' = 2 \<and> ct_GroupId t = ct_GroupId t'"

definition insert_thread :: "string \<Rightarrow> ConversationThreads \<Rightarrow> pg_db \<Rightarrow> goerror + pg_db" where
  "insert_thread c t db =
     (if map_of (threads db) c \<noteq> None then Inr db
      else if list_ex (\<lambda>(_, t'). thread_clash t t') (threads db) then Inl unique_violation
      else Inr (db\<lparr>threads := AList.update c t (threads db)\<rparr>))"

definition insert_message :: "Messages \<Rightarrow> pg_db \<Rightarrow> goerror + pg_db" where
  "insert_message r db =
     (if list_ex (\<lambda>m. SenderAccountId m = SenderAccountId r \<and> ClientMsgId m = ClientMsgId r) (messages db) then Inr db
      else if list_ex (\<lambda>m. MessageId m = MessageId r
               \<or> ConversationId m = ConversationId r \<and> MsgSeq m = MsgSeq r) (messages db)
      then Inl unique_violation
      else Inr (db\<lparr>messages := messages db @ [r]\<rparr>))"

section \<open>Writer\<close>

text \<open>\<open>pm_SendTime\<close> is \<^const>\<open>None\<close> for the zero time.\<close>

record PersistMessage =
  pm_ServerMsgID :: string
  pm_ClientMsgID :: string
  pm_SenderID :: string
  pm_ConversationID :: string
  pm_Seq :: int
  pm_ChatType :: string
  pm_ReceiverID :: string
  pm_GroupID :: string
  pm_ContentType :: string
  pm_Content :: string
  pm_MessageOrigin :: string
  pm_AgentAccountID :: string
  pm_TriggerServerMsgID :: string
  pm_AgentRunID :: string
  pm_AllowRecursiveTrigger :: bool
  pm_PayloadHash :: string
  pm_SendTime :: "int option"
  pm_VisibleUserIDs :: "string list"

definition zero_time :: int where
  "zero_time = - 62135596800000"

definition MaxSeq :: "pg_db \<Rightarrow> string \<Rightarrow> int" where
  "MaxSeq db conversationID =
     (let seqs = map MsgSeq (filter (\<lambda>m. ConversationId m = conversationID) (messages db))
      in if seqs = [] then 0 else Max (set seqs))"

definition conversationTypeValue :: "string \<Rightarrow> int result" where
  "conversationTypeValue chatType =
     (let t = TrimSpace (ToLower chatType)
      in if t = ChatTypeSingle then Inr 1
         else if t = ChatTypeGroup then Inr 2
         else Inl (PlainError ''chat_type must be single or group''))"

definition contentTypeValue :: "string \<Rightarrow> int result" where
  "contentTypeValue contentType =
     (let t = TrimSpace (ToLower contentType)
      in if t = [] \<or> t = ''text'' then Inr 1
         else if t = ''image'' then Inr 2
         else if t = ''file'' then Inr 3
         else Inl (PlainError ''content_type must be text, image, or file''))"

definition messageOriginValue :: "string \<Rightarrow> int result" where
  "messageOriginValue origin =
     (let t = TrimSpace (ToLower origin)
      in if t = [] \<or> t = ''human'' then Inr 1
         else if t = ''ai'' then Inr 2
         else if t = ''system'' then Inr 3
         else Inl (PlainError ''message_origin must be human, ai, or system''))"

definition new_thread :: "int \<Rightarrow> string \<Rightarrow> string \<Rightarrow> string \<Rightarrow> ConversationThreads" where
  "new_thread ty a b g =
     \<lparr>ct_ConversationType = ty, ct_SingleAccountA = a, ct_SingleAccountB = b, ct_GroupId = g,
      ct_MaxSeq = 0, ct_LastMessageId = [], ct_LastMessageAt = None\<rparr>"

definition upsertThread :: "PersistMessage \<Rightarrow> (pg_db, unit) act" where
  "upsertThread msg =
     (if pm_ChatType msg = ChatTypeSingle then
        (let (userA, userB) = (if pm_SenderID msg > pm_ReceiverID msg then (pm_ReceiverID msg, pm_SenderID msg)
                               else (pm_SenderID msg, pm_ReceiverID msg))
         in stmt (insert_thread (pm_ConversationID msg) (new_thread 1 userA userB [])))
      else if pm_ChatType msg = ChatTypeGroup then
        stmt (insert_thread (pm_ConversationID msg) (new_thread 2 [] [] (pm_GroupID msg)))
      else raise (PlainError ''unsupported chat_type''))"

text \<open>\<open>now\<close> is the timestamp of the transaction, the default of \<^verbatim>\<open>server_received_at\<close>.\<close>

definition message_row :: "json_lib \<Rightarrow> int \<Rightarrow> PersistMessage \<Rightarrow> Messages result" where
  "message_row js now msg =
     (case conversationTypeValue (pm_ChatType msg) of Inl e \<Rightarrow> Inl e | Inr conversationType \<Rightarrow>
      case contentTypeValue (pm_ContentType msg) of Inl e \<Rightarrow> Inl e | Inr contentType \<Rightarrow>
      case messageOriginValue (pm_MessageOrigin msg) of Inl e \<Rightarrow> Inl e | Inr messageOrigin \<Rightarrow>
      case ParseInt (TrimSpace (pm_ServerMsgID msg)) of
        None \<Rightarrow> Inl (PlainError ''parse message_id'')
      | Some messageID \<Rightarrow>
          Inr \<lparr>MessageId = messageID, ClientMsgId = pm_ClientMsgID msg, SenderAccountId = pm_SenderID msg,
               ConversationId = pm_ConversationID msg, MsgSeq = pm_Seq msg, ConversationType = conversationType,
               ReceiverAccountId = pm_ReceiverID msg, GroupId = pm_GroupID msg, ContentType = contentType,
               Content = jsonb_text js (pm_Content msg), MessageOrigin = messageOrigin,
               AgentAccountId = pm_AgentAccountID msg, TriggerMessageId = pm_TriggerServerMsgID msg,
               AgentRunId = pm_AgentRunID msg, AllowRecursiveTrigger = pm_AllowRecursiveTrigger msg,
               PayloadHash = pm_PayloadHash msg, ClientSendTime = pm_SendTime msg, ServerReceivedAt = now\<rparr>)"

definition insertMessage :: "json_lib \<Rightarrow> int \<Rightarrow> PersistMessage \<Rightarrow> (pg_db, unit) act" where
  "insertMessage js now msg =
     (case message_row js now msg of
        Inl e \<Rightarrow> raise e
      | Inr row \<Rightarrow> stmt (\<lambda>db. if json_valid js (pm_Content msg) then insert_message row db
                          else Inl (PlainError ''invalid input syntax for type json'')))"

definition put_visible :: "string \<Rightarrow> string \<Rightarrow> int \<Rightarrow> pg_db \<Rightarrow> pg_db" where
  "put_visible userID conversationID visibleStartSeq db =
     (case map_of (states db) (userID, conversationID) of
        Some _ \<Rightarrow> db
      | None \<Rightarrow> db\<lparr>states := AList.update (userID, conversationID)
                    \<lparr>us_LastReadSeq = visibleStartSeq, us_VisibleStartSeq = visibleStartSeq\<rparr> (states db)\<rparr>)"

definition upsertVisible :: "string list \<Rightarrow> string \<Rightarrow> int \<Rightarrow> (pg_db, unit) act" where
  "upsertVisible userIDs conversationID visibleStartSeq =
     for_each (\<lambda>raw. let userID = TrimSpace raw in
         if userID = [] then ret ()
         else stmt (\<lambda>db. Inr (put_visible userID conversationID visibleStartSeq db))) userIDs"

definition put_read :: "string \<Rightarrow> string \<Rightarrow> int \<Rightarrow> pg_db \<Rightarrow> pg_db" where
  "put_read userID conversationID seq db =
     db\<lparr>states := AList.update (userID, conversationID)
          (case map_of (states db) (userID, conversationID) of
             Some s \<Rightarrow> s\<lparr>us_LastReadSeq := max (us_LastReadSeq s) seq\<rparr>
           | None \<Rightarrow> \<lparr>us_LastReadSeq = seq, us_VisibleStartSeq = 0\<rparr>) (states db)\<rparr>"

definition upsertSenderRead :: "string \<Rightarrow> string \<Rightarrow> int \<Rightarrow> (pg_db, unit) act" where
  "upsertSenderRead senderID conversationID seq = stmt (\<lambda>db. Inr (put_read senderID conversationID seq db))"

definition touch_thread :: "PersistMessage \<Rightarrow> pg_db \<Rightarrow> pg_db" where
  "touch_thread msg db =
     (case map_of (threads db) (pm_ConversationID msg) of
        None \<Rightarrow> db
      | Some t \<Rightarrow> db\<lparr>threads := AList.update (pm_ConversationID msg)
          (t\<lparr>ct_LastMessageId := (if pm_Seq msg \<ge> ct_MaxSeq t then pm_ServerMsgID msg else ct_LastMessageId t),
             ct_LastMessageAt := (if pm_Seq msg \<ge> ct_MaxSeq t
                then Some (case pm_SendTime msg of Some s \<Rightarrow> s | None \<Rightarrow> zero_time) else ct_LastMessageAt t),
             ct_MaxSeq := max (ct_MaxSeq t) (pm_Seq msg)\<rparr>) (threads db)\<rparr>)"

definition updateThreadAfterMessage :: "PersistMessage \<Rightarrow> (pg_db, unit) act" where
  "updateThreadAfterMessage msg = stmt (\<lambda>db. Inr (touch_thread msg db))"

definition persist_statements :: "json_lib \<Rightarrow> int \<Rightarrow> PersistMessage list \<Rightarrow> (pg_db, unit) act" where
  "persist_statements js now msgs =
     andThen (for_each (\<lambda>msg. andThen (upsertThread msg) (\<lambda>_. insertMessage js now msg)) msgs) (\<lambda>_.
     andThen (for_each (\<lambda>msg.
         let visibleStartSeq = (if pm_ChatType msg = ChatTypeGroup then pm_Seq msg - 1 else 0) in
         andThen (upsertVisible (pm_VisibleUserIDs msg) (pm_ConversationID msg) visibleStartSeq) (\<lambda>_.
           upsertSenderRead (pm_SenderID msg) (pm_ConversationID msg) (pm_Seq msg))) msgs) (\<lambda>_.
     updateThreadAfterMessage (last msgs)))"

definition PersistBatch :: "json_lib \<Rightarrow> int \<Rightarrow> PersistMessage list \<Rightarrow> (pg_db, unit) act" where
  "PersistBatch js now msgs = (if msgs = [] then ret () else transact (persist_statements js now msgs))"

section \<open>The consumer\<close>

definition persistMessageFromEvent :: "MessageEvent \<Rightarrow> PersistMessage" where
  "persistMessageFromEvent event =
     (let p = Payload event in
      \<lparr>pm_ServerMsgID = ServerMsgID event, pm_ClientMsgID = p_ClientMsgID p, pm_SenderID = SenderID event,
       pm_ConversationID = ConversationID event, pm_Seq = Seq event, pm_ChatType = ChatType event,
       pm_ReceiverID = p_ReceiverID p, pm_GroupID = p_GroupID p, pm_ContentType = p_ContentType p,
       pm_Content = p_Content p, pm_MessageOrigin = p_MessageOrigin p, pm_AgentAccountID = p_AgentAccountID p,
       pm_TriggerServerMsgID = p_TriggerServerMsgID p, pm_AgentRunID = p_AgentRunID p,
       pm_AllowRecursiveTrigger = p_AllowRecursiveTrigger p, pm_PayloadHash = p_PayloadHash p,
       pm_SendTime = (if p_SendTime p > 0 then Some (p_SendTime p)
                      else if CreatedAt event > 0 then Some (CreatedAt event) else None),
       pm_VisibleUserIDs = p_VisibleUserIDs p\<rparr>)"

text \<open>
  Both consumers sort a batch of records by conversation: \<open>order\<close> has the conversations in the order
  of their first record, the map their events in arrival order. Records that do not decode, or are of
  another type than \<open>ty\<close>, are dropped.
\<close>

definition group_step ::
  "json_lib \<Rightarrow> string \<Rightarrow> string \<Rightarrow> string list \<times> (string \<Rightarrow> MessageEvent list) \<Rightarrow> string list \<times> (string \<Rightarrow> MessageEvent list)" where
  "group_step js ty record g =
     (let (order, byConversation) = g in
      case UnmarshalMessageEvent js record of
        Inl _ \<Rightarrow> g
      | Inr event \<Rightarrow>
          if EventType event \<noteq> ty then g
          else let c = ConversationID event
               in (if byConversation c = [] then order @ [c] else order,
                   byConversation(c := byConversation c @ [event])))"

definition group_batch :: "json_lib \<Rightarrow> string \<Rightarrow> string list \<Rightarrow> string list \<times> (string \<Rightarrow> MessageEvent list)" where
  "group_batch js ty records = fold (group_step js ty) records ([], \<lambda>_. [])"

definition Persist_HandleBatch :: "json_lib \<Rightarrow> int \<Rightarrow> string list \<Rightarrow> (pg_db, unit) act" where
  "Persist_HandleBatch js now records =
     (let (order, byConversation) = group_batch js EventTypeMessageAccepted records
      in for_each (\<lambda>c. PersistBatch js now (map persistMessageFromEvent (byConversation c))) order)"

section \<open>Grouping\<close>

text \<open>The events of a batch, in arrival order.\<close>

definition batch_events :: "json_lib \<Rightarrow> string \<Rightarrow> string list \<Rightarrow> MessageEvent list" where
  "batch_events js ty records =
     [e. r \<leftarrow> records, e \<leftarrow> (case UnmarshalMessageEvent js r of Inl _ \<Rightarrow> [] | Inr e \<Rightarrow> [e]), EventType e = ty]"

lemma group_batch_spec:
  "group_batch js ty records =
     (keep_first {} (map ConversationID (batch_events js ty records)),
      \<lambda>c. filter (\<lambda>e. ConversationID e = c) (batch_events js ty records))"
proof -
  let ?f = "\<lambda>es c. filter (\<lambda>e. ConversationID e = c) es"
  have keep: "keep_first S (xs @ [x]) = keep_first S xs @ (if x \<in> S \<union> set xs then [] else [x])" for S xs and x :: string
    by (induction xs arbitrary: S) auto
  have "fold (group_step js ty) records (keep_first {} (map ConversationID es), ?f es)
    = (keep_first {} (map ConversationID (es @ batch_events js ty records)), ?f (es @ batch_events js ty records))" for es
  proof (induction records arbitrary: es)
    case (Cons r records)
    show ?case
    proof (cases "\<exists>e. UnmarshalMessageEvent js r = Inr e \<and> EventType e = ty")
      case True
      then obtain e where e: "UnmarshalMessageEvent js r = Inr e" "EventType e = ty" by blast
      have "group_step js ty r (keep_first {} (map ConversationID es), ?f es)
        = (keep_first {} (map ConversationID (es @ [e])), ?f (es @ [e]))"
        using e by (auto simp: group_step_def Let_def keep fun_eq_iff filter_empty_conv) (metis imageI)
      with Cons.IH [of "es @ [e]"] e show ?thesis by (simp add: batch_events_def)
    next
      case False
      then have "group_step js ty r g = g" for g
        by (auto simp: group_step_def Let_def split: sum.splits prod.splits)
      moreover have "batch_events js ty (r # records) = batch_events js ty records"
        using False by (auto simp: batch_events_def split: sum.splits)
      ultimately show ?thesis using Cons.IH by simp
    qed
  qed (simp add: batch_events_def)
  from this [of "[]"] show ?thesis by (simp add: group_batch_def)
qed

lemma batch_events_valid:
  "e \<in> set (batch_events js ty records) \<Longrightarrow> Validate js e = None \<and> EventType e = ty"
  by (auto simp: batch_events_def split: sum.splits) (metis Unmarshal_valid)

section \<open>Statements\<close>

lemma map_of_put_read:
  "map_of (states (put_read u c s db)) =
     (map_of (states db))((u, c) \<mapsto> (case map_of (states db) (u, c) of
        Some st \<Rightarrow> st\<lparr>us_LastReadSeq := max (us_LastReadSeq st) s\<rparr>
      | None \<Rightarrow> \<lparr>us_LastReadSeq = s, us_VisibleStartSeq = 0\<rparr>))"
  by (simp add: put_read_def update_conv')

lemma map_of_put_visible:
  "map_of (states (put_visible u c s db)) =
     (case map_of (states db) (u, c) of Some _ \<Rightarrow> map_of (states db)
      | None \<Rightarrow> (map_of (states db))((u, c) \<mapsto> \<lparr>us_LastReadSeq = s, us_VisibleStartSeq = s\<rparr>))"
  by (simp add: put_visible_def update_conv' split: option.splits)

lemma put_other_tables [simp]:
  "messages (put_read u c s db) = messages db" "threads (put_read u c s db) = threads db"
  "messages (put_visible u c s db) = messages db" "threads (put_visible u c s db) = threads db"
  "messages (touch_thread m db) = messages db" "states (touch_thread m db) = states db"
  by (auto simp: put_read_def put_visible_def touch_thread_def split: option.splits)

lemma insert_message_Inr:
  "insert_message r db = Inr db' \<Longrightarrow>
     db' = db \<and> (\<exists>m\<in>set (messages db). SenderAccountId m = SenderAccountId r \<and> ClientMsgId m = ClientMsgId r)
   \<or> db' = db\<lparr>messages := messages db @ [r]\<rparr>
     \<and> (\<forall>m\<in>set (messages db). MessageId m \<noteq> MessageId r
          \<and> (SenderAccountId m, ClientMsgId m) \<noteq> (SenderAccountId r, ClientMsgId r)
          \<and> (ConversationId m, MsgSeq m) \<noteq> (ConversationId r, MsgSeq r))"
  by (auto simp: insert_message_def list_ex_iff split: if_splits)

lemma insert_thread_Inr:
  "insert_thread c t db = Inr db' \<Longrightarrow>
     messages db' = messages db \<and> states db' = states db
     \<and> (db' = db \<and> map_of (threads db) c \<noteq> None
        \<or> map_of (threads db) c = None \<and> map_of (threads db') = (map_of (threads db))(c \<mapsto> t))"
  by (auto simp: insert_thread_def update_conv' split: if_splits)

lemma map_of_touch_thread:
  "map_of (threads (touch_thread m db)) =
     (case map_of (threads db) (pm_ConversationID m) of None \<Rightarrow> map_of (threads db)
      | Some t \<Rightarrow> (map_of (threads db))(pm_ConversationID m \<mapsto>
          t\<lparr>ct_LastMessageId := (if pm_Seq m \<ge> ct_MaxSeq t then pm_ServerMsgID m else ct_LastMessageId t),
            ct_LastMessageAt := (if pm_Seq m \<ge> ct_MaxSeq t
               then Some (case pm_SendTime m of Some s \<Rightarrow> s | None \<Rightarrow> zero_time) else ct_LastMessageAt t),
            ct_MaxSeq := max (ct_MaxSeq t) (pm_Seq m)\<rparr>))"
  by (simp add: touch_thread_def update_conv' split: option.splits)

section \<open>What a batch can change\<close>

text \<open>
  \<open>grown db db'\<close>: the archive only grows. Rows of messages are appended and never changed, no
  thread or state disappears, the highest sequence of a thread and the read position of an account
  never go back, and where a reader's history starts never changes.
\<close>

definition grown :: "pg_db \<Rightarrow> pg_db \<Rightarrow> bool" where
  "grown db db' \<longleftrightarrow>
     prefix (messages db) (messages db')
     \<and> (\<forall>c t. map_of (threads db) c = Some t \<longrightarrow> (\<exists>t'. map_of (threads db') c = Some t' \<and> ct_MaxSeq t \<le> ct_MaxSeq t'))
     \<and> (\<forall>k s. map_of (states db) k = Some s \<longrightarrow> (\<exists>s'. map_of (states db') k = Some s'
          \<and> us_LastReadSeq s \<le> us_LastReadSeq s' \<and> us_VisibleStartSeq s' = us_VisibleStartSeq s))"

lemma grown_refl [simp]: "grown db db"
  by (simp add: grown_def)

lemma grown_trans: "grown a b \<Longrightarrow> grown b c \<Longrightarrow> grown a c"
  unfolding grown_def
  by (elim conjE, intro conjI allI impI) (metis prefix_order.trans, metis order_trans, metis order_trans)

lemma grown_put_visible: "grown db (put_visible u c s db)"
  by (auto simp: grown_def map_of_put_visible split: option.splits)

lemma grown_put_read: "grown db (put_read u c s db)"
  by (auto simp: grown_def map_of_put_read split: option.splits)

lemma grown_touch_thread: "grown db (touch_thread m db)"
  by (auto simp: grown_def map_of_touch_thread split: option.splits)

lemma grown_insert_message: "insert_message r db = Inr db' \<Longrightarrow> grown db db'"
  by (auto simp: grown_def dest!: insert_message_Inr)

lemma grown_insert_thread: "insert_thread c t db = Inr db' \<Longrightarrow> grown db db'"
  by (auto simp: grown_def dest!: insert_thread_Inr)

lemmas grown_intros =
  grown_put_visible grown_put_read grown_touch_thread grown_insert_message grown_insert_thread

text \<open>What is kept by each kind of statement is kept by the operations, and by the whole batch.\<close>

lemma upsertThread_keep:
  "(\<And>c t db db'. I db \<Longrightarrow> insert_thread c t db = Inr db' \<Longrightarrow> I db') \<Longrightarrow> keeps I (upsertThread m)"
  by (auto simp: upsertThread_def Let_def intro!: keeps_stmt keeps_raise)

lemma insertMessage_keep:
  "(\<And>r db db'. message_row js now m = Inr r \<Longrightarrow> I db \<Longrightarrow> insert_message r db = Inr db' \<Longrightarrow> I db') \<Longrightarrow>
     keeps I (insertMessage js now m)"
  by (auto simp: insertMessage_def split: sum.splits if_splits intro!: keeps_stmt keeps_raise)

lemma upsertVisible_keep: "(\<And>u c s db. I db \<Longrightarrow> I (put_visible u c s db)) \<Longrightarrow> keeps I (upsertVisible us c s)"
  unfolding upsertVisible_def Let_def by (rule keeps_for_each) (auto intro!: keeps_stmt keeps_ret)

lemma upsertSenderRead_keep: "(\<And>u c s db. I db \<Longrightarrow> I (put_read u c s db)) \<Longrightarrow> keeps I (upsertSenderRead u c s)"
  by (auto simp: upsertSenderRead_def intro!: keeps_stmt)

lemma updateThreadAfterMessage_keep: "(\<And>m db. I db \<Longrightarrow> I (touch_thread m db)) \<Longrightarrow> keeps I (updateThreadAfterMessage m)"
  by (auto simp: updateThreadAfterMessage_def intro!: keeps_stmt)

lemma persist_statements_keep:
  assumes "\<And>u c s db. I db \<Longrightarrow> I (put_visible u c s db)" "\<And>u c s db. I db \<Longrightarrow> I (put_read u c s db)"
    and "\<And>m db. I db \<Longrightarrow> I (touch_thread m db)" "\<And>c t db db'. I db \<Longrightarrow> insert_thread c t db = Inr db' \<Longrightarrow> I db'"
    and "\<And>m r db db'. m \<in> set msgs \<Longrightarrow> message_row js now m = Inr r \<Longrightarrow> I db \<Longrightarrow> insert_message r db = Inr db' \<Longrightarrow> I db'"
  shows "keeps I (persist_statements js now msgs)"
  unfolding persist_statements_def Let_def
  by (intro keeps_andThen keeps_for_each upsertThread_keep insertMessage_keep upsertVisible_keep
      upsertSenderRead_keep updateThreadAfterMessage_keep) (erule assms; assumption)+

text \<open>In particular, whatever survives growth of the archive.\<close>

definition lasting :: "(pg_db \<Rightarrow> bool) \<Rightarrow> bool" where
  "lasting I \<longleftrightarrow> (\<forall>db db'. I db \<longrightarrow> grown db db' \<longrightarrow> I db')"

lemma lasting_grown: "lasting (grown db)"
  by (auto simp: lasting_def intro: grown_trans)

lemma lasting_ops:
  assumes "lasting I"
  shows "keeps I (upsertThread m)" "keeps I (insertMessage js now m)" "keeps I (upsertVisible us c s)"
    "keeps I (upsertSenderRead u c s)" "keeps I (updateThreadAfterMessage m)" "keeps I (persist_statements js now msgs)"
  using assms unfolding lasting_def
  by (intro upsertThread_keep insertMessage_keep upsertVisible_keep upsertSenderRead_keep
      updateThreadAfterMessage_keep persist_statements_keep; blast intro: grown_intros)+

lemma PersistBatch_keep:
  "keeps I (persist_statements js now msgs) \<Longrightarrow> keeps I (PersistBatch js now msgs)"
  by (simp add: PersistBatch_def keeps_ret keeps_transact)

lemma Persist_HandleBatch_keep:
  assumes "\<And>msgs. set msgs \<subseteq> persistMessageFromEvent ` set (batch_events js EventTypeMessageAccepted records) \<Longrightarrow>
    keeps I (persist_statements js now msgs)"
  shows "keeps I (Persist_HandleBatch js now records)"
  unfolding Persist_HandleBatch_def group_batch_spec
  by (auto intro!: keeps_for_each PersistBatch_keep assms)

lemma PersistBatch_grown: "keeps (grown db0) (PersistBatch js now msgs)"
  by (intro PersistBatch_keep lasting_ops lasting_grown)

lemma Persist_HandleBatch_grown: "keeps (grown db0) (Persist_HandleBatch js now records)"
  by (intro Persist_HandleBatch_keep lasting_ops lasting_grown)

text \<open>The uniqueness constraints of \<^verbatim>\<open>messages\<close>.\<close>

definition pg_keys :: "pg_db \<Rightarrow> bool" where
  "pg_keys db \<longleftrightarrow> distinct (map MessageId (messages db))
     \<and> distinct (map (\<lambda>m. (SenderAccountId m, ClientMsgId m)) (messages db))
     \<and> distinct (map (\<lambda>m. (ConversationId m, MsgSeq m)) (messages db))"

lemma pg_keys_insert_message: "pg_keys db \<Longrightarrow> insert_message r db = Inr db' \<Longrightarrow> pg_keys db'"
  by (drule insert_message_Inr, auto simp: pg_keys_def) blast+

lemma persist_statements_keys: "keeps pg_keys (persist_statements js now msgs)"
proof (rule persist_statements_keep)
  show "\<And>c t db db'. pg_keys db \<Longrightarrow> insert_thread c t db = Inr db' \<Longrightarrow> pg_keys db'"
    by (drule insert_thread_Inr) (simp add: pg_keys_def)
  show "\<And>m r db db'. pg_keys db \<Longrightarrow> insert_message r db = Inr db' \<Longrightarrow> pg_keys db'"
    by (rule pg_keys_insert_message)
qed (simp_all add: pg_keys_def)

section \<open>What a batch leaves in the archive\<close>

definition stored :: "json_lib \<Rightarrow> PersistMessage \<Rightarrow> pg_db \<Rightarrow> bool" where
  "stored js m db \<longleftrightarrow>
     pm_ChatType m \<in> {ChatTypeSingle, ChatTypeGroup} \<and> json_valid js (pm_Content m) \<and> (\<exists>r. message_row js 0 m = Inr r)
     \<and> map_of (threads db) (pm_ConversationID m) \<noteq> None
     \<and> (\<exists>x\<in>set (messages db). SenderAccountId x = pm_SenderID m \<and> ClientMsgId x = pm_ClientMsgID m)"

definition noted :: "PersistMessage \<Rightarrow> pg_db \<Rightarrow> bool" where
  "noted m db \<longleftrightarrow>
     (\<forall>u\<in>set (pm_VisibleUserIDs m). TrimSpace u \<noteq> [] \<longrightarrow> map_of (states db) (TrimSpace u, pm_ConversationID m) \<noteq> None)
     \<and> (\<exists>s. map_of (states db) (pm_SenderID m, pm_ConversationID m) = Some s \<and> pm_Seq m \<le> us_LastReadSeq s)"

definition topped :: "PersistMessage \<Rightarrow> pg_db \<Rightarrow> bool" where
  "topped m db \<longleftrightarrow> (\<exists>t. map_of (threads db) (pm_ConversationID m) = Some t \<and> pm_Seq m \<le> ct_MaxSeq t
     \<and> (pm_Seq m = ct_MaxSeq t \<longrightarrow> ct_LastMessageId t = pm_ServerMsgID m
          \<and> ct_LastMessageAt t = Some (case pm_SendTime m of Some s \<Rightarrow> s | None \<Rightarrow> zero_time)))"

lemma grown_thread: "grown db db' \<Longrightarrow> map_of (threads db) c \<noteq> None \<Longrightarrow> map_of (threads db') c \<noteq> None"
  by (auto simp: grown_def) (metis option.distinct(1))

lemma grown_state:
  "grown db db' \<Longrightarrow> map_of (states db) k = Some s \<Longrightarrow>
     \<exists>s'. map_of (states db') k = Some s' \<and> us_LastReadSeq s \<le> us_LastReadSeq s'"
  unfolding grown_def by metis

lemma grown_message: "grown db db' \<Longrightarrow> x \<in> set (messages db) \<Longrightarrow> x \<in> set (messages db')"
  using set_mono_prefix by (auto simp: grown_def)

lemma lasting_stored: "lasting (stored js m)"
  unfolding lasting_def stored_def by (blast dest: grown_thread grown_message)

lemma lasting_noted: "lasting (noted m)"
  unfolding lasting_def noted_def by (fastforce dest: grown_state)

lemma lasting_All: "(\<And>m. m \<in> M \<Longrightarrow> lasting (I m)) \<Longrightarrow> lasting (\<lambda>db. \<forall>m\<in>M. I m db)"
  unfolding lasting_def by blast

lemma message_row_now: "message_row js now m = Inr r \<Longrightarrow> message_row js now' m = Inr (r\<lparr>ServerReceivedAt := now'\<rparr>)"
  by (auto simp: message_row_def split: sum.splits option.splits)

lemma message_row_fields:
  "message_row js now m = Inr r \<Longrightarrow> SenderAccountId r = pm_SenderID m \<and> ClientMsgId r = pm_ClientMsgID m
     \<and> ConversationId r = pm_ConversationID m \<and> MsgSeq r = pm_Seq m
     \<and> ParseInt (TrimSpace (pm_ServerMsgID m)) = Some (MessageId r)"
  by (auto simp: message_row_def split: sum.splits option.splits)

lemma upsertThread_ok:
  "valid (\<lambda>_. True) (upsertThread m)
     (\<lambda>_ db. pm_ChatType m \<in> {ChatTypeSingle, ChatTypeGroup} \<and> map_of (threads db) (pm_ConversationID m) \<noteq> None) (\<lambda>_. True)"
  unfolding upsertThread_def Let_def
  by (auto intro!: valid_stmt valid_raise dest!: insert_thread_Inr)

lemma insertMessage_ok:
  "valid (\<lambda>_. True) (insertMessage js now m)
     (\<lambda>_ db. json_valid js (pm_Content m) \<and> (\<exists>r. message_row js 0 m = Inr r)
        \<and> (\<exists>x\<in>set (messages db). SenderAccountId x = pm_SenderID m \<and> ClientMsgId x = pm_ClientMsgID m)) (\<lambda>_. True)"
proof (cases "message_row js now m")
  case (Inr r)
  then have "message_row js 0 m = Inr (r\<lparr>ServerReceivedAt := 0\<rparr>)" by (rule message_row_now)
  then show ?thesis
    using Inr message_row_fields [OF Inr] unfolding insertMessage_def
    by (auto intro!: valid_stmt dest!: insert_message_Inr split: if_splits) metis
qed (simp add: insertMessage_def valid_raise)

lemma store_step:
  assumes "lasting I"
  shows "valid I (andThen (upsertThread m) (\<lambda>_. insertMessage js now m)) (\<lambda>_ db. I db \<and> stored js m db) (\<lambda>_. True)"
proof -
  let ?T = "\<lambda>db. pm_ChatType m \<in> {ChatTypeSingle, ChatTypeGroup} \<and> map_of (threads db) (pm_ConversationID m) \<noteq> None"
  have T: "lasting ?T" unfolding lasting_def by (blast dest: grown_thread)
  have I: "lasting (\<lambda>db. I db \<and> ?T db)" using assms T unfolding lasting_def by blast
  show ?thesis
  proof (rule valid_andThen [where R = "\<lambda>_ db. I db \<and> ?T db"])
    show "valid I (upsertThread m) (\<lambda>_ db. I db \<and> ?T db) (\<lambda>_. True)"
      using valid_conjI [OF lasting_ops(1) [OF assms, of m, unfolded keeps_def] upsertThread_ok [of m]]
      by (rule valid_conseq) auto
    show "valid (\<lambda>db. I db \<and> ?T db) (insertMessage js now m) (\<lambda>_ db. I db \<and> stored js m db) (\<lambda>_. True)" for u :: unit
      using valid_conjI [OF lasting_ops(2) [OF I, of js now m, unfolded keeps_def] insertMessage_ok [of js now m]]
      by (rule valid_conseq) (auto simp: stored_def)
  qed
qed

lemma upsertVisible_ok:
  "valid (\<lambda>_. True) (upsertVisible us c s)
     (\<lambda>_ db. \<forall>u\<in>set us. TrimSpace u \<noteq> [] \<longrightarrow> map_of (states db) (TrimSpace u, c) \<noteq> None) (\<lambda>_. True)"
  unfolding upsertVisible_def Let_def
  by (rule valid_conseq [OF valid_for_each
        [where J = "\<lambda>pre db. \<forall>u\<in>set pre. TrimSpace u \<noteq> [] \<longrightarrow> map_of (states db) (TrimSpace u, c) \<noteq> None"]])
    (auto intro!: valid_ret valid_stmt simp: map_of_put_visible split: option.splits)

lemma upsertSenderRead_ok:
  "valid (\<lambda>_. True) (upsertSenderRead u c s)
     (\<lambda>_ db. \<exists>st. map_of (states db) (u, c) = Some st \<and> s \<le> us_LastReadSeq st) (\<lambda>_. True)"
  unfolding upsertSenderRead_def
  by (rule valid_stmt) (auto simp: map_of_put_read split: option.splits)

lemma note_step:
  assumes "lasting I"
  shows "valid I (andThen (upsertVisible (pm_VisibleUserIDs m) (pm_ConversationID m) v) (\<lambda>_.
       upsertSenderRead (pm_SenderID m) (pm_ConversationID m) (pm_Seq m))) (\<lambda>_ db. I db \<and> noted m db) (\<lambda>_. True)"
proof -
  let ?V = "\<lambda>db. \<forall>u\<in>set (pm_VisibleUserIDs m). TrimSpace u \<noteq> [] \<longrightarrow>
    map_of (states db) (TrimSpace u, pm_ConversationID m) \<noteq> None"
  have V: "lasting ?V" unfolding lasting_def by (fastforce dest: grown_state)
  have I: "lasting (\<lambda>db. I db \<and> ?V db)" using assms V unfolding lasting_def by blast
  show ?thesis
  proof (rule valid_andThen [where R = "\<lambda>_ db. I db \<and> ?V db"])
    show "valid I (upsertVisible (pm_VisibleUserIDs m) (pm_ConversationID m) v) (\<lambda>_ db. I db \<and> ?V db) (\<lambda>_. True)"
      using valid_conjI [OF lasting_ops(3) [OF assms, unfolded keeps_def] upsertVisible_ok]
      by (rule valid_conseq) auto
    show "valid (\<lambda>db. I db \<and> ?V db) (upsertSenderRead (pm_SenderID m) (pm_ConversationID m) (pm_Seq m))
        (\<lambda>_ db. I db \<and> noted m db) (\<lambda>_. True)" for u :: unit
      using valid_conjI [OF lasting_ops(4) [OF I, unfolded keeps_def] upsertSenderRead_ok]
      by (rule valid_conseq) (auto simp: noted_def)
  qed
qed

lemma updateThreadAfterMessage_ok:
  assumes "lasting I"
  shows "valid (\<lambda>db. I db \<and> map_of (threads db) (pm_ConversationID m) \<noteq> None) (updateThreadAfterMessage m)
     (\<lambda>_ db. I db \<and> topped m db) (\<lambda>_. True)"
  unfolding updateThreadAfterMessage_def
proof (rule valid_stmt)
  fix db db' assume "I db \<and> map_of (threads db) (pm_ConversationID m) \<noteq> None" "Inr (touch_thread m db) = Inr db'"
  then show "(I db' \<and> topped m db') \<and> True"
    using assms grown_touch_thread [of db m] unfolding lasting_def
    by (auto simp: topped_def map_of_touch_thread max_def)
qed simp

text \<open>A batch that was written is stored, noted in the states, and on top of its thread.\<close>

lemma persist_statements_ok:
  assumes "msgs \<noteq> []"
  shows "valid (\<lambda>_. True) (persist_statements js now msgs)
     (\<lambda>_ db. (\<forall>m\<in>set msgs. stored js m db \<and> noted m db) \<and> topped (last msgs) db) (\<lambda>_. True)"
proof -
  let ?S = "\<lambda>pre db. \<forall>m\<in>set pre. stored js m db" and ?N = "\<lambda>pre db. \<forall>m\<in>set pre. noted m db"
  have S: "lasting (?S pre)" and SN: "lasting (\<lambda>db. ?S msgs db \<and> ?N pre db)" for pre
    using lasting_stored lasting_noted unfolding lasting_def by blast+
  have 1: "valid (?S []) (for_each (\<lambda>msg. andThen (upsertThread msg) (\<lambda>_. insertMessage js now msg)) msgs)
      (\<lambda>_. ?S msgs) (\<lambda>_. True)"
    by (rule valid_for_each, rule valid_conseq [OF store_step [OF S]]) auto
  have 2: "valid (\<lambda>db. ?S msgs db \<and> ?N [] db) (for_each (\<lambda>msg.
         let visibleStartSeq = (if pm_ChatType msg = ChatTypeGroup then pm_Seq msg - 1 else 0) in
         andThen (upsertVisible (pm_VisibleUserIDs msg) (pm_ConversationID msg) visibleStartSeq) (\<lambda>_.
           upsertSenderRead (pm_SenderID msg) (pm_ConversationID msg) (pm_Seq msg))) msgs)
      (\<lambda>_ db. ?S msgs db \<and> ?N msgs db) (\<lambda>_. True)"
    unfolding Let_def
    by (rule valid_for_each [where J = "\<lambda>pre db. ?S msgs db \<and> ?N pre db"], rule valid_conseq [OF note_step [OF SN]]) auto
  have 3: "valid (\<lambda>db. ?S msgs db \<and> ?N msgs db) (updateThreadAfterMessage (last msgs))
      (\<lambda>_ db. (?S msgs db \<and> ?N msgs db) \<and> topped (last msgs) db) (\<lambda>_. True)"
    using assms by (intro valid_conseq [OF updateThreadAfterMessage_ok [OF SN]]) (auto simp: stored_def)
  show ?thesis
    unfolding persist_statements_def
    by (rule valid_conseq [OF valid_andThen [OF 1 valid_andThen [OF valid_conseq [OF 2] 3]]]) auto
qed

section \<open>Replays\<close>

lemma update_same: "map_of al k = Some v \<Longrightarrow> AList.update k v al = al"
  by (induction al) (auto split: if_splits)

lemma for_each_fixed:
  "(\<And>x. x \<in> set xs \<Longrightarrow> f x (w, []) = (Inr (), (w, []))) \<Longrightarrow> for_each f xs (w, []) = (Inr (), (w, []))"
  by (induction xs) (auto simp: ret_def)

lemma store_again:
  "stored js m db \<Longrightarrow> andThen (upsertThread m) (\<lambda>_. insertMessage js now m) (db, []) = (Inr (), (db, []))"
proof -
  assume st: "stored js m db"
  then obtain r where "message_row js 0 m = Inr r" by (auto simp: stored_def)
  then have r: "message_row js now m = Inr (r\<lparr>ServerReceivedAt := now\<rparr>)" by (rule message_row_now)
  have "upsertThread m (db, []) = (Inr (), (db, []))"
    using st by (auto simp: stored_def upsertThread_def stmt_clean insert_thread_def)
  moreover have "insertMessage js now m (db, []) = (Inr (), (db, []))"
    using st message_row_fields [OF r]
    by (auto simp: stored_def insertMessage_def r stmt_clean insert_message_def list_ex_iff)
  ultimately show ?thesis by simp
qed

lemma note_again:
  "noted m db \<Longrightarrow> andThen (upsertVisible (pm_VisibleUserIDs m) (pm_ConversationID m) v) (\<lambda>_.
     upsertSenderRead (pm_SenderID m) (pm_ConversationID m) (pm_Seq m)) (db, []) = (Inr (), (db, []))"
proof -
  assume n: "noted m db"
  have "upsertVisible (pm_VisibleUserIDs m) (pm_ConversationID m) v (db, []) = (Inr (), (db, []))"
    unfolding upsertVisible_def Let_def
    by (rule for_each_fixed) (use n in \<open>auto simp: noted_def ret_def stmt_clean put_visible_def split: option.splits\<close>)
  moreover obtain s where "map_of (states db) (pm_SenderID m, pm_ConversationID m) = Some s" "pm_Seq m \<le> us_LastReadSeq s"
    using n by (auto simp: noted_def)
  then have "upsertSenderRead (pm_SenderID m) (pm_ConversationID m) (pm_Seq m) (db, []) = (Inr (), (db, []))"
    by (simp add: upsertSenderRead_def stmt_clean put_read_def update_same max_def)
  ultimately show ?thesis by simp
qed

lemma touch_again: "topped m db \<Longrightarrow> touch_thread m db = db"
  by (auto simp: topped_def touch_thread_def max_def intro!: pg_db.equality update_same)

lemma persist_again:
  assumes "\<forall>m\<in>set msgs. stored js m db \<and> noted m db" "topped (last msgs) db"
  shows "PersistBatch js now msgs (db, []) = (Inr (), (db, []))"
proof -
  have "for_each (\<lambda>msg. andThen (upsertThread msg) (\<lambda>_. insertMessage js now msg)) msgs (db, []) = (Inr (), (db, []))"
    by (rule for_each_fixed) (use assms(1) store_again in blast)
  moreover have "for_each (\<lambda>msg.
         let visibleStartSeq = (if pm_ChatType msg = ChatTypeGroup then pm_Seq msg - 1 else 0) in
         andThen (upsertVisible (pm_VisibleUserIDs msg) (pm_ConversationID msg) visibleStartSeq) (\<lambda>_.
           upsertSenderRead (pm_SenderID msg) (pm_ConversationID msg) (pm_Seq msg))) msgs (db, []) = (Inr (), (db, []))"
    unfolding Let_def by (rule for_each_fixed) (use assms(1) note_again in blast)
  ultimately have "persist_statements js now msgs (db, []) = (Inr (), (db, []))"
    using touch_again [OF assms(2)] by (simp add: persist_statements_def updateThreadAfterMessage_def stmt_clean)
  then show ?thesis by (auto simp: PersistBatch_def ret_def transact_clean)
qed

lemma reproducible_persist_statements: "reproducible (persist_statements js now msgs)"
proof -
  have "reproducible (upsertThread m)" "reproducible (insertMessage js now m)"
    "reproducible (upsertVisible us c s)" for m us c s
    by (auto simp: upsertThread_def insertMessage_def upsertVisible_def Let_def split: sum.split
        intro!: reproducible_intros)
  then show ?thesis
    unfolding persist_statements_def Let_def upsertSenderRead_def updateThreadAfterMessage_def
    by (intro reproducible_intros) simp_all
qed

lemma reproducible_PersistBatch: "reproducible (PersistBatch js now msgs)"
  unfolding PersistBatch_def using reproducible_persist_statements
  by (simp add: reproducible_ret reproducible_transact)

text \<open>
  C4: whatever fails while a batch of messages is written (a statement, the commit, the reply to the
  commit), the archive afterwards is either as before or as after an undisturbed write of the whole
  batch; success means the latter. On the way the archive only grows: no row is changed or lost, no
  read position and no thread's highest sequence goes back, and the unique keys stay unique.
\<close>

theorem persist_batch_atomic:
  assumes "PersistBatch js now msgs (db, fs) = (r, (db', fs'))"
  shows "(db' = db \<and> isl r \<or> PersistBatch js now msgs (db, []) = (Inr (), (db', [])))
    \<and> grown db db' \<and> (pg_keys db \<longrightarrow> pg_keys db')"
proof -
  have "db' = db \<and> isl r \<or> PersistBatch js now msgs (db, []) = (Inr (), (db', []))"
  proof (cases "msgs = []")
    case False
    then have "transact (persist_statements js now msgs) (db, fs) = (r, (db', fs'))"
      using assms by (simp add: PersistBatch_def)
    from transact_cases [OF this]
    have "db' = db \<and> isl r \<or> (\<exists>u fs1. persist_statements js now msgs (db, fs) = (Inr u, (db', fs1)))"
      by (cases r) auto
    then show ?thesis
      using False reproducibleD [OF reproducible_persist_statements]
      by (auto simp: PersistBatch_def transact_clean)
  qed (use assms in \<open>simp add: PersistBatch_def ret_def\<close>)
  moreover have "grown db db'" by (rule keepsD [OF PersistBatch_grown [of db] _ assms]) simp
  moreover have "pg_keys db \<longrightarrow> pg_keys db'"
    using keepsD [OF PersistBatch_keep [OF persist_statements_keys]] assms by blast
  ultimately show ?thesis by blast
qed

definition empty_db :: pg_db where
  "empty_db = \<lparr>threads = [], messages = [], states = []\<rparr>"

definition demo_persist :: PersistMessage where
  "demo_persist =
     \<lparr>pm_ServerMsgID = ''77'', pm_ClientMsgID = ''c1'', pm_SenderID = ''u1'', pm_ConversationID = ''group:g'', pm_Seq = 4,
      pm_ChatType = ''group'', pm_ReceiverID = [], pm_GroupID = ''g'', pm_ContentType = ''text'', pm_Content = ''t'',
      pm_MessageOrigin = ''human'', pm_AgentAccountID = [], pm_TriggerServerMsgID = [], pm_AgentRunID = [],
      pm_AllowRecursiveTrigger = False, pm_PayloadHash = [], pm_SendTime = Some 9, pm_VisibleUserIDs = [''u1'', ''u2'']\<rparr>"

lemma demo_persisted: "\<exists>db'. PersistBatch demo_json 10 [demo_persist] (empty_db, []) = (Inr (), (db', []))"
proof -
  have row: "isl (message_row demo_json 10 demo_persist) = False" by code_simp
  have trim: "TrimSpace ''u1'' = ''u1''" "TrimSpace ''u2'' = ''u2''" by code_simp+
  obtain r where r: "message_row demo_json 10 demo_persist = Inr r"
    using row by (auto simp: isl_def) (metis sum.exhaust)
  have fields: "pm_ChatType demo_persist = ''group''" "pm_VisibleUserIDs demo_persist = [''u1'', ''u2'']"
    "pm_Content demo_persist = ''t''"
    by (simp_all add: demo_persist_def)
  have "\<exists>db'. persist_statements demo_json 10 [demo_persist] (empty_db, []) = (Inr (), (db', []))"
    by (simp add: persist_statements_def upsertThread_def insertMessage_def r upsertVisible_def upsertSenderRead_def
        updateThreadAfterMessage_def stmt_clean insert_thread_def insert_message_def empty_db_def ret_def
        fields event_consts trim)
      (simp add: demo_json_def andThen_def stmt_clean insert_thread_def insert_message_def)
  then show ?thesis by (auto simp: PersistBatch_def transact_clean)
qed

theorem persist_batch_atomic_witness:
  "\<exists>db'. PersistBatch demo_json 10 [demo_persist] (empty_db, []) = (Inr (), (db', []))
     \<and> grown empty_db db' \<and> pg_keys db'"
proof -
  obtain db' where d: "PersistBatch demo_json 10 [demo_persist] (empty_db, []) = (Inr (), (db', []))"
    using demo_persisted by blast
  moreover have "pg_keys empty_db" by (simp add: pg_keys_def empty_db_def)
  ultimately show ?thesis using persist_batch_atomic [OF d] by blast
qed

text \<open>
  The archive writer is idempotent: a batch written successfully once can be redelivered at any
  later time of the same archive state and is accepted again without any change.
\<close>

theorem persist_batch_replay:
  assumes "PersistBatch js now msgs (db, fs) = (Inr (), (db', fs'))"
  shows "PersistBatch js now' msgs (db', []) = (Inr (), (db', []))"
proof (cases "msgs = []")
  case False
  then obtain fs1 where "persist_statements js now msgs (db, fs) = (Inr (), (db', fs1))"
    using assms transact_cases [of "persist_statements js now msgs" db fs "Inr ()" db' fs']
    by (auto simp: PersistBatch_def)
  then have "persist_statements js now msgs (db, []) = (Inr (), (db', []))"
    by (rule reproducibleD [OF reproducible_persist_statements])
  from validD_ok [OF persist_statements_ok [OF False] TrueI this] show ?thesis by (intro persist_again) auto
qed (simp add: PersistBatch_def ret_def)

theorem persist_batch_replay_witness:
  "\<exists>db'. PersistBatch demo_json 10 [demo_persist] (empty_db, []) = (Inr (), (db', []))
     \<and> PersistBatch demo_json 20 [demo_persist] (db', []) = (Inr (), (db', []))"
  using demo_persisted persist_batch_replay by blast

section \<open>Contents the archive refuses\<close>

lemma PersistBatch_refuses:
  assumes m: "m \<in> set msgs" and bad: "\<And>r. message_row js now m \<noteq> Inr r"
  shows "isl (fst (PersistBatch js now msgs w))"
proof -
  have "isl (fst (insertMessage js now m w))" for w
    using bad by (cases "message_row js now m") (auto simp: insertMessage_def raise_def)
  then have "isl (fst (andThen (upsertThread m) (\<lambda>_. insertMessage js now m) w))" for w
    by (rule andThen_fails_second)
  from for_each_fails [where f = "\<lambda>m. andThen (upsertThread m) (\<lambda>_. insertMessage js now m)", OF m this]
  have "isl (fst (persist_statements js now msgs w))" for w
    unfolding persist_statements_def by (rule andThen_fails_first)
  then have "isl (fst (transact (persist_statements js now msgs) w))" by (rule transact_fails)
  then show ?thesis using m by (auto simp: PersistBatch_def)
qed

text \<open>
  C38: an accepted message of content type \<^verbatim>\<open>at\<close> can never be archived: the writer knows the content
  types text, image and file only, so the batch that contains the message fails in every state of the
  database and for every pattern of failures, and since the consumer retries a failed batch in place,
  it never commits it, however many attempts it makes.
\<close>

theorem at_message_wedges_persist:
  assumes e: "e \<in> set (batch_events js EventTypeMessageAccepted records)" and at: "p_ContentType (Payload e) = ContentTypeAt"
  shows "retry_batch (Persist_HandleBatch js now) n records w = None"
proof -
  let ?es = "batch_events js EventTypeMessageAccepted records"
  have "contentTypeValue ContentTypeAt = Inl (PlainError ''content_type must be text, image, or file'')"
    by code_simp
  then have "message_row js now (persistMessageFromEvent e) \<noteq> Inr r" for r
    using at by (auto simp: message_row_def persistMessageFromEvent_def Let_def split: sum.splits)
  then have "isl (fst (PersistBatch js now (map persistMessageFromEvent (filter (\<lambda>x. ConversationID x = ConversationID e) ?es)) w))" for w
    using e by (intro PersistBatch_refuses [where m = "persistMessageFromEvent e"]) auto
  then have "isl (fst (Persist_HandleBatch js now records w))" for w
    using e unfolding Persist_HandleBatch_def group_batch_spec Let_def prod.case
    by (intro for_each_fails [where x = "ConversationID e"]) (auto simp: set_keep_first)
  then have "\<exists>err w'. Persist_HandleBatch js now records w = (Inl err, w')" for w
    by (metis isl_def prod.collapse)
  then show ?thesis by (intro retry_batch_stuck [where J = "\<lambda>_. True"]) auto
qed

definition demo_at_event :: MessageEvent where
  "demo_at_event =
     \<lparr>EventID = ''1'', EventType = ''message.accepted'', ConversationID = ''group:g'', ServerMsgID = ''77'', Seq = 1,
      SenderID = ''u1'', ChatType = ''group'', CreatedAt = 5,
      Payload = \<lparr>p_ClientMsgID = ''c1'', p_ReceiverID = [], p_ReceiverIDs = [], p_GroupID = ''g'', p_ContentType = ''at'',
        p_Content = ''x'', p_MessageOrigin = ''human'', p_AgentAccountID = [], p_TriggerServerMsgID = [],
        p_AgentRunID = [], p_AllowRecursiveTrigger = False, p_UserID = [], p_HasReadSeq = 0, p_ReadAt = 0,
        p_VisibleUserIDs = [''u1''], p_AtUserIDs = [''u1''], p_PayloadHash = [], p_SendTime = 5, p_TraceID = [],
        p_RequestID = [], p_TraceParent = [], p_TraceState = []\<rparr>\<rparr>"

theorem at_message_wedges_persist_witness:
  "retry_batch (Persist_HandleBatch (demo_json\<lparr>event_decode := \<lambda>_. Inr demo_at_event\<rparr>) 10) 1000 [''r''] (empty_db, []) = None"
  by (rule at_message_wedges_persist [where e = demo_at_event])
    (simp_all add: batch_events_def UnmarshalMessageEvent_def Validate_def Let_def demo_json_def demo_at_event_def
      event_consts content_consts)

end
