(* ===== verification/Msg_Transfer.thy ===== *)
theory Msg_Transfer
  imports Archive Id_Gen
begin

text \<open>
  The hot path of msgtransfer (\<^verbatim>\<open>service/msgtransfer/internal/chain\<close>): the allocator of sequence
  numbers (\<^verbatim>\<open>seq.go\<close>), the Redis writes (\<^verbatim>\<open>store.go\<close>) and the handler of
  \<^verbatim>\<open>msg.toTransfer.v1\<close> (\<^verbatim>\<open>handler.go\<close>). Redis is a record of maps, one per family of keys; its
  expiries are steps of the environment. Every call to Redis, PostgreSQL or the broker may fail.
\<close>

section \<open>State\<close>

record DedupRecord =
  dr_ConversationID :: string
  dr_Seq :: int
  dr_ServerMsgID :: string
  dr_PayloadHash :: string

record chain_world =
  redis_seq :: "string \<Rightarrow> int option"
  redis_dedup :: "string \<Rightarrow> DedupRecord option"
  redis_cache :: "string \<Rightarrow> string \<Rightarrow> MessageEvent option"
  redis_hasread :: "string \<Rightarrow> int option"
  cw_pg :: pg_db
  cw_log :: broker_log

section \<open>Sequence numbers\<close>

definition seqKey :: "string \<Rightarrow> string" where
  "seqKey conversationID = ''msg:seq:conv:'' @ conversationID"

text \<open>The steps of \<^verbatim>\<open>Malloc\<close>; \<^verbatim>\<open>INCRBY\<close> refuses to leave the range of 64-bit integers.\<close>

definition setnx :: "string \<Rightarrow> int \<Rightarrow> chain_world \<Rightarrow> chain_world" where
  "setnx key v w = (if redis_seq w key = None then w\<lparr>redis_seq := (redis_seq w)(key \<mapsto> v)\<rparr> else w)"

definition incrby :: "string \<Rightarrow> int \<Rightarrow> chain_world \<Rightarrow> int option \<times> chain_world" where
  "incrby key n w =
     (let v = (case redis_seq w key of None \<Rightarrow> 0 | Some v \<Rightarrow> v) + n
      in if v \<ge> 2 ^ 63 then (None, w) else (Some v, w\<lparr>redis_seq := (redis_seq w)(key \<mapsto> v)\<rparr>))"

definition Malloc :: "string \<Rightarrow> int \<Rightarrow> (chain_world, int) act" where
  "Malloc conversationID n =
     (if n \<le> 0 then raise (PlainError ''seq malloc count must be positive'')
      else let key = seqKey conversationID in
        andThen (call ''seq malloc exists'' (\<lambda>w. (redis_seq w key \<noteq> None, w))) (\<lambda>ex.
        andThen (if ex then ret ()
                 else andThen (call ''query max seq'' (\<lambda>w. (MaxSeq (cw_pg w) conversationID, w))) (\<lambda>maxSeq.
                   call ''seq malloc seed'' (\<lambda>w. ((), setnx key maxSeq w)))) (\<lambda>_.
        andThen (call ''seq malloc incr'' (incrby key n)) (\<lambda>r.
        case r of
          None \<Rightarrow> raise (PlainError ''increment or decrement would overflow'')
        | Some newMax \<Rightarrow> ret (newMax - n + 1)))))"

section \<open>Store\<close>

definition dedupKey :: "string \<Rightarrow> string \<Rightarrow> string" where
  "dedupKey senderID clientMsgID = ''msg:dedup:'' @ senderID @ '':'' @ clientMsgID"

definition cacheBucketKey :: "string \<Rightarrow> int \<Rightarrow> string" where
  "cacheBucketKey conversationID seq =
     ''msg:cache:conv:'' @ conversationID @ '':'' @ FormatInt (if seq \<ge> 0 then seq div 100 else - (- seq div 100))"

definition hasReadKey :: "string \<Rightarrow> string \<Rightarrow> string" where
  "hasReadKey conversationID userID = ''msg:hasread:conv:'' @ conversationID @ '':user:'' @ userID"

definition DedupGet :: "string \<Rightarrow> string \<Rightarrow> (chain_world, DedupRecord option) act" where
  "DedupGet senderID clientMsgID = call ''dedup get'' (\<lambda>w. (redis_dedup w (dedupKey senderID clientMsgID), w))"

definition dedup_setnx :: "string \<Rightarrow> DedupRecord \<Rightarrow> chain_world \<Rightarrow> chain_world" where
  "dedup_setnx key r w =
     (if redis_dedup w key = None then w\<lparr>redis_dedup := (redis_dedup w)(key \<mapsto> r)\<rparr> else w)"

definition DedupSet :: "string \<Rightarrow> string \<Rightarrow> DedupRecord \<Rightarrow> (chain_world, unit) act" where
  "DedupSet senderID clientMsgID r =
     call ''dedup set'' (\<lambda>w. ((), dedup_setnx (dedupKey senderID clientMsgID) r w))"

text \<open>
  The pipeline of \<^verbatim>\<open>HSET\<close>s, as the sequence of its commands: when it fails, a part of it may have
  been executed.
\<close>

definition hset :: "string \<Rightarrow> string \<Rightarrow> MessageEvent \<Rightarrow> chain_world \<Rightarrow> chain_world" where
  "hset bucket field e w =
     w\<lparr>redis_cache := (redis_cache w)(bucket := (redis_cache w bucket)(field \<mapsto> e))\<rparr>"

definition CacheMessages :: "string \<Rightarrow> MessageEvent list \<Rightarrow> (chain_world, unit) act" where
  "CacheMessages conversationID events =
     for_each (\<lambda>e. call ''cache messages'' (\<lambda>w. ((), hset (cacheBucketKey conversationID (Seq e)) (FormatInt (Seq e)) e w))) events"

text \<open>The Lua script; its numbers are exact below \<^verbatim>\<open>2^53\<close>.\<close>

definition hasReadAdvance :: "string \<Rightarrow> int \<Rightarrow> chain_world \<Rightarrow> int \<times> chain_world" where
  "hasReadAdvance key nxt w =
     (let current = (case redis_hasread w key of None \<Rightarrow> 0 | Some v \<Rightarrow> v)
      in if nxt > current then (nxt, w\<lparr>redis_hasread := (redis_hasread w)(key \<mapsto> nxt)\<rparr>) else (current, w))"

definition SetHasRead :: "string \<Rightarrow> string \<Rightarrow> int \<Rightarrow> (chain_world, unit) act" where
  "SetHasRead conversationID userID seq =
     andThen (call ''hasread set'' (hasReadAdvance (hasReadKey conversationID userID) seq)) (\<lambda>_. ret ())"

section \<open>Fan-out\<close>

definition uniqueSortedNonEmpty :: "string list \<Rightarrow> string list" where
  "uniqueSortedNonEmpty values = drop_repeats [] (sort (filter (\<lambda>v. v \<noteq> []) (map TrimSpace values)))"

definition deriveReceiverIDs :: "MessageEvent \<Rightarrow> string list" where
  "deriveReceiverIDs event =
     (let p = Payload event
      in uniqueSortedNonEmpty
           (SenderID event #
            (if ChatType event = ChatTypeSingle \<and> p_ReceiverID p \<noteq> [] then [p_ReceiverID p] else [])
            @ p_VisibleUserIDs p))"

definition pushFanoutEvent :: "bool \<Rightarrow> MessageEvent \<Rightarrow> MessageEvent \<times> bool" where
  "pushFanoutEvent typedAccountIDs event =
     (if \<not> typedAccountIDs then (event, p_ReceiverIDs (Payload event) \<noteq> [])
      else let pushEvent = Clone event;
               humans = filter (\<lambda>i. \<not> IsAgentAccountID i) (p_ReceiverIDs (Payload pushEvent))
           in (pushEvent\<lparr>Payload := (Payload pushEvent)\<lparr>p_ReceiverIDs := humans\<rparr>\<rparr>, humans \<noteq> []))"

section \<open>The handler\<close>

fun fresh_events :: "string set \<Rightarrow> MessageEvent list \<Rightarrow> (chain_world, MessageEvent list) act" where
  "fresh_events seenClientIDs [] = ret []"
| "fresh_events seenClientIDs (event # events) =
     (let clientKey = SenderID event @ '':'' @ p_ClientMsgID (Payload event)
      in if clientKey \<in> seenClientIDs then fresh_events seenClientIDs events
         else andThen (DedupGet (SenderID event) (p_ClientMsgID (Payload event))) (\<lambda>record.
              andThen (fresh_events (insert clientKey seenClientIDs) events) (\<lambda>fresh.
              ret (if record \<noteq> None then fresh else event # fresh))))"

fun accept_from :: "int \<Rightarrow> MessageEvent list \<Rightarrow> MessageEvent list" where
  "accept_from s [] = []"
| "accept_from s (event # events) =
     event\<lparr>EventType := EventTypeMessageAccepted, Seq := s,
           Payload := (Payload event)\<lparr>p_ReceiverIDs := deriveReceiverIDs event\<rparr>\<rparr> # accept_from (s + 1) events"

definition publish_accepted :: "json_lib \<Rightarrow> bool \<Rightarrow> MessageEvent \<Rightarrow> (chain_world, unit) act" where
  "publish_accepted js typed event =
     andThen (PublishEvent js cw_log_update TopicToPostgres event) (\<lambda>_.
     andThen (PublishEvent js cw_log_update TopicAgentTrigger event) (\<lambda>_.
     case pushFanoutEvent typed event of (pushEvent, hasRecipients) \<Rightarrow>
       if \<not> hasRecipients then ret () else PublishEvent js cw_log_update TopicToPush pushEvent))"

definition record_dedup :: "string \<Rightarrow> MessageEvent \<Rightarrow> (chain_world, unit) act" where
  "record_dedup conversationID event =
     DedupSet (SenderID event) (p_ClientMsgID (Payload event))
       \<lparr>dr_ConversationID = conversationID, dr_Seq = Seq event, dr_ServerMsgID = ServerMsgID event,
        dr_PayloadHash = p_PayloadHash (Payload event)\<rparr>"

definition deliver_accepted :: "json_lib \<Rightarrow> bool \<Rightarrow> string \<Rightarrow> MessageEvent list \<Rightarrow> (chain_world, unit) act" where
  "deliver_accepted js typed conversationID accepted =
     andThen (CacheMessages conversationID accepted) (\<lambda>_.
     andThen (for_each (\<lambda>e. SetHasRead conversationID (SenderID e) (Seq e)) accepted) (\<lambda>_.
     andThen (for_each (publish_accepted js typed) accepted) (\<lambda>_.
     for_each (record_dedup conversationID) accepted)))"

text \<open>\<open>seq\<close> is the allocator the handler was built with; the service builds it with \<^const>\<open>Malloc\<close>.\<close>

type_synonym seq_allocator = "string \<Rightarrow> int \<Rightarrow> (chain_world, int) act"

definition handleConversation ::
  "seq_allocator \<Rightarrow> json_lib \<Rightarrow> bool \<Rightarrow> string \<Rightarrow> MessageEvent list \<Rightarrow> (chain_world, unit) act" where
  "handleConversation seq js typed conversationID events =
     andThen (fresh_events {} events) (\<lambda>fresh.
     if fresh = [] then ret ()
     else andThen (seq conversationID (int (length fresh))) (\<lambda>firstSeq.
          deliver_accepted js typed conversationID (accept_from firstSeq fresh)))"

definition Transfer_HandleBatch :: "seq_allocator \<Rightarrow> json_lib \<Rightarrow> bool \<Rightarrow> string list \<Rightarrow> (chain_world, unit) act" where
  "Transfer_HandleBatch seq js typed records =
     (let (order, byConversation) = group_batch js EventTypeMessageSubmitted records
      in if order = [] then ret ()
         else run_all (\<lambda>c. handleConversation seq js typed c (byConversation c)) order)"

section \<open>Fan-out, characterised\<close>

lemma uniqueSortedNonEmpty_spec:
  "uniqueSortedNonEmpty vs = sorted_list_of_set ((TrimSpace ` set vs) - {[]})"
  unfolding uniqueSortedNonEmpty_def drop_repeats_sort by (rule arg_cong [where f = sorted_list_of_set]) auto

lemma set_uniqueSortedNonEmpty: "set (uniqueSortedNonEmpty vs) = (TrimSpace ` set vs) - {[]}"
  unfolding uniqueSortedNonEmpty_spec by simp

text \<open>
  The push copy of an accepted message goes to the sender, the receiver of a single chat and the
  accounts the message is visible to: each exactly once, in order, trimmed and non-empty, and less
  the accounts whose id marks an agent when account ids are typed. The copy differs from the
  message in its receivers only, and it is published exactly when a receiver is left.
\<close>

theorem push_fanout_recipients:
  "let accepted = hd (accept_from s [event]); (pushEvent, send) = pushFanoutEvent typed accepted;
       everyone = TrimSpace ` (insert (SenderID event) (set (p_VisibleUserIDs (Payload event)))
          \<union> (if ChatType event = ChatTypeSingle \<and> p_ReceiverID (Payload event) \<noteq> [] then {p_ReceiverID (Payload event)} else {})) - {[]}
   in set (p_ReceiverIDs (Payload pushEvent)) = (if typed then {i \<in> everyone. \<not> IsAgentAccountID i} else everyone)
      \<and> sorted (p_ReceiverIDs (Payload pushEvent)) \<and> distinct (p_ReceiverIDs (Payload pushEvent))
      \<and> (send \<longleftrightarrow> p_ReceiverIDs (Payload pushEvent) \<noteq> [])
      \<and> pushEvent\<lparr>Payload := (Payload pushEvent)\<lparr>p_ReceiverIDs := p_ReceiverIDs (Payload accepted)\<rparr>\<rparr> = accepted"
proof -
  let ?ids = "SenderID event # (if ChatType event = ChatTypeSingle \<and> p_ReceiverID (Payload event) \<noteq> [] then [p_ReceiverID (Payload event)] else [])
            @ p_VisibleUserIDs (Payload event)"
  have rs: "deriveReceiverIDs event = uniqueSortedNonEmpty ?ids" by (simp add: deriveReceiverIDs_def Let_def)
  have set: "set (uniqueSortedNonEmpty ?ids) = TrimSpace ` (insert (SenderID event) (set (p_VisibleUserIDs (Payload event)))
          \<union> (if ChatType event = ChatTypeSingle \<and> p_ReceiverID (Payload event) \<noteq> [] then {p_ReceiverID (Payload event)} else {})) - {[]}"
    unfolding set_uniqueSortedNonEmpty by auto
  have ord: "sorted (uniqueSortedNonEmpty ?ids) \<and> distinct (uniqueSortedNonEmpty ?ids)"
    unfolding uniqueSortedNonEmpty_spec by simp
  show ?thesis
    unfolding Let_def pushFanoutEvent_def accept_from.simps list.sel rs set [symmetric]
    using ord by (cases typed) (auto intro: sorted_wrt_filter)
qed

section \<open>Order and uniqueness of sequence numbers\<close>

definition counter :: "chain_world \<Rightarrow> string \<Rightarrow> int" where
  "counter w c = (case redis_seq w (seqKey c) of None \<Rightarrow> 0 | Some v \<Rightarrow> v)"

abbreviation accepted_topics :: "string set" where
  "accepted_topics \<equiv> {TopicToPostgres, TopicAgentTrigger, TopicToPush}"

text \<open>The sequence numbers of one conversation on one topic, oldest first.\<close>

definition topic_seqs :: "string \<Rightarrow> string \<Rightarrow> broker_log \<Rightarrow> int list" where
  "topic_seqs t c log = map (\<lambda>(_, e). Seq e) (filter (\<lambda>(t', e). t' = t \<and> ConversationID e = c) log)"

lemma topic_seqs_snoc:
  "topic_seqs t c (log @ [(t', e)]) = topic_seqs t c log @ (if t' = t \<and> ConversationID e = c then [Seq e] else [])"
  by (simp add: topic_seqs_def)

text \<open>
  \<open>log_inv\<close>: on each topic the numbers of a conversation increase strictly, and none is above the
  counter. \<open>rows_inv\<close>: an archived number is positive and not above the counter, and a record with the
  same number is the record of the same message.
\<close>

definition log_inv :: "chain_world \<Rightarrow> bool" where
  "log_inv w \<longleftrightarrow> (\<forall>t\<in>accepted_topics. \<forall>c. sorted_wrt (<) (topic_seqs t c (cw_log w))
     \<and> (\<forall>s\<in>set (topic_seqs t c (cw_log w)). 0 < s \<and> s \<le> counter w c))"

definition rows_inv :: "chain_world \<Rightarrow> bool" where
  "rows_inv w \<longleftrightarrow> (\<forall>m\<in>set (messages (cw_pg w)). 0 < MsgSeq m
     \<and> (redis_seq w (seqKey (ConversationId m)) \<noteq> None \<longrightarrow> MsgSeq m \<le> counter w (ConversationId m))
     \<and> (\<forall>e. (TopicToPostgres, e) \<in> set (cw_log w) \<and> ConversationID e = ConversationId m \<and> Seq e = MsgSeq m \<longrightarrow>
          SenderID e = SenderAccountId m \<and> p_ClientMsgID (Payload e) = ClientMsgId m))"

definition seq_inv :: "chain_world \<Rightarrow> bool" where
  "seq_inv w \<longleftrightarrow> (\<forall>k v. redis_seq w k = Some v \<longrightarrow> 0 \<le> v) \<and> log_inv w \<and> rows_inv w"

text \<open>Room for new records: per topic, every number of the conversation so far is below \<open>f\<close>, and so are the archived ones below \<open>s\<close>.\<close>

definition below :: "(string \<Rightarrow> int) \<Rightarrow> string \<Rightarrow> int \<Rightarrow> chain_world \<Rightarrow> bool" where
  "below f c s w \<longleftrightarrow> (\<forall>t\<in>accepted_topics. \<forall>x\<in>set (topic_seqs t c (cw_log w)). x < f t)
     \<and> (\<forall>m\<in>set (messages (cw_pg w)). ConversationId m = c \<longrightarrow> MsgSeq m < s)"

lemma topics_distinct:
  "TopicToPostgres \<noteq> TopicAgentTrigger" "TopicToPostgres \<noteq> TopicToPush" "TopicAgentTrigger \<noteq> TopicToPush"
  by (simp_all add: topic_defs)

lemma seqKey_inject [simp]: "seqKey c = seqKey d \<longleftrightarrow> c = d"
  by (simp add: seqKey_def)

lemma counter_cong [simp]:
  "counter (redis_dedup_update d w) = counter w" "counter (redis_cache_update a w) = counter w"
  "counter (redis_hasread_update h w) = counter w" "counter (cw_log_update l w) = counter w" "counter (cw_pg_update p w) = counter w"
  by (simp_all add: counter_def fun_eq_iff)

lemma seq_inv_cong [simp]:
  "seq_inv (redis_dedup_update d w) = seq_inv w" "seq_inv (redis_cache_update a w) = seq_inv w"
  "seq_inv (redis_hasread_update h w) = seq_inv w"
  by (simp_all add: seq_inv_def log_inv_def rows_inv_def)

lemma below_cong [simp]:
  "below f c s (redis_dedup_update d w) = below f c s w" "below f c s (redis_cache_update a w) = below f c s w"
  "below f c s (redis_hasread_update h w) = below f c s w" "below f c s (redis_seq_update q w) = below f c s w"
  by (simp_all add: below_def)

lemma below_mono: "below f c s w \<Longrightarrow> (\<And>t. f t \<le> g t) \<Longrightarrow> below g c s w"
  unfolding below_def by (meson order_less_le_trans)

text \<open>The one step that extends the log.\<close>

lemma publish_step:
  assumes inv: "seq_inv w" and t: "t \<in> accepted_topics" and c: "ConversationID e = c"
    and room: "below f c s w" "f t \<le> Seq e" "s \<le> Seq e" "0 < Seq e" "Seq e \<le> counter w c"
  defines "w' \<equiv> cw_log_update (\<lambda>log. log @ [(t, e)]) w"
  shows "seq_inv w' \<and> below (f(t := Seq e + 1)) c s w'"
proof -
  have lt: "\<forall>x\<in>set (topic_seqs t c (cw_log w)). x < Seq e" using room t by (fastforce simp: below_def)
  have "log_inv w'"
    unfolding log_inv_def w'_def
  proof (intro ballI allI)
    fix t' d assume t': "t' \<in> accepted_topics"
    then have old: "sorted_wrt (<) (topic_seqs t' d (cw_log w))"
        "\<forall>x\<in>set (topic_seqs t' d (cw_log w)). 0 < x \<and> x \<le> counter w d"
      using inv by (auto simp: seq_inv_def log_inv_def)
    show "sorted_wrt (<) (topic_seqs t' d (cw_log (cw_log_update (\<lambda>log. log @ [(t, e)]) w)))
        \<and> (\<forall>x\<in>set (topic_seqs t' d (cw_log (cw_log_update (\<lambda>log. log @ [(t, e)]) w))).
             0 < x \<and> x \<le> counter (cw_log_update (\<lambda>log. log @ [(t, e)]) w) d)"
      using old lt room(4,5) c by (auto simp: topic_seqs_snoc sorted_wrt_append)
  qed
  moreover have "rows_inv w'"
    unfolding rows_inv_def
  proof (intro ballI conjI allI impI; (elim conjE)?)
    fix m assume "m \<in> set (messages (cw_pg w'))"
    then have m: "m \<in> set (messages (cw_pg w))" by (simp add: w'_def)
    with inv have old: "0 < MsgSeq m \<and> (redis_seq w (seqKey (ConversationId m)) \<noteq> None \<longrightarrow> MsgSeq m \<le> counter w (ConversationId m))
       \<and> (\<forall>e. (TopicToPostgres, e) \<in> set (cw_log w) \<and> ConversationID e = ConversationId m \<and> Seq e = MsgSeq m \<longrightarrow>
          SenderID e = SenderAccountId m \<and> p_ClientMsgID (Payload e) = ClientMsgId m)"
      by (auto simp: seq_inv_def rows_inv_def)
    then show "0 < MsgSeq m" "redis_seq w' (seqKey (ConversationId m)) \<noteq> None \<Longrightarrow> MsgSeq m \<le> counter w' (ConversationId m)"
      by (simp_all add: w'_def)
    have new: "ConversationId m = c \<Longrightarrow> MsgSeq m \<noteq> Seq e" using room(1,3) m by (fastforce simp: below_def)
    fix e' assume e': "(TopicToPostgres, e') \<in> set (cw_log w')" "ConversationID e' = ConversationId m" "Seq e' = MsgSeq m"
    with new c have "(TopicToPostgres, e') \<in> set (cw_log w)" by (auto simp: w'_def)
    with old e' show "SenderID e' = SenderAccountId m" "p_ClientMsgID (Payload e') = ClientMsgId m" by blast+
  qed
  moreover have "below (f(t := Seq e + 1)) c s w'"
    unfolding below_def
  proof (intro conjI ballI)
    fix t' x assume "t' \<in> accepted_topics" "x \<in> set (topic_seqs t' c (cw_log w'))"
    then have "x \<in> set (topic_seqs t' c (cw_log w)) \<or> t' = t \<and> x = Seq e"
      unfolding w'_def by (simp add: topic_seqs_snoc split: if_splits) blast
    moreover have "x \<in> set (topic_seqs t' c (cw_log w)) \<Longrightarrow> x < f t'"
      using room(1) \<open>t' \<in> accepted_topics\<close> unfolding below_def by blast
    ultimately show "x < (f(t := Seq e + 1)) t'" using lt by (cases "t' = t") fastforce+
  qed (use room(1) in \<open>simp add: below_def w'_def\<close>)
  ultimately show ?thesis using inv by (simp add: seq_inv_def w'_def)
qed

lemma valid_publish:
  assumes "t \<in> accepted_topics" "ConversationID e = c" "f t \<le> Seq e" "s \<le> Seq e" "0 < Seq e"
  shows "valid (\<lambda>w. seq_inv w \<and> below f c s w \<and> Seq e \<le> counter w c \<and> m \<le> counter w c)
     (PublishEvent js cw_log_update t e)
     (\<lambda>_ w. seq_inv w \<and> below (f(t := Seq e + 1)) c s w \<and> Seq e \<le> counter w c \<and> m \<le> counter w c) seq_inv"
  unfolding PublishEvent_def
proof (cases "Validate js e")
  case None
  then show "valid (\<lambda>w. seq_inv w \<and> below f c s w \<and> Seq e \<le> counter w c \<and> m \<le> counter w c)
     (case Validate js e of None \<Rightarrow> call ''produce'' (\<lambda>w. ((), cw_log_update (\<lambda>log. log @ [(t, e)]) w)) | Some x \<Rightarrow> raise x)
     (\<lambda>_ w. seq_inv w \<and> below (f(t := Seq e + 1)) c s w \<and> Seq e \<le> counter w c \<and> m \<le> counter w c) seq_inv"
    using publish_step [of _ t e c f s] assms by (auto intro!: valid_call)
qed (auto intro: valid_raise)

lemma accept_from_nth:
  "i < length es \<Longrightarrow> accept_from s es ! i =
     (es ! i)\<lparr>EventType := EventTypeMessageAccepted, Seq := s + int i,
       Payload := (Payload (es ! i))\<lparr>p_ReceiverIDs := deriveReceiverIDs (es ! i)\<rparr>\<rparr>"
  by (induction es arbitrary: s i) (auto simp: nth_Cons split: nat.splits)

lemma length_accept_from [simp]: "length (accept_from s es) = length es"
  by (induction es arbitrary: s) auto

lemma accept_from_split:
  assumes "accept_from s es = pre @ e # todo"
  shows "Seq e = s + int (length pre) \<and> length pre < length es
    \<and> (\<exists>e0\<in>set es. e = e0\<lparr>EventType := EventTypeMessageAccepted, Seq := Seq e,
          Payload := (Payload e0)\<lparr>p_ReceiverIDs := deriveReceiverIDs e0\<rparr>\<rparr>
        \<and> ConversationID e = ConversationID e0 \<and> SenderID e = SenderID e0
        \<and> p_ClientMsgID (Payload e) = p_ClientMsgID (Payload e0))"
proof -
  have l: "length pre < length es" using arg_cong [OF assms, of length] by simp
  have "e = accept_from s es ! length pre" using assms by (simp add: nth_append)
  with accept_from_nth [OF l, of s] l show ?thesis by (auto intro!: bexI [of _ "es ! length pre"])
qed

lemma pushFanoutEvent_same:
  "pushFanoutEvent typed e = (pe, b) \<Longrightarrow> Seq pe = Seq e \<and> ConversationID pe = ConversationID e"
  by (auto simp: pushFanoutEvent_def Let_def split: if_splits)

text \<open>One accepted message on its three topics, with room above everything published before it.\<close>

lemma publish_accepted_ordered:
  assumes c: "ConversationID e = c" and s: "s \<le> Seq e" "0 < Seq e"
  shows "valid (\<lambda>w. seq_inv w \<and> below (\<lambda>_. Seq e) c s w \<and> Seq e \<le> counter w c \<and> m \<le> counter w c)
     (publish_accepted js typed e)
     (\<lambda>_ w. seq_inv w \<and> below (\<lambda>_. Seq e + 1) c s w \<and> m \<le> counter w c) seq_inv"
proof -
  obtain pe b where pe: "pushFanoutEvent typed e = (pe, b)" by (cases "pushFanoutEvent typed e")
  note pe' = pushFanoutEvent_same [OF pe]
  let ?f1 = "(\<lambda>_. Seq e)(TopicToPostgres := Seq e + 1)" and ?f2 = "(\<lambda>_. Seq e)(TopicToPostgres := Seq e + 1, TopicAgentTrigger := Seq e + 1)"
  let ?P = "\<lambda>f w. seq_inv w \<and> below f c s w \<and> Seq e \<le> counter w c \<and> m \<le> counter w c"
  have 1: "valid (?P (\<lambda>_. Seq e)) (PublishEvent js cw_log_update TopicToPostgres e) (\<lambda>_. ?P ?f1) seq_inv"
    by (rule valid_publish) (use assms in simp_all)
  have 2: "valid (?P ?f1) (PublishEvent js cw_log_update TopicAgentTrigger e) (\<lambda>_. ?P ?f2) seq_inv"
    by (rule valid_publish) (use assms topics_distinct in simp_all)
  have 3: "valid (?P ?f2) (PublishEvent js cw_log_update TopicToPush pe)
      (\<lambda>_ w. seq_inv w \<and> below (\<lambda>_. Seq e + 1) c s w \<and> m \<le> counter w c) seq_inv"
    by (rule valid_conseq [OF valid_publish [where t = TopicToPush and e = pe and c = c and f = ?f2 and s = s and m = m]])
      (use assms pe' topics_distinct in \<open>auto elim!: below_mono\<close>)
  have 4: "valid (?P ?f2) (ret ()) (\<lambda>_ w. seq_inv w \<and> below (\<lambda>_. Seq e + 1) c s w \<and> m \<le> counter w c) seq_inv"
    by (rule valid_ret) (auto elim!: below_mono)
  show ?thesis
    unfolding publish_accepted_def pe prod.case
    by (rule valid_andThen [OF 1 valid_andThen [OF 2]]) (cases b; simp add: 3 4)
qed

lemma keeps_irrelevant:
  assumes "\<And>w d. I (redis_dedup_update d w) = I w" "\<And>w d. I (redis_cache_update d w) = I w"
    "\<And>w d. I (redis_hasread_update d w) = I w"
  shows "keeps I (CacheMessages c es)" "keeps I (SetHasRead c u q)" "keeps I (record_dedup c e)"
  unfolding CacheMessages_def SetHasRead_def record_dedup_def DedupSet_def
  by (intro keeps_for_each keeps_andThen keeps_call keeps_ret;
      simp add: hset_def hasReadAdvance_def dedup_setnx_def Let_def assms)+

lemma deliver_accepted_ordered:
  assumes c: "\<forall>e\<in>set es. ConversationID e = c" and s: "0 < s"
  shows "valid (\<lambda>w. seq_inv w \<and> below (\<lambda>_. s) c s w \<and> s + int (length es) - 1 \<le> counter w c)
     (deliver_accepted js typed c (accept_from s es)) (\<lambda>_. seq_inv) seq_inv"
proof -
  let ?m = "s + int (length es) - 1"
  let ?P = "\<lambda>k w. seq_inv w \<and> below (\<lambda>_. s + int k) c s w \<and> ?m \<le> counter w c"
  have frame: "keeps (?P 0) (CacheMessages c es')" "keeps (?P 0) (for_each (\<lambda>e. SetHasRead c (SenderID e) (Seq e)) es')"
      "keeps seq_inv (for_each (record_dedup c) es')" for es'
    by (intro keeps_for_each keeps_irrelevant; simp)+
  have pub: "valid (?P 0) (for_each (publish_accepted js typed) (accept_from s es)) (\<lambda>_. seq_inv) seq_inv"
  proof (rule valid_conseq [OF valid_for_each [where J = "\<lambda>pre. ?P (length pre)"]])
    fix pre e todo assume split: "accept_from s es = pre @ e # todo"
    note e = accept_from_split [OF split]
    then have "ConversationID e = c" "s \<le> Seq e" "0 < Seq e" using c s by auto
    from publish_accepted_ordered [OF this, of ?m js typed] e
    show "valid (?P (length pre)) (publish_accepted js typed e) (\<lambda>_. ?P (length (pre @ [e]))) seq_inv"
      by (auto elim!: valid_conseq simp: algebra_simps)
  qed auto
  have f1: "valid (?P 0) (CacheMessages c es') (\<lambda>_. ?P 0) seq_inv"
    and f2: "valid (?P 0) (for_each (\<lambda>e. SetHasRead c (SenderID e) (Seq e)) es') (\<lambda>_. ?P 0) seq_inv" for es'
    by (rule valid_conseq [OF frame(1) [unfolded keeps_def]] valid_conseq [OF frame(2) [unfolded keeps_def]]; simp)+
  show ?thesis
    unfolding deliver_accepted_def
    using valid_andThen [OF f1 valid_andThen [OF f2 valid_andThen [OF pub frame(3) [unfolded keeps_def]]]] by simp
qed

section \<open>The allocator's contract\<close>

text \<open>
  What the handler needs of the allocator it is given: a successful allocation of \<open>n\<close> numbers returns
  the first of \<open>n\<close> numbers above every number of the conversation that has been published or
  archived, and the counter covers them; it touches nothing the handler works on; and a failure
  leaves the order intact.
\<close>

locale seq_malloc =
  fixes seq :: seq_allocator
  assumes malloc_fresh: "0 < n \<Longrightarrow>
      valid seq_inv (seq c n) (\<lambda>s w. seq_inv w \<and> 0 < s \<and> below (\<lambda>_. s) c s w \<and> s + n - 1 \<le> counter w c) seq_inv"
    and malloc_frame: "seq c n (w, fs) = (r, (w', fs')) \<Longrightarrow>
      redis_dedup w' = redis_dedup w \<and> cw_log w' = cw_log w \<and> cw_pg w' = cw_pg w"
begin

lemma handleConversation_ordered:
  assumes c: "\<forall>e\<in>set events. ConversationID e = c"
  shows "keeps seq_inv (handleConversation seq js typed c events)"
proof -
  have sub: "valid seq_inv (fresh_events seen es) (\<lambda>fresh w. seq_inv w \<and> set fresh \<subseteq> set es) seq_inv" for seen es
  proof (induction seen es rule: fresh_events.induct)
    case (2 seen e es)
    let ?k = "SenderID e @ '':'' @ p_ClientMsgID (Payload e)"
    have get: "valid seq_inv (DedupGet x y) (\<lambda>_. seq_inv) seq_inv" for x y
      unfolding DedupGet_def by (rule valid_call) simp_all
    have "valid seq_inv (andThen (DedupGet (SenderID e) (p_ClientMsgID (Payload e))) (\<lambda>record.
        andThen (fresh_events (insert ?k seen) es) (\<lambda>fresh. ret (if record \<noteq> None then fresh else e # fresh))))
        (\<lambda>fresh w. seq_inv w \<and> set fresh \<subseteq> set (e # es)) seq_inv" if "?k \<notin> seen"
      by (rule valid_andThen [OF get], rule valid_andThen [OF 2(2) [OF refl that]], rule valid_ret) auto
    moreover have "valid seq_inv (fresh_events seen es) (\<lambda>fresh w. seq_inv w \<and> set fresh \<subseteq> set (e # es)) seq_inv" if "?k \<in> seen"
      by (rule valid_conseq [OF 2(1) [OF refl that]]) auto
    ultimately show ?case by (simp add: Let_def)
  qed (simp add: valid_ret)
  have rest: "valid (\<lambda>w. seq_inv w \<and> set fresh \<subseteq> set events) (if fresh = [] then ret ()
      else andThen (seq c (int (length fresh))) (\<lambda>s. deliver_accepted js typed c (accept_from s fresh))) (\<lambda>_. seq_inv) seq_inv"
    for fresh
  proof (cases "fresh \<noteq> [] \<and> set fresh \<subseteq> set events")
    case True
    then have d: "valid (\<lambda>w. seq_inv w \<and> 0 < s \<and> below (\<lambda>_. s) c s w \<and> s + int (length fresh) - 1 \<le> counter w c)
        (deliver_accepted js typed c (accept_from s fresh)) (\<lambda>_. seq_inv) seq_inv" for s
      using deliver_accepted_ordered [of fresh c s js typed] c
      by (cases "0 < s") (auto simp: subset_iff valid_def elim!: valid_conseq)
    have m: "0 < int (length fresh)" using True by simp
    show ?thesis
      using True valid_andThen [OF malloc_fresh [OF m, of c] d] by (auto elim!: valid_conseq)
  qed (auto simp: valid_def ret_def)
  show ?thesis
    unfolding handleConversation_def keeps_def by (rule valid_andThen [OF sub rest])
qed

text \<open>The whole batch, whatever fails, keeps the order of sequence numbers.\<close>

lemma HandleBatch_ordered: "keeps seq_inv (Transfer_HandleBatch seq js typed records)"
  unfolding Transfer_HandleBatch_def group_batch_spec Let_def prod.case
  by (auto intro!: keeps_ret keeps_run_all handleConversation_ordered)

end

text \<open>The allocator of the service honours the contract.\<close>

lemma counter_put: "counter (w\<lparr>redis_seq := (redis_seq w)(seqKey c \<mapsto> v)\<rparr>) = (counter w)(c := v)"
  by (auto simp: counter_def fun_eq_iff)

lemma MaxSeq_ge: "m \<in> set (messages db) \<Longrightarrow> ConversationId m = c \<Longrightarrow> MsgSeq m \<le> MaxSeq db c"
  by (auto simp: MaxSeq_def Let_def filter_empty_conv)

lemma MaxSeq_nonneg: "rows_inv w \<Longrightarrow> 0 \<le> MaxSeq (cw_pg w) c"
proof -
  assume r: "rows_inv w"
  let ?ms = "filter (\<lambda>m. ConversationId m = c) (messages (cw_pg w))"
  show ?thesis
  proof (cases "?ms = []")
    case False
    then have "Max (set (map MsgSeq ?ms)) \<in> set (map MsgSeq ?ms)" by (intro Max_in) (auto simp: filter_empty_conv)
    then show ?thesis using r False by (auto simp: rows_inv_def MaxSeq_def Let_def)
  qed (simp add: MaxSeq_def)
qed

text \<open>Raising the counter of a conversation to \<open>v\<close>, at least what is published and archived, keeps the invariant.\<close>

lemma seq_inv_raise:
  assumes inv: "seq_inv w" and v: "0 \<le> v" "counter w c \<le> v"
    and rows: "\<forall>m\<in>set (messages (cw_pg w)). ConversationId m = c \<longrightarrow> MsgSeq m \<le> v"
  shows "seq_inv (w\<lparr>redis_seq := (redis_seq w)(seqKey c \<mapsto> v)\<rparr>)"
proof -
  have "log_inv (w\<lparr>redis_seq := (redis_seq w)(seqKey c \<mapsto> v)\<rparr>)"
    using inv v unfolding seq_inv_def log_inv_def counter_put by (fastforce split: if_splits)
  moreover have "rows_inv (w\<lparr>redis_seq := (redis_seq w)(seqKey c \<mapsto> v)\<rparr>)"
    using inv rows unfolding seq_inv_def rows_inv_def counter_put by (auto split: if_splits)
  ultimately show ?thesis using inv v by (simp add: seq_inv_def)
qed

lemma setnx_inv:
  assumes inv: "seq_inv w" and m: "m = MaxSeq (cw_pg w) c"
  shows "seq_inv (setnx (seqKey c) m w) \<and> redis_seq (setnx (seqKey c) m w) (seqKey c) \<noteq> None"
proof (cases "redis_seq w (seqKey c)")
  case None
  have "0 \<le> m" using MaxSeq_nonneg [of w c] inv m by (simp add: seq_inv_def)
  then have "seq_inv (w\<lparr>redis_seq := (redis_seq w)(seqKey c \<mapsto> m)\<rparr>)"
    using inv None MaxSeq_ge m by (intro seq_inv_raise) (auto simp: counter_def)
  then show ?thesis using None by (simp add: setnx_def)
qed (simp add: setnx_def inv)

lemma incrby_inv:
  assumes inv: "seq_inv w" and some: "redis_seq w (seqKey c) \<noteq> None" and n: "0 < n"
    and r: "incrby (seqKey c) n w = (r, w')"
  shows "seq_inv w' \<and> (\<forall>v. r = Some v \<longrightarrow> 0 < v - n + 1 \<and> below (\<lambda>_. v - n + 1) c (v - n + 1) w' \<and> v \<le> counter w' c)"
proof -
  obtain k where k: "redis_seq w (seqKey c) = Some k" using some by blast
  then have ck: "counter w c = k" "0 \<le> k" using inv by (auto simp: counter_def seq_inv_def)
  have rows: "\<forall>m\<in>set (messages (cw_pg w)). ConversationId m = c \<longrightarrow> MsgSeq m \<le> k"
    using inv k ck by (fastforce simp: seq_inv_def rows_inv_def)
  have log: "\<forall>t\<in>accepted_topics. \<forall>x\<in>set (topic_seqs t c (cw_log w)). x \<le> k"
    using inv ck unfolding seq_inv_def log_inv_def by blast
  let ?w = "w\<lparr>redis_seq := (redis_seq w)(seqKey c \<mapsto> k + n)\<rparr>"
  have "seq_inv ?w" using inv ck n rows by (intro seq_inv_raise) (auto simp: add_increasing2)
  moreover have "below (\<lambda>_. k + 1) c (k + 1) ?w" using rows log unfolding below_def by (auto simp: le_imp_less_Suc)
  ultimately show ?thesis
    using r [unfolded incrby_def k Let_def option.case] ck inv by (auto simp: counter_put split: if_splits)
qed

interpretation malloc: seq_malloc Malloc
proof
  fix n :: int and c assume n: "0 < n"
  let ?P = "\<lambda>w. seq_inv w \<and> redis_seq w (seqKey c) \<noteq> None"
  let ?Q = "\<lambda>s w. seq_inv w \<and> 0 < s \<and> below (\<lambda>_. s) c s w \<and> s + n - 1 \<le> counter w c"
  have ex: "valid seq_inv (call ''seq malloc exists'' (\<lambda>w. (redis_seq w (seqKey c) \<noteq> None, w)))
      (\<lambda>ex w. seq_inv w \<and> (ex \<longrightarrow> redis_seq w (seqKey c) \<noteq> None)) seq_inv"
    by (rule valid_call) simp_all
  have mx: "valid seq_inv (call ''query max seq'' (\<lambda>w. (MaxSeq (cw_pg w) c, w)))
      (\<lambda>m w. seq_inv w \<and> m = MaxSeq (cw_pg w) c) seq_inv"
    by (rule valid_call) simp_all
  have nx: "valid (\<lambda>w. seq_inv w \<and> m = MaxSeq (cw_pg w) c) (call ''seq malloc seed'' (\<lambda>w. ((), setnx (seqKey c) m w))) (\<lambda>_. ?P) seq_inv" for m
    by (rule valid_call) (use setnx_inv in auto)
  have sd: "valid (\<lambda>w. seq_inv w \<and> (ex \<longrightarrow> redis_seq w (seqKey c) \<noteq> None))
      (if ex then ret () else andThen (call ''query max seq'' (\<lambda>w. (MaxSeq (cw_pg w) c, w))) (\<lambda>maxSeq.
         call ''seq malloc seed'' (\<lambda>w. ((), setnx (seqKey c) maxSeq w)))) (\<lambda>_. ?P) seq_inv" for ex
    using valid_andThen [OF mx nx] by (cases ex) (auto intro: valid_ret)
  have inc: "valid ?P (call ''seq malloc incr'' (incrby (seqKey c) n))
      (\<lambda>r w. seq_inv w \<and> (\<forall>v. r = Some v \<longrightarrow> ?Q (v - n + 1) w)) seq_inv"
  proof (rule valid_call)
    fix w assume P: "?P w"
    obtain r w' where i: "incrby (seqKey c) n w = (r, w')" by (cases "incrby (seqKey c) n w")
    from incrby_inv [OF _ _ n i] P
    show "seq_inv (snd (incrby (seqKey c) n w)) \<and> (\<forall>v. fst (incrby (seqKey c) n w) = Some v \<longrightarrow> ?Q (v - n + 1) (snd (incrby (seqKey c) n w)))"
      and "seq_inv (snd (incrby (seqKey c) n w))" by (simp_all add: i)
  qed simp
  have fin: "valid (\<lambda>w. seq_inv w \<and> (\<forall>v. r = Some v \<longrightarrow> ?Q (v - n + 1) w))
      (case r of None \<Rightarrow> raise (PlainError ''increment or decrement would overflow'') | Some newMax \<Rightarrow> ret (newMax - n + 1)) ?Q seq_inv" for r
    by (cases r) (auto intro: valid_ret valid_raise)
  show "valid seq_inv (Malloc c n) ?Q seq_inv"
    unfolding Malloc_def Let_def
    using n valid_andThen [OF ex valid_andThen [OF sd valid_andThen [OF inc fin]]] by simp
next
  fix c n fs r fs' and w w' :: chain_world
  let ?F = "\<lambda>v. redis_dedup v = redis_dedup w \<and> cw_log v = cw_log w \<and> cw_pg v = cw_pg w"
  have "keeps ?F (Malloc c n)"
    unfolding Malloc_def Let_def
    by (auto intro!: keeps_intros keeps_call simp: setnx_def incrby_def Let_def split: option.split)
  then show "Malloc c n (w, fs) = (r, (w', fs')) \<Longrightarrow> ?F w'" by (elim keepsD) simp_all
qed

end
