(* ===== verification/Pipeline.thy ===== *)
theory Pipeline
  imports Msg_Transfer
begin

text \<open>
  The message pipeline as a whole: what the deduplication record of a message promises, that no
  message is lost or published twice by a replay, and the reachable states of the chain under
  every interleaving of submissions, transfer and persist batches, failures, retries and expiries.
\<close>

section \<open>Which events of a conversation are fresh\<close>

abbreviation event_key :: "MessageEvent \<Rightarrow> string" where
  "event_key e \<equiv> dedupKey (SenderID e) (p_ClientMsgID (Payload e))"

fun fresh_of :: "(string \<Rightarrow> DedupRecord option) \<Rightarrow> string set \<Rightarrow> MessageEvent list \<Rightarrow> MessageEvent list" where
  "fresh_of d seen [] = []"
| "fresh_of d seen (e # es) =
     (let k = SenderID e @ '':'' @ p_ClientMsgID (Payload e)
      in if k \<in> seen then fresh_of d seen es
         else if d (event_key e) \<noteq> None then fresh_of d (insert k seen) es
         else e # fresh_of d (insert k seen) es)"

lemma fresh_events_reads:
  "valid (\<lambda>v. v = w) (fresh_events seen es) (\<lambda>f v. v = w \<and> f = fresh_of (redis_dedup w) seen es) (\<lambda>v. v = w)"
proof (induction seen es rule: fresh_events.induct)
  case (2 seen e es)
  let ?k = "SenderID e @ '':'' @ p_ClientMsgID (Payload e)"
  have get: "valid (\<lambda>v. v = w) (DedupGet (SenderID e) (p_ClientMsgID (Payload e)))
      (\<lambda>r v. v = w \<and> r = redis_dedup w (event_key e)) (\<lambda>v. v = w)"
    unfolding DedupGet_def by (rule valid_call) simp_all
  show ?case
  proof (cases "?k \<in> seen")
    case False
    have tail: "valid (\<lambda>v. v = w \<and> r = redis_dedup w (event_key e))
        (andThen (fresh_events (insert ?k seen) es) (\<lambda>fresh. ret (if r \<noteq> None then fresh else e # fresh)))
        (\<lambda>f v. v = w \<and> f = fresh_of (redis_dedup w) seen (e # es)) (\<lambda>v. v = w)" for r
    proof (cases "r = redis_dedup w (event_key e)")
      case True
      have "valid (\<lambda>v. v = w)
          (andThen (fresh_events (insert ?k seen) es) (\<lambda>fresh. ret (if r \<noteq> None then fresh else e # fresh)))
          (\<lambda>f v. v = w \<and> f = fresh_of (redis_dedup w) seen (e # es)) (\<lambda>v. v = w)"
        by (rule valid_andThen [OF 2(2) [OF refl False]], rule valid_ret) (use True False in \<open>auto simp: Let_def\<close>)
      then show ?thesis by (rule valid_conseq) simp_all
    qed (simp add: valid_def)
    show ?thesis using valid_andThen [OF get tail] False by (simp add: Let_def)
  qed (use 2(1) in \<open>simp add: Let_def\<close>)
qed (simp add: valid_ret)

lemma fresh_of_subset: "set (fresh_of d seen es) \<subseteq> set es"
  by (induction es arbitrary: seen) (auto simp: Let_def)

lemma fresh_of_length: "length (fresh_of d seen es) \<le> length es"
  by (induction es arbitrary: seen) (auto simp: Let_def le_SucI)

lemma event_key_client:
  "SenderID e @ '':'' @ p_ClientMsgID (Payload e) = SenderID e' @ '':'' @ p_ClientMsgID (Payload e') \<longleftrightarrow> event_key e = event_key e'"
  by (simp add: dedupKey_def)

lemma fresh_of_covers:
  "e \<in> set es \<Longrightarrow> SenderID e @ '':'' @ p_ClientMsgID (Payload e) \<in> seen \<or> d (event_key e) \<noteq> None
     \<or> event_key e \<in> event_key ` set (fresh_of d seen es)"
proof (induction es arbitrary: seen)
  case (Cons x es)
  let ?k = "\<lambda>e. SenderID e @ '':'' @ p_ClientMsgID (Payload e)"
  have eq: "?k e = ?k x \<longleftrightarrow> event_key e = event_key x" by (rule event_key_client)
  show ?case
  proof (cases "e = x")
    case False
    with Cons.prems have "e \<in> set es" by simp
    then show ?thesis
      using Cons.IH [of "insert (?k x) seen"] Cons.IH [of seen] eq by (auto simp: Let_def)
  qed (auto simp: Let_def)
qed simp

lemma fresh_of_none: "\<forall>e\<in>set es. d (event_key e) \<noteq> None \<Longrightarrow> fresh_of d seen es = []"
  by (induction es arbitrary: seen) (auto simp: Let_def)

lemma fresh_of_fresh: "e \<in> set (fresh_of d seen es) \<Longrightarrow> d (event_key e) = None"
  by (induction es arbitrary: seen) (auto simp: Let_def split: if_splits)

section \<open>What a deduplication record promises\<close>

definition published :: "bool \<Rightarrow> MessageEvent \<Rightarrow> chain_world \<Rightarrow> bool" where
  "published typed e w \<longleftrightarrow>
     (TopicToPostgres, e) \<in> set (cw_log w) \<and> (TopicAgentTrigger, e) \<in> set (cw_log w)
     \<and> (snd (pushFanoutEvent typed e) \<longrightarrow> (TopicToPush, fst (pushFanoutEvent typed e)) \<in> set (cw_log w))"

definition dedup_inv :: "bool \<Rightarrow> chain_world \<Rightarrow> bool" where
  "dedup_inv typed w \<longleftrightarrow> (\<forall>k r. redis_dedup w k = Some r \<longrightarrow>
     (\<exists>e. published typed e w \<and> event_key e = k \<and> ConversationID e = dr_ConversationID r
        \<and> Seq e = dr_Seq r \<and> ServerMsgID e = dr_ServerMsgID r))"

definition recorded :: "string set \<Rightarrow> chain_world \<Rightarrow> bool" where
  "recorded K w \<longleftrightarrow> (\<forall>k\<in>K. redis_dedup w k \<noteq> None)"

lemma recorded_mono: "recorded K w \<Longrightarrow> K' \<subseteq> K \<Longrightarrow> recorded K' w"
  by (auto simp: recorded_def)

lemma published_log: "published typed e w \<Longrightarrow> set (cw_log w) \<subseteq> set (cw_log w') \<Longrightarrow> published typed e w'"
  by (auto simp: published_def)

lemma dedup_inv_log:
  "dedup_inv typed w \<Longrightarrow> redis_dedup w' = redis_dedup w \<Longrightarrow> set (cw_log w) \<subseteq> set (cw_log w') \<Longrightarrow> dedup_inv typed w'"
  unfolding dedup_inv_def using published_log by metis

text \<open>An assertion about records and log that survives growth of both.\<close>

definition stays :: "(chain_world \<Rightarrow> bool) \<Rightarrow> bool" where
  "stays I \<longleftrightarrow> (\<forall>w w'. I w \<longrightarrow> redis_dedup w' = redis_dedup w \<longrightarrow> set (cw_log w) \<subseteq> set (cw_log w') \<longrightarrow> I w')"

lemma stays_intros:
  "stays (dedup_inv typed)" "stays (published typed e)" "stays (recorded K)" "stays (\<lambda>_. True)"
  "stays I \<Longrightarrow> stays J \<Longrightarrow> stays (\<lambda>w. I w \<and> J w)" "(\<And>x. x \<in> X \<Longrightarrow> stays (F x)) \<Longrightarrow> stays (\<lambda>w. \<forall>x\<in>X. F x w)"
  unfolding stays_def using dedup_inv_log published_log by (auto simp: recorded_def)

lemma staysD:
  "stays I \<Longrightarrow> I w \<Longrightarrow> redis_dedup w' = redis_dedup w \<Longrightarrow> set (cw_log w) \<subseteq> set (cw_log w') \<Longrightarrow> I w'"
  unfolding stays_def by blast

lemma stays_ops:
  assumes "stays I"
  shows "keeps I (CacheMessages c es)" "keeps I (SetHasRead c u q)" "keeps I (PublishEvent js cw_log_update t e)"
proof -
  show "keeps I (CacheMessages c es)"
    unfolding CacheMessages_def by (intro keeps_for_each keeps_call) (erule staysD [OF assms]; simp add: hset_def)
  show "keeps I (SetHasRead c u q)"
    unfolding SetHasRead_def
    by (intro keeps_andThen keeps_call keeps_ret) (erule staysD [OF assms]; simp add: hasReadAdvance_def Let_def)
  have "keeps I (call ''produce'' (\<lambda>w. ((), cw_log_update (\<lambda>log. log @ [(t, e)]) w)))"
    by (intro keeps_call) (erule staysD [OF assms]; auto)
  then show "keeps I (PublishEvent js cw_log_update t e)"
    unfolding PublishEvent_def by (cases "Validate js e") (simp_all add: keeps_raise)
qed

lemma publish_accepted_published:
  assumes "stays I"
  shows "valid I (publish_accepted js typed e) (\<lambda>_ w. I w \<and> published typed e w) (\<lambda>w. I w)"
proof -
  obtain pe b where pe: "pushFanoutEvent typed e = (pe, b)" by (cases "pushFanoutEvent typed e")
  have put: "valid J (PublishEvent js cw_log_update t x) (\<lambda>_ w. J w \<and> (t, x) \<in> set (cw_log w)) I"
    if "stays J" "\<And>w. J w \<Longrightarrow> I w" for J t x
  proof -
    have "valid (\<lambda>_. True) (PublishEvent js cw_log_update t x) (\<lambda>_ w. (t, x) \<in> set (cw_log w)) (\<lambda>_. True)"
      unfolding PublishEvent_def by (cases "Validate js x") (auto intro!: valid_call valid_raise)
    from valid_conjI [OF stays_ops(3) [OF that(1), unfolded keeps_def] this] show ?thesis
      by (rule valid_conseq) (auto intro: that(2))
  qed
  let ?A = "\<lambda>w. I w \<and> (TopicToPostgres, e) \<in> set (cw_log w)"
  let ?B = "\<lambda>w. ?A w \<and> (TopicAgentTrigger, e) \<in> set (cw_log w)"
  have st: "stays ?A" "stays ?B" using assms unfolding stays_def by blast+
  have 1: "valid I (PublishEvent js cw_log_update TopicToPostgres e) (\<lambda>_. ?A) I"
    by (rule put [OF assms])
  have 2: "valid ?A (PublishEvent js cw_log_update TopicAgentTrigger e) (\<lambda>_. ?B) I"
    by (rule put [OF st(1)]) simp
  have 3: "valid ?B (if \<not> b then ret () else PublishEvent js cw_log_update TopicToPush pe)
      (\<lambda>_ w. I w \<and> published typed e w) I"
  proof (cases b)
    case True
    then show ?thesis using put [OF st(2), of TopicToPush pe] by (auto elim!: valid_conseq simp: published_def pe)
  qed (auto intro: valid_ret simp: published_def pe)
  show ?thesis
    unfolding publish_accepted_def pe prod.case by (rule valid_andThen [OF 1 valid_andThen [OF 2 3]])
qed

lemma record_dedup_recorded:
  assumes "ConversationID e = c" and that: "e \<in> X"
  shows "valid (\<lambda>w. dedup_inv typed w \<and> (\<forall>x\<in>X. published typed x w) \<and> recorded K w) (record_dedup c e)
     (\<lambda>_ w. dedup_inv typed w \<and> (\<forall>x\<in>X. published typed x w) \<and> recorded (insert (event_key e) K) w) (dedup_inv typed)"
  unfolding record_dedup_def DedupSet_def
proof (rule valid_call)
  fix w assume w: "dedup_inv typed w \<and> (\<forall>x\<in>X. published typed x w) \<and> recorded K w"
  let ?r = "\<lparr>dr_ConversationID = c, dr_Seq = Seq e, dr_ServerMsgID = ServerMsgID e, dr_PayloadHash = p_PayloadHash (Payload e)\<rparr>"
  let ?w = "dedup_setnx (event_key e) ?r w"
  have pub: "published typed x ?w = published typed x w" for x by (simp add: published_def dedup_setnx_def)
  have "dedup_inv typed ?w"
    unfolding dedup_inv_def pub
  proof (intro allI impI)
    fix k r assume "redis_dedup ?w k = Some r"
    then consider "redis_dedup w k = Some r" | "k = event_key e" "r = ?r"
      by (auto simp: dedup_setnx_def split: if_splits)
    then show "\<exists>e. published typed e w \<and> event_key e = k \<and> ConversationID e = dr_ConversationID r
        \<and> Seq e = dr_Seq r \<and> ServerMsgID e = dr_ServerMsgID r"
    proof cases
      case 1
      then show ?thesis using w unfolding dedup_inv_def by blast
    next
      case 2
      then show ?thesis using w that assms by (intro exI [of _ e]) auto
    qed
  qed
  moreover have "recorded (insert (event_key e) K) ?w" using w by (auto simp: recorded_def dedup_setnx_def)
  ultimately show "dedup_inv typed (snd ((), ?w)) \<and> (\<forall>x\<in>X. published typed x (snd ((), ?w)))
      \<and> recorded (insert (event_key e) K) (snd ((), ?w))" and "dedup_inv typed (snd ((), ?w))"
    using w by (simp_all add: pub)
qed simp

lemma deliver_accepted_recorded:
  assumes c: "\<forall>e\<in>set es. ConversationID e = c"
  shows "valid (\<lambda>w. dedup_inv typed w \<and> recorded K w) (deliver_accepted js typed c es)
     (\<lambda>_ w. dedup_inv typed w \<and> recorded (event_key ` set es \<union> K) w) (dedup_inv typed)"
proof -
  let ?I = "\<lambda>w. dedup_inv typed w \<and> recorded K w"
  let ?P = "\<lambda>pre w. ?I w \<and> (\<forall>x\<in>set pre. published typed x w)"
  have st: "stays ?I" "stays (?P pre)" for pre by (intro stays_intros)+
  have 1: "valid ?I (CacheMessages c es) (\<lambda>_. ?I) (dedup_inv typed)"
    by (rule valid_conseq [OF stays_ops(1) [OF st(1), unfolded keeps_def]]) simp_all
  have 2: "valid ?I (for_each (\<lambda>e. SetHasRead c (SenderID e) (Seq e)) es) (\<lambda>_. ?I) (dedup_inv typed)"
    by (rule valid_conseq [OF keeps_for_each [OF stays_ops(2) [OF st(1)], unfolded keeps_def]]) simp_all
  have 3: "valid ?I (for_each (publish_accepted js typed) es) (\<lambda>_. ?P es) (dedup_inv typed)"
    by (rule valid_conseq [OF valid_for_each [where J = ?P and E = "dedup_inv typed"]],
        rule valid_conseq [OF publish_accepted_published [OF st(2)]]) auto
  have 4: "valid (?P es) (for_each (record_dedup c) es)
      (\<lambda>_ w. dedup_inv typed w \<and> (\<forall>x\<in>set es. published typed x w) \<and> recorded (event_key ` set es \<union> K) w) (dedup_inv typed)"
  proof (rule valid_conseq [OF valid_for_each [where J = "\<lambda>pre w. dedup_inv typed w
        \<and> (\<forall>x\<in>set es. published typed x w) \<and> recorded (event_key ` set pre \<union> K) w" and E = "dedup_inv typed"]])
    fix pre e todo assume "es = pre @ e # todo"
    then have e: "e \<in> set es" "ConversationID e = c" using c by auto
    show "valid (\<lambda>w. dedup_inv typed w \<and> (\<forall>x\<in>set es. published typed x w) \<and> recorded (event_key ` set pre \<union> K) w)
        (record_dedup c e) (\<lambda>_ w. dedup_inv typed w \<and> (\<forall>x\<in>set es. published typed x w)
        \<and> recorded (event_key ` set (pre @ [e]) \<union> K) w) (dedup_inv typed)"
      using record_dedup_recorded [OF e(2,1), of typed "event_key ` set pre \<union> K"] by simp
  qed auto
  show ?thesis
    unfolding deliver_accepted_def
    by (rule valid_conseq [OF valid_andThen [OF 1 valid_andThen [OF 2 valid_andThen [OF 3 4]]]]) auto
qed

lemma accept_from_keys: "event_key ` set (accept_from s es) = event_key ` set es"
  by (induction es arbitrary: s) auto

lemma accept_from_conversation: "\<forall>e\<in>set es. ConversationID e = c \<Longrightarrow> \<forall>e\<in>set (accept_from s es). ConversationID e = c"
  by (induction es arbitrary: s) auto

text \<open>A run of the handler stops at a failed lookup, or works on the events without a record.\<close>

lemma handleConversation_split:
  assumes "handleConversation seq js typed c events (w, fs) = (r, (w', fs'))"
  defines "f \<equiv> fresh_of (redis_dedup w) {} events"
  shows "w' = w \<and> isl r \<or> (\<exists>fs1. (if f = [] then ret () else andThen (seq c (int (length f)))
      (\<lambda>s. deliver_accepted js typed c (accept_from s f))) (w, fs1) = (r, (w', fs')))"
proof -
  obtain q w1 fs1 where q: "fresh_events {} events (w, fs) = (q, (w1, fs1))" by (metis prod.exhaust)
  show ?thesis
  proof (cases q)
    case (Inl e)
    then have "w1 = w" using validD_err [OF fresh_events_reads [of w "{}" events] refl] q by simp
    with assms(1) q Inl show ?thesis by (auto simp: handleConversation_def andThen_def)
  next
    case (Inr fresh)
    then have "w1 = w \<and> fresh = f" using validD_ok [OF fresh_events_reads [of w "{}" events] refl] q by (simp add: f_def)
    with assms(1) q Inr show ?thesis unfolding handleConversation_def by (simp only: andThen_clean) blast
  qed
qed

context seq_malloc
begin

lemma malloc_stays: "stays I \<Longrightarrow> keeps I (seq c n)"
  unfolding keeps_def by (rule validI) (auto dest!: malloc_frame elim!: staysD)

lemma handleConversation_recorded:
  assumes c: "\<forall>e\<in>set events. ConversationID e = c"
  shows "valid (\<lambda>w. dedup_inv typed w \<and> recorded K w) (handleConversation seq js typed c events)
     (\<lambda>_ w. dedup_inv typed w \<and> recorded (event_key ` set events \<union> K) w) (dedup_inv typed)"
proof (rule validI)
  have rest: "valid (\<lambda>v. dedup_inv typed v \<and> recorded K' v) (if fresh = [] then ret ()
      else andThen (seq c (int (length fresh))) (\<lambda>s. deliver_accepted js typed c (accept_from s fresh)))
      (\<lambda>_ w. dedup_inv typed w \<and> recorded (event_key ` set fresh \<union> K') w) (dedup_inv typed)"
    if "set fresh \<subseteq> set events" for fresh K'
  proof (cases "fresh = []")
    case False
    have "valid (\<lambda>v. dedup_inv typed v \<and> recorded K' v) (seq c (int (length fresh)))
        (\<lambda>_ v. dedup_inv typed v \<and> recorded K' v) (dedup_inv typed)"
      by (rule valid_conseq [OF malloc_stays [of "\<lambda>v. dedup_inv typed v \<and> recorded K' v", unfolded keeps_def]])
        (auto intro: stays_intros)
    moreover have "valid (\<lambda>v. dedup_inv typed v \<and> recorded K' v) (deliver_accepted js typed c (accept_from s fresh))
        (\<lambda>_ w. dedup_inv typed w \<and> recorded (event_key ` set fresh \<union> K') w) (dedup_inv typed)" for s
      using deliver_accepted_recorded [OF accept_from_conversation [of fresh c s], of typed K' js] c that
      by (auto simp: accept_from_keys subset_iff)
    ultimately have "valid (\<lambda>v. dedup_inv typed v \<and> recorded K' v)
        (andThen (seq c (int (length fresh))) (\<lambda>s. deliver_accepted js typed c (accept_from s fresh)))
        (\<lambda>_ w. dedup_inv typed w \<and> recorded (event_key ` set fresh \<union> K') w) (dedup_inv typed)"
      by (rule valid_andThen)
    with False show ?thesis by simp
  qed (auto intro: valid_ret)
  { fix w fs r w' fs' assume w: "dedup_inv typed w \<and> recorded K w"
      and run: "handleConversation seq js typed c events (w, fs) = (r, (w', fs'))"
    let ?f = "fresh_of (redis_dedup w) {} events" and ?K = "K \<union> dom (redis_dedup w)"
    have rec: "recorded ?K w" using w by (auto simp: recorded_def)
    have cov: "event_key ` set events \<union> K \<subseteq> event_key ` set ?f \<union> ?K"
      using fresh_of_covers [of _ events "{}" "redis_dedup w"] by auto
    note R = rest [where fresh = ?f and K' = ?K, OF fresh_of_subset]
    from handleConversation_split [OF run]
    have "dedup_inv typed w' \<and> (\<not> isl r \<longrightarrow> recorded (event_key ` set events \<union> K) w')"
    proof (elim disjE exE)
      fix fs1 assume run1: "(if ?f = [] then ret () else andThen (seq c (int (length ?f)))
        (\<lambda>s. deliver_accepted js typed c (accept_from s ?f))) (w, fs1) = (r, (w', fs'))"
      have pre: "dedup_inv typed w \<and> recorded ?K w" using w rec by simp
      show ?thesis
      proof (cases r)
        case (Inl e)
        then show ?thesis using validD_err [OF R pre run1 [unfolded Inl]] by simp
      next
        case (Inr x)
        then show ?thesis using validD_ok [OF R pre run1 [unfolded Inr]] recorded_mono [OF _ cov] by blast
      qed
    qed (use w in simp) }
  note all = this
  fix w fs w' fs' assume w: "dedup_inv typed w \<and> recorded K w"
  show "handleConversation seq js typed c events (w, fs) = (Inr x, (w', fs')) \<Longrightarrow>
      dedup_inv typed w' \<and> recorded (event_key ` set events \<union> K) w'" for x using all [OF w] by fastforce
  show "handleConversation seq js typed c events (w, fs) = (Inl e, (w', fs')) \<Longrightarrow> dedup_inv typed w'" for e
    using all [OF w] by fastforce
qed

lemma HandleBatch_recorded:
  "valid (dedup_inv typed) (Transfer_HandleBatch seq js typed records)
     (\<lambda>_ w. dedup_inv typed w \<and> recorded (event_key ` set (batch_events js EventTypeMessageSubmitted records)) w) (dedup_inv typed)"
proof -
  let ?es = "batch_events js EventTypeMessageSubmitted records"
  let ?of = "\<lambda>c. filter (\<lambda>e. ConversationID e = c) ?es" and ?order = "keep_first {} (map ConversationID ?es)"
  have keys: "event_key ` set ?es = (\<Union>c\<in>set ?order. event_key ` set (?of c))"
    by (auto simp: set_keep_first)
  have "valid (dedup_inv typed) (run_all (\<lambda>c. handleConversation seq js typed c (?of c)) ?order)
      (\<lambda>_ w. dedup_inv typed w \<and> recorded (\<Union>c\<in>set ?order. event_key ` set (?of c)) w) (dedup_inv typed)"
  proof (rule valid_conseq [OF valid_run_all [where E = "dedup_inv typed"
        and J = "\<lambda>pre w. dedup_inv typed w \<and> recorded (\<Union>c\<in>set pre. event_key ` set (?of c)) w"]])
    fix pre c todo
    show "valid (\<lambda>w. dedup_inv typed w \<and> recorded (\<Union>c\<in>set pre. event_key ` set (?of c)) w)
        (handleConversation seq js typed c (?of c))
        (\<lambda>_ w. dedup_inv typed w \<and> recorded (\<Union>c\<in>set (pre @ [c]). event_key ` set (?of c)) w) (dedup_inv typed)"
      by (rule valid_conseq [OF handleConversation_recorded [where K = "\<Union>c\<in>set pre. event_key ` set (?of c)"]])
        (auto simp: recorded_def)
    show "valid (dedup_inv typed) (handleConversation seq js typed c (?of c)) (\<lambda>_. dedup_inv typed) (dedup_inv typed)"
      by (rule valid_conseq [OF handleConversation_recorded [where K = "{}"]]) (auto simp: recorded_def)
  qed (auto simp: recorded_def)
  then show ?thesis
    unfolding Transfer_HandleBatch_def group_batch_spec Let_def prod.case keys
    by (cases "?order = []") (auto intro!: valid_ret simp: recorded_def)
qed

end

lemma HandleBatch_archive: "keeps (\<lambda>v. cw_pg v = db) (Transfer_HandleBatch Malloc js typed records)"
proof -
  let ?I = "\<lambda>v. cw_pg v = db"
  have "keeps ?I (DedupGet x y)" "keeps ?I (Malloc c n)" "keeps ?I (CacheMessages c es)" "keeps ?I (SetHasRead c u q)"
      "keeps ?I (PublishEvent js cw_log_update t e)" "keeps ?I (record_dedup c e)" for x y c n es u q t e
    unfolding DedupGet_def Malloc_def CacheMessages_def SetHasRead_def record_dedup_def DedupSet_def PublishEvent_def
    by (auto intro!: keeps_intros keeps_call keeps_for_each split: option.split
        simp: Let_def setnx_def incrby_def hset_def hasReadAdvance_def dedup_setnx_def)
  note ops = this
  have "keeps ?I (fresh_events seen es)" for seen es
    by (induction seen es rule: fresh_events.induct) (auto simp: Let_def intro!: keeps_intros ops)
  then show ?thesis
    unfolding Transfer_HandleBatch_def handleConversation_def deliver_accepted_def publish_accepted_def Let_def
    by (auto intro!: keeps_intros keeps_run_all keeps_for_each ops split: prod.split)
qed

section \<open>Reachable states\<close>

text \<open>
  The chain starts with an empty Redis and broker, on any archive whose sequence numbers are
  positive. Then msg-rpc submits events, the transfer consumer makes an attempt at any batch of
  records, the persist consumer at any batch of records of its topic, both with any pattern of
  failures and any outcome, and Redis drops deduplication records and cached messages.
\<close>

inductive chain_reach :: "json_lib \<Rightarrow> bool \<Rightarrow> chain_world \<Rightarrow> bool" for js typed where
  start: "pg_keys db \<Longrightarrow> \<forall>m\<in>set (messages db). 0 < MsgSeq m \<Longrightarrow>
    chain_reach js typed \<lparr>redis_seq = \<lambda>_. None, redis_dedup = \<lambda>_. None, redis_cache = \<lambda>_ _. None,
      redis_hasread = \<lambda>_. None, cw_pg = db, cw_log = []\<rparr>"
| submit: "chain_reach js typed w \<Longrightarrow>
    chain_reach js typed (cw_log_update (\<lambda>log. log @ [(TopicToTransfer, e)]) w)"
| transfer: "chain_reach js typed w \<Longrightarrow> Transfer_HandleBatch Malloc js typed records (w, fs) = (r, (w', fs')) \<Longrightarrow>
    chain_reach js typed w'"
| persist: "chain_reach js typed w \<Longrightarrow>
    \<forall>e\<in>set (batch_events js EventTypeMessageAccepted records). (TopicToPostgres, e) \<in> set (cw_log w) \<Longrightarrow>
    Persist_HandleBatch js now records (cw_pg w, fs) = (r, (db', fs')) \<Longrightarrow>
    chain_reach js typed (w\<lparr>cw_pg := db'\<rparr>)"
| expire: "chain_reach js typed w \<Longrightarrow> d \<subseteq>\<^sub>m redis_dedup w \<Longrightarrow>
    chain_reach js typed (w\<lparr>redis_dedup := d, redis_cache := a\<rparr>)"

lemma same_record:
  assumes "sorted_wrt (<) (topic_seqs t c log)" "(t, e) \<in> set log" "(t, e') \<in> set log"
    "ConversationID e = c" "ConversationID e' = c" "Seq e = Seq e'"
  shows "e = e'"
proof -
  let ?l = "filter (\<lambda>(t', e). t' = t \<and> ConversationID e = c) log"
  have "distinct (map (\<lambda>(_, e). Seq e) ?l)"
    using assms(1) unfolding topic_seqs_def strict_sorted_iff [symmetric] by (simp add: strict_sorted_iff)
  then have "inj_on (\<lambda>(_, e). Seq e) (set ?l)" by (simp add: distinct_map)
  moreover have "(t, e) \<in> set ?l" "(t, e') \<in> set ?l" using assms by auto
  ultimately show ?thesis
    using assms(6) inj_onD [of "\<lambda>(_, e). Seq e" "set ?l" "(t, e)" "(t, e')"] by simp
qed

lemma persist_rows:
  assumes inv: "seq_inv w" and src: "\<forall>e\<in>set (batch_events js EventTypeMessageAccepted records). (TopicToPostgres, e) \<in> set (cw_log w)"
  shows "keeps (\<lambda>db. seq_inv (w\<lparr>cw_pg := db\<rparr>)) (Persist_HandleBatch js now records)"
proof (intro Persist_HandleBatch_keep persist_statements_keep)
  fix msgs m r db db'
  assume sub: "set msgs \<subseteq> persistMessageFromEvent ` set (batch_events js EventTypeMessageAccepted records)"
    and m: "m \<in> set msgs" and row: "message_row js now m = Inr r"
    and i: "seq_inv (w\<lparr>cw_pg := db\<rparr>)" and ins: "insert_message r db = Inr db'"
  obtain e where e: "m = persistMessageFromEvent e" "(TopicToPostgres, e) \<in> set (cw_log w)" using sub m src by blast
  have f: "ConversationId r = ConversationID e" "MsgSeq r = Seq e" "SenderAccountId r = SenderID e"
      "ClientMsgId r = p_ClientMsgID (Payload e)"
    using message_row_fields [OF row] e by (simp_all add: persistMessageFromEvent_def Let_def)
  have log: "sorted_wrt (<) (topic_seqs TopicToPostgres (ConversationID e) (cw_log w))"
    and pos: "0 < Seq e" "Seq e \<le> counter w (ConversationID e)"
    using inv e(2) unfolding seq_inv_def log_inv_def by (force simp: topic_seqs_def)+
  have "rows_inv (w\<lparr>cw_pg := db\<lparr>messages := messages db @ [r]\<rparr>\<rparr>)"
    using i same_record [OF log] e(2) pos f unfolding seq_inv_def rows_inv_def by auto
  then show "seq_inv (w\<lparr>cw_pg := db'\<rparr>)"
    using i insert_message_Inr [OF ins] by (auto simp: seq_inv_def log_inv_def)
qed (auto simp: seq_inv_def log_inv_def rows_inv_def dest!: insert_thread_Inr)

lemma chain_reach_inv: "chain_reach js typed w \<Longrightarrow> seq_inv w \<and> dedup_inv typed w \<and> pg_keys (cw_pg w)"
proof (induction rule: chain_reach.induct)
  case (start db)
  then show ?case by (simp add: seq_inv_def log_inv_def rows_inv_def topic_seqs_def dedup_inv_def)
next
  case (submit w e)
  have "topic_seqs t c (cw_log w @ [(TopicToTransfer, e)]) = topic_seqs t c (cw_log w)" if "t \<in> accepted_topics" for t c
    using that by (auto simp: topic_seqs_snoc topic_defs)
  moreover have "TopicToTransfer \<noteq> TopicToPostgres" by (simp add: topic_defs)
  ultimately have "seq_inv (cw_log_update (\<lambda>log. log @ [(TopicToTransfer, e)]) w)"
    using submit.IH by (auto simp: seq_inv_def log_inv_def rows_inv_def)
  moreover have "dedup_inv typed (cw_log_update (\<lambda>log. log @ [(TopicToTransfer, e)]) w)"
    by (rule dedup_inv_log [of typed w]) (use submit.IH in auto)
  ultimately show ?case using submit.IH by simp
next
  case (transfer w records fs r w' fs')
  have "seq_inv w'" by (rule keepsD [OF malloc.HandleBatch_ordered _ transfer.hyps(2)]) (use transfer.IH in blast)
  moreover have "cw_pg w' = cw_pg w" by (rule keepsD [OF HandleBatch_archive _ transfer.hyps(2)]) simp
  moreover have "dedup_inv typed w'"
  proof (cases r)
    case (Inl e)
    show ?thesis using validD_err [OF malloc.HandleBatch_recorded _ transfer.hyps(2) [unfolded Inl]] transfer.IH by blast
  next
    case (Inr x)
    show ?thesis using validD_ok [OF malloc.HandleBatch_recorded _ transfer.hyps(2) [unfolded Inr]] transfer.IH by blast
  qed
  ultimately show ?case using transfer.IH by simp
next
  case (persist w records now fs r db' fs')
  have "seq_inv (w\<lparr>cw_pg := db'\<rparr>)"
    using keepsD [OF persist_rows [OF _ persist.hyps(2)] _ persist.hyps(3)] persist.IH by simp
  moreover have "pg_keys db'"
    using keepsD [OF Persist_HandleBatch_keep [OF persist_statements_keys] _ persist.hyps(3)] persist.IH by simp
  moreover have "dedup_inv typed (w\<lparr>cw_pg := db'\<rparr>)" by (rule dedup_inv_log [of typed w]) (use persist.IH in auto)
  ultimately show ?case by simp
next
  case (expire w d a)
  have "dedup_inv typed (w\<lparr>redis_dedup := d, redis_cache := a\<rparr>)"
    using expire.IH expire.hyps(2) unfolding dedup_inv_def published_def map_le_def by (auto simp: dom_def)
  with expire.IH show ?case by simp
qed

section \<open>Runs without failures\<close>

definition announce :: "bool \<Rightarrow> MessageEvent \<Rightarrow> broker_log" where
  "announce typed e = [(TopicToPostgres, e), (TopicAgentTrigger, e)]
     @ (if snd (pushFanoutEvent typed e) then [(TopicToPush, fst (pushFanoutEvent typed e))] else [])"

definition next_base :: "chain_world \<Rightarrow> string \<Rightarrow> int" where
  "next_base w c = (case redis_seq w (seqKey c) of Some v \<Rightarrow> v | None \<Rightarrow> MaxSeq (cw_pg w) c)"

lemma Malloc_clean:
  assumes "0 < n" "next_base w c + n < 2 ^ 63"
  shows "Malloc c n (w, []) =
    (Inr (next_base w c + 1), (w\<lparr>redis_seq := (redis_seq w)(seqKey c \<mapsto> next_base w c + n)\<rparr>, []))"
  using assms by (cases "redis_seq w (seqKey c)")
    (simp_all add: Malloc_def Let_def andThen_def setnx_def incrby_def next_base_def ret_def)

lemma fresh_events_clean: "fresh_events seen es (w, []) = (Inr (fresh_of (redis_dedup w) seen es), (w, []))"
proof (induction seen es rule: fresh_events.induct)
  case (2 seen e es)
  have get: "DedupGet (SenderID e) (p_ClientMsgID (Payload e)) (w, []) = (Inr (redis_dedup w (event_key e)), (w, []))"
    by (simp add: DedupGet_def)
  show ?case
  proof (cases "SenderID e @ '':'' @ p_ClientMsgID (Payload e) \<in> seen")
    case False
    then show ?thesis using 2(2) [OF refl False] get by (simp add: Let_def ret_def)
  qed (use 2(1) in \<open>simp add: Let_def\<close>)
qed (simp add: ret_def)

lemma accepted_valid:
  assumes "Validate js e = None" "EventType e = EventTypeMessageSubmitted" "0 < s"
  shows "\<forall>a\<in>set (accept_from s [e]). Validate js a = None \<and> Validate js (fst (pushFanoutEvent typed a)) = None"
proof -
  let ?a = "hd (accept_from s [e])"
  have t: "EventType ?a = EventTypeMessageAccepted" "EventType (fst (pushFanoutEvent typed ?a)) = EventTypeMessageAccepted"
    by (auto simp: pushFanoutEvent_def Let_def)
  have "Validate js ?a = None" "Validate js (fst (pushFanoutEvent typed ?a)) = None"
    using assms(1,3) unfolding Validate_accepted [OF t(1)] Validate_accepted [OF t(2)] Validate_submitted [OF assms(2)]
    by (auto simp: pushFanoutEvent_def Let_def)
  then show ?thesis by simp
qed

lemma accept_from_valid:
  assumes "\<forall>e\<in>set es. Validate js e = None \<and> EventType e = EventTypeMessageSubmitted" "0 < s"
  shows "\<forall>a\<in>set (accept_from s es). Validate js a = None \<and> Validate js (fst (pushFanoutEvent typed a)) = None"
  using assms
proof (induction es arbitrary: s)
  case (Cons e es)
  have "\<forall>a\<in>set (accept_from (s + 1) es). Validate js a = None \<and> Validate js (fst (pushFanoutEvent typed a)) = None"
    by (rule Cons.IH) (use Cons.prems in auto)
  moreover have "set (accept_from s (e # es)) = set (accept_from s [e]) \<union> set (accept_from (s + 1) es)" by simp
  moreover have "\<forall>a\<in>set (accept_from s [e]). Validate js a = None \<and> Validate js (fst (pushFanoutEvent typed a)) = None"
    by (rule accepted_valid) (use Cons.prems in auto)
  ultimately show ?case by blast
qed simp

lemma publish_accepted_clean:
  assumes "Validate js a = None" "Validate js (fst (pushFanoutEvent typed a)) = None"
  shows "publish_accepted js typed a (w, []) = (Inr (), (cw_log_update (\<lambda>log. log @ announce typed a) w, []))"
  using assms by (cases "pushFanoutEvent typed a")
    (auto simp: publish_accepted_def PublishEvent_def announce_def ret_def intro!: arg_cong [where f = "\<lambda>f. cw_log_update f w"])

lemma fold_announce:
  "fold (\<lambda>a. cw_log_update (\<lambda>log. log @ announce typed a)) es w = cw_log_update (\<lambda>log. log @ concat (map (announce typed) es)) w"
proof (induction es arbitrary: w)
  case (Cons a es)
  show ?case by (simp add: Cons.IH comp_def)
qed simp

text \<open>Caching and read markers touch neither the log nor the counters.\<close>

lemma deliver_accepted_clean:
  assumes v: "\<forall>a\<in>set es. Validate js a = None \<and> Validate js (fst (pushFanoutEvent typed a)) = None"
  shows "\<exists>w'. deliver_accepted js typed c es (w, []) = (Inr (), (w', []))
    \<and> cw_log w' = cw_log w @ concat (map (announce typed) es) \<and> redis_seq w' = redis_seq w \<and> cw_pg w' = cw_pg w"
proof -
  let ?h = "\<lambda>e. hset (cacheBucketKey c (Seq e)) (FormatInt (Seq e)) e"
  let ?r = "\<lambda>e w. snd (hasReadAdvance (hasReadKey c (SenderID e)) (Seq e) w)"
  let ?d = "\<lambda>e. dedup_setnx (event_key e) \<lparr>dr_ConversationID = c, dr_Seq = Seq e, dr_ServerMsgID = ServerMsgID e,
        dr_PayloadHash = p_PayloadHash (Payload e)\<rparr>"
  have frame: "cw_log (fold ?h es' x) = cw_log x" "redis_seq (fold ?h es' x) = redis_seq x"
     "cw_log (fold ?r es' x) = cw_log x" "redis_seq (fold ?r es' x) = redis_seq x"
     "cw_log (fold ?d es' x) = cw_log x" "redis_seq (fold ?d es' x) = redis_seq x"
     "cw_pg (fold ?h es' x) = cw_pg x" "cw_pg (fold ?r es' x) = cw_pg x" "cw_pg (fold ?d es' x) = cw_pg x" for es' x
    by (induction es' arbitrary: x) (simp_all add: hset_def hasReadAdvance_def dedup_setnx_def Let_def)
  have "CacheMessages c es (w, []) = (Inr (), (fold ?h es w, []))"
    unfolding CacheMessages_def by (rule for_each_clean) simp
  moreover have "for_each (\<lambda>e. SetHasRead c (SenderID e) (Seq e)) es (x, []) = (Inr (), (fold ?r es x, []))" for x
    by (rule for_each_clean) (simp add: SetHasRead_def ret_def)
  moreover have "for_each (publish_accepted js typed) es (x, [])
      = (Inr (), (cw_log_update (\<lambda>log. log @ concat (map (announce typed) es)) x, []))" for x
    unfolding fold_announce [symmetric] by (rule for_each_clean) (use v publish_accepted_clean in blast)
  moreover have "for_each (record_dedup c) es (x, []) = (Inr (), (fold ?d es x, []))" for x
    by (rule for_each_clean) (simp add: record_dedup_def DedupSet_def)
  ultimately have "deliver_accepted js typed c es (w, [])
      = (Inr (), (fold ?d es (cw_log_update (\<lambda>log. log @ concat (map (announce typed) es)) (fold ?r es (fold ?h es w))), []))"
    unfolding deliver_accepted_def by simp
  then show ?thesis by (simp add: frame)
qed

lemma handleConversation_clean:
  assumes v: "\<forall>e\<in>set events. Validate js e = None \<and> EventType e = EventTypeMessageSubmitted"
    and b: "0 \<le> next_base w c" "next_base w c + int (length events) < 2 ^ 63"
  defines "fresh \<equiv> fresh_of (redis_dedup w) {} events"
  shows "\<exists>w'. handleConversation Malloc js typed c events (w, []) = (Inr (), (w', []))
    \<and> cw_log w' = cw_log w @ concat (map (announce typed) (accept_from (next_base w c + 1) fresh))
    \<and> redis_seq w' = (if fresh = [] then redis_seq w else (redis_seq w)(seqKey c \<mapsto> next_base w c + int (length fresh)))
    \<and> cw_pg w' = cw_pg w"
proof (cases "fresh = []")
  case True
  then show ?thesis using fresh_events_clean [of "{}" events w] by (simp add: handleConversation_def fresh_def ret_def)
next
  case False
  let ?w1 = "w\<lparr>redis_seq := (redis_seq w)(seqKey c \<mapsto> next_base w c + int (length fresh))\<rparr>"
  have len: "length fresh \<le> length events" unfolding fresh_def by (rule fresh_of_length)
  have m: "Malloc c (int (length fresh)) (w, []) = (Inr (next_base w c + 1), (?w1, []))"
    by (rule Malloc_clean) (use False b len in auto)
  have "\<forall>a\<in>set (accept_from (next_base w c + 1) fresh). Validate js a = None \<and> Validate js (fst (pushFanoutEvent typed a)) = None"
    by (rule accept_from_valid) (use v b fresh_of_subset in \<open>auto simp: fresh_def subset_iff\<close>)
  from deliver_accepted_clean [OF this, of c ?w1] obtain w' where
    d: "deliver_accepted js typed c (accept_from (next_base w c + 1) fresh) (?w1, []) = (Inr (), (w', []))"
      "cw_log w' = cw_log w @ concat (map (announce typed) (accept_from (next_base w c + 1) fresh))"
      "redis_seq w' = redis_seq ?w1" "cw_pg w' = cw_pg w" by auto
  have "handleConversation Malloc js typed c events (w, []) = (Inr (), (w', []))"
    using False fresh_events_clean [of "{}" events w] m d(1) by (simp add: handleConversation_def fresh_def)
  with d False show ?thesis by simp
qed

lemma run_all_succeeds:
  assumes step: "\<And>pre x todo w. xs = pre @ x # todo \<Longrightarrow> J pre w \<Longrightarrow> \<exists>w'. f x (w, []) = (Inr (), (w', [])) \<and> J (pre @ [x]) w'"
    and J: "J [] w"
  shows "\<exists>w'. run_all f xs (w, []) = (Inr (), (w', [])) \<and> J xs w'"
proof -
  have "\<exists>w'. run_all f todo (w, []) = (Inr (), (w', [])) \<and> J xs w'" if "xs = pre @ todo" "J pre w" for pre todo w
    using that
  proof (induction todo arbitrary: pre w)
    case (Cons x todo)
    from step [OF Cons.prems] obtain w1 where w1: "f x (w, []) = (Inr (), (w1, []))" "J (pre @ [x]) w1" by blast
    from Cons.IH [of "pre @ [x]" w1] Cons.prems w1 show ?case by simp
  qed (simp add: ret_def)
  from this [of "[]" xs w] J show ?thesis by simp
qed

section \<open>Properties of the pipeline\<close>

text \<open>
  C1: in every reachable state of the chain, whatever calls failed and however often batches were
  retried or redelivered, the sequence numbers of a conversation strictly increase along each of the
  topics toPostgres, agent.trigger and toPush, none of them is above the conversation's counter, and
  an archived row with the number of a record is the row of that same message.
\<close>

theorem seq_numbers_ordered:
  assumes "chain_reach js typed w"
  shows "(\<forall>t c. t \<in> accepted_topics \<longrightarrow> sorted_wrt (<) (topic_seqs t c (cw_log w))
       \<and> (\<forall>s\<in>set (topic_seqs t c (cw_log w)). 0 < s \<and> s \<le> counter w c))
    \<and> (\<forall>e m. (TopicToPostgres, e) \<in> set (cw_log w) \<and> m \<in> set (messages (cw_pg w))
         \<and> ConversationId m = ConversationID e \<and> MsgSeq m = Seq e \<longrightarrow>
         SenderAccountId m = SenderID e \<and> ClientMsgId m = p_ClientMsgID (Payload e))"
proof -
  have "log_inv w" "rows_inv w" using chain_reach_inv [OF assms] by (auto simp: seq_inv_def)
  then show ?thesis unfolding log_inv_def rows_inv_def by metis
qed

text \<open>
  C35: the persist consumer never meets a sequence number taken by another message: in a reachable
  state, if the archive refuses the row of a record of toPostgres, then because of its message id,
  never because of the pair of conversation and sequence number.
\<close>

theorem persist_never_conflicts:
  assumes "chain_reach js typed w" "(TopicToPostgres, e) \<in> set (cw_log w)"
    and "message_row js now (persistMessageFromEvent e) = Inr r" "insert_message r (cw_pg w) = Inl err"
  shows "\<exists>m\<in>set (messages (cw_pg w)). MessageId m = MessageId r"
proof -
  have f: "ConversationId r = ConversationID e" "MsgSeq r = Seq e" "SenderAccountId r = SenderID e"
      "ClientMsgId r = p_ClientMsgID (Payload e)"
    using message_row_fields [OF assms(3)] by (simp_all add: persistMessageFromEvent_def Let_def)
  have "rows_inv w" using chain_reach_inv [OF assms(1)] by (auto simp: seq_inv_def)
  with assms(2) f have "SenderAccountId m = SenderAccountId r \<and> ClientMsgId m = ClientMsgId r"
    if "m \<in> set (messages (cw_pg w))" "ConversationId m = ConversationId r" "MsgSeq m = MsgSeq r" for m
    using that unfolding rows_inv_def by metis
  then show ?thesis using assms(4) by (fastforce simp: insert_message_def list_ex_iff split: if_splits)
qed


text \<open>
  Replays change nothing: a batch whose messages all have a deduplication record (a redelivery,
  or new messages that reuse the client ids of their senders, whatever their content and
  conversation) leaves the whole chain as it is, and succeeds if Redis answers.
\<close>

theorem replay_publishes_nothing:
  assumes "\<forall>e\<in>set (batch_events js EventTypeMessageSubmitted records). redis_dedup w (event_key e) \<noteq> None"
  shows "\<exists>r fs'. Transfer_HandleBatch Malloc js typed records (w, fs) = (r, (w, fs')) \<and> (fs = [] \<longrightarrow> r = Inr ())"
proof -
  let ?es = "batch_events js EventTypeMessageSubmitted records"
  let ?h = "\<lambda>c. handleConversation Malloc js typed c (filter (\<lambda>e. ConversationID e = c) ?es)"
  have none: "fresh_of (redis_dedup w) {} (filter (\<lambda>e. ConversationID e = c) ?es) = []" for c
    by (rule fresh_of_none) (use assms in auto)
  have one: "\<exists>r fs'. ?h c (w, fs) = (r, (w, fs')) \<and> (fs = [] \<longrightarrow> r = Inr () \<and> fs' = [])" for c fs
  proof -
    obtain r w' fs' where h: "?h c (w, fs) = (r, (w', fs'))" by (metis prod.exhaust)
    moreover have "w' = w" using handleConversation_split [OF h] none by (auto simp: ret_def)
    moreover have "fs = [] \<longrightarrow> r = Inr () \<and> fs' = []"
      using h none [of c] fresh_events_clean [of "{}" "filter (\<lambda>e. ConversationID e = c) ?es" w]
      by (auto simp: handleConversation_def ret_def)
    ultimately show ?thesis by blast
  qed
  have "\<exists>r fs'. run_all ?h cs (w, fs) = (r, (w, fs')) \<and> (fs = [] \<longrightarrow> r = Inr () \<and> fs' = [])" for cs fs
  proof (induction cs arbitrary: fs)
    case (Cons c cs)
    obtain r fs1 where c: "?h c (w, fs) = (r, (w, fs1))" "fs = [] \<longrightarrow> r = Inr () \<and> fs1 = []" using one by blast
    obtain r2 fs2 where "run_all ?h cs (w, fs1) = (r2, (w, fs2))" "fs1 = [] \<longrightarrow> r2 = Inr () \<and> fs2 = []" using Cons.IH by blast
    then show ?case using c by (cases r) auto
  qed (simp add: ret_def)
  then show ?thesis
    unfolding Transfer_HandleBatch_def group_batch_spec Let_def prod.case by (auto simp: ret_def split: if_splits) metis
qed


text \<open>
  C5: the transfer consumer makes progress: in a reachable state an attempt at a batch during which
  nothing fails succeeds, whatever the batch contains (malformed and foreign records are dropped), as
  long as no counter is within the size of the batch of the end of 64 bits. So a retried batch is
  committed by the first undisturbed attempt.
\<close>

theorem transfer_batch_completes:
  assumes reach: "chain_reach js typed w" and room: "\<forall>c. next_base w c + int (length records) < 2 ^ 63"
  shows "\<exists>w'. retry_batch (Transfer_HandleBatch Malloc js typed) (Suc n) records (w, []) = Some (w', [])"
proof -
  let ?es = "batch_events js EventTypeMessageSubmitted records"
  let ?of = "\<lambda>c. filter (\<lambda>e. ConversationID e = c) ?es" and ?order = "keep_first {} (map ConversationID ?es)"
  have "length ?es \<le> length records"
    by (induction records) (auto simp: batch_events_def split: sum.splits)
  then have len: "length (?of c) \<le> length records" for c using length_filter_le order_trans by blast
  have base: "0 \<le> next_base w c" for c
    using chain_reach_inv [OF reach] MaxSeq_nonneg [of w c] by (auto simp: next_base_def seq_inv_def split: option.splits)
  have "\<exists>w'. run_all (\<lambda>c. handleConversation Malloc js typed c (?of c)) ?order (w, []) = (Inr (), (w', []))
      \<and> (\<forall>c. c \<notin> set ?order \<longrightarrow> next_base w' c = next_base w c)"
  proof (rule run_all_succeeds [where J = "\<lambda>pre v. \<forall>c. c \<notin> set pre \<longrightarrow> next_base v c = next_base w c"])
    fix pre c todo v assume split: "?order = pre @ c # todo" and J: "\<forall>c. c \<notin> set pre \<longrightarrow> next_base v c = next_base w c"
    have "c \<notin> set pre" using distinct_keep_first [of "{}" "map ConversationID ?es"] unfolding split by simp
    then have b: "next_base v c = next_base w c" using J by blast
    have ev: "\<forall>e\<in>set (?of c). Validate js e = None \<and> EventType e = EventTypeMessageSubmitted"
      using batch_events_valid by auto
    have b1: "0 \<le> next_base v c" using base b by simp
    have b2: "next_base v c + int (length (?of c)) < 2 ^ 63" using spec [OF room, of c] len [of c] b by linarith
    from handleConversation_clean [OF ev b1 b2, of typed] obtain v' where
      v': "handleConversation Malloc js typed c (?of c) (v, []) = (Inr (), (v', []))"
        "redis_seq v' = (if fresh_of (redis_dedup v) {} (?of c) = [] then redis_seq v
          else (redis_seq v)(seqKey c \<mapsto> next_base v c + int (length (fresh_of (redis_dedup v) {} (?of c)))))"
        "cw_pg v' = cw_pg v" by blast
    have "next_base v' d = next_base v d" if "d \<noteq> c" for d
      unfolding next_base_def v'(2,3) using that by simp
    with v'(1) J show "\<exists>w'. handleConversation Malloc js typed c (?of c) (v, []) = (Inr (), (w', []))
        \<and> (\<forall>d. d \<notin> set (pre @ [c]) \<longrightarrow> next_base w' d = next_base w d)" by auto
  qed simp
  then show ?thesis
    unfolding retry_batch.simps Transfer_HandleBatch_def group_batch_spec Let_def prod.case by (auto simp: ret_def)
qed

section \<open>Examples\<close>

definition demo_submitted :: MessageEvent where
  "demo_submitted = demo_at_event\<lparr>EventType := ''message.submitted'', Seq := 0,
     Payload := (Payload demo_at_event)\<lparr>p_ContentType := ''text''\<rparr>\<rparr>"

definition chain_json :: json_lib where
  "chain_json = demo_json\<lparr>event_decode := \<lambda>_. Inr demo_submitted\<rparr>"

definition start_chain :: "pg_db \<Rightarrow> chain_world" where
  "start_chain db = \<lparr>redis_seq = \<lambda>_. None, redis_dedup = \<lambda>_. None, redis_cache = \<lambda>_ _. None,
      redis_hasread = \<lambda>_. None, cw_pg = db, cw_log = []\<rparr>"

abbreviation empty_chain :: chain_world where
  "empty_chain \<equiv> start_chain empty_db"

lemma demo_submitted_valid: "Validate chain_json demo_submitted = None" "EventType demo_submitted = EventTypeMessageSubmitted"
  by (simp_all add: Validate_def Let_def chain_json_def demo_json_def demo_submitted_def demo_at_event_def event_consts)

lemma demo_batch: "batch_events chain_json EventTypeMessageSubmitted [''r''] = [demo_submitted]"
  using demo_submitted_valid by (simp add: batch_events_def UnmarshalMessageEvent_def) (simp add: chain_json_def)

lemma start_chain_reach: "pg_keys db \<Longrightarrow> \<forall>m\<in>set (messages db). 0 < MsgSeq m \<Longrightarrow> chain_reach js typed (start_chain db)"
  unfolding start_chain_def by (rule chain_reach.start)

lemma empty_chain_reach: "chain_reach js typed empty_chain"
  by (rule start_chain_reach) (simp_all add: empty_db_def pg_keys_def)

lemma start_chain_base: "next_base (start_chain db) c = MaxSeq db c" "MaxSeq empty_db c = 0"
  by (simp_all add: next_base_def start_chain_def MaxSeq_def empty_db_def)

lemma start_chain_fresh: "fresh_of (redis_dedup (start_chain db)) {} [demo_submitted] = [demo_submitted]"
  by (simp add: start_chain_def Let_def)

theorem transfer_batch_completes_witness:
  "\<exists>w'. retry_batch (Transfer_HandleBatch Malloc chain_json True) 1 [''r''] (empty_chain, []) = Some (w', [])"
  using transfer_batch_completes [OF empty_chain_reach, of "[''r'']" chain_json True 0] start_chain_base by simp


abbreviation demo_accepted :: MessageEvent where
  "demo_accepted \<equiv> hd (accept_from 1 [demo_submitted])"

lemma demo_transferred:
  assumes "MaxSeq db ''group:g'' = 0"
  shows "\<exists>w'. Transfer_HandleBatch Malloc chain_json True [''r''] (start_chain db, []) = (Inr (), (w', []))
     \<and> cw_log w' = announce True demo_accepted \<and> cw_pg w' = db"
proof -
  have c: "ConversationID demo_submitted = ''group:g''" by (simp add: demo_submitted_def demo_at_event_def)
  have v: "\<forall>e\<in>set [demo_submitted]. Validate chain_json e = None \<and> EventType e = EventTypeMessageSubmitted"
    using demo_submitted_valid by simp
  from handleConversation_clean [OF v, of "start_chain db" "''group:g''" True] obtain w' where
    "handleConversation Malloc chain_json True ''group:g'' [demo_submitted] (start_chain db, []) = (Inr (), (w', []))"
    "cw_log w' = cw_log (start_chain db) @ announce True demo_accepted" "cw_pg w' = cw_pg (start_chain db)"
    unfolding start_chain_fresh start_chain_base assms by auto
  then show ?thesis
    unfolding Transfer_HandleBatch_def group_batch_spec demo_batch by (simp add: c ret_def start_chain_def)
qed

theorem seq_numbers_ordered_witness:
  "\<exists>w. chain_reach chain_json True w \<and> cw_log w \<noteq> [] \<and> sorted_wrt (<) (topic_seqs TopicToPostgres ''group:g'' (cw_log w))"
proof -
  obtain w where w: "Transfer_HandleBatch Malloc chain_json True [''r''] (empty_chain, []) = (Inr (), (w, []))"
      "cw_log w = announce True demo_accepted"
    using demo_transferred [of empty_db] start_chain_base by blast
  then have "cw_log w \<noteq> []" by (simp add: announce_def)
  moreover have "chain_reach chain_json True w" by (rule chain_reach.transfer [OF empty_chain_reach w(1)])
  ultimately show ?thesis using seq_numbers_ordered [of chain_json True w] by blast
qed

text \<open>An archive with a row of another conversation under the message id of the example.\<close>

definition clash_row :: Messages where
  "clash_row = \<lparr>MessageId = 77, ClientMsgId = ''x'', SenderAccountId = ''y'', ConversationId = ''single:y:z'', MsgSeq = 3,
     ConversationType = 1, ReceiverAccountId = ''z'', GroupId = [], ContentType = 1, Content = [], MessageOrigin = 1,
     AgentAccountId = [], TriggerMessageId = [], AgentRunId = [], AllowRecursiveTrigger = False, PayloadHash = [],
     ClientSendTime = None, ServerReceivedAt = 1\<rparr>"

lemma demo_row: "\<exists>r. message_row chain_json 9 (persistMessageFromEvent demo_accepted) = Inr r \<and> MessageId r = 77
    \<and> SenderAccountId r = ''u1''"
proof -
  have v: "conversationTypeValue ''group'' = Inr 2" "contentTypeValue ''text'' = Inr 1" "messageOriginValue ''human'' = Inr 1"
    "ParseInt (TrimSpace ''77'') = Some 77"
    by code_simp+
  show ?thesis
    by (simp add: message_row_def persistMessageFromEvent_def Let_def demo_submitted_def demo_at_event_def v)
qed

theorem persist_never_conflicts_witness:
  "\<exists>w r. chain_reach chain_json True w \<and> insert_message r (cw_pg w) = Inl unique_violation
     \<and> (\<exists>m\<in>set (messages (cw_pg w)). MessageId m = MessageId r)"
proof -
  let ?db = "empty_db\<lparr>messages := [clash_row]\<rparr>"
  have reach: "chain_reach chain_json True (start_chain ?db)"
    by (rule start_chain_reach) (simp_all add: pg_keys_def clash_row_def)
  have "MaxSeq ?db ''group:g'' = 0" by (simp add: MaxSeq_def clash_row_def)
  from demo_transferred [OF this] obtain w where
    w: "Transfer_HandleBatch Malloc chain_json True [''r''] (start_chain ?db, []) = (Inr (), (w, []))"
      "cw_log w = announce True demo_accepted" "cw_pg w = ?db"
    by blast
  obtain r where r: "message_row chain_json 9 (persistMessageFromEvent demo_accepted) = Inr r" "MessageId r = 77" "SenderAccountId r = ''u1''"
    using demo_row by blast
  have i: "insert_message r (cw_pg w) = Inl unique_violation"
    using r(2,3) by (simp add: w(3) insert_message_def clash_row_def)
  have wr: "chain_reach chain_json True w" by (rule chain_reach.transfer [OF reach w(1)])
  have "(TopicToPostgres, demo_accepted) \<in> set (cw_log w)" unfolding w(2) by (simp add: announce_def)
  from persist_never_conflicts [OF wr this r(1) i] wr i show ?thesis by blast
qed


theorem replay_publishes_nothing_witness:
  "\<exists>w r. redis_dedup w (event_key demo_submitted) \<noteq> None
     \<and> Transfer_HandleBatch Malloc chain_json True [''r''] (w, []) = (Inr (), (w, r))"
proof -
  let ?w = "empty_chain\<lparr>redis_dedup := \<lambda>_. Some \<lparr>dr_ConversationID = [], dr_Seq = 1, dr_ServerMsgID = [], dr_PayloadHash = []\<rparr>\<rparr>"
  have "\<forall>e\<in>set (batch_events chain_json EventTypeMessageSubmitted [''r'']). redis_dedup ?w (event_key e) \<noteq> None" by simp
  from replay_publishes_nothing [OF this, of True "[]"] show ?thesis by (intro exI [of _ ?w]) auto
qed

section \<open>What a lost deduplication write costs\<close>

text \<open>One attempt whose last call, the write of the deduplication record, fails.\<close>

lemma demo_dedup_lost:
  "\<exists>e w1. handleConversation Malloc chain_json False ''group:g'' [demo_submitted] (empty_chain, replicate 10 NoFault @ [FailBefore])
       = (Inl e, (w1, []))
     \<and> cw_log w1 = announce False demo_accepted \<and> next_base w1 ''group:g'' = 1 \<and> redis_dedup w1 = (\<lambda>_. None)"
proof -
  have v: "Validate chain_json demo_accepted = None"
    using accepted_valid [of chain_json demo_submitted 1 False] demo_submitted_valid by simp
  have r: "p_ReceiverIDs (Payload demo_accepted) \<noteq> []"
  proof -
    have "TrimSpace ''u1'' = ''u1''" by code_simp
    then have "''u1'' \<in> set (deriveReceiverIDs demo_submitted)"
      unfolding deriveReceiverIDs_def Let_def set_uniqueSortedNonEmpty
      by (auto simp: demo_submitted_def demo_at_event_def image_iff)
    then show ?thesis by auto
  qed
  show ?thesis
    unfolding handleConversation_def deliver_accepted_def publish_accepted_def PublishEvent_def Malloc_def CacheMessages_def
      record_dedup_def DedupSet_def SetHasRead_def
    using v r
    by (simp add: DedupGet_def andThen_def call_def ret_def start_chain_def pushFanoutEvent_def announce_def eval_nat_numeral
        setnx_def incrby_def hset_def hasReadAdvance_def Let_def next_base_def MaxSeq_def empty_db_def)
qed


end
