(* ===== verification/Reads.thy ===== *)
theory Reads
  imports Archive Msg_Send
begin

text \<open>
  The read path of msg-rpc (\<^verbatim>\<open>service/msg/rpc/internal/logic\<close> and its queries in
  \<^verbatim>\<open>internal/model\<close>): access control, pulling history page by page, the sequence state of
  conversations, and read positions. The queries run on the tables of the archive; the column
  \<^verbatim>\<open>updated_at\<close> is not kept, so the order it gives to a list of conversations is not either.
\<close>

section \<open>Access and ranges\<close>

definition OrderAsc :: string where "OrderAsc = ''asc''"
definition OrderDesc :: string where "OrderDesc = ''desc''"

definition normalizePullRange :: "int \<Rightarrow> int \<Rightarrow> int \<Rightarrow> string \<Rightarrow> (int \<times> int \<times> int \<times> string) result" where
  "normalizePullRange fromSeq toSeq limit rawOrder =
     (if fromSeq < 0 then Inl (InvalidArgument ''from_seq must be greater than or equal to 0'')
      else if toSeq < 0 then Inl (InvalidArgument ''to_seq must be greater than or equal to 0'')
      else let from = (if fromSeq = 0 then 1 else fromSeq)
      in if limit < 0 then Inl (InvalidArgument ''limit must be greater than or equal to 0'')
         else let l1 = (if limit = 0 then 50 else limit);
                  l2 = (if l1 > 500 then 500 else l1);
                  o1 = ToLower (TrimSpace rawOrder);
                  order = (if o1 = [] then OrderAsc else o1)
              in if order \<noteq> OrderAsc \<and> order \<noteq> OrderDesc then Inl (InvalidArgument ''order must be asc or desc'')
                 else Inr (from, toSeq, l2, order))"

definition ensureConversationReadAccess :: "group_lister \<Rightarrow> string \<Rightarrow> string \<Rightarrow> goerror option" where
  "ensureConversationReadAccess groups userID conversationID =
     (case singleConversationParticipants conversationID of
        Some (userA, userB) \<Rightarrow>
          if userID \<noteq> userA \<and> userID \<noteq> userB then Some (Forbidden ''caller is not a conversation participant'') else None
      | None \<Rightarrow>
          (case groupIDFromConversationID conversationID of
             None \<Rightarrow> None
           | Some groupID \<Rightarrow>
               (case groups of
                  None \<Rightarrow> Some (Internal ''group membership validator is not configured'')
                | Some listMembers \<Rightarrow> (case listMembers groupID userID of Inl e \<Rightarrow> Some e | Inr _ \<Rightarrow> None))))"

section \<open>Queries\<close>

record ConversationSeqState =
  ss_ConversationID :: string
  ss_MaxSeq :: int
  ss_HasReadSeq :: int
  ss_UnreadCount :: int
  ss_MaxSeqTime :: int
  ss_LastMessage :: "Messages option"

record ReadStateBounds =
  rb_HasReadSeq :: int
  rb_MaxSeq :: int
  rb_VisibleStartSeq :: int

definition is_party :: "string \<Rightarrow> ConversationThreads \<Rightarrow> bool" where
  "is_party userID t \<longleftrightarrow> ct_ConversationType t = 1 \<and> (ct_SingleAccountA t = userID \<or> ct_SingleAccountB t = userID)"

definition repair_state :: "string \<Rightarrow> string \<Rightarrow> pg_db \<Rightarrow> pg_db" where
  "repair_state userID conversationID db =
     (case map_of (states db) (userID, conversationID) of
        None \<Rightarrow> db\<lparr>states := AList.update (userID, conversationID) \<lparr>us_LastReadSeq = 0, us_VisibleStartSeq = 0\<rparr> (states db)\<rparr>
      | Some s \<Rightarrow> if us_VisibleStartSeq s \<noteq> 0
                  then db\<lparr>states := AList.update (userID, conversationID) (s\<lparr>us_VisibleStartSeq := 0\<rparr>) (states db)\<rparr>
                  else db)"

definition RepairDirect :: "string \<Rightarrow> string \<Rightarrow> (pg_db, unit) act" where
  "RepairDirect userID conversationID =
     stmt (\<lambda>db. Inr (case map_of (threads db) conversationID of
         Some t \<Rightarrow> if is_party userID t then repair_state userID conversationID db else db
       | None \<Rightarrow> db))"

definition RepairAllDirect :: "string \<Rightarrow> (pg_db, unit) act" where
  "RepairAllDirect userID =
     stmt (\<lambda>db. Inr (fold (\<lambda>(c, t) db. if is_party userID t then repair_state userID c db else db) (threads db) db))"

definition ListConversationIDs :: "string \<Rightarrow> (pg_db, string list) act" where
  "ListConversationIDs userID = query (\<lambda>db. Inr (map (snd \<circ> fst) (filter (\<lambda>((u, _), _). u = userID) (states db))))"

definition read_bounds :: "pg_db \<Rightarrow> string \<Rightarrow> string \<Rightarrow> ReadStateBounds result" where
  "read_bounds db userID conversationID =
     (case (map_of (threads db) conversationID, map_of (states db) (userID, conversationID)) of
        (Some t, Some s) \<Rightarrow> Inr \<lparr>rb_HasReadSeq = us_LastReadSeq s, rb_MaxSeq = ct_MaxSeq t, rb_VisibleStartSeq = us_VisibleStartSeq s\<rparr>
      | _ \<Rightarrow> Inl ErrNotFound)"

definition LockReadState :: "string \<Rightarrow> string \<Rightarrow> (pg_db, ReadStateBounds) act" where
  "LockReadState userID conversationID = query (\<lambda>db. read_bounds db userID conversationID)"

text \<open>The scoped bounds carry no read position.\<close>

definition UserScopedBounds :: "string \<Rightarrow> string \<Rightarrow> (pg_db, ReadStateBounds) act" where
  "UserScopedBounds userID conversationID =
     query (\<lambda>db. map_sum id (\<lambda>b. b\<lparr>rb_HasReadSeq := 0\<rparr>) (read_bounds db userID conversationID))"

definition advance_read :: "string \<Rightarrow> string \<Rightarrow> int \<Rightarrow> pg_db \<Rightarrow> pg_db" where
  "advance_read userID conversationID seq db =
     (case map_of (states db) (userID, conversationID) of
        None \<Rightarrow> db
      | Some s \<Rightarrow> db\<lparr>states := AList.update (userID, conversationID)
          (s\<lparr>us_LastReadSeq := max (us_LastReadSeq s) (max seq (us_VisibleStartSeq s))\<rparr>) (states db)\<rparr>)"

definition AdvanceLastReadSeq :: "string \<Rightarrow> string \<Rightarrow> int \<Rightarrow> (pg_db, unit) act" where
  "AdvanceLastReadSeq userID conversationID seq = stmt (\<lambda>db. Inr (advance_read userID conversationID seq db))"

definition find_message :: "pg_db \<Rightarrow> int \<Rightarrow> Messages option" where
  "find_message db messageID = find (\<lambda>m. MessageId m = messageID) (messages db)"

definition fetchMessageByID :: "string \<Rightarrow> (pg_db, Messages) act" where
  "fetchMessageByID serverMsgID =
     query (\<lambda>db. case ParseInt (TrimSpace serverMsgID) of
         None \<Rightarrow> Inl (PlainError ''invalid input syntax for type bigint'')
       | Some i \<Rightarrow> (case find_message db i of None \<Rightarrow> Inl ErrNotFound | Some m \<Rightarrow> Inr m))"

text \<open>The joined row of \<^verbatim>\<open>QuerySeqState\<close>: the state without its last message, and the id of that.\<close>

definition seq_row :: "pg_db \<Rightarrow> string \<Rightarrow> string \<Rightarrow> (ConversationSeqState \<times> string) result" where
  "seq_row db userID conversationID =
     (case (map_of (threads db) conversationID, map_of (states db) (userID, conversationID)) of
        (Some t, Some s) \<Rightarrow>
          Inr (\<lparr>ss_ConversationID = conversationID, ss_MaxSeq = ct_MaxSeq t, ss_HasReadSeq = us_LastReadSeq s,
                ss_UnreadCount = unreadCountFromVisibleStart (ct_MaxSeq t) (us_LastReadSeq s) (us_VisibleStartSeq s),
                ss_MaxSeqTime = (case find (\<lambda>m. FormatInt (MessageId m) = ct_LastMessageId t) (messages db) of
                    Some m \<Rightarrow> (case ClientSendTime m of Some ms \<Rightarrow> ms | None \<Rightarrow> 0) | None \<Rightarrow> 0),
                ss_LastMessage = None\<rparr>,
               if ct_MaxSeq t > us_VisibleStartSeq s then ct_LastMessageId t else [])
      | _ \<Rightarrow> Inl ErrNotFound)"

definition QuerySeqState :: "string \<Rightarrow> string \<Rightarrow> (pg_db, ConversationSeqState) act" where
  "QuerySeqState userID conversationID =
     andThen (query (\<lambda>db. seq_row db userID conversationID)) (\<lambda>(state, lastMessageID).
       if lastMessageID = [] then ret state
       else andThen (fetchMessageByID lastMessageID) (\<lambda>last. ret (state\<lparr>ss_LastMessage := Some last\<rparr>)))"

text \<open>The query asks for one row more than the limit, which tells whether the page is the last one.\<close>

definition page :: "string \<Rightarrow> int \<Rightarrow> int \<Rightarrow> Messages list \<Rightarrow> Messages list \<times> bool \<times> int" where
  "page order limit fromSeq asc =
     (let found = take (nat (limit + 1)) (if order = OrderDesc then rev asc else asc);
          isEnd = (int (length found) \<le> limit);
          rows = (if isEnd then found else take (nat limit) found);
          nextSeq = (if rows = [] then fromSeq
                     else if order = OrderDesc then MsgSeq (last rows) - 1 else MsgSeq (last rows) + 1)
      in (rows, isEnd, nextSeq))"

definition GetMessagesInRange ::
  "string \<Rightarrow> int \<Rightarrow> int \<Rightarrow> int \<Rightarrow> int \<Rightarrow> string \<Rightarrow> (pg_db, Messages list \<times> bool \<times> int) act" where
  "GetMessagesInRange conversationID fromSeq toSeq0 maxSeq limit order0 =
     (let toSeq = (if toSeq0 \<le> 0 \<or> toSeq0 > maxSeq then maxSeq else toSeq0)
      in if fromSeq > toSeq \<or> maxSeq = 0 then ret ([], True, fromSeq)
         else let order = (if order0 \<noteq> OrderAsc \<and> order0 \<noteq> OrderDesc then OrderAsc else order0) in
           query (\<lambda>db. Inr (page order limit fromSeq (sort_key MsgSeq (filter (\<lambda>m.
             ConversationId m = conversationID \<and> fromSeq \<le> MsgSeq m \<and> MsgSeq m \<le> toSeq) (messages db))))))"

section \<open>Loading\<close>

fun load_states :: "bool \<Rightarrow> string \<Rightarrow> string list \<Rightarrow> (pg_db, ConversationSeqState list) act" where
  "load_states needsTargetedRepair userID [] = ret []"
| "load_states needsTargetedRepair userID (c # cs) =
     andThen (if needsTargetedRepair then RepairDirect userID c else ret ()) (\<lambda>_.
     andThen (not_found_as ''conversation not found'' (QuerySeqState userID c)) (\<lambda>state.
     andThen (load_states needsTargetedRepair userID cs) (\<lambda>states. ret (state # states))))"

definition loadConversationSeqStates :: "string \<Rightarrow> string list \<Rightarrow> (pg_db, ConversationSeqState list) act" where
  "loadConversationSeqStates userID conversationIDs =
     andThen (if conversationIDs \<noteq> [] then ret conversationIDs
              else andThen (ListConversationIDs userID) (\<lambda>listed.
                if listed \<noteq> [] then ret listed
                else andThen (RepairAllDirect userID) (\<lambda>_. ListConversationIDs userID))) (\<lambda>ids.
     load_states (conversationIDs \<noteq> []) userID ids)"

definition loadMessagesForUser ::
  "string \<Rightarrow> string \<Rightarrow> int \<Rightarrow> int \<Rightarrow> int \<Rightarrow> string \<Rightarrow> (pg_db, Messages list \<times> bool \<times> int) act" where
  "loadMessagesForUser userID conversationID fromSeq toSeq limit order =
     andThen (RepairDirect userID conversationID) (\<lambda>_.
     andThen (not_found_as ''conversation not found'' (UserScopedBounds userID conversationID)) (\<lambda>bounds.
       let from = (if fromSeq \<le> rb_VisibleStartSeq bounds then rb_VisibleStartSeq bounds + 1 else fromSeq);
           to = (if toSeq \<le> 0 \<or> toSeq > rb_MaxSeq bounds then rb_MaxSeq bounds else toSeq)
       in GetMessagesInRange conversationID from to (rb_MaxSeq bounds) limit order))"

section \<open>Handlers\<close>

definition pull_messages ::
  "group_lister \<Rightarrow> string \<Rightarrow> string \<Rightarrow> int \<Rightarrow> int \<Rightarrow> int \<Rightarrow> string \<Rightarrow> (pg_db, Messages list \<times> bool \<times> int) act" where
  "pull_messages groups rawUser rawConversation rawFrom rawTo rawLimit rawOrder =
     andThen (lift_result (normalizeMessageRequiredID rawUser ''user_id'')) (\<lambda>userID.
     andThen (lift_result (normalizeConversationID rawConversation)) (\<lambda>conversationID.
     andThen (check (ensureConversationReadAccess groups userID conversationID)) (\<lambda>_.
     andThen (lift_result (normalizePullRange rawFrom rawTo rawLimit rawOrder)) (\<lambda>(fromSeq, toSeq0, limit, order).
     andThen (loadConversationSeqStates userID [conversationID]) (\<lambda>states.
       let toSeq = (case states of [s] \<Rightarrow> if toSeq0 = 0 \<or> toSeq0 > ss_MaxSeq s then ss_MaxSeq s else toSeq0 | _ \<Rightarrow> toSeq0)
       in loadMessagesForUser userID conversationID fromSeq toSeq limit order)))))"

definition PullMessages ::
  "json_lib \<Rightarrow> group_lister \<Rightarrow> string \<Rightarrow> string \<Rightarrow> int \<Rightarrow> int \<Rightarrow> int \<Rightarrow> string \<Rightarrow> (pg_db, PbMessage list \<times> bool \<times> int) act" where
  "PullMessages js groups rawUser rawConversation rawFrom rawTo rawLimit rawOrder =
     with_status (andThen (pull_messages groups rawUser rawConversation rawFrom rawTo rawLimit rawOrder)
       (\<lambda>(messages, isEnd, nextSeq). ret (map (messageToPB js) messages, isEnd, nextSeq)))"

fun filterReadableConversationStates ::
  "group_lister \<Rightarrow> string \<Rightarrow> ConversationSeqState list \<Rightarrow> ConversationSeqState list result" where
  "filterReadableConversationStates groups userID [] = Inr []"
| "filterReadableConversationStates groups userID (s # ss) =
     (case ensureConversationReadAccess groups userID (ss_ConversationID s) of
        None \<Rightarrow> map_sum id (\<lambda>r. s # r) (filterReadableConversationStates groups userID ss)
      | Some err \<Rightarrow>
          (case From (Some err) of
             Some (c, _) \<Rightarrow> if c = CodeForbidden \<or> c = CodeNotFound then filterReadableConversationStates groups userID ss else Inl err
           | None \<Rightarrow> Inl err))"

fun normalize_ids :: "group_lister \<Rightarrow> string \<Rightarrow> string list \<Rightarrow> string list result" where
  "normalize_ids groups userID [] = Inr []"
| "normalize_ids groups userID (raw # raws) =
     (case normalizeConversationID raw of
        Inl e \<Rightarrow> Inl e
      | Inr c \<Rightarrow>
          (case ensureConversationReadAccess groups userID c of
             Some e \<Rightarrow> Inl e
           | None \<Rightarrow> map_sum id (\<lambda>cs. c # cs) (normalize_ids groups userID raws)))"

definition GetConversationsSeqState ::
  "group_lister \<Rightarrow> string \<Rightarrow> string list \<Rightarrow> (pg_db, ConversationSeqState list) act" where
  "GetConversationsSeqState groups rawUser rawConversations =
     with_status (
     andThen (lift_result (normalizeMessageRequiredID rawUser ''user_id'')) (\<lambda>userID.
     andThen (lift_result (normalize_ids groups userID rawConversations)) (\<lambda>conversationIDs.
     andThen (loadConversationSeqStates userID conversationIDs) (\<lambda>states.
       if conversationIDs = [] then lift_result (filterReadableConversationStates groups userID states) else ret states))))"

definition read_transaction :: "string \<Rightarrow> string \<Rightarrow> int \<Rightarrow> (pg_db, ConversationSeqState \<times> bool) act" where
  "read_transaction userID conversationID seq0 =
     andThen (LockReadState userID conversationID) (\<lambda>bounds.
       if seq0 > rb_MaxSeq bounds then raise (InvalidArgument ''has_read_seq cannot exceed max_seq'')
       else let seq = (if seq0 < rb_VisibleStartSeq bounds then rb_VisibleStartSeq bounds else seq0);
                updated = (seq > rb_HasReadSeq bounds)
            in andThen (AdvanceLastReadSeq userID conversationID seq) (\<lambda>_.
               andThen (QuerySeqState userID conversationID) (\<lambda>nxt. ret (nxt, updated))))"

definition setHasReadSeqMax :: "string \<Rightarrow> string \<Rightarrow> int \<Rightarrow> (pg_db, ConversationSeqState \<times> bool) act" where
  "setHasReadSeqMax userID conversationID seq =
     andThen (RepairDirect userID conversationID) (\<lambda>_.
       not_found_as ''conversation not found'' (transact (read_transaction userID conversationID seq)))"

definition MarkConversationAsRead ::
  "group_lister \<Rightarrow> string \<Rightarrow> string \<Rightarrow> int \<Rightarrow> (pg_db, ConversationSeqState \<times> bool) act" where
  "MarkConversationAsRead groups rawUser rawConversation hasReadSeq =
     with_status (
     andThen (lift_result (normalizeMessageRequiredID rawUser ''user_id'')) (\<lambda>userID.
     andThen (lift_result (normalizeConversationID rawConversation)) (\<lambda>conversationID.
     andThen (check (ensureConversationReadAccess groups userID conversationID)) (\<lambda>_.
       if hasReadSeq < 0 then raise (InvalidArgument ''has_read_seq must be greater than or equal to 0'')
       else setHasReadSeqMax userID conversationID hasReadSeq))))"

section \<open>Message references\<close>

definition singleChatPeer :: "Messages \<Rightarrow> string \<Rightarrow> string" where
  "singleChatPeer m requester =
     (if requester \<noteq> [] \<and> requester = ReceiverAccountId m then SenderAccountId m else ReceiverAccountId m)"

definition mediaIDFromContent :: "json_lib \<Rightarrow> string \<Rightarrow> string" where
  "mediaIDFromContent js content = (case media_id_decode js content of None \<Rightarrow> [] | Some i \<Rightarrow> TrimSpace i)"

record MessageRef =
  mr_ChatType :: string
  mr_GroupId :: string
  mr_PeerAccountId :: string
  mr_MediaId :: string

definition GetMessageRef :: "json_lib \<Rightarrow> string \<Rightarrow> string \<Rightarrow> (pg_db, MessageRef) act" where
  "GetMessageRef js rawServerMsgID rawRequester =
     with_status (
     case ParseInt (TrimSpace rawServerMsgID) of
       None \<Rightarrow> raise (InvalidArgument ''server_msg_id must be a positive integer'')
     | Some messageID \<Rightarrow>
         if messageID \<le> 0 then raise (InvalidArgument ''server_msg_id must be a positive integer'')
         else andThen (query (\<lambda>db. case find_message db messageID of
                  None \<Rightarrow> Inl (NotFound ''message not found'') | Some m \<Rightarrow> Inr m)) (\<lambda>m.
              ret \<lparr>mr_ChatType = ConversationTypeString (ConversationType m),
                   mr_GroupId = (if ConversationType m = 2 then GroupId m else []),
                   mr_PeerAccountId = (if ConversationType m = 1 then singleChatPeer m (TrimSpace rawRequester) else []),
                   mr_MediaId = mediaIDFromContent js (Content m)\<rparr>))"

section \<open>Administration\<close>

definition GetMaxSeq :: "string \<Rightarrow> (pg_db, int option) act" where
  "GetMaxSeq conversationID = query (\<lambda>db. Inr (map_option ct_MaxSeq (map_of (threads db) conversationID)))"

definition AdminGetConversationMessages ::
  "json_lib \<Rightarrow> string \<Rightarrow> int \<Rightarrow> int \<Rightarrow> int \<Rightarrow> string \<Rightarrow> (pg_db, PbMessage list \<times> bool \<times> int) act" where
  "AdminGetConversationMessages js rawConversation rawFrom rawTo rawLimit rawOrder =
     with_status (
     andThen (lift_result (normalizeConversationID rawConversation)) (\<lambda>conversationID.
     andThen (lift_result (normalizePullRange rawFrom rawTo rawLimit rawOrder)) (\<lambda>(fromSeq, toSeq, limit, order).
     andThen (GetMaxSeq conversationID) (\<lambda>r. case r of
         None \<Rightarrow> ret ([], True, fromSeq)
       | Some maxSeq \<Rightarrow>
           andThen (GetMessagesInRange conversationID fromSeq toSeq maxSeq limit order) (\<lambda>(rows, isEnd, nextSeq).
             ret (map (messageToPB js) rows, isEnd, nextSeq))))))"

record replay_world =
  rw_pg :: pg_db
  rw_log :: broker_log

definition replay_event :: "trace \<Rightarrow> string \<Rightarrow> Messages \<Rightarrow> MessageEvent" where
  "replay_event trace serverMsgID row =
     (let (traceID, requestID, traceParent, traceState) = trace;
          chatType = ConversationTypeString (ConversationType row);
          sendTime = MessageSendTime row;
          visible = VisibleUserIDs (SenderAccountId row) (ReceiverAccountId row) chatType []
      in \<lparr>EventID = ''admin.replay.message.accepted:'' @ serverMsgID,
          EventType = EventTypeMessageAccepted,
          ConversationID = ConversationId row, ServerMsgID = serverMsgID, Seq = MsgSeq row,
          SenderID = SenderAccountId row, ChatType = chatType, CreatedAt = sendTime,
          Payload =
            \<lparr>p_ClientMsgID = ClientMsgId row, p_ReceiverID = ReceiverAccountId row, p_ReceiverIDs = visible,
             p_GroupID = [], p_ContentType = ContentTypeString (ContentType row), p_Content = Content row,
             p_MessageOrigin = MessageOriginString (MessageOrigin row), p_AgentAccountID = AgentAccountId row,
             p_TriggerServerMsgID = TriggerMessageId row, p_AgentRunID = AgentRunId row,
             p_AllowRecursiveTrigger = AllowRecursiveTrigger row, p_UserID = [], p_HasReadSeq = 0, p_ReadAt = 0,
             p_VisibleUserIDs = visible, p_AtUserIDs = [], p_PayloadHash = PayloadHash row, p_SendTime = sendTime,
             p_TraceID = traceID, p_RequestID = requestID, p_TraceParent = traceParent, p_TraceState = traceState\<rparr>\<rparr>)"

definition AdminReplayAgentMessage ::
  "json_lib \<Rightarrow> trace \<Rightarrow> string \<Rightarrow> string \<Rightarrow> (replay_world, string \<times> string \<times> PbMessage) act" where
  "AdminReplayAgentMessage js trace rawConversation rawServerMsgID =
     with_status (
     andThen (lift_result (normalizeConversationID rawConversation)) (\<lambda>conversationID.
       let serverMsgID = TrimSpace rawServerMsgID in
       if serverMsgID = [] then raise (InvalidArgument ''server_msg_id is required'')
       else case ParseInt serverMsgID of
         None \<Rightarrow> raise (InvalidArgument ''server_msg_id must be a numeric message id'')
       | Some messageID \<Rightarrow>
           andThen (call ''query'' (\<lambda>w. (find_message (rw_pg w) messageID, w))) (\<lambda>r. case r of
             None \<Rightarrow> raise (NotFound ''message not found in conversation'')
           | Some row \<Rightarrow>
               if ConversationId row \<noteq> conversationID then raise (NotFound ''message not found in conversation'')
               else if MessageOriginString (MessageOrigin row) \<noteq> MessageOriginHuman
               then raise (InvalidArgument ''only human messages can be replayed for AI triggering'')
               else if ConversationTypeString (ConversationType row) \<noteq> ChatTypeSingle \<or> TrimSpace (ReceiverAccountId row) = []
               then raise (InvalidArgument ''only direct messages to an agent account can be replayed'')
               else if ContentTypeString (ContentType row) \<noteq> ContentTypeText
               then raise (InvalidArgument ''only text messages can be replayed for AI triggering'')
               else (\<lambda>W. case PublishEvent js rw_log_update TopicAgentTrigger (replay_event trace serverMsgID row) W of
                   (Inl _, W') \<Rightarrow> (Inl (Internal ''message queue unavailable''), W')
                 | (Inr _, W') \<Rightarrow> (Inr (conversationID, serverMsgID, messageToPB js row), W')))))"

section \<open>What the queries return\<close>

text \<open>The repair of a direct conversation, as a function on the tables.\<close>

definition repaired :: "string \<Rightarrow> string \<Rightarrow> pg_db \<Rightarrow> pg_db" where
  "repaired userID conversationID db = (case map_of (threads db) conversationID of
         Some t \<Rightarrow> if is_party userID t then repair_state userID conversationID db else db
       | None \<Rightarrow> db)"

lemma RepairDirect_eq: "RepairDirect u c = stmt (\<lambda>db. Inr (repaired u c db))"
  by (simp add: RepairDirect_def repaired_def)

lemma repair_other_tables [simp]:
  "messages (repair_state u c db) = messages db" "threads (repair_state u c db) = threads db"
  "messages (repaired u c db) = messages db" "threads (repaired u c db) = threads db"
  by (auto simp: repaired_def repair_state_def split: option.splits)

lemma map_of_repair_state:
  "map_of (states (repair_state u c db)) = (map_of (states db))((u, c) \<mapsto>
     (case map_of (states db) (u, c) of None \<Rightarrow> \<lparr>us_LastReadSeq = 0, us_VisibleStartSeq = 0\<rparr>
      | Some s \<Rightarrow> s\<lparr>us_VisibleStartSeq := 0\<rparr>))"
  by (auto simp: repair_state_def update_conv' split: option.splits intro!: ext)

lemma repaired_repaired [simp]: "repaired u c (repaired u c db) = repaired u c db"
proof (cases "map_of (threads db) c")
  case (Some t)
  then show ?thesis
  proof (cases "is_party u t")
    case True
    obtain s where s: "map_of (states (repair_state u c db)) (u, c) = Some s" "us_VisibleStartSeq s = 0"
      by (simp add: map_of_repair_state split: option.splits)
    have "repaired u c db = repair_state u c db" using Some True by (simp add: repaired_def)
    moreover have "repair_state u c (repair_state u c db) = repair_state u c db"
      using s by (simp add: repair_state_def [of u c "repair_state u c db"])
    ultimately show ?thesis using Some True by (simp add: repaired_def [of u c "repair_state u c db"])
  qed (simp add: repaired_def)
qed (simp add: repaired_def)

lemma seq_row_ok:
  "seq_row db u c = Inr (st, i) \<Longrightarrow> \<exists>t s. map_of (threads db) c = Some t \<and> map_of (states db) (u, c) = Some s
     \<and> ss_MaxSeq st = ct_MaxSeq t \<and> ss_HasReadSeq st = us_LastReadSeq s \<and> ss_ConversationID st = c
     \<and> ss_UnreadCount st = unreadCountFromVisibleStart (ct_MaxSeq t) (us_LastReadSeq s) (us_VisibleStartSeq s)"
  by (auto simp: seq_row_def split: option.splits)

lemma fetchMessageByID_okD: "fetchMessageByID i (db, fs) = (Inr m, (db', fs')) \<Longrightarrow> db' = db"
  unfolding fetchMessageByID_def by (drule query_okD) simp

lemma QuerySeqState_okD:
  "QuerySeqState u c (db, fs) = (Inr st, (db', fs')) \<Longrightarrow>
     db' = db \<and> (\<exists>t s. map_of (threads db) c = Some t \<and> map_of (states db) (u, c) = Some s
       \<and> ss_MaxSeq st = ct_MaxSeq t \<and> ss_HasReadSeq st = us_LastReadSeq s \<and> ss_ConversationID st = c
       \<and> ss_UnreadCount st = unreadCountFromVisibleStart (ct_MaxSeq t) (us_LastReadSeq s) (us_VisibleStartSeq s))"
  unfolding QuerySeqState_def
  by (auto simp: runs split: if_splits dest!: query_okD fetchMessageByID_okD seq_row_ok)

text \<open>The part of a conversation that a reader may see, in a range of sequence numbers, oldest first.\<close>

definition readable :: "pg_db \<Rightarrow> string \<Rightarrow> string \<Rightarrow> int \<Rightarrow> int \<Rightarrow> Messages list" where
  "readable db userID conversationID fromSeq toSeq =
     (case (map_of (threads db) conversationID, map_of (states db) (userID, conversationID)) of
        (Some t, Some s) \<Rightarrow> sort_key MsgSeq (filter (\<lambda>m. ConversationId m = conversationID
            \<and> us_VisibleStartSeq s < MsgSeq m \<and> MsgSeq m \<le> ct_MaxSeq t
            \<and> fromSeq \<le> MsgSeq m \<and> (toSeq \<le> 0 \<or> MsgSeq m \<le> toSeq)) (messages db))
      | _ \<Rightarrow> [])"

lemma take_Suc_decides:
  "0 \<le> l \<Longrightarrow> (int (length (take (nat (l + 1)) xs)) \<le> l) = (int (length xs) \<le> l)
     \<and> take (nat l) (take (nat (l + 1)) xs) = take (nat l) xs
     \<and> (int (length xs) \<le> l \<longrightarrow> take (nat (l + 1)) xs = take (nat l) xs)"
  by (auto simp: min_def)

lemma page_eq:
  "0 \<le> l \<Longrightarrow> page ord l fr h =
     (let rows = take (nat l) (if ord = OrderDesc then rev h else h)
      in (rows, int (length h) \<le> l,
          if rows = [] then fr else if ord = OrderDesc then MsgSeq (last rows) - 1 else MsgSeq (last rows) + 1))"
  using take_Suc_decides [of l h] take_Suc_decides [of l "rev h"]
  by (cases "int (length h) \<le> l"; cases "ord = OrderDesc") (simp_all only: page_def Let_def if_True if_False length_rev simp_thms)

lemma GetMessagesInRange_okD:
  assumes "GetMessagesInRange c fr to mx l ord (db, fs) = (Inr r, (db', fs'))"
    and "0 \<le> l" "1 \<le> fr" "ord = OrderAsc \<or> ord = OrderDesc" "0 < to \<and> to \<le> mx \<or> to = mx"
    and h: "h = sort_key MsgSeq (filter (\<lambda>m. ConversationId m = c \<and> fr \<le> MsgSeq m \<and> MsgSeq m \<le> to) (messages db))"
  shows "db' = db \<and> r = page ord l fr h"
proof -
  have to: "(if to \<le> 0 \<or> to > mx then mx else to) = to" using assms(5) by auto
  have ord: "(if ord \<noteq> OrderAsc \<and> ord \<noteq> OrderDesc then OrderAsc else ord) = ord" using assms(4) by auto
  show ?thesis
  proof (cases "fr > to")
    case True
    then have "h = []" using h by (auto simp: filter_empty_conv)
    with assms(1,2) True show ?thesis
      unfolding GetMessagesInRange_def to ord by (simp add: runs page_eq)
  next
    case False
    then have "mx \<noteq> 0" using assms(3,5) by auto
    with assms(1) False have "query (\<lambda>db. Inr (page ord l fr (sort_key MsgSeq (filter (\<lambda>m.
        ConversationId m = c \<and> fr \<le> MsgSeq m \<and> MsgSeq m \<le> to) (messages db))))) (db, fs) = (Inr r, (db', fs'))"
      unfolding GetMessagesInRange_def to ord Let_def by simp
    from query_okD [OF this] h show ?thesis by simp
  qed
qed

lemma normalizePullRange_okD:
  "normalizePullRange from0 to0 l0 o0 = Inr (from, to, l, ord) \<Longrightarrow>
     1 \<le> from \<and> from = max 1 from0 \<and> 0 \<le> from0 \<and> to = to0 \<and> 0 \<le> to \<and> 1 \<le> l \<and> l \<le> 500
     \<and> l = (if l0 = 0 then 50 else min l0 500) \<and> (ord = OrderAsc \<or> ord = OrderDesc)
     \<and> (ord = OrderDesc \<longleftrightarrow> ToLower (TrimSpace o0) = OrderDesc)"
  by (auto simp: normalizePullRange_def Let_def OrderAsc_def OrderDesc_def split: if_splits)

lemma load_one_okD:
  assumes "loadConversationSeqStates u [c] (db, fs) = (Inr ss, (db', fs'))"
  shows "db' = repaired u c db \<and> (\<exists>st t. ss = [st] \<and> map_of (threads db) c = Some t \<and> ss_MaxSeq st = ct_MaxSeq t)"
  using assms
  by (auto simp: loadConversationSeqStates_def runs RepairDirect_eq dest!: stmt_okD QuerySeqState_okD)

lemma loadMessagesForUser_okD:
  assumes "loadMessagesForUser u c fr to l ord (db, fs) = (Inr r, (db', fs'))"
    and l: "0 \<le> l" and fr: "1 \<le> fr" and ord: "ord = OrderAsc \<or> ord = OrderDesc"
  shows "db' = repaired u c db \<and> map_of (states db') (u, c) \<noteq> None
    \<and> (\<exists>fr'. r = page ord l fr' (readable db' u c fr to))"
proof -
  let ?db = "repaired u c db"
  obtain b fs1 where b: "map_sum id (\<lambda>b. b\<lparr>rb_HasReadSeq := 0\<rparr>) (read_bounds ?db u c) = Inr b"
    and g: "GetMessagesInRange c (if fr \<le> rb_VisibleStartSeq b then rb_VisibleStartSeq b + 1 else fr)
       (if to \<le> 0 \<or> to > rb_MaxSeq b then rb_MaxSeq b else to) (rb_MaxSeq b) l ord (?db, fs1) = (Inr r, (db', fs'))"
    using assms(1) unfolding loadMessagesForUser_def UserScopedBounds_def RepairDirect_eq Let_def
    by (auto simp: runs dest!: stmt_okD query_okD)
  then obtain t s where t: "map_of (threads ?db) c = Some t" and s: "map_of (states ?db) (u, c) = Some s"
    and bs: "rb_MaxSeq b = ct_MaxSeq t" "rb_VisibleStartSeq b = us_VisibleStartSeq s"
    by (auto simp: read_bounds_def split: option.splits)
  let ?fr = "if fr \<le> us_VisibleStartSeq s then us_VisibleStartSeq s + 1 else fr"
  let ?to = "if to \<le> 0 \<or> to > ct_MaxSeq t then ct_MaxSeq t else to"
  have h: "readable ?db u c fr to
      = sort_key MsgSeq (filter (\<lambda>m. ConversationId m = c \<and> ?fr \<le> MsgSeq m \<and> MsgSeq m \<le> ?to) (messages ?db))"
    unfolding readable_def t s option.case prod.case
    by (rule arg_cong [where f = "sort_key MsgSeq"], rule filter_cong) auto
  have "db' = ?db \<and> r = page ord l ?fr (readable ?db u c fr to)"
    by (rule GetMessagesInRange_okD [OF g [unfolded bs] l _ ord _ h]) (use fr in auto)
  then show ?thesis using s by auto
qed

lemma pull_messages_okD:
  assumes "pull_messages groups u0 c0 f0 t0 l0 o0 (db, fs) = (Inr r, (db', fs'))"
  obtains u c fr l ord fr' where "normalizeMessageRequiredID u0 ''user_id'' = Inr u" "normalizeConversationID c0 = Inr c"
    "ensureConversationReadAccess groups u c = None" "normalizePullRange f0 t0 l0 o0 = Inr (fr, t0, l, ord)"
    "db' = repaired u c db" "map_of (states db') (u, c) \<noteq> None" "map_of (threads db) c \<noteq> None"
    "r = page ord l fr' (readable db' u c fr t0)"
proof -
  from assms obtain u c fr to l ord ss db1 fs1 where
      n: "normalizeMessageRequiredID u0 ''user_id'' = Inr u" "normalizeConversationID c0 = Inr c"
    and a: "ensureConversationReadAccess groups u c = None" and p: "normalizePullRange f0 t0 l0 o0 = Inr (fr, to, l, ord)"
    and ld: "loadConversationSeqStates u [c] (db, fs) = (Inr ss, (db1, fs1))"
    and m: "loadMessagesForUser u c fr (case ss of [s] \<Rightarrow> if to = 0 \<or> to > ss_MaxSeq s then ss_MaxSeq s else to | _ \<Rightarrow> to)
        l ord (db1, fs1) = (Inr r, (db', fs'))"
    unfolding pull_messages_def Let_def by (auto simp: runs)
  note q = normalizePullRange_okD [OF p]
  from load_one_okD [OF ld] obtain st t where db1: "db1 = repaired u c db" and ss: "ss = [st]"
    and t: "map_of (threads db) c = Some t" "ss_MaxSeq st = ct_MaxSeq t" by blast
  let ?to = "if to = 0 \<or> to > ct_MaxSeq t then ct_MaxSeq t else to"
  have "1 \<le> fr" "0 \<le> l" "ord = OrderAsc \<or> ord = OrderDesc" using q by auto
  from loadMessagesForUser_okD [OF m this(2,1,3)] obtain fr' where
      db': "db' = repaired u c db" "map_of (states db') (u, c) \<noteq> None" and r: "r = page ord l fr' (readable db' u c fr ?to)"
    unfolding ss t(2) list.case db1 repaired_repaired by blast
  moreover have "readable db' u c fr ?to = readable db' u c fr to"
    unfolding readable_def using q t(1)
    by (auto simp: db' split: option.split intro!: arg_cong [where f = "sort_key MsgSeq"] filter_cong)
  ultimately show ?thesis using that [OF n a _ db'] p q t by auto
qed

lemma readable_mem:
  "m \<in> set (readable db u c fr to) \<Longrightarrow> \<exists>t s. map_of (threads db) c = Some t \<and> map_of (states db) (u, c) = Some s
     \<and> m \<in> set (messages db) \<and> ConversationId m = c \<and> us_VisibleStartSeq s < MsgSeq m \<and> MsgSeq m \<le> ct_MaxSeq t
     \<and> fr \<le> MsgSeq m \<and> (to \<le> 0 \<or> MsgSeq m \<le> to)"
  by (cases "map_of (threads db) c"; cases "map_of (states db) (u, c)") (auto simp: readable_def)

lemma readable_sorted: "sorted (map MsgSeq (readable db u c fr to))"
  by (auto simp: readable_def split: option.splits)

lemma readable_distinct: "pg_keys db \<Longrightarrow> distinct (map MsgSeq (readable db u c fr to))"
proof -
  assume "pg_keys db"
  then have d: "distinct (map (\<lambda>m. (ConversationId m, MsgSeq m)) (messages db))" by (simp add: pg_keys_def)
  have "distinct (map MsgSeq (sort_key MsgSeq (filter (\<lambda>m. ConversationId m = c \<and> Q m) (messages db))))" for Q
    using d by (auto simp: distinct_map inj_on_def)
  then show ?thesis by (auto simp only: readable_def list.map distinct.simps split: option.split)
qed

lemma readable_later: "fr \<le> fr' \<Longrightarrow> readable db u c fr' to = filter (\<lambda>m. fr' \<le> MsgSeq m) (readable db u c fr to)"
  by (auto simp: readable_def filter_sort split: option.split intro!: arg_cong [where f = "sort_key MsgSeq"] filter_cong)

lemma after_page:
  assumes "sorted (map f h)" "distinct (map f h)" "take n h \<noteq> []"
  shows "filter (\<lambda>x. f (last (take n h)) + (1 :: int) \<le> f x) h = drop n h"
proof -
  let ?a = "take n h" and ?b = "drop n h"
  have h: "map f h = map f ?a @ map f ?b" by (metis append_take_drop_id map_append)
  have "f x \<le> f (last ?a)" if "x \<in> set ?a" for x
  proof -
    have "sorted (map f ?a)" using assms(1) by (metis h sorted_append)
    moreover have "map f ?a = map f (butlast ?a) @ [f (last ?a)]"
      using assms(3) by (metis append_butlast_last_id list.simps(8,9) map_append)
    moreover have "x \<in> set (butlast ?a) \<or> x = last ?a"
      using that assms(3) by (metis append_butlast_last_id in_set_butlastD set_ConsD split_list_last Un_iff set_append empty_iff list.set(1))
    ultimately show ?thesis by (auto simp: sorted_append)
  qed
  then have a: "filter (\<lambda>x. f (last ?a) + 1 \<le> f x) ?a = []" by (force simp: filter_empty_conv)
  have "f (last ?a) < f y" if "y \<in> set ?b" for y
  proof -
    have "f (last ?a) \<le> f y" using assms(1,3) that unfolding h sorted_append by (metis image_eqI last_in_set set_map)
    moreover have "f (last ?a) \<noteq> f y"
      using assms(2,3) that unfolding h distinct_append by (metis disjoint_iff image_eqI last_in_set set_map)
    ultimately show ?thesis by simp
  qed
  then have "filter (\<lambda>x. f (last ?a) + 1 \<le> f x) ?b = ?b" by (force simp: filter_id_conv)
  with a show ?thesis by (metis append_Nil append_take_drop_id filter_append)
qed

section \<open>Pulling history\<close>

lemma length_take_le: "length (take n xs) \<le> n"
  by simp

lemma asc_not_desc: "ToLower (TrimSpace ''asc'') \<noteq> OrderDesc"
  by code_simp

lemma PullMessages_okD:
  assumes "PullMessages js groups u0 c0 f0 t0 l0 o0 (db, fs) = (Inr (ms, isEnd, nxt), (db', fs'))"
  obtains u c fr l ord fr' rows where "normalizeMessageRequiredID u0 ''user_id'' = Inr u" "normalizeConversationID c0 = Inr c"
    "ensureConversationReadAccess groups u c = None" "normalizePullRange f0 t0 l0 o0 = Inr (fr, t0, l, ord)"
    "db' = repaired u c db" "map_of (states db') (u, c) \<noteq> None" "map_of (threads db) c \<noteq> None"
    "ms = map (messageToPB js) rows" "(rows, isEnd, nxt) = page ord l fr' (readable db' u c fr t0)"
proof -
  from assms obtain rows where p: "pull_messages groups u0 c0 f0 t0 l0 o0 (db, fs) = (Inr (rows, isEnd, nxt), (db', fs'))"
    and ms: "ms = map (messageToPB js) rows"
    unfolding PullMessages_def by (auto simp: runs)
  show ?thesis by (rule pull_messages_okD [OF p]) (use ms that in blast)
qed

text \<open>
  C6: a successful pull was made by an account that may read the conversation, and returns, in the
  order of sequence numbers it asked for, at most 500 archived messages of that
  conversation, all in the asked range, after the point where the account's history starts and up to
  the thread's highest number. It changes no message and no thread, and of the states only where a
  direct conversation becomes visible.
\<close>

theorem pull_respects_visibility:
  assumes "PullMessages js groups u0 c0 f0 t0 l0 o0 (db, fs) = (Inr (ms, isEnd, nxt), (db', fs'))"
  shows "\<exists>u c rows t s. normalizeMessageRequiredID u0 ''user_id'' = Inr u \<and> normalizeConversationID c0 = Inr c
    \<and> ensureConversationReadAccess groups u c = None
    \<and> ms = map (messageToPB js) rows \<and> length rows \<le> 500
    \<and> sorted (map MsgSeq (if ToLower (TrimSpace o0) = OrderDesc then rev rows else rows))
    \<and> map_of (threads db) c = Some t \<and> map_of (states db') (u, c) = Some s
    \<and> (\<forall>m\<in>set rows. m \<in> set (messages db) \<and> ConversationId m = c \<and> us_VisibleStartSeq s < MsgSeq m
         \<and> MsgSeq m \<le> ct_MaxSeq t \<and> f0 \<le> MsgSeq m \<and> (t0 = 0 \<or> MsgSeq m \<le> t0))
    \<and> messages db' = messages db \<and> threads db' = threads db
    \<and> (\<forall>k. k \<noteq> (u, c) \<longrightarrow> map_of (states db') k = map_of (states db) k)"
  using assms
proof (rule PullMessages_okD)
  fix u c fr l ord fr' rows
  assume n: "normalizeMessageRequiredID u0 ''user_id'' = Inr u" "normalizeConversationID c0 = Inr c"
    "ensureConversationReadAccess groups u c = None" and p: "normalizePullRange f0 t0 l0 o0 = Inr (fr, t0, l, ord)"
    and db': "db' = repaired u c db" and "map_of (states db') (u, c) \<noteq> None" "map_of (threads db) c \<noteq> None"
    and ms: "ms = map (messageToPB js) rows" and pg: "(rows, isEnd, nxt) = page ord l fr' (readable db' u c fr t0)"
  then obtain s t where st: "map_of (states db') (u, c) = Some s" "map_of (threads db) c = Some t" by auto
  note q = normalizePullRange_okD [OF p]
  let ?h = "readable db' u c fr t0"
  have rows: "rows = take (nat l) (if ord = OrderDesc then rev ?h else ?h)"
    using pg q by (simp add: page_eq Let_def)
  have "sorted (map MsgSeq (if ord = OrderDesc then rev rows else rows))"
  proof (cases "ord = OrderDesc")
    case True
    then have "rev rows = drop (length ?h - nat l) ?h" by (simp add: rows rev_take)
    then show ?thesis using True readable_sorted [of db' u c fr t0] by (simp add: drop_map [symmetric] sorted_wrt_drop)
  next
    case False
    then show ?thesis using readable_sorted [of db' u c fr t0] by (simp add: rows take_map [symmetric] sorted_wrt_take)
  qed
  then have "sorted (map MsgSeq (if ToLower (TrimSpace o0) = OrderDesc then rev rows else rows))" using q by simp
  moreover have "nat l \<le> 500" using q by linarith
  then have "length rows \<le> 500" using length_take_le [of "nat l"] unfolding rows by (rule order_trans [rotated])
  moreover have "set rows \<subseteq> set ?h" unfolding rows using set_take_subset [of "nat l" ?h] set_take_subset [of "nat l" "rev ?h"] by simp
  then have "\<forall>m\<in>set rows. m \<in> set (messages db) \<and> ConversationId m = c \<and> us_VisibleStartSeq s < MsgSeq m
      \<and> MsgSeq m \<le> ct_MaxSeq t \<and> f0 \<le> MsgSeq m \<and> (t0 = 0 \<or> MsgSeq m \<le> t0)"
  proof (intro ballI)
    fix m assume "m \<in> set rows"
    then have "m \<in> set ?h" using \<open>set rows \<subseteq> set ?h\<close> by blast
    moreover have "f0 \<le> fr" "0 \<le> t0" using q by simp_all
    ultimately show "m \<in> set (messages db) \<and> ConversationId m = c \<and> us_VisibleStartSeq s < MsgSeq m
      \<and> MsgSeq m \<le> ct_MaxSeq t \<and> f0 \<le> MsgSeq m \<and> (t0 = 0 \<or> MsgSeq m \<le> t0)"
      using st readable_mem [of m db' u c fr t0] by (auto simp: db')
  qed
  moreover have "\<forall>k. k \<noteq> (u, c) \<longrightarrow> map_of (states db') k = map_of (states db) k"
    by (auto simp: db' repaired_def map_of_repair_state split: option.splits)
  ultimately show ?thesis using n ms st
    by - (rule exI [of _ u], rule exI [of _ c], rule exI [of _ rows], rule exI [of _ t], rule exI [of _ s],
      simp add: db')
qed

definition demo_row :: "int \<Rightarrow> int \<Rightarrow> Messages" where
  "demo_row i n =
     \<lparr>MessageId = i, ClientMsgId = FormatInt i, SenderAccountId = ''1'', ConversationId = ''single:1:2'', MsgSeq = n,
      ConversationType = 1, ReceiverAccountId = ''2'', GroupId = [], ContentType = 1, Content = ''x'', MessageOrigin = 1,
      AgentAccountId = [], TriggerMessageId = [], AgentRunId = [], AllowRecursiveTrigger = False, PayloadHash = [],
      ClientSendTime = Some i, ServerReceivedAt = i\<rparr>"

definition demo_history :: pg_db where
  "demo_history =
     \<lparr>threads = [(''single:1:2'', \<lparr>ct_ConversationType = 1, ct_SingleAccountA = ''1'', ct_SingleAccountB = ''2'', ct_GroupId = [],
        ct_MaxSeq = 3, ct_LastMessageId = ''13'', ct_LastMessageAt = Some 13\<rparr>)],
      messages = [demo_row 11 1, demo_row 12 2, demo_row 13 3],
      states = [((''1'', ''single:1:2''), \<lparr>us_LastReadSeq = 3, us_VisibleStartSeq = 0\<rparr>)]\<rparr>"

lemma demo_pulls:
  "map_sum id (\<lambda>(ms, isEnd, nxt). (map pb_Seq ms, isEnd, nxt)) (fst (PullMessages demo_json None ''2'' ''single:1:2'' 0 0 2 [] (demo_history, [])))
     = Inr ([1, 2], False, 3)"
  by code_simp

lemma demo_pulled:
  "\<exists>ms db'. PullMessages demo_json None ''2'' ''single:1:2'' 0 0 2 [] (demo_history, []) = (Inr (ms, False, 3), (db', []))
     \<and> map pb_Seq ms = [1, 2]"
proof -
  have "snd (snd (PullMessages demo_json None ''2'' ''single:1:2'' 0 0 2 [] (demo_history, []))) = []" by code_simp
  with demo_pulls show ?thesis
    by (cases "PullMessages demo_json None ''2'' ''single:1:2'' 0 0 2 [] (demo_history, [])"; cases "fst (PullMessages demo_json None ''2'' ''single:1:2'' 0 0 2 [] (demo_history, []))")
      auto
qed

theorem pull_respects_visibility_witness:
  "\<exists>ms db'. PullMessages demo_json None ''2'' ''single:1:2'' 0 0 2 [] (demo_history, []) = (Inr (ms, False, 3), (db', []))
     \<and> length ms = 2 \<and> messages db' = messages demo_history"
proof -
  obtain ms db' where d: "PullMessages demo_json None ''2'' ''single:1:2'' 0 0 2 [] (demo_history, []) = (Inr (ms, False, 3), (db', []))"
    "map pb_Seq ms = [1, 2]" by (rule exE [OF demo_pulled], elim exE conjE)
  moreover have "length ms = 2" using d(2) by (metis length_map length_Cons list.size(3) numeral_2_eq_2)
  ultimately show ?thesis using pull_respects_visibility [OF d(1)] by blast
qed



section \<open>Read positions\<close>

lemma map_of_advance_read:
  "map_of (states db) (u, c) = Some s \<Longrightarrow> map_of (states (advance_read u c n db)) = (map_of (states db))((u, c) \<mapsto>
     s\<lparr>us_LastReadSeq := max (us_LastReadSeq s) (max n (us_VisibleStartSeq s))\<rparr>)"
  by (simp add: advance_read_def update_conv')

lemma advance_other_tables [simp]:
  "messages (advance_read u c n db) = messages db" "threads (advance_read u c n db) = threads db"
  by (auto simp: advance_read_def split: option.splits)

lemma read_transaction_okD:
  assumes "read_transaction u c n (db, fs) = (Inr (st, updated), (db', fs'))"
  obtains t s where "map_of (threads db) c = Some t" "map_of (states db) (u, c) = Some s" "n \<le> ct_MaxSeq t"
    "db' = advance_read u c (max n (us_VisibleStartSeq s)) db" "updated \<longleftrightarrow> us_LastReadSeq s < max n (us_VisibleStartSeq s)"
    "ss_MaxSeq st = ct_MaxSeq t" "ss_HasReadSeq st = max (us_LastReadSeq s) (max n (us_VisibleStartSeq s))"
    "ss_UnreadCount st = unreadCountFromVisibleStart (ct_MaxSeq t) (ss_HasReadSeq st) (us_VisibleStartSeq s)"
proof -
  from assms obtain b db1 fs1 db2 fs2 where b: "read_bounds db u c = Inr b" and n: "n \<le> rb_MaxSeq b"
    and u: "updated \<longleftrightarrow> rb_HasReadSeq b < (if n < rb_VisibleStartSeq b then rb_VisibleStartSeq b else n)"
    and a: "AdvanceLastReadSeq u c (if n < rb_VisibleStartSeq b then rb_VisibleStartSeq b else n) (db, fs1) = (Inr (), (db1, fs2))"
    and q: "QuerySeqState u c (db1, fs2) = (Inr st, (db', fs'))"
    unfolding read_transaction_def LockReadState_def Let_def by (auto simp: runs split: if_splits dest!: query_okD)
  from b obtain t s where ts: "map_of (threads db) c = Some t" "map_of (states db) (u, c) = Some s"
    and bs: "rb_HasReadSeq b = us_LastReadSeq s" "rb_MaxSeq b = ct_MaxSeq t" "rb_VisibleStartSeq b = us_VisibleStartSeq s"
    by (auto simp: read_bounds_def split: option.splits)
  have mx: "(if n < us_VisibleStartSeq s then us_VisibleStartSeq s else n) = max n (us_VisibleStartSeq s)" by auto
  have db1: "db1 = advance_read u c (max n (us_VisibleStartSeq s)) db"
    using a unfolding AdvanceLastReadSeq_def bs mx by (auto dest!: stmt_okD)
  show ?thesis
    using that [OF ts] n u QuerySeqState_okD [OF q] ts(1) unfolding bs mx db1
    by (simp add: map_of_advance_read [OF ts(2)] max.assoc [symmetric])
qed

text \<open>
  C8: marking a conversation as read succeeds only for an account that may read it and for a number
  between 0 and the highest of the conversation. Then the read position becomes the larger of the old
  one, the number, and the start of the account's history; \<^verbatim>\<open>updated\<close> says whether it moved; the
  returned unread count is what is left above it; and nothing else changes.
\<close>

theorem mark_read_effect:
  assumes "MarkConversationAsRead groups u0 c0 n (db, fs) = (Inr (st, updated), (db', fs'))"
  shows "\<exists>u c t s s'. normalizeMessageRequiredID u0 ''user_id'' = Inr u \<and> normalizeConversationID c0 = Inr c
    \<and> ensureConversationReadAccess groups u c = None
    \<and> map_of (threads db) c = Some t \<and> 0 \<le> n \<and> n \<le> ct_MaxSeq t
    \<and> map_of (states (repaired u c db)) (u, c) = Some s \<and> map_of (states db') (u, c) = Some s'
    \<and> us_VisibleStartSeq s' = us_VisibleStartSeq s
    \<and> us_LastReadSeq s' = max (us_LastReadSeq s) (max n (us_VisibleStartSeq s))
    \<and> (updated \<longleftrightarrow> us_LastReadSeq s < us_LastReadSeq s')
    \<and> ss_HasReadSeq st = us_LastReadSeq s' \<and> ss_UnreadCount st = max 0 (ct_MaxSeq t - us_LastReadSeq s')
    \<and> messages db' = messages db \<and> threads db' = threads db
    \<and> (\<forall>k. k \<noteq> (u, c) \<longrightarrow> map_of (states db') k = map_of (states db) k)"
proof -
  from assms obtain u c fs1 fs2 where n: "normalizeMessageRequiredID u0 ''user_id'' = Inr u" "normalizeConversationID c0 = Inr c"
      "ensureConversationReadAccess groups u c = None" "0 \<le> n"
    and r: "read_transaction u c n (repaired u c db, fs1) = (Inr (st, updated), (db', fs2))"
    unfolding MarkConversationAsRead_def setHasReadSeqMax_def RepairDirect_eq
    by (auto simp: runs split: if_splits dest!: stmt_okD transact_okD)
  obtain t s where ts: "map_of (threads (repaired u c db)) c = Some t" "map_of (states (repaired u c db)) (u, c) = Some s"
    and d: "n \<le> ct_MaxSeq t" "db' = advance_read u c (max n (us_VisibleStartSeq s)) (repaired u c db)"
      "updated \<longleftrightarrow> us_LastReadSeq s < max n (us_VisibleStartSeq s)"
      "ss_HasReadSeq st = max (us_LastReadSeq s) (max n (us_VisibleStartSeq s))"
      "ss_UnreadCount st = unreadCountFromVisibleStart (ct_MaxSeq t) (ss_HasReadSeq st) (us_VisibleStartSeq s)"
    by (rule read_transaction_okD [OF r])
  let ?s' = "s\<lparr>us_LastReadSeq := max (us_LastReadSeq s) (max n (us_VisibleStartSeq s))\<rparr>"
  have s': "map_of (states db') = (map_of (states (repaired u c db)))((u, c) \<mapsto> ?s')"
    using map_of_advance_read [OF ts(2), of "max n (us_VisibleStartSeq s)"] by (simp add: d(2) max.assoc [symmetric])
  have "\<forall>k. k \<noteq> (u, c) \<longrightarrow> map_of (states db') k = map_of (states db) k"
    unfolding s' by (auto simp: repaired_def map_of_repair_state split: option.splits)
  moreover have "ss_UnreadCount st = max 0 (ct_MaxSeq t - ss_HasReadSeq st)"
    unfolding d(5) d(4) by (auto simp: unreadCountFromVisibleStart_def Let_def)
  ultimately show ?thesis
    using n ts d(1,3,4)
    by - (rule exI [of _ u], rule exI [of _ c], rule exI [of _ t], rule exI [of _ s], rule exI [of _ ?s'],
      simp add: s' d(2) [THEN arg_cong [of _ _ messages]] d(2) [THEN arg_cong [of _ _ threads]] less_max_iff_disj)
qed

lemma demo_marked:
  "\<exists>st db'. MarkConversationAsRead None ''2'' ''single:1:2'' 2 (demo_history, []) = (Inr (st, True), (db', [])) \<and> ss_UnreadCount st = 1"
proof -
  let ?m = "MarkConversationAsRead None ''2'' ''single:1:2'' 2 (demo_history, [])"
  have "map_sum id (\<lambda>(st, up). (ss_UnreadCount st, up)) (fst ?m) = Inr (1, True)" "snd (snd ?m) = []" by code_simp+
  then show ?thesis by (cases "fst ?m"; cases ?m) auto
qed

theorem mark_read_effect_witness:
  "\<exists>st db'. MarkConversationAsRead None ''2'' ''single:1:2'' 2 (demo_history, []) = (Inr (st, True), (db', []))
     \<and> ss_UnreadCount st = 1 \<and> messages db' = messages demo_history"
proof -
  obtain st db' where d: "MarkConversationAsRead None ''2'' ''single:1:2'' 2 (demo_history, []) = (Inr (st, True), (db', []))"
    "ss_UnreadCount st = 1" by (rule exE [OF demo_marked], elim exE conjE)
  then show ?thesis using mark_read_effect [OF d(1)] by blast
qed

section \<open>Read positions stay within their threads\<close>

definition read_inv :: "pg_db \<Rightarrow> bool" where
  "read_inv db \<longleftrightarrow>
     (\<forall>c t. map_of (threads db) c = Some t \<longrightarrow> 0 \<le> ct_MaxSeq t)
     \<and> (\<forall>u c s. map_of (states db) (u, c) = Some s \<longrightarrow> (\<exists>t. map_of (threads db) c = Some t
          \<and> us_VisibleStartSeq s \<le> ct_MaxSeq t \<and> us_LastReadSeq s \<le> ct_MaxSeq t))"

lemma read_invD:
  "read_inv db \<Longrightarrow> map_of (states db) (u, c) = Some s \<Longrightarrow> map_of (threads db) c = Some t \<Longrightarrow>
     0 \<le> ct_MaxSeq t \<and> us_VisibleStartSeq s \<le> ct_MaxSeq t \<and> us_LastReadSeq s \<le> ct_MaxSeq t"
  unfolding read_inv_def by fastforce

lemma read_inv_put:
  "read_inv db \<Longrightarrow> threads db' = threads db \<Longrightarrow> map_of (states db') = (map_of (states db))((u, c) \<mapsto> s) \<Longrightarrow>
     map_of (threads db) c = Some t \<Longrightarrow> us_VisibleStartSeq s \<le> ct_MaxSeq t \<Longrightarrow> us_LastReadSeq s \<le> ct_MaxSeq t \<Longrightarrow> read_inv db'"
  unfolding read_inv_def by auto

lemma read_inv_repair_state:
  assumes "read_inv db" "map_of (threads db) c \<noteq> None"
  shows "read_inv (repair_state u c db)"
proof -
  obtain t where t: "map_of (threads db) c = Some t" using assms(2) by blast
  then have "0 \<le> ct_MaxSeq t" using assms(1) by (auto simp: read_inv_def)
  then show ?thesis
    using assms(1) t read_invD [OF assms(1) _ t]
    by (intro read_inv_put [OF assms(1) _ map_of_repair_state t]) (auto split: option.split)
qed

lemma keeps_RepairDirect: "keeps read_inv (RepairDirect u c)"
  unfolding RepairDirect_eq
  by (rule keeps_stmt) (auto simp: repaired_def read_inv_repair_state split: option.splits)

lemma keeps_RepairAllDirect: "keeps read_inv (RepairAllDirect u)"
proof -
  have "read_inv (fold (\<lambda>(c, t) db. if is_party u t then repair_state u c db else db) cs db)"
    if "read_inv db" "\<forall>c\<in>fst ` set cs. map_of (threads db) c \<noteq> None" for cs db
    using that
  proof (induction cs arbitrary: db)
    case (Cons x cs)
    obtain c t where x: "x = (c, t)" by (cases x)
    show ?case using Cons by (simp add: x read_inv_repair_state)
  qed simp
  then show ?thesis
    unfolding RepairAllDirect_def by (intro keeps_stmt) (auto simp: map_of_eq_None_iff)
qed

lemma keeps_loading:
  "keeps read_inv (QuerySeqState u c)" "keeps read_inv (load_states b u cs)" "keeps read_inv (loadConversationSeqStates u cs)"
  "keeps read_inv (loadMessagesForUser u c fr to l ord)"
proof -
  show Q: "keeps read_inv (QuerySeqState u c)" for c
    unfolding QuerySeqState_def fetchMessageByID_def by (intro keeps_intros) (auto intro!: keeps_intros split: prod.splits)
  show L: "keeps read_inv (load_states b u cs)" for b cs
    by (induction cs) (auto intro!: keeps_intros keeps_RepairDirect Q)
  show "keeps read_inv (loadConversationSeqStates u cs)"
    unfolding loadConversationSeqStates_def ListConversationIDs_def
    by (auto intro!: keeps_intros keeps_RepairAllDirect L)
  show "keeps read_inv (loadMessagesForUser u c fr to l ord)"
    unfolding loadMessagesForUser_def UserScopedBounds_def GetMessagesInRange_def Let_def
    by (auto intro!: keeps_intros keeps_RepairDirect)
qed

lemma keeps_setHasReadSeqMax: "keeps read_inv (setHasReadSeqMax u c n)"
proof -
  have "keeps read_inv (transact (read_transaction u c n))"
  proof (rule keeps_transact_okD)
    fix db fs x db' fs'
    assume I: "read_inv db" and r: "read_transaction u c n (db, fs) = (Inr x, (db', fs'))"
    obtain st updated where x: "x = (st, updated)" by (cases x)
    obtain t s where ts: "map_of (threads db) c = Some t" "map_of (states db) (u, c) = Some s"
      and n: "n \<le> ct_MaxSeq t" and db': "db' = advance_read u c (max n (us_VisibleStartSeq s)) db"
      by (rule read_transaction_okD [OF r [unfolded x]])
    show "read_inv db'"
      using n read_invD [OF I ts(2,1)] unfolding db'
      by (intro read_inv_put [OF I _ map_of_advance_read [OF ts(2)] ts(1)]) auto
  qed
  then show ?thesis unfolding setHasReadSeqMax_def by (intro keeps_intros keeps_RepairDirect)
qed

text \<open>
  While a batch of the conversation \<open>c\<close> is written its positions may run ahead of the thread, up to
  the number \<open>n\<close> of the batch's last message, to which the thread is raised at the end.
\<close>

definition cap :: "string \<Rightarrow> int \<Rightarrow> string \<Rightarrow> ConversationThreads \<Rightarrow> int" where
  "cap c n c' t = (if c' = c then max n (ct_MaxSeq t) else ct_MaxSeq t)"

definition ahead :: "string \<Rightarrow> int \<Rightarrow> pg_db \<Rightarrow> bool" where
  "ahead c n db \<longleftrightarrow>
     (\<forall>c t. map_of (threads db) c = Some t \<longrightarrow> 0 \<le> ct_MaxSeq t)
     \<and> (\<forall>u c' s. map_of (states db) (u, c') = Some s \<longrightarrow> (\<exists>t. map_of (threads db) c' = Some t
          \<and> us_VisibleStartSeq s \<le> cap c n c' t \<and> us_LastReadSeq s \<le> cap c n c' t))"

lemma ahead_put:
  "ahead c n db \<Longrightarrow> threads db' = threads db \<Longrightarrow> map_of (states db') = (map_of (states db))((u, c) \<mapsto> s) \<Longrightarrow>
     map_of (threads db) c = Some t \<Longrightarrow> us_VisibleStartSeq s \<le> cap c n c t \<Longrightarrow> us_LastReadSeq s \<le> cap c n c t \<Longrightarrow> ahead c n db'"
  unfolding ahead_def by auto

lemma ahead_insert_thread: "ahead c n db \<Longrightarrow> insert_thread c' (new_thread ty a b g) db = Inr db' \<Longrightarrow> ahead c n db'"
  by (drule insert_thread_Inr) (fastforce simp: ahead_def new_thread_def)

lemma ahead_insert_message: "ahead c n db \<Longrightarrow> insert_message r db = Inr db' \<Longrightarrow> ahead c n db'"
  by (drule insert_message_Inr) (auto simp: ahead_def)

lemma ahead_put_visible:
  assumes "ahead c n db" "map_of (threads db) c \<noteq> None" "v \<le> n"
  shows "ahead c n (put_visible u c v db)"
proof (cases "map_of (states db) (u, c)")
  case None
  obtain t where t: "map_of (threads db) c = Some t" using assms(2) by blast
  show ?thesis
    by (rule ahead_put [OF assms(1) _ _ t, where u = u and s = "\<lparr>us_LastReadSeq = v, us_VisibleStartSeq = v\<rparr>"])
      (use assms(3) None in \<open>simp_all add: map_of_put_visible cap_def\<close>)
qed (use assms(1) in \<open>simp add: put_visible_def\<close>)

lemma ahead_put_read:
  assumes "ahead c n db" "map_of (threads db) c \<noteq> None" "v \<le> n" "0 \<le> n"
  shows "ahead c n (put_read u c v db)"
proof -
  obtain t where t: "map_of (threads db) c = Some t" using assms(2) by blast
  have "us_VisibleStartSeq s \<le> cap c n c t \<and> us_LastReadSeq s \<le> cap c n c t" if "map_of (states db) (u, c) = Some s" for s
    using assms(1) that t unfolding ahead_def by fastforce
  then show ?thesis
    using assms(3,4) by (intro ahead_put [OF assms(1) _ map_of_put_read t]) (auto simp: cap_def split: option.split)
qed

lemma ahead_touch_thread:
  assumes A: "ahead (pm_ConversationID m) (pm_Seq m) db" and "map_of (threads db) (pm_ConversationID m) \<noteq> None"
  shows "read_inv (touch_thread m db)"
proof -
  obtain t where t: "map_of (threads db) (pm_ConversationID m) = Some t" using assms(2) by blast
  obtain t' where T: "map_of (threads (touch_thread m db)) = (map_of (threads db))(pm_ConversationID m \<mapsto> t')"
    and t': "ct_MaxSeq t' = max (pm_Seq m) (ct_MaxSeq t)"
    using t by (simp add: map_of_touch_thread max.commute)
  have "\<exists>x. map_of (threads (touch_thread m db)) c = Some x \<and> us_VisibleStartSeq s \<le> ct_MaxSeq x \<and> us_LastReadSeq s \<le> ct_MaxSeq x"
    if st: "map_of (states db) (u, c) = Some s" for u c s
  proof -
    obtain x where "map_of (threads db) c = Some x" "us_VisibleStartSeq s \<le> cap (pm_ConversationID m) (pm_Seq m) c x"
      "us_LastReadSeq s \<le> cap (pm_ConversationID m) (pm_Seq m) c x" using A st unfolding ahead_def by blast
    then show ?thesis using t t' by (cases "c = pm_ConversationID m") (simp_all add: T cap_def)
  qed
  moreover have "0 \<le> ct_MaxSeq x" if "map_of (threads (touch_thread m db)) c = Some x" for c x
    using A that t t' unfolding T ahead_def by (cases "c = pm_ConversationID m") (auto simp: max.coboundedI2)
  ultimately show ?thesis unfolding read_inv_def put_other_tables by blast
qed

lemma store_loop:
  "valid (\<lambda>_. True) (for_each (\<lambda>msg. andThen (upsertThread msg) (\<lambda>_. insertMessage js now msg)) msgs)
     (\<lambda>_ db. \<forall>m\<in>set msgs. stored js m db) (\<lambda>_. True)"
proof -
  have S: "lasting (\<lambda>db. \<forall>m\<in>set pre. stored js m db)" for pre
    using lasting_stored unfolding lasting_def by blast
  show ?thesis
    by (rule valid_conseq [OF valid_for_each [where J = "\<lambda>pre db. \<forall>m\<in>set pre. stored js m db"]],
        rule valid_conseq [OF store_step [OF S]]) auto
qed

lemma persist_statements_read_inv:
  assumes "msgs \<noteq> []" and batch: "\<forall>m\<in>set msgs. pm_ConversationID m = c \<and> pm_Seq m \<le> n"
    and n: "pm_Seq (last msgs) = n" "0 \<le> n"
  shows "valid read_inv (persist_statements js now msgs) (\<lambda>_. read_inv) (\<lambda>_. True)"
proof -
  let ?A = "\<lambda>db. ahead c n db \<and> map_of (threads db) c \<noteq> None"
  have "hd msgs \<in> set msgs" "pm_ConversationID (hd msgs) = c" using assms(1) batch by simp_all
  then have there: "map_of (threads db) c \<noteq> None" if "\<forall>m\<in>set msgs. stored js m db" for db
    using that by (auto simp: stored_def)
  have k1: "keeps (ahead c n) (andThen (upsertThread m) (\<lambda>_. insertMessage js now m))" for m
  proof (rule keeps_andThen)
    show "keeps (ahead c n) (upsertThread m)"
      unfolding upsertThread_def by (auto simp: Let_def intro!: keeps_stmt keeps_raise dest: ahead_insert_thread)
    show "keeps (ahead c n) (insertMessage js now m)" for u :: unit
      by (rule insertMessage_keep) (rule ahead_insert_message)
  qed
  have 1: "valid (ahead c n) (for_each (\<lambda>msg. andThen (upsertThread msg) (\<lambda>_. insertMessage js now msg)) msgs)
      (\<lambda>_. ?A) (\<lambda>_. True)"
    by (rule valid_conseq [OF valid_conjI [OF keeps_for_each [OF k1, unfolded keeps_def] store_loop]]) (simp_all add: there)
  have k2: "keeps ?A (upsertVisible us c v)" if "v \<le> n" for us v
    unfolding upsertVisible_def Let_def
    by (rule keeps_for_each) (auto intro!: keeps_stmt keeps_ret ahead_put_visible that)
  have k3: "keeps ?A (upsertSenderRead u c v)" if "v \<le> n" for u v
    unfolding upsertSenderRead_def by (auto intro!: keeps_stmt ahead_put_read that n)
  have 2: "keeps ?A (for_each (\<lambda>msg.
         let visibleStartSeq = (if pm_ChatType msg = ChatTypeGroup then pm_Seq msg - 1 else 0) in
         andThen (upsertVisible (pm_VisibleUserIDs msg) (pm_ConversationID msg) visibleStartSeq) (\<lambda>_.
           upsertSenderRead (pm_SenderID msg) (pm_ConversationID msg) (pm_Seq msg))) msgs)"
    unfolding Let_def
  proof (intro keeps_for_each keeps_andThen)
    fix m assume "m \<in> set msgs"
    then have m: "pm_ConversationID m = c" "pm_Seq m \<le> n" using batch by auto
    show "keeps ?A (upsertVisible (pm_VisibleUserIDs m) (pm_ConversationID m) (if pm_ChatType m = ChatTypeGroup then pm_Seq m - 1 else 0))"
      unfolding m(1) by (rule k2) (use m n in auto)
    show "keeps ?A (upsertSenderRead (pm_SenderID m) (pm_ConversationID m) (pm_Seq m))"
      unfolding m(1) by (rule k3) (rule m)
  qed
  have 3: "valid ?A (updateThreadAfterMessage (last msgs)) (\<lambda>_. read_inv) (\<lambda>_. True)"
    unfolding updateThreadAfterMessage_def
    by (rule valid_stmt) (use n assms(1) batch in \<open>auto intro!: ahead_touch_thread\<close>)
  have 2: "valid ?A (for_each (\<lambda>msg.
         let visibleStartSeq = (if pm_ChatType msg = ChatTypeGroup then pm_Seq msg - 1 else 0) in
         andThen (upsertVisible (pm_VisibleUserIDs msg) (pm_ConversationID msg) visibleStartSeq) (\<lambda>_.
           upsertSenderRead (pm_SenderID msg) (pm_ConversationID msg) (pm_Seq msg))) msgs) (\<lambda>_. ?A) (\<lambda>_. True)"
    by (rule valid_conseq [OF 2 [unfolded keeps_def]]) auto
  have "ct_MaxSeq t \<le> cap c n c' t" for c' t by (simp add: cap_def)
  then have "read_inv db \<Longrightarrow> ahead c n db" for db
    unfolding read_inv_def ahead_def by (blast intro: order_trans)
  then show ?thesis
    unfolding persist_statements_def
    by (intro valid_conseq [OF valid_andThen [OF 1 valid_andThen [OF 2 3]]]) auto
qed

lemma keeps_PersistBatch:
  assumes "\<forall>m\<in>set msgs. pm_ConversationID m = c \<and> pm_Seq m \<le> pm_Seq (last msgs)" "0 \<le> pm_Seq (last msgs)"
  shows "keeps read_inv (PersistBatch js now msgs)"
proof (cases "msgs = []")
  case False
  note v = persist_statements_read_inv [OF False assms(1) refl assms(2)]
  show ?thesis using False validD_ok [OF v] by (auto simp: PersistBatch_def intro!: keeps_transact_okD)
qed (simp add: PersistBatch_def keeps_ret)

text \<open>
  C9: in the archive no read position and no start of an account's history is ever above the highest
  number of its thread, and each belongs to a thread: reading, repairing and marking conversations
  keep this whatever fails, and so does writing a batch of a conversation whose last message has its
  highest number. So an unread count is never negative and never counts a message that is not there.
\<close>

theorem read_positions_bounded:
  assumes "read_inv db"
  shows "(MarkConversationAsRead groups u c n (db, fs) = (r1, (db1, fs1)) \<longrightarrow> read_inv db1)
    \<and> (PullMessages js groups u c f0 t0 l0 o0 (db, fs) = (r2, (db2, fs2)) \<longrightarrow> read_inv db2)
    \<and> (GetConversationsSeqState groups u cs (db, fs) = (r3, (db3, fs3)) \<longrightarrow> read_inv db3)
    \<and> ((\<forall>m\<in>set msgs. pm_ConversationID m = pm_ConversationID (last msgs) \<and> pm_Seq m \<le> pm_Seq (last msgs))
        \<longrightarrow> 0 \<le> pm_Seq (last msgs) \<longrightarrow> PersistBatch js now msgs (db, fs) = (r4, (db4, fs4)) \<longrightarrow> read_inv db4)"
proof (intro conjI impI)
  have "keeps read_inv (MarkConversationAsRead groups u c n)"
    unfolding MarkConversationAsRead_def by (auto intro!: keeps_intros keeps_setHasReadSeqMax)
  then show "MarkConversationAsRead groups u c n (db, fs) = (r1, (db1, fs1)) \<Longrightarrow> read_inv db1"
    by (rule keepsD) (rule assms)
  have "keeps read_inv (PullMessages js groups u c f0 t0 l0 o0)"
    unfolding PullMessages_def pull_messages_def Let_def by (auto intro!: keeps_intros keeps_loading split: prod.split)
  then show "PullMessages js groups u c f0 t0 l0 o0 (db, fs) = (r2, (db2, fs2)) \<Longrightarrow> read_inv db2"
    by (rule keepsD) (rule assms)
  have "keeps read_inv (GetConversationsSeqState groups u cs)"
    unfolding GetConversationsSeqState_def by (auto intro!: keeps_intros keeps_loading)
  then show "GetConversationsSeqState groups u cs (db, fs) = (r3, (db3, fs3)) \<Longrightarrow> read_inv db3"
    by (rule keepsD) (rule assms)
  show "read_inv db4"
    if "\<forall>m\<in>set msgs. pm_ConversationID m = pm_ConversationID (last msgs) \<and> pm_Seq m \<le> pm_Seq (last msgs)"
      "0 \<le> pm_Seq (last msgs)" "PersistBatch js now msgs (db, fs) = (r4, (db4, fs4))"
    by (rule keepsD [OF keeps_PersistBatch [OF that(1,2)] assms that(3)])
qed

theorem read_positions_bounded_witness:
  "\<exists>st db'. MarkConversationAsRead None ''2'' ''single:1:2'' 2 (demo_history, []) = (Inr (st, True), (db', [])) \<and> read_inv db'"
proof -
  obtain st db' where d: "MarkConversationAsRead None ''2'' ''single:1:2'' 2 (demo_history, []) = (Inr (st, True), (db', []))"
    by (rule exE [OF demo_marked], elim exE conjE)
  have "read_inv demo_history" by (auto simp: read_inv_def demo_history_def)
  with read_positions_bounded [OF this, of None "''2''" "''single:1:2''" 2 "[]" "Inr (st, True)" db' "[]"] d
  show ?thesis by blast
qed

section \<open>A last message that is not there\<close>

lemma QuerySeqState_last:
  assumes "QuerySeqState u c (db, fs) = (Inr st, (db', fs'))"
    and "map_of (threads db) c = Some t" "map_of (states db) (u, c) = Some s"
    and "us_VisibleStartSeq s < ct_MaxSeq t" "ct_LastMessageId t \<noteq> []"
  shows "\<exists>m\<in>set (messages db). ParseInt (TrimSpace (ct_LastMessageId t)) = Some (MessageId m)"
proof -
  from assms obtain fs1 where "fetchMessageByID (ct_LastMessageId t) (db, fs1) = (Inr (the (ss_LastMessage st)), (db', fs'))"
    unfolding QuerySeqState_def by (auto simp: runs seq_row_def split: if_splits dest!: query_okD)
  then show ?thesis
    unfolding fetchMessageByID_def find_message_def
    by (auto dest!: query_okD simp: find_Some_iff split: option.splits) (metis nth_mem)
qed

definition orphaned :: "string \<Rightarrow> pg_db \<Rightarrow> bool" where
  "orphaned c db \<longleftrightarrow> (\<exists>t. map_of (threads db) c = Some t \<and> ct_LastMessageId t \<noteq> [] \<and> 0 < ct_MaxSeq t
     \<and> (\<forall>m\<in>set (messages db). ParseInt (TrimSpace (ct_LastMessageId t)) \<noteq> Some (MessageId m)))"

lemma orphaned_hidden:
  assumes "orphaned c db" "\<forall>s t. map_of (states db) (u, c) = Some s \<longrightarrow> map_of (threads db) c = Some t \<longrightarrow> us_VisibleStartSeq s < ct_MaxSeq t"
  shows "QuerySeqState u c (repaired u c db, fs) \<noteq> (Inr st, w)"
proof
  let ?db = "repaired u c db"
  assume r: "QuerySeqState u c (?db, fs) = (Inr st, w)"
  obtain db' fs' where w: "w = (db', fs')" by (cases w)
  obtain t s where ts: "map_of (threads ?db) c = Some t" "map_of (states ?db) (u, c) = Some s"
    using QuerySeqState_okD [OF r [unfolded w]] by blast
  have t: "map_of (threads db) c = Some t" using ts(1) by simp
  then have o: "ct_LastMessageId t \<noteq> []" "0 < ct_MaxSeq t"
    "\<forall>m\<in>set (messages db). ParseInt (TrimSpace (ct_LastMessageId t)) \<noteq> Some (MessageId m)"
    using assms(1) unfolding orphaned_def by auto
  have "us_VisibleStartSeq s < ct_MaxSeq t"
  proof (cases "is_party u t")
    case True
    then have "us_VisibleStartSeq s = 0"
      using ts(2) t by (auto simp: repaired_def map_of_repair_state split: option.splits)
    then show ?thesis using o by simp
  next
    case False
    then show ?thesis using ts(2) t assms(2) by (auto simp: repaired_def)
  qed
  from QuerySeqState_last [OF r [unfolded w] ts this o(1)] o(3) show False by simp
qed

lemma persist_duplicate:
  assumes run: "persist_statements js now [m] (db, fs) = (Inr u, (db', fs'))"
    and dup: "\<exists>x\<in>set (messages db). SenderAccountId x = pm_SenderID m \<and> ClientMsgId x = pm_ClientMsgID m"
    and top: "\<forall>t. map_of (threads db) (pm_ConversationID m) = Some t \<longrightarrow> ct_MaxSeq t \<le> pm_Seq m" and "0 \<le> pm_Seq m"
  shows "messages db' = messages db \<and> (\<exists>t. map_of (threads db') (pm_ConversationID m) = Some t
    \<and> ct_MaxSeq t = pm_Seq m \<and> ct_LastMessageId t = pm_ServerMsgID m)"
proof -
  obtain db1 fs1 db2 fs2 db3 fs3 v db4 fs4 where 1: "upsertThread m (db, fs) = (Inr (), (db1, fs1))"
    and 2: "insertMessage js now m (db1, fs1) = (Inr (), (db2, fs2))"
    and 3: "upsertVisible (pm_VisibleUserIDs m) (pm_ConversationID m) v (db2, fs2) = (Inr (), (db3, fs3))"
    and 4: "upsertSenderRead (pm_SenderID m) (pm_ConversationID m) (pm_Seq m) (db3, fs3) = (Inr (), (db4, fs4))"
    and 5: "updateThreadAfterMessage m (db4, fs4) = (Inr u, (db', fs'))"
    using run unfolding persist_statements_def Let_def by (auto simp: runs)
  have t1: "messages db1 = messages db \<and> (\<exists>t. map_of (threads db1) (pm_ConversationID m) = Some t \<and> ct_MaxSeq t \<le> pm_Seq m)"
    using 1 top assms(4) unfolding upsertThread_def Let_def
    by (auto simp: runs new_thread_def split: if_splits dest!: stmt_okD insert_thread_Inr)
  obtain r where r: "message_row js now m = Inr r" "insert_message r db1 = Inr db2"
    using 2 unfolding insertMessage_def by (auto simp: runs split: sum.splits if_splits dest!: stmt_okD)
  have "db2 = db1"
    using r(2) dup t1 message_row_fields [OF r(1)] by (auto simp: insert_message_def list_ex_iff split: if_splits)
  moreover have "keeps (\<lambda>db. messages db = messages db2 \<and> threads db = threads db2)
      (upsertVisible (pm_VisibleUserIDs m) (pm_ConversationID m) v)"
    by (rule upsertVisible_keep) simp
  from keepsD [OF this _ 3] have "messages db3 = messages db2 \<and> threads db3 = threads db2" by simp
  moreover have "messages db4 = messages db3 \<and> threads db4 = threads db3"
    using 4 unfolding upsertSenderRead_def by (auto dest!: stmt_okD)
  moreover have "db' = touch_thread m db4" using 5 unfolding updateThreadAfterMessage_def by (auto dest!: stmt_okD)
  ultimately show ?thesis using t1 by (auto simp: map_of_touch_thread max_def)
qed


definition resent :: PersistMessage where
  "resent = demo_persist\<lparr>pm_ServerMsgID := ''78'', pm_ClientMsgID := ''11'', pm_SenderID := ''1'', pm_ConversationID := ''single:1:2'',
     pm_ChatType := ''single'', pm_ReceiverID := ''2'', pm_VisibleUserIDs := [''1'', ''2'']\<rparr>"

lemma resent_persisted:
  "\<exists>db'. PersistBatch demo_json 10 [resent] (demo_history, []) = (Inr (), (db', []))
     \<and> map_of (states db') (''2'', pm_ConversationID resent) = Some \<lparr>us_LastReadSeq = 0, us_VisibleStartSeq = 0\<rparr>"
proof -
  have row: "isl (message_row demo_json 0 resent) = False" by code_simp
  have "stored demo_json resent demo_history"
    unfolding stored_def
  proof (intro conjI)
    show "\<exists>r. message_row demo_json 0 resent = Inr r" using row by (metis isl_def sum.exhaust)
    have "list_ex (\<lambda>x. SenderAccountId x = pm_SenderID resent \<and> ClientMsgId x = pm_ClientMsgID resent) (messages demo_history)"
      by code_simp
    then show "\<exists>x\<in>set (messages demo_history). SenderAccountId x = pm_SenderID resent \<and> ClientMsgId x = pm_ClientMsgID resent"
      unfolding list_ex_iff .
  qed (simp_all add: resent_def demo_persist_def demo_json_def demo_history_def event_consts)
  note again = store_again [OF this, of 10]
  have trim: "TrimSpace ''1'' = ''1''" "TrimSpace ''2'' = ''2''" by code_simp+
  have f: "pm_ChatType resent = ''single''" "pm_ConversationID resent = ''single:1:2''" "pm_VisibleUserIDs resent = [''1'', ''2'']"
    "pm_SenderID resent = ''1''" by (simp_all add: resent_def)
  define db1 where "db1 = put_visible ''2'' ''single:1:2'' 0 demo_history"
  have old: "put_visible ''1'' ''single:1:2'' 0 demo_history = demo_history"
    by (simp add: put_visible_def demo_history_def)
  have visible: "upsertVisible [''1'', ''2''] ''single:1:2'' 0 (demo_history, []) = (Inr (), (db1, []))"
    by (simp add: upsertVisible_def Let_def trim andThen_def stmt_clean ret_def db1_def old)
  have "persist_statements demo_json 10 [resent] (demo_history, [])
      = (Inr (), (touch_thread resent (put_read ''1'' ''single:1:2'' (pm_Seq resent) db1), []))"
    by (simp add: persist_statements_def again ret_def f visible event_consts upsertSenderRead_def updateThreadAfterMessage_def stmt_clean)
  then have "PersistBatch demo_json 10 [resent] (demo_history, [])
      = (Inr (), (touch_thread resent (put_read ''1'' ''single:1:2'' (pm_Seq resent) db1), []))"
    by (simp add: PersistBatch_def transact_clean)
  moreover have "map_of (states db1) (''2'', ''single:1:2'') = Some \<lparr>us_LastReadSeq = 0, us_VisibleStartSeq = 0\<rparr>"
    by (simp add: db1_def map_of_put_visible) (simp add: demo_history_def)
  ultimately show ?thesis by (simp add: f map_of_put_read)
qed


end
