(* ===== verification/Group_Svc.thy ===== *)
theory Group_Svc
  imports Infra "HOL-Library.AList"
begin

text \<open>
  The groups service (\<^verbatim>\<open>service/groups/rpc/internal\<close>): groups, their members, and the rules that say
  who may join, add, remove and rename. The tables are the two of the database with their unique
  keys. A handler takes \<open>now\<close>, the timestamp of its transaction; a time in a response is kept as the
  number, not as its RFC 3339 text. Text columns are ordered by their bytes.
\<close>

section \<open>Tables\<close>

record Groups =
  g_GroupId :: string
  g_Name :: string
  g_Description :: string
  g_CreatorAccountId :: string
  g_CreatedAt :: int
  g_UpdatedAt :: int

record GroupMembers =
  m_GroupId :: string
  m_AccountId :: string
  m_Role :: int
  m_Status :: int
  m_JoinTime :: int
  m_LeftAt :: "int option"

record group_db =
  groups_table :: "(string \<times> Groups) list"
  members_table :: "((string \<times> string) \<times> GroupMembers) list"

definition MemberRoleOwner :: int where "MemberRoleOwner = 1"
definition MemberRoleMember :: int where "MemberRoleMember = 2"
definition MemberRoleAdmin :: int where "MemberRoleAdmin = 3"
definition MemberStatusActive :: int where "MemberStatusActive = 1"
definition MemberStatusLeft :: int where "MemberStatusLeft = 2"
definition maxGroupMembersV1 :: nat where "maxGroupMembersV1 = 200"

lemmas member_consts =
  MemberRoleOwner_def MemberRoleMember_def MemberRoleAdmin_def MemberStatusActive_def MemberStatusLeft_def

definition FindOne :: "string \<Rightarrow> (group_db, Groups) act" where
  "FindOne groupID = query (\<lambda>db. case map_of (groups_table db) groupID of None \<Rightarrow> Inl ErrNotFound | Some g \<Rightarrow> Inr g)"

definition InsertGroup :: "int \<Rightarrow> string \<Rightarrow> string \<Rightarrow> string \<Rightarrow> string \<Rightarrow> (group_db, Groups) act" where
  "InsertGroup now groupID name description creator =
     exec_row (\<lambda>db. if map_of (groups_table db) groupID \<noteq> None then Inl (PlainError ''23505'')
       else let g = \<lparr>g_GroupId = groupID, g_Name = name, g_Description = description, g_CreatorAccountId = creator,
                     g_CreatedAt = now, g_UpdatedAt = now\<rparr>
            in Inr (g, db\<lparr>groups_table := AList.update groupID g (groups_table db)\<rparr>))"

definition UpdateNameDescription :: "int \<Rightarrow> string \<Rightarrow> string \<Rightarrow> string \<Rightarrow> (group_db, Groups) act" where
  "UpdateNameDescription now groupID name description =
     exec_row (\<lambda>db. case map_of (groups_table db) groupID of
         None \<Rightarrow> Inl ErrNotFound
       | Some g \<Rightarrow> let g' = g\<lparr>g_Name := name, g_Description := description, g_UpdatedAt := now\<rparr>
                   in Inr (g', db\<lparr>groups_table := AList.update groupID g' (groups_table db)\<rparr>))"

definition FindOneByGroupIdAccountId :: "string \<Rightarrow> string \<Rightarrow> (group_db, GroupMembers) act" where
  "FindOneByGroupIdAccountId groupID userID =
     query (\<lambda>db. case map_of (members_table db) (groupID, userID) of None \<Rightarrow> Inl ErrNotFound | Some m \<Rightarrow> Inr m)"

definition active_rows :: "group_db \<Rightarrow> string \<Rightarrow> GroupMembers list" where
  "active_rows db groupID =
     sort_key m_AccountId (map snd (filter (\<lambda>(k, m). fst k = groupID \<and> m_Status m = MemberStatusActive) (members_table db)))"

definition FindActiveByGroup :: "string \<Rightarrow> (group_db, GroupMembers list) act" where
  "FindActiveByGroup groupID = query (\<lambda>db. Inr (active_rows db groupID))"

definition FindGroupsByMember :: "string \<Rightarrow> (group_db, Groups list) act" where
  "FindGroupsByMember userID =
     query (\<lambda>db. Inr (sort_key (\<lambda>g. (- g_UpdatedAt g)) (sort_key g_GroupId
       (map snd (filter (\<lambda>(gid, _). case map_of (members_table db) (gid, userID) of
            Some m \<Rightarrow> m_Status m = MemberStatusActive | None \<Rightarrow> False) (groups_table db))))))"

definition new_member :: "int \<Rightarrow> string \<Rightarrow> string \<Rightarrow> int \<Rightarrow> GroupMembers" where
  "new_member now groupID userID role =
     \<lparr>m_GroupId = groupID, m_AccountId = userID, m_Role = role, m_Status = MemberStatusActive, m_JoinTime = now, m_LeftAt = None\<rparr>"

definition UpsertActiveMember :: "int \<Rightarrow> string \<Rightarrow> string \<Rightarrow> int \<Rightarrow> (group_db, GroupMembers) act" where
  "UpsertActiveMember now groupID userID role =
     exec_row (\<lambda>db. let m = new_member now groupID userID role
       in Inr (m, db\<lparr>members_table := AList.update (groupID, userID) m (members_table db)\<rparr>))"

definition SetMemberLeft :: "int \<Rightarrow> string \<Rightarrow> string \<Rightarrow> (group_db, GroupMembers) act" where
  "SetMemberLeft now groupID userID =
     exec_row (\<lambda>db. case map_of (members_table db) (groupID, userID) of
         None \<Rightarrow> Inl ErrNotFound
       | Some m \<Rightarrow>
           if m_Status m \<noteq> MemberStatusActive then Inl ErrNotFound
           else let m' = m\<lparr>m_Status := MemberStatusLeft, m_LeftAt := Some now\<rparr>
                in Inr (m', db\<lparr>members_table := AList.update (groupID, userID) m' (members_table db)\<rparr>))"

section \<open>Rules\<close>

definition memberRoleToString :: "int \<Rightarrow> string" where
  "memberRoleToString role =
     (if role = MemberRoleOwner then ''owner'' else if role = MemberRoleAdmin then ''admin'' else ''member'')"

definition memberStateToString :: "int \<Rightarrow> string" where
  "memberStateToString status = (if status = MemberStatusLeft then ''left'' else ''active'')"

definition validateRequiredID :: "string \<Rightarrow> string \<Rightarrow> string result" where
  "validateRequiredID v field =
     (if v = [] then Inl (InvalidArgument (field @ '' is required''))
      else if rune_count v > 64 then Inl (InvalidArgument (field @ '' must be 64 characters or fewer''))
      else Inr v)"

definition validateOptionalID :: "string \<Rightarrow> string \<Rightarrow> string result" where
  "validateOptionalID v field = (if v = [] then Inr [] else validateRequiredID v field)"

definition validateGroupName :: "string \<Rightarrow> string result" where
  "validateGroupName v =
     (if v = [] then Inl (InvalidArgument ''name is required'')
      else if rune_count v > 64 then Inl (InvalidArgument ''name must be 64 characters or fewer'')
      else Inr v)"

definition validateGroupDescription :: "string \<Rightarrow> string result" where
  "validateGroupDescription v =
     (if rune_count v > 256 then Inl (InvalidArgument ''description must be 256 characters or fewer'') else Inr v)"

fun collect_members :: "string set \<Rightarrow> string list \<Rightarrow> string list result" where
  "collect_members seen [] = Inr []"
| "collect_members seen (u # us) =
     (case validateRequiredID u ''member_user_ids'' of
        Inl e \<Rightarrow> Inl e
      | Inr _ \<Rightarrow> if u \<in> seen then collect_members seen us
                else map_sum id (\<lambda>r. u # r) (collect_members (insert u seen) us))"

definition validateGroupMemberIDs :: "string \<Rightarrow> string list \<Rightarrow> string list result" where
  "validateGroupMemberIDs creatorUserID rawMemberUserIDs =
     (case collect_members {creatorUserID} rawMemberUserIDs of
        Inl e \<Rightarrow> Inl e
      | Inr others \<Rightarrow>
          let memberUserIDs = creatorUserID # others
          in if length memberUserIDs > maxGroupMembersV1 then Inl (InvalidArgument ''group member limit is 200'')
             else Inr memberUserIDs)"

definition activeMember :: "string \<Rightarrow> string \<Rightarrow> (group_db, GroupMembers) act" where
  "activeMember groupID userID =
     andThen (found (FindOneByGroupIdAccountId groupID userID)) (\<lambda>r. case r of
         None \<Rightarrow> raise (Forbidden ''requester is not a group member'')
       | Some row \<Rightarrow> if m_Status row \<noteq> MemberStatusActive then raise (Forbidden ''requester is not a group member'')
                     else ret row)"

definition ensureCanManageGroup :: "string \<Rightarrow> string \<Rightarrow> (group_db, GroupMembers) act" where
  "ensureCanManageGroup groupID userID =
     andThen (activeMember groupID userID) (\<lambda>member.
       if m_Role member \<noteq> MemberRoleOwner \<and> m_Role member \<noteq> MemberRoleAdmin
       then raise (Forbidden ''only group owner or admin can manage group'')
       else ret member)"

definition containsActiveMember :: "GroupMembers list \<Rightarrow> string \<Rightarrow> bool" where
  "containsActiveMember members userID \<longleftrightarrow> list_ex (\<lambda>m. m_AccountId m = userID \<and> m_Status m = MemberStatusActive) members"

section \<open>Responses\<close>

record Group =
  gr_GroupId :: string
  gr_Name :: string
  gr_Description :: string
  gr_Announcement :: string
  gr_CreatorUserId :: string
  gr_CurrentUserRole :: string
  gr_CreatedAt :: int
  gr_UpdatedAt :: int

record GroupMember =
  mr_GroupId :: string
  mr_UserId :: string
  mr_Role :: string
  mr_State :: string
  mr_JoinedAt :: int
  mr_LeftAt :: "int option"

definition toGroup :: "Groups \<Rightarrow> string \<Rightarrow> Group" where
  "toGroup g currentUserRole =
     \<lparr>gr_GroupId = g_GroupId g, gr_Name = g_Name g, gr_Description = g_Description g, gr_Announcement = g_Description g,
      gr_CreatorUserId = g_CreatorAccountId g, gr_CurrentUserRole = currentUserRole,
      gr_CreatedAt = g_CreatedAt g, gr_UpdatedAt = g_UpdatedAt g\<rparr>"

definition toGroupMember :: "GroupMembers \<Rightarrow> GroupMember" where
  "toGroupMember m =
     \<lparr>mr_GroupId = m_GroupId m, mr_UserId = m_AccountId m, mr_Role = memberRoleToString (m_Role m),
      mr_State = memberStateToString (m_Status m), mr_JoinedAt = m_JoinTime m, mr_LeftAt = m_LeftAt m\<rparr>"

section \<open>Handlers\<close>

text \<open>
  Adding a member: what the reads decide (already a member, or the role to join with), and the write.
  There is no transaction around the two.
\<close>

definition add_decide :: "Groups \<Rightarrow> string \<Rightarrow> (group_db, GroupMembers + int) act" where
  "add_decide grp userID =
     andThen (found (FindOneByGroupIdAccountId (g_GroupId grp) userID)) (\<lambda>existing.
       if (case existing of Some m \<Rightarrow> m_Status m = MemberStatusActive | None \<Rightarrow> False) then ret (Inl (the existing))
       else andThen (FindActiveByGroup (g_GroupId grp)) (\<lambda>members.
         if length members \<ge> maxGroupMembersV1 then raise (InvalidArgument ''group member limit is 200'')
         else ret (Inr (if g_CreatorAccountId grp = userID then MemberRoleOwner else MemberRoleMember))))"

definition add_apply :: "int \<Rightarrow> Groups \<Rightarrow> string \<Rightarrow> GroupMembers + int \<Rightarrow> (group_db, GroupMember \<times> bool) act" where
  "add_apply now grp userID d =
     (case d of
        Inl existing \<Rightarrow> ret (toGroupMember existing, True)
      | Inr role \<Rightarrow> andThen (UpsertActiveMember now (g_GroupId grp) userID role) (\<lambda>row. ret (toGroupMember row, False)))"

definition addActiveMember :: "int \<Rightarrow> Groups \<Rightarrow> string \<Rightarrow> (group_db, GroupMember \<times> bool) act" where
  "addActiveMember now grp userID = andThen (add_decide grp userID) (add_apply now grp userID)"

definition create_body :: "int \<Rightarrow> string \<Rightarrow> string \<Rightarrow> string \<Rightarrow> string \<Rightarrow> string list \<Rightarrow> (group_db, Groups) act" where
  "create_body now groupID name description creatorUserID memberUserIDs =
     andThen (InsertGroup now groupID name description creatorUserID) (\<lambda>created.
     andThen (for_each (\<lambda>userID.
         andThen (UpsertActiveMember now (g_GroupId created) userID
           (if userID = creatorUserID then MemberRoleOwner else MemberRoleMember)) (\<lambda>_. ret ())) memberUserIDs) (\<lambda>_.
     ret created))"

text \<open>\<open>newID\<close> is what the id generator returned.\<close>

definition CreateGroup :: "int \<Rightarrow> string result \<Rightarrow> string \<Rightarrow> string \<Rightarrow> string \<Rightarrow> string list \<Rightarrow> (group_db, Group) act" where
  "CreateGroup now newID rawCreator rawName rawDescription rawMembers =
     with_status (
     andThen (lift_result (validateRequiredID rawCreator ''creator_user_id'')) (\<lambda>creatorUserID.
     andThen (lift_result (validateGroupName rawName)) (\<lambda>name.
     andThen (lift_result (validateGroupDescription rawDescription)) (\<lambda>description.
     andThen (lift_result (validateGroupMemberIDs creatorUserID rawMembers)) (\<lambda>memberUserIDs.
     andThen (lift_result newID) (\<lambda>groupID.
     andThen (transact (create_body now groupID name description creatorUserID memberUserIDs)) (\<lambda>created.
     ret (toGroup created []))))))))"

text \<open>Each of the following handlers first reads and checks (its guard), then makes one change.\<close>

definition add_guard :: "string \<Rightarrow> string \<Rightarrow> string \<Rightarrow> (group_db, Groups \<times> string) act" where
  "add_guard rawGroup rawOperator rawUser =
     andThen (lift_result (validateRequiredID rawGroup ''group_id'')) (\<lambda>groupID.
     andThen (lift_result (validateRequiredID rawOperator ''operator_user_id'')) (\<lambda>operatorUserID.
     andThen (lift_result (validateRequiredID (if rawUser = [] then operatorUserID else rawUser) ''user_id'')) (\<lambda>userID.
     andThen (not_found_as ''group not found'' (FindOne groupID)) (\<lambda>grp.
       if userID \<noteq> operatorUserID \<and> g_CreatorAccountId grp \<noteq> operatorUserID
       then raise (Forbidden ''only group owner can add another member'')
       else ret (grp, userID)))))"

definition AddMember :: "int \<Rightarrow> string \<Rightarrow> string \<Rightarrow> string \<Rightarrow> (group_db, GroupMember \<times> bool) act" where
  "AddMember now rawGroup rawOperator rawUser =
     with_status (andThen (add_guard rawGroup rawOperator rawUser) (\<lambda>(grp, userID). addActiveMember now grp userID))"

definition join_guard :: "string \<Rightarrow> string \<Rightarrow> (group_db, Groups \<times> string) act" where
  "join_guard rawGroup rawUser =
     andThen (lift_result (validateRequiredID rawGroup ''group_id'')) (\<lambda>groupID.
     andThen (lift_result (validateRequiredID rawUser ''user_id'')) (\<lambda>userID.
     andThen (not_found_as ''group not found'' (FindOne groupID)) (\<lambda>grp. ret (grp, userID))))"

definition JoinGroup :: "int \<Rightarrow> string \<Rightarrow> string \<Rightarrow> (group_db, GroupMember \<times> bool) act" where
  "JoinGroup now rawGroup rawUser =
     with_status (andThen (join_guard rawGroup rawUser) (\<lambda>(grp, userID). addActiveMember now grp userID))"

definition kick_guard :: "string \<Rightarrow> string \<Rightarrow> string \<Rightarrow> (group_db, string \<times> string) act" where
  "kick_guard rawGroup rawOperator rawUser =
     andThen (lift_result (validateRequiredID rawGroup ''group_id'')) (\<lambda>groupID.
     andThen (lift_result (validateRequiredID rawOperator ''operator_user_id'')) (\<lambda>operatorUserID.
     andThen (lift_result (validateRequiredID rawUser ''user_id'')) (\<lambda>userID.
       if operatorUserID = userID then raise (InvalidArgument ''use leave group to remove yourself'')
       else andThen (not_found_as ''group not found'' (FindOne groupID)) (\<lambda>_.
            andThen (ensureCanManageGroup groupID operatorUserID) (\<lambda>operator.
            andThen (activeMember groupID userID) (\<lambda>target.
              if m_Role target = MemberRoleOwner then raise (Forbidden ''group owner cannot be kicked'')
              else if m_Role operator = MemberRoleAdmin \<and> m_Role target \<noteq> MemberRoleMember
              then raise (Forbidden ''group admin can only kick normal members'')
              else ret (groupID, userID)))))))"

definition remove_member :: "int \<Rightarrow> string \<times> string \<Rightarrow> (group_db, GroupMember) act" where
  "remove_member now key =
     andThen (not_found_as ''member not found'' (SetMemberLeft now (fst key) (snd key))) (\<lambda>member.
     ret (toGroupMember member))"

definition KickMember :: "int \<Rightarrow> string \<Rightarrow> string \<Rightarrow> string \<Rightarrow> (group_db, GroupMember) act" where
  "KickMember now rawGroup rawOperator rawUser =
     with_status (andThen (kick_guard rawGroup rawOperator rawUser) (remove_member now))"

definition leave_guard :: "string \<Rightarrow> string \<Rightarrow> (group_db, string \<times> string) act" where
  "leave_guard rawGroup rawUser =
     andThen (lift_result (validateRequiredID rawGroup ''group_id'')) (\<lambda>groupID.
     andThen (lift_result (validateRequiredID rawUser ''user_id'')) (\<lambda>userID.
     andThen (not_found_as ''group not found'' (FindOne groupID)) (\<lambda>grp.
       if g_CreatorAccountId grp = userID
       then andThen (FindActiveByGroup groupID) (\<lambda>members.
         if containsActiveMember members userID \<and> length members \<le> 1
         then raise (Forbidden ''group owner cannot leave as the only active member'')
         else ret (groupID, userID))
       else ret (groupID, userID))))"

definition LeaveGroup :: "int \<Rightarrow> string \<Rightarrow> string \<Rightarrow> (group_db, GroupMember) act" where
  "LeaveGroup now rawGroup rawUser = with_status (andThen (leave_guard rawGroup rawUser) (remove_member now))"

definition update_guard ::
  "string \<Rightarrow> string \<Rightarrow> string \<Rightarrow> string \<Rightarrow> string \<Rightarrow> (group_db, string \<times> string \<times> string \<times> GroupMembers) act" where
  "update_guard rawGroup rawOperator inName inAnnouncement inDescription =
     andThen (lift_result (validateRequiredID rawGroup ''group_id'')) (\<lambda>groupID.
     andThen (lift_result (validateRequiredID rawOperator ''operator_user_id'')) (\<lambda>operatorUserID.
     andThen (not_found_as ''group not found'' (FindOne groupID)) (\<lambda>grp.
     andThen (ensureCanManageGroup groupID operatorUserID) (\<lambda>operator.
     andThen (if inName \<noteq> [] then lift_result (validateGroupName inName) else ret (g_Name grp)) (\<lambda>name.
       let announcement = (if inAnnouncement = [] then inDescription else inAnnouncement) in
       andThen (if announcement \<noteq> [] then lift_result (validateGroupDescription announcement) else ret (g_Description grp)) (\<lambda>description.
         if name = g_Name grp \<and> description = g_Description grp
         then raise (InvalidArgument ''name or announcement is required'')
         else ret (groupID, name, description, operator)))))))"

definition UpdateGroup :: "int \<Rightarrow> string \<Rightarrow> string \<Rightarrow> string \<Rightarrow> string \<Rightarrow> string \<Rightarrow> (group_db, Group) act" where
  "UpdateGroup now rawGroup rawOperator inName inAnnouncement inDescription =
     with_status (andThen (update_guard rawGroup rawOperator inName inAnnouncement inDescription)
       (\<lambda>(groupID, name, description, operator).
       andThen (not_found_as ''group not found'' (UpdateNameDescription now groupID name description)) (\<lambda>updated.
       ret (toGroup updated (memberRoleToString (m_Role operator))))))"

definition GetGroup :: "string \<Rightarrow> string \<Rightarrow> (group_db, Group) act" where
  "GetGroup rawGroup rawRequester =
     with_status (
     andThen (lift_result (validateRequiredID rawGroup ''group_id'')) (\<lambda>groupID.
     andThen (lift_result (validateOptionalID rawRequester ''requester_user_id'')) (\<lambda>requesterUserID.
     andThen (not_found_as ''group not found'' (FindOne groupID)) (\<lambda>grp.
       if requesterUserID = [] then ret (toGroup grp [])
       else andThen (activeMember groupID requesterUserID) (\<lambda>member.
         ret (toGroup grp (memberRoleToString (m_Role member))))))))"

definition IsMember :: "string \<Rightarrow> string \<Rightarrow> (group_db, bool) act" where
  "IsMember rawGroup rawUser =
     with_status (
     andThen (lift_result (validateRequiredID rawGroup ''group_id'')) (\<lambda>groupID.
     andThen (lift_result (validateRequiredID rawUser ''user_id'')) (\<lambda>userID.
     andThen (found (FindOneByGroupIdAccountId groupID userID)) (\<lambda>r. case r of
         None \<Rightarrow> ret False
       | Some row \<Rightarrow> ret (m_Status row = MemberStatusActive)))))"

definition ListGroups :: "string \<Rightarrow> (group_db, Group list) act" where
  "ListGroups rawUser =
     with_status (
     andThen (lift_result (validateRequiredID rawUser ''user_id'')) (\<lambda>userID.
     andThen (FindGroupsByMember userID) (\<lambda>rows. ret (map (\<lambda>g. toGroup g []) rows))))"

definition ListMembers :: "string \<Rightarrow> string \<Rightarrow> (group_db, string \<times> GroupMember list) act" where
  "ListMembers rawGroup rawRequester =
     with_status (
     andThen (lift_result (validateRequiredID rawGroup ''group_id'')) (\<lambda>groupID.
     andThen (lift_result (validateOptionalID rawRequester ''requester_user_id'')) (\<lambda>requesterUserID.
     andThen (not_found_as ''group not found'' (FindOne groupID)) (\<lambda>_.
     andThen (FindActiveByGroup groupID) (\<lambda>members.
       if requesterUserID \<noteq> [] \<and> \<not> containsActiveMember members requesterUserID
       then raise (Forbidden ''requester is not a group member'')
       else ret (groupID, map toGroupMember members))))))"

section \<open>Membership\<close>

text \<open>The active members of a group.\<close>

definition active_set :: "group_db \<Rightarrow> string \<Rightarrow> string set" where
  "active_set db groupID = {u. \<exists>m. map_of (members_table db) (groupID, u) = Some m \<and> m_Status m = MemberStatusActive}"

definition group_inv :: "group_db \<Rightarrow> bool" where
  "group_inv db \<longleftrightarrow>
     distinct (map fst (members_table db))
     \<and> (\<forall>gid g. map_of (groups_table db) gid = Some g \<longrightarrow> g_GroupId g = gid)
     \<and> (\<forall>gid u m. map_of (members_table db) (gid, u) = Some m \<longrightarrow>
          m_GroupId m = gid \<and> m_AccountId m = u \<and> m_Status m \<in> {MemberStatusActive, MemberStatusLeft}
          \<and> (\<exists>g. map_of (groups_table db) gid = Some g
               \<and> m_Role m = (if u = g_CreatorAccountId g then MemberRoleOwner else MemberRoleMember)))
     \<and> (\<forall>gid. card (active_set db gid) \<le> maxGroupMembersV1)"

lemma length_filter_keys:
  assumes "distinct (map fst al)"
  shows "length (filter P al) = card {k. \<exists>v. map_of al k = Some v \<and> P (k, v)}"
proof -
  have d: "distinct (map fst (filter P al))" using assms by (rule distinct_map_filter)
  have "fst ` set (filter P al) = {k. \<exists>v. map_of al k = Some v \<and> P (k, v)}"
    using assms by (auto simp: image_iff)
  then show ?thesis using distinct_card [OF d] by simp
qed

lemma length_active_rows:
  assumes "distinct (map fst (members_table db))"
  shows "length (active_rows db gid) = card (active_set db gid)"
proof -
  have "{k. \<exists>v. map_of (members_table db) k = Some v \<and> fst k = gid \<and> m_Status v = MemberStatusActive}
      = Pair gid ` active_set db gid"
    by (auto simp: active_set_def)
  then show ?thesis
    unfolding active_rows_def by (simp add: length_filter_keys [OF assms] card_image inj_on_def)
qed

lemma finite_active_set: "finite (active_set db gid)"
proof -
  have "active_set db gid \<subseteq> snd ` fst ` set (members_table db)"
    by (auto simp: active_set_def image_iff) (metis fst_conv map_of_SomeD snd_conv)
  then show ?thesis by (rule finite_subset) simp
qed

definition put_member :: "GroupMembers \<Rightarrow> group_db \<Rightarrow> group_db" where
  "put_member m db = db\<lparr>members_table := AList.update (m_GroupId m, m_AccountId m) m (members_table db)\<rparr>"

lemma put_member_tables [simp]:
  "groups_table (put_member m db) = groups_table db"
  "map_of (members_table (put_member m db)) = (map_of (members_table db))((m_GroupId m, m_AccountId m) \<mapsto> m)"
  by (simp_all add: put_member_def update_conv')

lemma active_set_put:
  "active_set (put_member m db) gid =
     (if gid \<noteq> m_GroupId m then active_set db gid
      else if m_Status m = MemberStatusActive then insert (m_AccountId m) (active_set db gid)
      else active_set db gid - {m_AccountId m})"
  by (auto simp: active_set_def)

lemma group_inv_put:
  assumes inv: "group_inv db" and g: "map_of (groups_table db) (m_GroupId m) = Some g"
    and "m_Role m = (if m_AccountId m = g_CreatorAccountId g then MemberRoleOwner else MemberRoleMember)"
    and st: "m_Status m \<in> {MemberStatusActive, MemberStatusLeft}"
    and room: "card (active_set (put_member m db) (m_GroupId m)) \<le> maxGroupMembersV1"
  shows "group_inv (put_member m db)"
proof -
  have "distinct (map fst (members_table (put_member m db)))"
    using inv by (simp add: group_inv_def put_member_def distinct_update)
  moreover have "card (active_set (put_member m db) gid) \<le> maxGroupMembersV1" for gid
    using inv room by (cases "gid = m_GroupId m") (simp_all add: group_inv_def active_set_put)
  ultimately show ?thesis using inv g assms(3) st unfolding group_inv_def by auto
qed

lemma group_invD:
  "group_inv db \<Longrightarrow> map_of (members_table db) (gid, u) = Some m \<Longrightarrow>
     m_GroupId m = gid \<and> m_AccountId m = u \<and> (\<exists>g. map_of (groups_table db) gid = Some g
       \<and> m_Role m = (if u = g_CreatorAccountId g then MemberRoleOwner else MemberRoleMember))"
  unfolding group_inv_def by blast

section \<open>What a handler can change\<close>

lemma validateRequiredID_ok: "validateRequiredID v field = Inr x \<longleftrightarrow> x = v \<and> v \<noteq> [] \<and> rune_count v \<le> 64"
  by (auto simp: validateRequiredID_def)

lemma FindOne_okD: "FindOne gid (db, fs) = (Inr g, (db', fs')) \<Longrightarrow> map_of (groups_table db) gid = Some g \<and> db' = db"
  unfolding FindOne_def by (drule query_okD) (auto split: option.splits)

lemma activeMember_okD:
  "activeMember gid u (db, fs) = (Inr m, (db', fs')) \<Longrightarrow>
     map_of (members_table db) (gid, u) = Some m \<and> m_Status m = MemberStatusActive \<and> db' = db"
  unfolding activeMember_def FindOneByGroupIdAccountId_def
  by (auto simp: runs split: option.splits if_splits dest!: found_query_okD)

lemma ensureCanManageGroup_okD:
  "ensureCanManageGroup gid u (db, fs) = (Inr m, (db', fs')) \<Longrightarrow>
     map_of (members_table db) (gid, u) = Some m \<and> m_Status m = MemberStatusActive
     \<and> m_Role m \<in> {MemberRoleOwner, MemberRoleAdmin} \<and> db' = db"
  unfolding ensureCanManageGroup_def by (auto simp: runs split: if_splits dest!: activeMember_okD)

lemma readonly_parts [readonly_intros]:
  "readonly (FindOne gid)" "readonly (activeMember gid u)" "readonly (ensureCanManageGroup gid u)"
  "readonly (FindActiveByGroup gid)" "readonly (add_decide grp u)"
proof -
  show A: "readonly (activeMember gid u)" "readonly (FindActiveByGroup gid)" for u
    unfolding activeMember_def FindOneByGroupIdAccountId_def FindActiveByGroup_def
    by (auto intro!: readonly_intros split: option.split)
  show "readonly (FindOne gid)" unfolding FindOne_def by (rule readonly_intros)
  show "readonly (ensureCanManageGroup gid u)"
    unfolding ensureCanManageGroup_def by (auto intro!: readonly_intros A)
  show "readonly (add_decide grp u)"
    unfolding add_decide_def FindOneByGroupIdAccountId_def FindActiveByGroup_def
    by (auto intro!: readonly_intros)
qed

lemma readonly_guards:
  "readonly (add_guard g p u)" "readonly (join_guard g u)" "readonly (kick_guard g p u)" "readonly (leave_guard g u)"
  "readonly (update_guard g p n a d)"
  unfolding add_guard_def join_guard_def kick_guard_def leave_guard_def update_guard_def Let_def
  by (auto intro!: readonly_intros)

lemma with_status_run: "with_status m W = (r, W') \<Longrightarrow> \<exists>r0. m W = (r0, W') \<and> isl r0 = isl r"
  by (auto simp: with_status_def split: prod.splits sum.splits)

lemma addActiveMember_cases:
  assumes "addActiveMember now grp u (db, fs) = (r, (db', fs'))"
  shows "db' = db \<or> u \<notin> active_set db (g_GroupId grp) \<and> length (active_rows db (g_GroupId grp)) < maxGroupMembersV1
    \<and> db' = put_member (new_member now (g_GroupId grp) u
        (if g_CreatorAccountId grp = u then MemberRoleOwner else MemberRoleMember)) db"
  using readonly_parts(5) assms unfolding addActiveMember_def
proof (rule andThen_reads)
  fix d fs1
  assume d: "add_decide grp u (db, fs) = (Inr d, (db, fs1))" and a: "add_apply now grp u d (db, fs1) = (r, (db', fs'))"
  show ?thesis
  proof (cases d)
    case (Inl m)
    then show ?thesis using a by (simp add: add_apply_def ret_def)
  next
    case (Inr role)
    have "u \<notin> active_set db (g_GroupId grp) \<and> length (active_rows db (g_GroupId grp)) < maxGroupMembersV1
      \<and> role = (if g_CreatorAccountId grp = u then MemberRoleOwner else MemberRoleMember)"
      using d Inr unfolding add_decide_def FindOneByGroupIdAccountId_def FindActiveByGroup_def
      by (auto simp: runs active_set_def split: option.splits if_splits dest!: found_query_okD query_okD)
    moreover obtain r1 fs2 where "UpsertActiveMember now (g_GroupId grp) u role (db, fs1) = (r1, (db', fs2))"
      using a Inr by (auto simp: add_apply_def andThen_def ret_def split: prod.splits sum.splits)
    then have "db' = db \<or> db' = put_member (new_member now (g_GroupId grp) u role) db"
      unfolding UpsertActiveMember_def
      by (auto simp: put_member_def new_member_def Let_def dest!: exec_row_cases)
    ultimately show ?thesis by auto
  qed
qed simp

definition departed :: "int \<Rightarrow> GroupMembers \<Rightarrow> GroupMembers" where
  "departed now m = m\<lparr>m_Status := MemberStatusLeft, m_LeftAt := Some now\<rparr>"

lemma SetMemberLeft_row:
  assumes "group_inv db"
  shows "(case map_of (members_table db) (gid, u) of None \<Rightarrow> Inl ErrNotFound
       | Some m \<Rightarrow> if m_Status m \<noteq> MemberStatusActive then Inl ErrNotFound
           else let m' = m\<lparr>m_Status := MemberStatusLeft, m_LeftAt := Some now\<rparr>
                in Inr (m', db\<lparr>members_table := AList.update (gid, u) m' (members_table db)\<rparr>)) = Inr (x, db')
    \<longleftrightarrow> (\<exists>m. map_of (members_table db) (gid, u) = Some m \<and> u \<in> active_set db gid
         \<and> x = departed now m \<and> db' = put_member (departed now m) db)"
  using group_invD [OF assms]
  by (auto simp: put_member_def departed_def active_set_def Let_def split: option.splits if_splits)

lemma remove_member_cases:
  assumes "group_inv db" "remove_member now (gid, u) (db, fs) = (r, (db', fs'))"
  shows "db' = db \<and> isl r \<or> (\<exists>m. map_of (members_table db) (gid, u) = Some m \<and> u \<in> active_set db gid
    \<and> db' = put_member (departed now m) db)"
proof -
  obtain r1 where "not_found_as ''member not found'' (SetMemberLeft now gid u) (db, fs) = (r1, (db', fs'))" "isl r1 = isl r"
    using assms(2) by (auto simp: remove_member_def andThen_def ret_def split: prod.splits sum.splits)
  then obtain r2 where "SetMemberLeft now gid u (db, fs) = (r2, (db', fs'))" "isl r2 = isl r"
    by (auto simp: not_found_as_def split: prod.splits sum.splits)
  then show ?thesis
    unfolding SetMemberLeft_def by (auto dest!: exec_row_cases simp: SetMemberLeft_row [OF assms(1)])
qed

lemma role_constants: "MemberRoleOwner \<noteq> MemberRoleAdmin" "MemberRoleMember \<noteq> MemberRoleAdmin" "MemberRoleOwner \<noteq> MemberRoleMember"
  "MemberStatusLeft \<noteq> MemberStatusActive"
  by (simp_all add: member_consts)

text \<open>No handler makes an administrator, so the manager of a group is its creator.\<close>

lemma manager_is_creator:
  assumes "group_inv db" "ensureCanManageGroup gid u (db, fs) = (Inr m, (db', fs'))"
  shows "db' = db \<and> u \<in> active_set db gid \<and> (\<exists>g. map_of (groups_table db) gid = Some g \<and> g_CreatorAccountId g = u)"
proof -
  note e = ensureCanManageGroup_okD [OF assms(2)]
  then obtain g where "map_of (groups_table db) gid = Some g"
    "m_Role m = (if u = g_CreatorAccountId g then MemberRoleOwner else MemberRoleMember)"
    using group_invD [OF assms(1), of gid u m] by blast
  then show ?thesis using e role_constants by (auto simp: active_set_def split: if_splits)
qed

lemma kick_guard_okD:
  assumes "group_inv db" "kick_guard rg rop ru (db, fs) = (Inr k, (db', fs'))"
  shows "k = (rg, ru) \<and> rop \<noteq> ru \<and> rop \<in> active_set db rg \<and> ru \<in> active_set db rg
    \<and> (\<exists>g. map_of (groups_table db) rg = Some g \<and> g_CreatorAccountId g = rop)"
  using assms(2) unfolding kick_guard_def
  by (auto simp: runs validateRequiredID_ok active_set_def split: if_splits
      dest!: FindOne_okD manager_is_creator [OF assms(1)] activeMember_okD)

lemma leave_guard_okD:
  assumes "group_inv db" "leave_guard rg ru (db, fs) = (Inr k, (db', fs'))"
  shows "k = (rg, ru) \<and> (\<exists>g. map_of (groups_table db) rg = Some g
    \<and> (g_CreatorAccountId g = ru \<longrightarrow> ru \<in> active_set db rg \<longrightarrow> 1 < card (active_set db rg)))"
proof -
  have d: "distinct (map fst (members_table db))" using assms(1) by (simp add: group_inv_def)
  have c: "containsActiveMember (active_rows db rg) ru" if "ru \<in> active_set db rg"
    using that group_invD [OF assms(1)] map_of_SomeD
    unfolding containsActiveMember_def list_ex_iff active_rows_def active_set_def by fastforce
  show ?thesis
    using assms(2) c length_active_rows [OF d, of rg] unfolding leave_guard_def FindActiveByGroup_def
    by (auto simp: runs validateRequiredID_ok split: if_splits dest!: FindOne_okD query_okD)
qed

lemma add_guard_okD:
  "group_inv db \<Longrightarrow> add_guard rg rop ru (db, fs) = (Inr (grp, u), (db', fs')) \<Longrightarrow>
     u = (if ru = [] then rop else ru) \<and> map_of (groups_table db) rg = Some grp \<and> g_GroupId grp = rg
     \<and> (u = rop \<or> g_CreatorAccountId grp = rop)"
  unfolding add_guard_def
  by (auto simp: runs validateRequiredID_ok group_inv_def split: if_splits dest!: FindOne_okD)

lemma join_guard_okD:
  "group_inv db \<Longrightarrow> join_guard rg ru (db, fs) = (Inr (grp, u), (db', fs')) \<Longrightarrow>
     u = ru \<and> map_of (groups_table db) rg = Some grp \<and> g_GroupId grp = rg"
  unfolding join_guard_def
  by (auto simp: runs validateRequiredID_ok group_inv_def dest!: FindOne_okD)

lemma update_guard_okD:
  assumes "group_inv db" "update_guard rg rop n a d (db, fs) = (Inr (gid, name, description, op), (db', fs'))"
  shows "gid = rg \<and> rop \<in> active_set db rg \<and> (\<exists>g. map_of (groups_table db) rg = Some g \<and> g_CreatorAccountId g = rop)"
  using assms(2) unfolding update_guard_def Let_def
  by (auto simp: runs validateRequiredID_ok split: if_splits dest!: FindOne_okD manager_is_creator [OF assms(1)])

text \<open>How each handler can leave the tables, whichever way it ends.\<close>

lemma AddMember_cases:
  assumes inv: "group_inv db" and run: "AddMember now rg rop ru (db, fs) = (r, (db', fs'))"
  shows "db' = db \<or> (\<exists>g. let u = (if ru = [] then rop else ru) in map_of (groups_table db) rg = Some g
    \<and> (u = rop \<or> g_CreatorAccountId g = rop) \<and> u \<notin> active_set db rg \<and> card (active_set db rg) < maxGroupMembersV1
    \<and> db' = put_member (new_member now rg u (if g_CreatorAccountId g = u then MemberRoleOwner else MemberRoleMember)) db)"
proof -
  have d: "distinct (map fst (members_table db))" using inv by (simp add: group_inv_def)
  obtain r0 where "andThen (add_guard rg rop ru) (\<lambda>(grp, u). addActiveMember now grp u) (db, fs) = (r0, (db', fs'))"
    using with_status_run [OF run [unfolded AddMember_def]] by blast
  with readonly_guards(1) show ?thesis
  proof (rule andThen_reads)
    fix x fs1
    assume g: "add_guard rg rop ru (db, fs) = (Inr x, (db, fs1))"
      and w: "(case x of (grp, u) \<Rightarrow> addActiveMember now grp u) (db, fs1) = (r0, (db', fs'))"
    obtain grp u where x: "x = (grp, u)" by (cases x)
    have "addActiveMember now grp u (db, fs1) = (r0, (db', fs'))" using w by (simp add: x)
    note a = addActiveMember_cases [OF this, unfolded length_active_rows [OF d]] and b = add_guard_okD [OF inv g [unfolded x]]
    have "g_GroupId grp = rg" and u: "(if ru = [] then rop else ru) = u" using b by simp_all
    with a b show ?thesis unfolding Let_def u by blast
  qed simp
qed

lemma JoinGroup_cases:
  assumes inv: "group_inv db" and run: "JoinGroup now rg u (db, fs) = (r, (db', fs'))"
  shows "db' = db \<or> (\<exists>g. map_of (groups_table db) rg = Some g
    \<and> u \<notin> active_set db rg \<and> card (active_set db rg) < maxGroupMembersV1
    \<and> db' = put_member (new_member now rg u (if g_CreatorAccountId g = u then MemberRoleOwner else MemberRoleMember)) db)"
proof -
  have d: "distinct (map fst (members_table db))" using inv by (simp add: group_inv_def)
  obtain r0 where "andThen (join_guard rg u) (\<lambda>(grp, u). addActiveMember now grp u) (db, fs) = (r0, (db', fs'))"
    using with_status_run [OF run [unfolded JoinGroup_def]] by blast
  with readonly_guards(2) show ?thesis
  proof (rule andThen_reads)
    fix x fs1
    assume g: "join_guard rg u (db, fs) = (Inr x, (db, fs1))"
      and w: "(case x of (grp, u) \<Rightarrow> addActiveMember now grp u) (db, fs1) = (r0, (db', fs'))"
    obtain grp v where x: "x = (grp, v)" by (cases x)
    have "addActiveMember now grp v (db, fs1) = (r0, (db', fs'))" using w by (simp add: x)
    from addActiveMember_cases [OF this] join_guard_okD [OF inv g [unfolded x]] show ?thesis
      by (simp add: length_active_rows [OF d])
  qed simp
qed

lemma KickMember_cases:
  assumes inv: "group_inv db" and run: "KickMember now rg rop ru (db, fs) = (r, (db', fs'))"
  shows "db' = db \<and> isl r \<or> (\<exists>g m. map_of (groups_table db) rg = Some g \<and> g_CreatorAccountId g = rop \<and> rop \<noteq> ru
    \<and> rop \<in> active_set db rg \<and> ru \<in> active_set db rg
    \<and> map_of (members_table db) (rg, ru) = Some m \<and> db' = put_member (departed now m) db)"
proof -
  obtain r0 where "andThen (kick_guard rg rop ru) (remove_member now) (db, fs) = (r0, (db', fs'))" "isl r0 = isl r"
    using with_status_run [OF run [unfolded KickMember_def]] by blast
  then show ?thesis
    by (elim andThen_reads [OF readonly_guards(3)])
      (auto dest!: kick_guard_okD [OF inv] remove_member_cases [OF inv])
qed

lemma LeaveGroup_cases:
  assumes inv: "group_inv db" and run: "LeaveGroup now rg ru (db, fs) = (r, (db', fs'))"
  shows "db' = db \<and> isl r \<or> (\<exists>g m. map_of (groups_table db) rg = Some g \<and> ru \<in> active_set db rg
    \<and> (g_CreatorAccountId g = ru \<longrightarrow> 1 < card (active_set db rg))
    \<and> map_of (members_table db) (rg, ru) = Some m \<and> db' = put_member (departed now m) db)"
proof -
  obtain r0 where "andThen (leave_guard rg ru) (remove_member now) (db, fs) = (r0, (db', fs'))" "isl r0 = isl r"
    using with_status_run [OF run [unfolded LeaveGroup_def]] by blast
  then show ?thesis
    by (elim andThen_reads [OF readonly_guards(4)])
      (auto dest!: leave_guard_okD [OF inv] remove_member_cases [OF inv])
qed

lemma UpdateGroup_cases:
  assumes inv: "group_inv db" and run: "UpdateGroup now rg rop n a d (db, fs) = (r, (db', fs'))"
  shows "db' = db \<or> (\<exists>g name description. map_of (groups_table db) rg = Some g \<and> g_CreatorAccountId g = rop
    \<and> rop \<in> active_set db rg \<and> members_table db' = members_table db
    \<and> map_of (groups_table db') = (map_of (groups_table db))(rg \<mapsto>
        g\<lparr>g_Name := name, g_Description := description, g_UpdatedAt := now\<rparr>))"
proof -
  obtain r0 where "andThen (update_guard rg rop n a d) (\<lambda>(gid, name, description, operator).
       andThen (not_found_as ''group not found'' (UpdateNameDescription now gid name description)) (\<lambda>updated.
       ret (toGroup updated (memberRoleToString (m_Role operator))))) (db, fs) = (r0, (db', fs'))"
    using with_status_run [OF run [unfolded UpdateGroup_def]] by blast
  with readonly_guards(5) show ?thesis
  proof (rule andThen_reads)
    fix x fs1
    assume g: "update_guard rg rop n a d (db, fs) = (Inr x, (db, fs1))"
      and w: "(case x of (gid, name, description, operator) \<Rightarrow>
       andThen (not_found_as ''group not found'' (UpdateNameDescription now gid name description)) (\<lambda>updated.
       ret (toGroup updated (memberRoleToString (m_Role operator))))) (db, fs1) = (r0, (db', fs'))"
    obtain gid name description op where x: "x = (gid, name, description, op)" by (cases x)
    obtain r1 fs2 where "UpdateNameDescription now gid name description (db, fs1) = (r1, (db', fs2))"
      using w by (auto simp: x andThen_def not_found_as_def ret_def split: prod.splits sum.splits)
    note e = exec_row_cases [OF this [unfolded UpdateNameDescription_def]]
    from update_guard_okD [OF inv g [unfolded x]] obtain grp where k: "gid = rg" "rop \<in> active_set db rg"
      "map_of (groups_table db) rg = Some grp" "g_CreatorAccountId grp = rop" by blast
    let ?g = "grp\<lparr>g_Name := name, g_Description := description, g_UpdatedAt := now\<rparr>"
    have "db' = db \<or> db' = db\<lparr>groups_table := AList.update rg ?g (groups_table db)\<rparr>"
      using e k by (auto simp: Let_def)
    then have "db' = db \<or> members_table db' = members_table db \<and> map_of (groups_table db') = (map_of (groups_table db))(rg \<mapsto> ?g)"
      by (auto simp: update_conv')
    then show ?thesis using k by blast
  qed simp
qed

lemma create_loop:
  assumes "for_each (\<lambda>u. andThen (UpsertActiveMember now gid u (role u)) (\<lambda>_. ret ())) us (db, fs) = (Inr (), (db', fs'))"
  shows "db' = fold (\<lambda>u. put_member (new_member now gid u (role u))) us db"
  using assms
proof (induction us arbitrary: db fs)
  case (Cons u us)
  then obtain db1 fs1 m where 1: "UpsertActiveMember now gid u (role u) (db, fs) = (Inr m, (db1, fs1))"
    and 2: "for_each (\<lambda>u. andThen (UpsertActiveMember now gid u (role u)) (\<lambda>_. ret ())) us (db1, fs1) = (Inr (), (db', fs'))"
    by (auto simp: runs)
  have "db1 = put_member (new_member now gid u (role u)) db"
    using 1 unfolding UpsertActiveMember_def
    by (auto simp: put_member_def new_member_def Let_def dest!: exec_row_okD)
  then show ?case using Cons.IH [OF 2] by simp
qed (simp add: runs)

lemma group_inv_fold:
  assumes "group_inv db" "map_of (groups_table db) gid = Some g" "card (active_set db gid \<union> set us) \<le> maxGroupMembersV1"
  shows "group_inv (fold (\<lambda>u. put_member (new_member now gid u
      (if u = g_CreatorAccountId g then MemberRoleOwner else MemberRoleMember))) us db)"
  using assms
proof (induction us arbitrary: db)
  case (Cons u us)
  let ?m = "new_member now gid u (if u = g_CreatorAccountId g then MemberRoleOwner else MemberRoleMember)"
  have a: "active_set (put_member ?m db) gid = insert u (active_set db gid)"
    by (simp add: active_set_put new_member_def)
  have "insert u (active_set db gid) \<subseteq> active_set db gid \<union> set (u # us)" by auto
  from card_mono [OF _ this] Cons.prems(3) have "card (insert u (active_set db gid)) \<le> maxGroupMembersV1"
    by (simp add: finite_active_set)
  then have "group_inv (put_member ?m db)"
    using Cons.prems(1,2) a by (intro group_inv_put [where g = g]) (simp_all add: new_member_def)
  then show ?case using Cons.IH [of "put_member ?m db"] Cons.prems(2,3) a by simp
qed simp

lemma group_inv_new_group:
  assumes inv: "group_inv db" and new: "map_of (groups_table db) gid = None" "g_GroupId g = gid"
  shows "group_inv (db\<lparr>groups_table := AList.update gid g (groups_table db)\<rparr>)" (is "group_inv ?db")
    and "active_set (db\<lparr>groups_table := AList.update gid g (groups_table db)\<rparr>) gid = {}"
proof -
  have none: "map_of (members_table db) (gid, u) = None" for u
    using group_invD [OF inv, of gid u] new(1) by (cases "map_of (members_table db) (gid, u)") auto
  then show "active_set ?db gid = {}" by (simp add: active_set_def)
  have a: "active_set ?db h = active_set db h" for h by (simp add: active_set_def)
  have groups: "map_of (groups_table ?db) = (map_of (groups_table db))(gid \<mapsto> g)" by (simp add: update_conv')
  have row: "m_GroupId m = h \<and> m_AccountId m = u \<and> m_Status m \<in> {MemberStatusActive, MemberStatusLeft}
      \<and> (\<exists>g'. map_of (groups_table ?db) h = Some g' \<and> m_Role m = (if u = g_CreatorAccountId g' then MemberRoleOwner else MemberRoleMember))"
    if m: "map_of (members_table ?db) (h, u) = Some m" for h u m
  proof -
    have "h \<noteq> gid" using none m by auto
    moreover have "map_of (members_table db) (h, u) = Some m" using m by simp
    ultimately show ?thesis using inv unfolding group_inv_def groups by (metis fun_upd_other)
  qed
  have "distinct (map fst (members_table ?db))" "\<forall>h. card (active_set ?db h) \<le> maxGroupMembersV1"
    using inv by (simp_all add: group_inv_def a)
  moreover have "\<forall>h g'. map_of (groups_table ?db) h = Some g' \<longrightarrow> g_GroupId g' = h"
    using inv new(2) unfolding group_inv_def groups by simp
  ultimately show "group_inv ?db" using row unfolding group_inv_def by blast
qed

lemma keeps_lift:
  "(\<And>x. r = Inr x \<Longrightarrow> keeps I (f x)) \<Longrightarrow> keeps I (andThen (lift_result r) f)"
  by (cases r) (auto simp: keeps_def valid_def andThen_def lift_result_def ret_def raise_def split: prod.splits)

lemma keeps_CreateGroup: "keeps group_inv (CreateGroup now newID rc rn rd rms)"
proof -
  have "keeps group_inv (transact (create_body now gid name description creator us))"
    if "length us \<le> maxGroupMembersV1" for gid name description creator us
  proof (rule keeps_transact_okD)
    fix db fs x db' fs'
    assume inv: "group_inv db" and run: "create_body now gid name description creator us (db, fs) = (Inr x, (db', fs'))"
    let ?role = "\<lambda>u. if u = creator then MemberRoleOwner else MemberRoleMember"
    let ?g = "\<lparr>g_GroupId = gid, g_Name = name, g_Description = description, g_CreatorAccountId = creator,
      g_CreatedAt = now, g_UpdatedAt = now\<rparr>"
    let ?db = "db\<lparr>groups_table := AList.update gid ?g (groups_table db)\<rparr>"
    from run obtain fs1 fs2 where new: "map_of (groups_table db) gid = None"
      and l: "for_each (\<lambda>u. andThen (UpsertActiveMember now gid u (?role u)) (\<lambda>_. ret ())) us (?db, fs1) = (Inr (), (db', fs2))"
      unfolding create_body_def InsertGroup_def by (auto simp: runs Let_def split: if_splits dest!: exec_row_okD)
    have "group_inv ?db" and none: "active_set ?db gid = {}" using group_inv_new_group [OF inv new, of ?g] by simp_all
    moreover have "card (set us) \<le> maxGroupMembersV1" using that card_length [of us] by linarith
    ultimately show "group_inv db'"
      using group_inv_fold [of ?db gid ?g us now] create_loop [OF l] none by (simp add: update_conv')
  qed
  moreover have "length us \<le> maxGroupMembersV1" if "validateGroupMemberIDs c r = Inr us" for c r us
    using that by (auto simp: validateGroupMemberIDs_def Let_def split: sum.splits if_splits)
  ultimately have "keeps group_inv (andThen (lift_result (validateGroupMemberIDs c r)) (\<lambda>us.
      andThen (lift_result newID) (\<lambda>gid. andThen (transact (create_body now gid n d c us)) (\<lambda>x. ret (toGroup x [])))))" for c r n d
    by (intro keeps_lift keeps_andThen keeps_lift_result keeps_ret) blast
  note members = this
  show ?thesis
    unfolding CreateGroup_def by (rule keeps_with_status, rule keeps_lift, rule keeps_lift, rule keeps_lift, rule members)
qed

lemma group_inv_join:
  assumes "group_inv db" "map_of (groups_table db) gid = Some g" "u \<notin> active_set db gid" "card (active_set db gid) < maxGroupMembersV1"
  shows "group_inv (put_member (new_member now gid u (if g_CreatorAccountId g = u then MemberRoleOwner else MemberRoleMember)) db)"
  using assms by (intro group_inv_put [where g = g]) (auto simp: new_member_def active_set_put finite_active_set)

lemma group_inv_departed:
  assumes "group_inv db" "map_of (members_table db) (gid, u) = Some m"
  shows "group_inv (put_member (departed now m) db)"
proof -
  obtain g where m: "m_GroupId m = gid" "m_AccountId m = u" and g: "map_of (groups_table db) gid = Some g"
    and r: "m_Role m = (if u = g_CreatorAccountId g then MemberRoleOwner else MemberRoleMember)"
    using group_invD [OF assms] by blast
  have "card (active_set db gid - {u}) \<le> card (active_set db gid)" by (rule card_mono [OF finite_active_set]) auto
  moreover have "card (active_set db gid) \<le> maxGroupMembersV1" using assms(1) by (simp add: group_inv_def)
  ultimately show ?thesis
    using assms(1) m g r
    by (intro group_inv_put [where g = g]) (simp_all add: departed_def active_set_put role_constants)
qed

lemma group_inv_update:
  assumes inv: "group_inv db" and g: "map_of (groups_table db) gid = Some g" and m: "members_table db' = members_table db"
    and db': "map_of (groups_table db') = (map_of (groups_table db))(gid \<mapsto> g')"
    and g': "g_GroupId g' = g_GroupId g" "g_CreatorAccountId g' = g_CreatorAccountId g"
  shows "group_inv db'"
proof -
  have "active_set db' h = active_set db h" for h by (simp add: active_set_def m)
  moreover have "\<exists>x. map_of (groups_table db') h = Some x \<and> m_Role r = (if u = g_CreatorAccountId x then MemberRoleOwner else MemberRoleMember)"
    if "map_of (members_table db) (h, u) = Some r" for h u r
    using group_invD [OF inv that] g g' by (cases "h = gid") (auto simp: db')
  moreover have "g_GroupId g = gid" using inv g by (simp add: group_inv_def)
  ultimately show ?thesis using inv g' unfolding group_inv_def m db' by auto
qed

text \<open>
  C12: the tables of the groups service stay well-formed whatever calls fail: every member row belongs
  to an existing group, the creator and nobody else has the role of the owner (no handler appoints an
  administrator), and no group has more than 200 active members, as long as the handlers run one
  after another.
\<close>

theorem group_tables_invariant:
  assumes "group_inv db"
  shows "(CreateGroup now newID rc rn rd rms (db, fs) = (r1, (db1, fs1)) \<longrightarrow> group_inv db1)
    \<and> (AddMember now rg rop ru (db, fs) = (r2, (db2, fs2)) \<longrightarrow> group_inv db2)
    \<and> (JoinGroup now rg ru (db, fs) = (r3, (db3, fs3)) \<longrightarrow> group_inv db3)
    \<and> (KickMember now rg rop ru (db, fs) = (r4, (db4, fs4)) \<longrightarrow> group_inv db4)
    \<and> (LeaveGroup now rg ru (db, fs) = (r5, (db5, fs5)) \<longrightarrow> group_inv db5)
    \<and> (UpdateGroup now rg rop rn ra rd (db, fs) = (r6, (db6, fs6)) \<longrightarrow> group_inv db6)"
proof (intro conjI impI)
  assume "CreateGroup now newID rc rn rd rms (db, fs) = (r1, (db1, fs1))"
  then show "group_inv db1" by (rule keepsD [OF keeps_CreateGroup assms])
next
  assume "AddMember now rg rop ru (db, fs) = (r2, (db2, fs2))"
  from AddMember_cases [OF assms this] show "group_inv db2"
    using assms group_inv_join [OF assms] unfolding Let_def by blast
next
  assume "JoinGroup now rg ru (db, fs) = (r3, (db3, fs3))"
  from JoinGroup_cases [OF assms this] show "group_inv db3" using assms group_inv_join [OF assms] by blast
next
  assume "KickMember now rg rop ru (db, fs) = (r4, (db4, fs4))"
  from KickMember_cases [OF assms this] show "group_inv db4" using assms group_inv_departed [OF assms] by blast
next
  assume "LeaveGroup now rg ru (db, fs) = (r5, (db5, fs5))"
  from LeaveGroup_cases [OF assms this] show "group_inv db5" using assms group_inv_departed [OF assms] by blast
next
  assume "UpdateGroup now rg rop rn ra rd (db, fs) = (r6, (db6, fs6))"
  from UpdateGroup_cases [OF assms this] show "group_inv db6"
  proof (elim disjE exE conjE)
    fix g name description
    assume "map_of (groups_table db) rg = Some g" "members_table db6 = members_table db"
      "map_of (groups_table db6) = (map_of (groups_table db))(rg \<mapsto> g\<lparr>g_Name := name, g_Description := description, g_UpdatedAt := now\<rparr>)"
    then show ?thesis by (rule group_inv_update [OF assms]) simp_all
  qed (use assms in simp)
qed

definition empty_groups :: group_db where
  "empty_groups = \<lparr>groups_table = [], members_table = []\<rparr>"

lemma group_inv_empty: "group_inv empty_groups"
  by (simp add: group_inv_def empty_groups_def active_set_def)

theorem group_tables_invariant_witness:
  "\<exists>r db'. CreateGroup 5 (Inr ''g1'') ''a'' ''friends'' [] [''b'', ''a'', ''c''] (empty_groups, []) = (r, (db', []))
     \<and> \<not> isl r \<and> map fst (members_table db') = [(''g1'', ''a''), (''g1'', ''b''), (''g1'', ''c'')] \<and> group_inv db'"
proof -
  let ?c = "CreateGroup 5 (Inr ''g1'') ''a'' ''friends'' [] [''b'', ''a'', ''c''] (empty_groups, [])"
  have c: "isl (fst ?c) = False" "map fst (members_table (fst (snd ?c))) = [(''g1'', ''a''), (''g1'', ''b''), (''g1'', ''c'')]"
    "snd (snd ?c) = []" by code_simp+
  obtain r db' where run: "?c = (r, (db', []))" using c(3) by (metis prod.collapse)
  have "group_inv db'" by (rule group_tables_invariant [OF group_inv_empty, THEN conjunct1, rule_format, OF run])
  then show ?thesis using c run by (intro exI [of _ r] exI [of _ db']) simp
qed

text \<open>
  C13: only those who may can change who belongs to a group, whatever fails. An added account was
  added by itself or by the creator of the group; a kicked account was a member other than the
  creator, kicked by the creator, who was an active member; a leaving account only removes itself,
  and the creator does not leave while being the only member. Apart from that one account no
  membership of any group changes.
\<close>

theorem membership_changes_authorized:
  assumes "group_inv db"
  shows "(AddMember now rg rop ru (db, fs) = (r1, (db1, fs1)) \<longrightarrow> db1 = db \<or>
      (\<exists>g. let u = (if ru = [] then rop else ru) in map_of (groups_table db) rg = Some g
        \<and> (u = rop \<or> g_CreatorAccountId g = rop) \<and> groups_table db1 = groups_table db
        \<and> (\<forall>h. active_set db1 h = (if h = rg then insert u (active_set db rg) else active_set db h))))
    \<and> (KickMember now rg rop ru (db, fs) = (r2, (db2, fs2)) \<longrightarrow> db2 = db \<or>
      (\<exists>g. map_of (groups_table db) rg = Some g \<and> g_CreatorAccountId g = rop \<and> rop \<noteq> ru
        \<and> rop \<in> active_set db rg \<and> ru \<in> active_set db rg \<and> groups_table db2 = groups_table db
        \<and> (\<forall>h. active_set db2 h = (if h = rg then active_set db rg - {ru} else active_set db h))))
    \<and> (LeaveGroup now rg ru (db, fs) = (r3, (db3, fs3)) \<longrightarrow> db3 = db \<or>
      (\<exists>g. map_of (groups_table db) rg = Some g \<and> ru \<in> active_set db rg \<and> groups_table db3 = groups_table db
        \<and> (g_CreatorAccountId g = ru \<longrightarrow> active_set db3 rg \<noteq> {})
        \<and> (\<forall>h. active_set db3 h = (if h = rg then active_set db rg - {ru} else active_set db h))))"
proof (intro conjI impI)
  assume "AddMember now rg rop ru (db, fs) = (r1, (db1, fs1))"
  from AddMember_cases [OF assms this]
  show "db1 = db \<or> (\<exists>g. let u = (if ru = [] then rop else ru) in map_of (groups_table db) rg = Some g
        \<and> (u = rop \<or> g_CreatorAccountId g = rop) \<and> groups_table db1 = groups_table db
        \<and> (\<forall>h. active_set db1 h = (if h = rg then insert u (active_set db rg) else active_set db h)))"
    unfolding Let_def by (elim disjE exE conjE) (simp, rule disjI2, rule exI, auto simp: active_set_put new_member_def)
next
  assume "KickMember now rg rop ru (db, fs) = (r2, (db2, fs2))"
  from KickMember_cases [OF assms this]
  show "db2 = db \<or> (\<exists>g. map_of (groups_table db) rg = Some g \<and> g_CreatorAccountId g = rop \<and> rop \<noteq> ru
        \<and> rop \<in> active_set db rg \<and> ru \<in> active_set db rg \<and> groups_table db2 = groups_table db
        \<and> (\<forall>h. active_set db2 h = (if h = rg then active_set db rg - {ru} else active_set db h)))"
    using group_invD [OF assms, of rg ru] role_constants
    by (elim disjE exE conjE) (simp, rule disjI2, rule exI, simp add: active_set_put departed_def)
next
  assume "LeaveGroup now rg ru (db, fs) = (r3, (db3, fs3))"
  from LeaveGroup_cases [OF assms this]
  show "db3 = db \<or> (\<exists>g. map_of (groups_table db) rg = Some g \<and> ru \<in> active_set db rg \<and> groups_table db3 = groups_table db
        \<and> (g_CreatorAccountId g = ru \<longrightarrow> active_set db3 rg \<noteq> {})
        \<and> (\<forall>h. active_set db3 h = (if h = rg then active_set db rg - {ru} else active_set db h)))"
  proof (elim disjE exE conjE)
    fix g m
    assume g: "map_of (groups_table db) rg = Some g" and ru: "ru \<in> active_set db rg"
      and c: "g_CreatorAccountId g = ru \<longrightarrow> 1 < card (active_set db rg)"
      and m: "map_of (members_table db) (rg, ru) = Some m" and db3: "db3 = put_member (departed now m) db"
    have k: "m_GroupId m = rg" "m_AccountId m = ru" using group_invD [OF assms m] by simp_all
    have a: "active_set db3 h = (if h = rg then active_set db rg - {ru} else active_set db h)" for h
      using role_constants k by (simp add: db3 active_set_put departed_def)
    have "active_set db rg - {ru} \<noteq> {}" if "1 < card (active_set db rg)"
      using that ru card_Diff_singleton [OF ru] by (metis card.empty diff_is_0_eq not_le)
    then show ?thesis using g ru c a by (auto simp: db3)
  qed simp
qed

definition demo_groups :: group_db where
  "demo_groups = fst (snd (CreateGroup 5 (Inr ''g1'') ''a'' ''friends'' [] [''b'', ''a'', ''c''] (empty_groups, [])))"

lemma group_inv_demo: "group_inv demo_groups"
  using keepsD [OF keeps_CreateGroup group_inv_empty] unfolding demo_groups_def by (metis prod.collapse)

theorem membership_changes_authorized_witness:
  "\<exists>r db'. group_inv demo_groups \<and> KickMember 9 ''g1'' ''a'' ''c'' (demo_groups, []) = (r, (db', [])) \<and> \<not> isl r
     \<and> active_set db' ''g1'' = active_set demo_groups ''g1'' - {''c''}"
proof -
  let ?k = "KickMember 9 ''g1'' ''a'' ''c'' (demo_groups, [])"
  have k: "isl (fst ?k) = False" "snd (snd ?k) = []" "map (m_Status \<circ> snd) (members_table (fst (snd ?k))) = [1, 1, 2]"
    "map (m_Status \<circ> snd) (members_table demo_groups) = [1, 1, 1]" by code_simp+
  obtain r db' where run: "?k = (r, (db', []))" using k(2) by (metis prod.collapse)
  have "db' \<noteq> demo_groups" using k(3,4) run by auto
  with membership_changes_authorized [OF group_inv_demo, THEN conjunct2, THEN conjunct1, rule_format, OF run]
  have "active_set db' ''g1'' = active_set demo_groups ''g1'' - {''c''}" by auto
  then show ?thesis using k(1) run group_inv_demo by (intro exI [of _ r] exI [of _ db']) simp
qed

abbreviation valid_id :: "string \<Rightarrow> bool" where
  "valid_id v \<equiv> v \<noteq> [] \<and> rune_count v \<le> 64"

lemma guard_ids:
  "join_guard rg ru W = (Inr k, W') \<Longrightarrow> valid_id rg \<and> valid_id ru"
  "add_guard rg rop ru W = (Inr k, W') \<Longrightarrow> valid_id rg \<and> (ru \<noteq> [] \<longrightarrow> valid_id ru)"
  "leave_guard rg ru W = (Inr j, W') \<Longrightarrow> valid_id rg \<and> valid_id ru"
  "kick_guard rg rop ru W = (Inr j, W') \<Longrightarrow> valid_id rg \<and> valid_id ru"
  unfolding join_guard_def add_guard_def leave_guard_def kick_guard_def
  by (auto simp: runs validateRequiredID_ok split: if_splits)

lemma IsMember_eq:
  assumes "valid_id g" "valid_id u"
  shows "IsMember g u (db, []) = (Inr (u \<in> active_set db g), (db, []))"
proof -
  have v: "validateRequiredID g ''group_id'' = Inr g" "validateRequiredID u ''user_id'' = Inr u"
    using assms by (simp_all add: validateRequiredID_ok)
  show ?thesis
    by (cases "map_of (members_table db) (g, u)")
      (auto simp: IsMember_def v with_status_def andThen_def lift_result_def ret_def raise_def found_def
        FindOneByGroupIdAccountId_def query_def active_set_def)
qed

lemma addActiveMember_okD:
  assumes "addActiveMember now grp u (db, fs) = (Inr x, (db', fs'))"
  shows "u \<in> active_set db' (g_GroupId grp)"
proof -
  obtain d db1 fs1 where d: "add_decide grp u (db, fs) = (Inr d, (db1, fs1))" and a: "add_apply now grp u d (db1, fs1) = (Inr x, (db', fs'))"
    using assms unfolding addActiveMember_def by (auto simp: runs)
  show ?thesis
  proof (cases d)
    case (Inl m)
    then have "u \<in> active_set db1 (g_GroupId grp)"
      using d unfolding add_decide_def FindOneByGroupIdAccountId_def FindActiveByGroup_def
      by (auto simp: runs active_set_def split: option.splits if_splits dest!: found_query_okD query_okD)
    then show ?thesis using a Inl by (simp add: add_apply_def runs)
  next
    case (Inr role)
    then have "db' = put_member (new_member now (g_GroupId grp) u role) db1"
      using a unfolding add_apply_def UpsertActiveMember_def
      by (auto simp: runs put_member_def new_member_def Let_def dest!: exec_row_okD)
    then show ?thesis by (simp add: active_set_put new_member_def)
  qed
qed

lemma removed_inactive:
  assumes "group_inv db" "map_of (members_table db) (gid, u) = Some m"
  shows "u \<notin> active_set (put_member (departed now m) db) gid"
  using group_invD [OF assms] role_constants by (simp add: active_set_put departed_def)

lemma active_rows_users:
  assumes "group_inv db"
  shows "m_AccountId ` set (active_rows db gid) = active_set db gid"
proof -
  have d: "distinct (map fst (members_table db))" using assms by (simp add: group_inv_def)
  have "set (active_rows db gid) = {m. \<exists>u. map_of (members_table db) (gid, u) = Some m \<and> m_Status m = MemberStatusActive}"
    using d by (auto simp: active_rows_def image_iff)
  then show ?thesis using group_invD [OF assms, of gid] by (fastforce simp: active_set_def image_iff)
qed

text \<open>
  C14: what the handlers report and what \<^verbatim>\<open>IsMember\<close> says agree: after a successful join or addition the
  account is a member, after a successful leave or kick it is not, and \<^verbatim>\<open>ListMembers\<close> returns exactly
  the active members.
\<close>

theorem membership_reported:
  assumes inv: "group_inv db"
  shows "(JoinGroup now g u (db, fs) = (Inr x1, (db1, fs1)) \<longrightarrow> IsMember g u (db1, []) = (Inr True, (db1, [])))
    \<and> (AddMember now g p u (db, fs) = (Inr x2, (db2, fs2)) \<longrightarrow> u \<noteq> [] \<longrightarrow> IsMember g u (db2, []) = (Inr True, (db2, [])))
    \<and> (LeaveGroup now g u (db, fs) = (Inr x3, (db3, fs3)) \<longrightarrow> IsMember g u (db3, []) = (Inr False, (db3, [])))
    \<and> (KickMember now g p u (db, fs) = (Inr x4, (db4, fs4)) \<longrightarrow> IsMember g u (db4, []) = (Inr False, (db4, [])))
    \<and> (ListMembers g q (db, fs) = (Inr (g', ms), (db5, fs5)) \<longrightarrow> mr_UserId ` set ms = active_set db g \<and> g' = g \<and> db5 = db)"
proof (intro conjI impI)
  assume "JoinGroup now g u (db, fs) = (Inr x1, (db1, fs1))"
  then obtain grp v fs2 where a: "join_guard g u (db, fs) = (Inr (grp, v), (db, fs2))" "addActiveMember now grp v (db, fs2) = (Inr x1, (db1, fs1))"
    unfolding JoinGroup_def using readonlyD [OF readonly_guards(2)] by (auto simp: runs) blast
  have "v = u" "g_GroupId grp = g" using join_guard_okD [OF inv a(1)] by simp_all
  then have "u \<in> active_set db1 g" using addActiveMember_okD [OF a(2)] by simp
  then show "IsMember g u (db1, []) = (Inr True, (db1, []))"
    using guard_ids(1) [OF a(1)] IsMember_eq by simp
next
  assume "AddMember now g p u (db, fs) = (Inr x2, (db2, fs2))" and u: "u \<noteq> []"
  then obtain grp v fs3 where a: "add_guard g p u (db, fs) = (Inr (grp, v), (db, fs3))" "addActiveMember now grp v (db, fs3) = (Inr x2, (db2, fs2))"
    unfolding AddMember_def using readonlyD [OF readonly_guards(1)] by (auto simp: runs) blast
  have "v = u" "g_GroupId grp = g" using add_guard_okD [OF inv a(1)] u by simp_all
  then have "u \<in> active_set db2 g" using addActiveMember_okD [OF a(2)] by simp
  then show "IsMember g u (db2, []) = (Inr True, (db2, []))"
    using guard_ids(2) [OF a(1)] u IsMember_eq by simp
next
  assume r: "LeaveGroup now g u (db, fs) = (Inr x3, (db3, fs3))"
  then have "u \<notin> active_set db3 g" using LeaveGroup_cases [OF inv r] removed_inactive [OF inv] by auto
  moreover have "valid_id g \<and> valid_id u" using r unfolding LeaveGroup_def by (auto simp: runs dest!: guard_ids(3))
  ultimately show "IsMember g u (db3, []) = (Inr False, (db3, []))" using IsMember_eq by simp
next
  assume r: "KickMember now g p u (db, fs) = (Inr x4, (db4, fs4))"
  then have "u \<notin> active_set db4 g" using KickMember_cases [OF inv r] removed_inactive [OF inv] by auto
  moreover have "valid_id g \<and> valid_id u" using r unfolding KickMember_def by (auto simp: runs dest!: guard_ids(4))
  ultimately show "IsMember g u (db4, []) = (Inr False, (db4, []))" using IsMember_eq by simp
next
  assume "ListMembers g q (db, fs) = (Inr (g', ms), (db5, fs5))"
  then have "g' = g" "db5 = db" and ms: "ms = map toGroupMember (active_rows db g)"
    unfolding ListMembers_def FindActiveByGroup_def
    by (auto simp: runs validateRequiredID_ok split: if_splits dest!: FindOne_okD query_okD)
  moreover have "mr_UserId \<circ> toGroupMember = m_AccountId" by (simp add: toGroupMember_def fun_eq_iff)
  then have "mr_UserId ` set ms = m_AccountId ` set (active_rows db g)" by (simp add: ms image_comp)
  ultimately show "mr_UserId ` set ms = active_set db g" "g' = g" "db5 = db" using active_rows_users [OF inv] by simp_all
qed

theorem membership_reported_witness:
  "\<exists>x db'. JoinGroup 9 ''g1'' ''d'' (demo_groups, []) = (Inr x, (db', [])) \<and> IsMember ''g1'' ''d'' (db', []) = (Inr True, (db', []))"
proof -
  let ?k = "JoinGroup 9 ''g1'' ''d'' (demo_groups, [])"
  have k: "isl (fst ?k) = False" "snd (snd ?k) = []" by code_simp+
  obtain x db' where run: "?k = (Inr x, (db', []))" using k by (metis prod.collapse isl_def sum.exhaust)
  from membership_reported [OF group_inv_demo, THEN conjunct1, rule_format, OF run] run show ?thesis by blast
qed

section \<open>Joining at the same time\<close>

lemma add_decide_clean:
  assumes inv: "group_inv db" and g: "g_GroupId grp = gid" and u: "u \<notin> active_set db gid" and c: "card (active_set db gid) < maxGroupMembersV1"
  shows "add_decide grp u (db, []) = (Inr (Inr (if g_CreatorAccountId grp = u then MemberRoleOwner else MemberRoleMember)), (db, []))"
proof -
  have d: "distinct (map fst (members_table db))" using inv by (simp add: group_inv_def)
  have f: "\<not> (case map_of (members_table db) (gid, u) of Some m \<Rightarrow> m_Status m = MemberStatusActive | None \<Rightarrow> False)"
    using u by (auto simp: active_set_def split: option.splits)
  have "found (FindOneByGroupIdAccountId gid u) (db, []) = (Inr (map_of (members_table db) (gid, u)), (db, []))"
    by (cases "map_of (members_table db) (gid, u)")
      (simp_all add: found_def FindOneByGroupIdAccountId_def query_def andThen_def ret_def raise_def)
  moreover have "FindActiveByGroup gid (db, []) = (Inr (active_rows db gid), (db, []))"
    by (simp add: FindActiveByGroup_def query_def andThen_def ret_def)
  ultimately show ?thesis
    using f c length_active_rows [OF d, of gid] by (simp add: add_decide_def andThen_def g ret_def)
qed

lemma add_apply_clean:
  "add_apply now grp u (Inr role) (db, []) =
     (Inr (toGroupMember (new_member now (g_GroupId grp) u role), False), (put_member (new_member now (g_GroupId grp) u role) db, []))"
  by (simp add: add_apply_def UpsertActiveMember_def exec_row_def andThen_def ret_def Let_def put_member_def new_member_def)

text \<open>
  C16: the limit of 200 members holds only while the handlers do not overlap. \<^verbatim>\<open>addActiveMember\<close> counts the
  members and inserts the new one in separate statements without a transaction or a lock: when the
  group has 199 members and two accounts join at the same time, both counts are taken before either
  insert, both joins succeed, and the group has 201 members.
\<close>

theorem concurrent_joins_exceed_limit:
  assumes inv: "group_inv db" and g: "map_of (groups_table db) gid = Some grp"
    and new: "a \<noteq> b" "a \<notin> active_set db gid" "b \<notin> active_set db gid" and size: "card (active_set db gid) = 199"
  shows "\<exists>da dec x db1 y db2. add_decide grp a (db, []) = (Inr da, (db, [])) \<and> add_decide grp b (db, []) = (Inr dec, (db, []))
    \<and> add_apply now grp a da (db, []) = (Inr x, (db1, [])) \<and> add_apply now grp b dec (db1, []) = (Inr y, (db2, []))
    \<and> card (active_set db2 gid) = 201"
proof -
  have gid: "g_GroupId grp = gid" using inv g by (simp add: group_inv_def)
  let ?r = "\<lambda>u. if g_CreatorAccountId grp = u then MemberRoleOwner else MemberRoleMember"
  let ?m = "\<lambda>u. new_member now gid u (?r u)"
  have room: "card (active_set db gid) < maxGroupMembersV1" by (simp add: size maxGroupMembersV1_def)
  have "active_set (put_member (?m b) (put_member (?m a) db)) gid = insert b (insert a (active_set db gid))"
    by (simp add: active_set_put new_member_def)
  then have "card (active_set (put_member (?m b) (put_member (?m a) db)) gid) = 201"
    using new size by (simp add: finite_active_set)
  then show ?thesis
    using add_decide_clean [OF inv gid new(2) room] add_decide_clean [OF inv gid new(3) room]
      add_apply_clean [of now grp] unfolding gid by blast
qed

definition full_but_one :: group_db where
  "full_but_one =
     \<lparr>groups_table = [(''g1'', \<lparr>g_GroupId = ''g1'', g_Name = ''n'', g_Description = [], g_CreatorAccountId = ''x'',
        g_CreatedAt = 0, g_UpdatedAt = 0\<rparr>)],
      members_table = map (\<lambda>i. ((''g1'', replicate i CHR ''m''), new_member 0 ''g1'' (replicate i CHR ''m'') MemberRoleMember)) [0..<199]\<rparr>"

lemma full_but_one_rows:
  "map_of (members_table full_but_one) (g, u) =
     (if g = ''g1'' \<and> u \<in> (\<lambda>i. replicate i CHR ''m'') ` {0..<199} then Some (new_member 0 ''g1'' u MemberRoleMember) else None)"
proof -
  have "map_of (map (\<lambda>i. ((''g1'', replicate i CHR ''m''), new_member 0 ''g1'' (replicate i CHR ''m'') MemberRoleMember)) is) (g, u)
      = (if g = ''g1'' \<and> u \<in> (\<lambda>i. replicate i CHR ''m'') ` set is then Some (new_member 0 ''g1'' u MemberRoleMember) else None)" for "is"
    by (induction "is") auto
  then show ?thesis by (simp add: full_but_one_def)
qed

lemma full_but_one_active: "active_set full_but_one g = (if g = ''g1'' then (\<lambda>i. replicate i CHR ''m'') ` {0..<199} else {})"
  by (auto simp: active_set_def full_but_one_rows new_member_def)

lemma replicate_inj: "inj_on (\<lambda>i. replicate i c) S"
  by (rule inj_onI) (metis length_replicate)

lemma not_ms: "''x'' \<noteq> replicate i CHR ''m''" "''y'' \<noteq> replicate i CHR ''m''" "''z'' \<noteq> replicate i CHR ''m''"
  by (cases i; simp)+

lemma group_inv_full_but_one: "group_inv full_but_one" "card (active_set full_but_one ''g1'') = 199"
proof -
  show c: "card (active_set full_but_one ''g1'') = 199" by (simp add: full_but_one_active card_image replicate_inj)
  have "distinct (map (\<lambda>i. (''g1'', replicate i CHR ''m'')) [0..<199])"
    unfolding distinct_map using replicate_inj [of "CHR ''m''"] by (auto simp: inj_on_def)
  then have "distinct (map fst (members_table full_but_one))" by (simp add: full_but_one_def comp_def)
  moreover have "card (active_set full_but_one g) \<le> maxGroupMembersV1" for g
    using c by (cases "g = ''g1''") (simp_all add: full_but_one_active maxGroupMembersV1_def)
  ultimately show "group_inv full_but_one"
    unfolding group_inv_def full_but_one_rows by (auto simp: full_but_one_def new_member_def not_ms not_ms [symmetric])
qed

theorem concurrent_joins_exceed_limit_witness:
  "\<exists>grp da dec x db1 y db2. add_decide grp ''y'' (full_but_one, []) = (Inr da, (full_but_one, []))
    \<and> add_decide grp ''z'' (full_but_one, []) = (Inr dec, (full_but_one, []))
    \<and> add_apply 9 grp ''y'' da (full_but_one, []) = (Inr x, (db1, [])) \<and> add_apply 9 grp ''z'' dec (db1, []) = (Inr y, (db2, []))
    \<and> card (active_set db2 ''g1'') = 201"
proof -
  obtain grp where g: "map_of (groups_table full_but_one) ''g1'' = Some grp" by (simp add: full_but_one_def)
  have "''y'' \<notin> active_set full_but_one ''g1''" "''z'' \<notin> active_set full_but_one ''g1''"
    by (auto simp: full_but_one_active not_ms)
  moreover have "''y'' \<noteq> ''z''" by simp
  ultimately show ?thesis
    by (intro exI [of _ grp] concurrent_joins_exceed_limit [OF group_inv_full_but_one(1) g _ _ _ group_inv_full_but_one(2)])
qed

end
