(* ===== verification/Friends.thy ===== *)
theory Friends
  imports Infra "HOL-Library.AList"
begin

text \<open>
  The friends service (\<^verbatim>\<open>service/friends/rpc/internal\<close>). A friendship is kept as two directed rows;
  the handlers change both in one transaction. The specification knows neither rows nor directions:
  a set of pairs of friends and a set of open requests. A handler takes \<open>now\<close>, the timestamp of its
  transaction; times are kept as numbers, not as their RFC 3339 text.
\<close>

section \<open>Table\<close>

record Friendships =
  f_AccountId :: string
  f_FriendAccountId :: string
  f_Status :: int
  f_CreatedAt :: int
  f_UpdatedAt :: int

record friend_db =
  friendships :: "((string \<times> string) \<times> Friendships) list"

definition FriendshipStatusPending :: int where "FriendshipStatusPending = 1"
definition FriendshipStatusAccepted :: int where "FriendshipStatusAccepted = 2"
definition FriendshipStatusRejected :: int where "FriendshipStatusRejected = 3"
definition FriendshipStatusDeleted :: int where "FriendshipStatusDeleted = 4"

lemmas status_consts =
  FriendshipStatusPending_def FriendshipStatusAccepted_def FriendshipStatusRejected_def FriendshipStatusDeleted_def

text \<open>\<^verbatim>\<open>FindOneByAccountIdFriendAccountId\<close> is the same query without the row lock.\<close>

definition FindPairForUpdate :: "string \<Rightarrow> string \<Rightarrow> (friend_db, Friendships) act" where
  "FindPairForUpdate accountID friendID =
     query (\<lambda>db. case map_of (friendships db) (accountID, friendID) of None \<Rightarrow> Inl ErrNotFound | Some r \<Rightarrow> Inr r)"

definition put_row :: "Friendships \<Rightarrow> friend_db \<Rightarrow> friend_db" where
  "put_row r db = db\<lparr>friendships := AList.update (f_AccountId r, f_FriendAccountId r) r (friendships db)\<rparr>"

definition UpsertStatus :: "int \<Rightarrow> string \<Rightarrow> string \<Rightarrow> int \<Rightarrow> (friend_db, Friendships) act" where
  "UpsertStatus now accountID friendID status =
     exec_row (\<lambda>db. let r = \<lparr>f_AccountId = accountID, f_FriendAccountId = friendID, f_Status = status,
                            f_CreatedAt = now, f_UpdatedAt = now\<rparr>
                    in Inr (r, put_row r db))"

definition EnsureAccepted :: "int \<Rightarrow> string \<Rightarrow> string \<Rightarrow> (friend_db, Friendships) act" where
  "EnsureAccepted now accountID friendID =
     exec_row (\<lambda>db. let created = (case map_of (friendships db) (accountID, friendID) of Some r \<Rightarrow> f_CreatedAt r | None \<Rightarrow> now);
                        r = \<lparr>f_AccountId = accountID, f_FriendAccountId = friendID, f_Status = FriendshipStatusAccepted,
                            f_CreatedAt = created, f_UpdatedAt = now\<rparr>
                    in Inr (r, put_row r db))"

definition mark_deleted :: "int \<Rightarrow> Friendships \<Rightarrow> string \<Rightarrow> string \<Rightarrow> friend_db \<Rightarrow> friend_db" where
  "mark_deleted now r accountID friendID db =
     db\<lparr>friendships := AList.update (accountID, friendID) (r\<lparr>f_Status := FriendshipStatusDeleted, f_UpdatedAt := now\<rparr>) (friendships db)\<rparr>"

definition MarkAcceptedDeleted :: "int \<Rightarrow> string \<Rightarrow> string \<Rightarrow> (friend_db, Friendships) act" where
  "MarkAcceptedDeleted now accountID friendID =
     exec_row (\<lambda>db. case map_of (friendships db) (accountID, friendID) of
         None \<Rightarrow> Inl ErrNotFound
       | Some r \<Rightarrow> if f_Status r \<noteq> FriendshipStatusAccepted then Inl ErrNotFound
                   else Inr (r\<lparr>f_Status := FriendshipStatusDeleted, f_UpdatedAt := now\<rparr>, mark_deleted now r accountID friendID db))"

definition MarkAcceptedDeletedSilent :: "int \<Rightarrow> string \<Rightarrow> string \<Rightarrow> (friend_db, unit) act" where
  "MarkAcceptedDeletedSilent now accountID friendID =
     stmt (\<lambda>db. case map_of (friendships db) (accountID, friendID) of
         None \<Rightarrow> Inr db
       | Some r \<Rightarrow> if f_Status r \<noteq> FriendshipStatusAccepted then Inr db else Inr (mark_deleted now r accountID friendID db))"

definition ListByAccountStatus :: "string \<Rightarrow> int \<Rightarrow> (friend_db, Friendships list) act" where
  "ListByAccountStatus accountID status =
     query (\<lambda>db. Inr (sort_key f_FriendAccountId
       (map snd (filter (\<lambda>(k, r). fst k = accountID \<and> f_Status r = status) (friendships db)))))"

definition ListByFriendStatus :: "string \<Rightarrow> int \<Rightarrow> (friend_db, Friendships list) act" where
  "ListByFriendStatus friendID status =
     query (\<lambda>db. Inr (sort_key f_AccountId
       (map snd (filter (\<lambda>(k, r). snd k = friendID \<and> f_Status r = status) (friendships db)))))"

section \<open>Rules and views\<close>

definition friendshipStatusNone :: string where "friendshipStatusNone = ''none''"

definition statusToString :: "int \<Rightarrow> string" where
  "statusToString status =
     (if status = FriendshipStatusAccepted then ''accepted''
      else if status = FriendshipStatusRejected then ''rejected''
      else if status = FriendshipStatusDeleted then ''deleted''
      else ''pending'')"

definition validateRequiredID :: "string \<Rightarrow> string \<Rightarrow> string result" where
  "validateRequiredID v field =
     (if v = [] then Inl (InvalidArgument (field @ '' is required''))
      else if rune_count v > 64 then Inl (InvalidArgument (field @ '' must be 64 characters or fewer''))
      else Inr v)"

definition validateFriendshipPair :: "string \<Rightarrow> string \<Rightarrow> (string \<times> string) result" where
  "validateFriendshipPair userID friendID =
     (case validateRequiredID userID ''user_id'' of Inl e \<Rightarrow> Inl e | Inr _ \<Rightarrow>
      case validateRequiredID friendID ''friend_id'' of Inl e \<Rightarrow> Inl e | Inr _ \<Rightarrow>
      if userID = friendID then Inl (InvalidArgument ''user_id and friend_id must be different'')
      else Inr (userID, friendID))"

record Friendship =
  fr_UserId :: string
  fr_FriendId :: string
  fr_Status :: string
  fr_IsFriend :: bool
  fr_CreatedAt :: "int option"
  fr_UpdatedAt :: "int option"

definition friendshipView :: "string \<Rightarrow> string \<Rightarrow> int \<Rightarrow> int \<Rightarrow> int \<Rightarrow> Friendship" where
  "friendshipView userID friendID status createdAt updatedAt =
     \<lparr>fr_UserId = userID, fr_FriendId = friendID, fr_Status = statusToString status,
      fr_IsFriend = (status = FriendshipStatusAccepted), fr_CreatedAt = Some createdAt, fr_UpdatedAt = Some updatedAt\<rparr>"

definition toFriendship :: "Friendships \<Rightarrow> Friendship" where
  "toFriendship r = friendshipView (f_AccountId r) (f_FriendAccountId r) (f_Status r) (f_CreatedAt r) (f_UpdatedAt r)"

definition noneFriendship :: "string \<Rightarrow> string \<Rightarrow> Friendship" where
  "noneFriendship userID friendID =
     \<lparr>fr_UserId = userID, fr_FriendId = friendID, fr_Status = friendshipStatusNone, fr_IsFriend = False,
      fr_CreatedAt = None, fr_UpdatedAt = None\<rparr>"

section \<open>Handlers\<close>

text \<open>
  The transaction of \<^verbatim>\<open>AddFriend\<close>: what its reads decide (the row that is already there, or whether the
  other side has an open request), and its writes.
\<close>

definition friend_decide :: "string \<Rightarrow> string \<Rightarrow> (friend_db, Friendships + bool) act" where
  "friend_decide userID friendID =
     andThen (found (FindPairForUpdate userID friendID)) (\<lambda>existing.
       if (case existing of Some r \<Rightarrow> f_Status r = FriendshipStatusAccepted \<or> f_Status r = FriendshipStatusPending | None \<Rightarrow> False)
       then ret (Inl (the existing))
       else andThen (found (FindPairForUpdate friendID userID)) (\<lambda>reverse.
         ret (Inr (case reverse of Some r \<Rightarrow> f_Status r = FriendshipStatusPending | None \<Rightarrow> False))))"

definition friend_apply :: "int \<Rightarrow> string \<Rightarrow> string \<Rightarrow> Friendships + bool \<Rightarrow> (friend_db, Friendships \<times> bool) act" where
  "friend_apply now userID friendID d =
     (case d of
        Inl existing \<Rightarrow> ret (existing, False)
      | Inr True \<Rightarrow>
          andThen (UpsertStatus now userID friendID FriendshipStatusAccepted) (\<lambda>accepted.
          andThen (UpsertStatus now friendID userID FriendshipStatusAccepted) (\<lambda>_.
          ret (accepted, True)))
      | Inr False \<Rightarrow>
          andThen (UpsertStatus now userID friendID FriendshipStatusPending) (\<lambda>pending.
          ret (pending, True)))"

definition AddFriend :: "int \<Rightarrow> string \<Rightarrow> string \<Rightarrow> (friend_db, Friendship \<times> bool) act" where
  "AddFriend now rawUser rawFriend =
     with_status (
     andThen (lift_result (validateFriendshipPair rawUser rawFriend)) (\<lambda>(userID, friendID).
     andThen (transact (andThen (friend_decide userID friendID) (friend_apply now userID friendID))) (\<lambda>(row, created).
     ret (toFriendship row, created))))"

definition decide_body :: "int \<Rightarrow> string \<Rightarrow> string \<Rightarrow> int \<Rightarrow> (friend_db, Friendships) act" where
  "decide_body now userID requesterID newStatus =
     andThen (not_found_as ''friend request not found'' (FindPairForUpdate requesterID userID)) (\<lambda>incoming.
       if f_Status incoming \<noteq> FriendshipStatusPending then raise (NotFound ''friend request not found'')
       else andThen (UpsertStatus now requesterID userID newStatus) (\<lambda>_.
            UpsertStatus now userID requesterID newStatus))"

definition decideFriendRequest :: "int \<Rightarrow> string \<Rightarrow> string \<Rightarrow> int \<Rightarrow> (friend_db, Friendships) act" where
  "decideFriendRequest now userID requesterID newStatus = transact (decide_body now userID requesterID newStatus)"

definition AcceptFriendRequest :: "int \<Rightarrow> string \<Rightarrow> string \<Rightarrow> (friend_db, Friendship) act" where
  "AcceptFriendRequest now rawUser rawFriend =
     with_status (
     andThen (lift_result (validateFriendshipPair rawUser rawFriend)) (\<lambda>(userID, requesterID).
     andThen (decideFriendRequest now userID requesterID FriendshipStatusAccepted) (\<lambda>row. ret (toFriendship row))))"

definition RejectFriendRequest :: "int \<Rightarrow> string \<Rightarrow> string \<Rightarrow> (friend_db, Friendship) act" where
  "RejectFriendRequest now rawUser rawFriend =
     with_status (
     andThen (lift_result (validateFriendshipPair rawUser rawFriend)) (\<lambda>(userID, requesterID).
     andThen (decideFriendRequest now userID requesterID FriendshipStatusRejected) (\<lambda>row. ret (toFriendship row))))"

definition delete_body :: "int \<Rightarrow> string \<Rightarrow> string \<Rightarrow> (friend_db, Friendships) act" where
  "delete_body now userID friendID =
     andThen (not_found_as ''friendship not found'' (MarkAcceptedDeleted now userID friendID)) (\<lambda>deleted.
     andThen (MarkAcceptedDeletedSilent now friendID userID) (\<lambda>_. ret deleted))"

definition DeleteFriend :: "int \<Rightarrow> string \<Rightarrow> string \<Rightarrow> (friend_db, Friendship) act" where
  "DeleteFriend now rawUser rawFriend =
     with_status (
     andThen (lift_result (validateFriendshipPair rawUser rawFriend)) (\<lambda>(userID, friendID).
     andThen (transact (delete_body now userID friendID)) (\<lambda>row. ret (toFriendship row))))"

definition ensure_body :: "int \<Rightarrow> string \<Rightarrow> string \<Rightarrow> (friend_db, Friendships) act" where
  "ensure_body now userID friendID =
     andThen (EnsureAccepted now userID friendID) (\<lambda>row.
     andThen (EnsureAccepted now friendID userID) (\<lambda>_. ret row))"

definition EnsureFriendship :: "int \<Rightarrow> string \<Rightarrow> string \<Rightarrow> (friend_db, Friendship) act" where
  "EnsureFriendship now rawUser rawFriend =
     with_status (
     andThen (lift_result (validateFriendshipPair rawUser rawFriend)) (\<lambda>(userID, friendID).
     andThen (transact (ensure_body now userID friendID)) (\<lambda>row. ret (toFriendship row))))"

definition GetFriendship :: "string \<Rightarrow> string \<Rightarrow> (friend_db, Friendship) act" where
  "GetFriendship rawUser rawFriend =
     with_status (
     andThen (lift_result (validateFriendshipPair rawUser rawFriend)) (\<lambda>(userID, friendID).
     andThen (found (FindPairForUpdate userID friendID)) (\<lambda>r. case r of
         Some row \<Rightarrow> ret (toFriendship row)
       | None \<Rightarrow>
           andThen (found (FindPairForUpdate friendID userID)) (\<lambda>reverse. case reverse of
               Some row \<Rightarrow> if f_Status row = FriendshipStatusPending
                           then ret (friendshipView userID friendID FriendshipStatusPending (f_CreatedAt row) (f_UpdatedAt row))
                           else ret (noneFriendship userID friendID)
             | None \<Rightarrow> ret (noneFriendship userID friendID)))))"

definition ListFriends :: "string \<Rightarrow> (friend_db, Friendship list) act" where
  "ListFriends rawUser =
     with_status (
     andThen (lift_result (validateRequiredID rawUser ''user_id'')) (\<lambda>_.
     andThen (ListByAccountStatus rawUser FriendshipStatusAccepted) (\<lambda>rows. ret (map toFriendship rows))))"

definition ListFriendRequests :: "string \<Rightarrow> (friend_db, Friendship list \<times> Friendship list) act" where
  "ListFriendRequests rawUser =
     with_status (
     andThen (lift_result (validateRequiredID rawUser ''user_id'')) (\<lambda>_.
     andThen (ListByFriendStatus rawUser FriendshipStatusPending) (\<lambda>incomingRows.
     andThen (ListByAccountStatus rawUser FriendshipStatusPending) (\<lambda>outgoingRows.
     ret (map toFriendship incomingRows, map toFriendship outgoingRows)))))"

section \<open>Specification\<close>

record friend_spec =
  friends :: "string set set"
  requests :: "(string \<times> string) set"

definition befriend :: "string \<Rightarrow> string \<Rightarrow> friend_spec \<Rightarrow> friend_spec" where
  "befriend a b S = S\<lparr>friends := insert {a, b} (friends S), requests := requests S - {(a, b), (b, a)}\<rparr>"

definition spec_add :: "string \<Rightarrow> string \<Rightarrow> friend_spec \<Rightarrow> friend_spec" where
  "spec_add u f S =
     (if {u, f} \<in> friends S \<or> (u, f) \<in> requests S then S
      else if (f, u) \<in> requests S then befriend u f S
      else S\<lparr>requests := insert (u, f) (requests S)\<rparr>)"

definition spec_reject :: "string \<Rightarrow> string \<Rightarrow> friend_spec \<Rightarrow> friend_spec" where
  "spec_reject u f S = S\<lparr>requests := requests S - {(u, f), (f, u)}\<rparr>"

definition spec_delete :: "string \<Rightarrow> string \<Rightarrow> friend_spec \<Rightarrow> friend_spec" where
  "spec_delete u f S = S\<lparr>friends := friends S - {{u, f}}\<rparr>"

text \<open>The abstraction, and the invariant under which it is exact.\<close>

definition status_of :: "friend_db \<Rightarrow> string \<times> string \<Rightarrow> int option" where
  "status_of db k = map_option f_Status (map_of (friendships db) k)"

definition abs_friends :: "friend_db \<Rightarrow> friend_spec" where
  "abs_friends db =
     \<lparr>friends = {{a, b} |a b. status_of db (a, b) = Some FriendshipStatusAccepted},
      requests = {(a, b). status_of db (a, b) = Some FriendshipStatusPending}\<rparr>"

definition friend_inv :: "friend_db \<Rightarrow> bool" where
  "friend_inv db \<longleftrightarrow>
     (\<forall>a b r. map_of (friendships db) (a, b) = Some r \<longrightarrow> f_AccountId r = a \<and> f_FriendAccountId r = b)
     \<and> distinct (map fst (friendships db))
     \<and> (\<forall>a b. status_of db (a, b) = Some FriendshipStatusAccepted \<longrightarrow> status_of db (b, a) = Some FriendshipStatusAccepted)"

section \<open>Effects on the table\<close>

definition friend_rows :: "friend_db \<Rightarrow> bool" where
  "friend_rows db \<longleftrightarrow>
     (\<forall>a b r. map_of (friendships db) (a, b) = Some r \<longrightarrow> f_AccountId r = a \<and> f_FriendAccountId r = b)
     \<and> distinct (map fst (friendships db))"

definition symmetric :: "(string \<times> string \<Rightarrow> int option) \<Rightarrow> bool" where
  "symmetric st \<longleftrightarrow> (\<forall>a b. st (a, b) = Some FriendshipStatusAccepted \<longrightarrow> st (b, a) = Some FriendshipStatusAccepted)"

lemma friend_inv_split: "friend_inv db \<longleftrightarrow> friend_rows db \<and> symmetric (status_of db)"
  by (simp add: friend_inv_def friend_rows_def symmetric_def)

text \<open>One directed status changes.\<close>

definition restatus :: "string \<times> string \<Rightarrow> int \<Rightarrow> friend_db \<Rightarrow> friend_db \<Rightarrow> bool" where
  "restatus k s db db' \<longleftrightarrow> (friend_rows db \<longrightarrow> friend_rows db') \<and> status_of db' = (status_of db)(k \<mapsto> s)"

lemma restatus_put_row: "restatus (f_AccountId r, f_FriendAccountId r) (f_Status r) db (put_row r db)"
  by (auto simp: restatus_def friend_rows_def put_row_def status_of_def update_conv' distinct_update)

lemma restatus_mark_deleted:
  "map_of (friendships db) (a, b) = Some r \<Longrightarrow> restatus (a, b) FriendshipStatusDeleted db (mark_deleted now r a b db)"
  by (auto simp: restatus_def friend_rows_def mark_deleted_def status_of_def update_conv' distinct_update)

lemma UpsertStatus_okD: "UpsertStatus now a b s (db, fs) = (Inr r, (db', fs')) \<Longrightarrow> restatus (a, b) s db db' \<and> f_Status r = s"
  unfolding UpsertStatus_def by (auto simp: Let_def dest!: exec_row_okD)
    (use restatus_put_row [of "\<lparr>f_AccountId = a, f_FriendAccountId = b, f_Status = s, f_CreatedAt = now, f_UpdatedAt = now\<rparr>" db] in simp)

lemma EnsureAccepted_okD:
  "EnsureAccepted now a b (db, fs) = (Inr r, (db', fs')) \<Longrightarrow> restatus (a, b) FriendshipStatusAccepted db db'"
  unfolding EnsureAccepted_def by (drule exec_row_okD) (use restatus_put_row [of r db] in \<open>auto simp: Let_def\<close>)

lemma FindPair_okD:
  "FindPairForUpdate a b (db, fs) = (Inr r, (db', fs')) \<Longrightarrow>
     db' = db \<and> map_of (friendships db) (a, b) = Some r \<and> status_of db (a, b) = Some (f_Status r)"
  unfolding FindPairForUpdate_def by (drule query_okD) (auto simp: status_of_def split: option.splits)

lemma found_FindPair_okD:
  "found (FindPairForUpdate a b) (db, fs) = (Inr o', (db', fs')) \<Longrightarrow>
     db' = db \<and> o' = map_of (friendships db) (a, b) \<and> map_option f_Status o' = status_of db (a, b)"
  unfolding FindPairForUpdate_def by (drule found_query_okD) (auto simp: status_of_def split: option.splits)

lemma friend_decide_okD:
  assumes "friend_decide u f (db, fs) = (Inr d, (db', fs'))"
  shows "db' = db \<and> (case d of
      Inl r \<Rightarrow> map_of (friendships db) (u, f) = Some r
        \<and> status_of db (u, f) \<in> {Some FriendshipStatusAccepted, Some FriendshipStatusPending}
    | Inr p \<Rightarrow> status_of db (u, f) \<notin> {Some FriendshipStatusAccepted, Some FriendshipStatusPending}
        \<and> (p \<longleftrightarrow> status_of db (f, u) = Some FriendshipStatusPending))"
proof -
  obtain ex db1 fs1 where 1: "found (FindPairForUpdate u f) (db, fs) = (Inr ex, (db1, fs1))"
    and 2: "(if (case ex of Some r \<Rightarrow> f_Status r = FriendshipStatusAccepted \<or> f_Status r = FriendshipStatusPending | None \<Rightarrow> False)
       then ret (Inl (the ex))
       else andThen (found (FindPairForUpdate f u)) (\<lambda>reverse.
         ret (Inr (case reverse of Some r \<Rightarrow> f_Status r = FriendshipStatusPending | None \<Rightarrow> False)))) (db1, fs1) = (Inr d, (db', fs'))"
    using assms unfolding friend_decide_def by (auto simp: runs)
  have ex: "db1 = db" "ex = map_of (friendships db) (u, f)" using found_FindPair_okD [OF 1] by simp_all
  show ?thesis
  proof (cases "case ex of Some r \<Rightarrow> f_Status r = FriendshipStatusAccepted \<or> f_Status r = FriendshipStatusPending | None \<Rightarrow> False")
    case True
    then show ?thesis using 2 ex by (auto simp: runs status_of_def split: option.splits)
  next
    case False
    then obtain rev fs2 where 3: "found (FindPairForUpdate f u) (db, fs1) = (Inr rev, (db', fs2))"
      and d: "d = Inr (case rev of Some r \<Rightarrow> f_Status r = FriendshipStatusPending | None \<Rightarrow> False)"
      using 2 ex by (auto simp: runs simp del: case_prod_conv)
    have "db' = db" "rev = map_of (friendships db) (f, u)" using found_FindPair_okD [OF 3] by simp_all
    then show ?thesis using False ex by (auto simp: d status_of_def split: option.splits)
  qed
qed

lemma add_body_okD:
  assumes "andThen (friend_decide u f) (friend_apply now u f) (db, fs) = (Inr x, (db', fs'))"
  shows "(if status_of db (u, f) \<in> {Some FriendshipStatusAccepted, Some FriendshipStatusPending} then db' = db
     else if status_of db (f, u) = Some FriendshipStatusPending
       then \<exists>db1. restatus (u, f) FriendshipStatusAccepted db db1 \<and> restatus (f, u) FriendshipStatusAccepted db1 db'
     else restatus (u, f) FriendshipStatusPending db db')"
proof -
  obtain d db1 fs1 where d: "friend_decide u f (db, fs) = (Inr d, (db1, fs1))" and a: "friend_apply now u f d (db1, fs1) = (Inr x, (db', fs'))"
    using assms by (auto simp: runs)
  have [simp]: "db1 = db" using friend_decide_okD [OF d] by blast
  show ?thesis
    using friend_decide_okD [OF d] a unfolding friend_apply_def
    by (auto simp: runs split: sum.splits bool.splits dest!: UpsertStatus_okD)
qed

lemma decide_body_okD:
  "decide_body now u q s (db, fs) = (Inr x, (db', fs')) \<Longrightarrow>
     status_of db (q, u) = Some FriendshipStatusPending \<and> (\<exists>db1. restatus (q, u) s db db1 \<and> restatus (u, q) s db1 db')"
  unfolding decide_body_def
  by (auto simp: runs split: if_splits dest!: FindPair_okD UpsertStatus_okD)

lemma delete_body_okD:
  assumes "delete_body now u f (db, fs) = (Inr x, (db', fs'))"
  shows "status_of db (u, f) = Some FriendshipStatusAccepted
    \<and> (\<exists>db1. restatus (u, f) FriendshipStatusDeleted db db1
       \<and> (if status_of db1 (f, u) = Some FriendshipStatusAccepted then restatus (f, u) FriendshipStatusDeleted db1 db' else db' = db1))"
proof -
  obtain r db1 fs1 fs2 where 1: "MarkAcceptedDeleted now u f (db, fs) = (Inr r, (db1, fs1))"
    and 2: "MarkAcceptedDeletedSilent now f u (db1, fs1) = (Inr (), (db', fs2))"
    using assms unfolding delete_body_def by (auto simp: runs)
  have "status_of db (u, f) = Some FriendshipStatusAccepted \<and> restatus (u, f) FriendshipStatusDeleted db db1"
    using 1 unfolding MarkAcceptedDeleted_def
    by (auto simp: status_of_def intro: restatus_mark_deleted split: option.splits if_splits dest!: exec_row_okD)
  moreover have "if status_of db1 (f, u) = Some FriendshipStatusAccepted then restatus (f, u) FriendshipStatusDeleted db1 db' else db' = db1"
    using 2 unfolding MarkAcceptedDeletedSilent_def
    by (auto simp: status_of_def intro: restatus_mark_deleted split: option.splits if_splits dest!: stmt_okD)
  ultimately show ?thesis by blast
qed

lemma ensure_body_okD:
  "ensure_body now u f (db, fs) = (Inr x, (db', fs')) \<Longrightarrow>
     \<exists>db1. restatus (u, f) FriendshipStatusAccepted db db1 \<and> restatus (f, u) FriendshipStatusAccepted db1 db'"
  unfolding ensure_body_def by (auto simp: runs dest!: EnsureAccepted_okD)

section \<open>Refinement\<close>

lemma friends_iff:
  "symmetric (status_of db) \<Longrightarrow> {a, b} \<in> friends (abs_friends db) \<longleftrightarrow> status_of db (a, b) = Some FriendshipStatusAccepted"
  by (auto simp: abs_friends_def symmetric_def doubleton_eq_iff)

lemma requests_iff: "(a, b) \<in> requests (abs_friends db) \<longleftrightarrow> status_of db (a, b) = Some FriendshipStatusPending"
  by (simp add: abs_friends_def)

lemma status_distinct:
  "FriendshipStatusPending \<noteq> FriendshipStatusAccepted" "FriendshipStatusRejected \<noteq> FriendshipStatusAccepted"
  "FriendshipStatusDeleted \<noteq> FriendshipStatusAccepted" "FriendshipStatusRejected \<noteq> FriendshipStatusPending"
  "FriendshipStatusDeleted \<noteq> FriendshipStatusPending"
  by (simp_all add: status_consts)

lemmas status_neq = status_distinct status_distinct [symmetric]

text \<open>Both directions change.\<close>

definition restatus2 :: "string \<Rightarrow> string \<Rightarrow> int \<Rightarrow> friend_db \<Rightarrow> friend_db \<Rightarrow> bool" where
  "restatus2 a b s db db' \<longleftrightarrow> (friend_rows db \<longrightarrow> friend_rows db') \<and> status_of db' = (status_of db)((a, b) \<mapsto> s, (b, a) \<mapsto> s)"

lemma restatus2I: "restatus (a, b) s db db1 \<Longrightarrow> restatus (b, a) s db1 db' \<Longrightarrow> restatus2 a b s db db'"
  by (simp add: restatus_def restatus2_def)

lemma friends_image: "friends (abs_friends db) = (\<lambda>(a, b). {a, b}) ` {k. status_of db k = Some FriendshipStatusAccepted}"
  by (auto simp: abs_friends_def image_iff)

lemma doubletons_minus: "(\<lambda>(a, b). {a, b}) ` (A - {(a, b), (b, a)}) = (\<lambda>(a, b). {a, b}) ` A - {{a, b}}"
proof -
  let ?d = "\<lambda>(a, b). {a :: 'a, b}"
  have d: "?d k = {a, b} \<longleftrightarrow> k \<in> {(a, b), (b, a)}" for k by (cases k) (auto simp: doubleton_eq_iff)
  show ?thesis
  proof (intro set_eqI iffI)
    fix x assume "x \<in> ?d ` (A - {(a, b), (b, a)})"
    then obtain k where "x = ?d k" "k \<in> A" "k \<notin> {(a, b), (b, a)}" by blast
    then have "x \<in> ?d ` A" "x \<noteq> {a, b}" using d [of k] image_eqI [of x ?d k A] by simp_all
    then show "x \<in> ?d ` A - {{a, b}}" by simp
  next
    fix x assume "x \<in> ?d ` A - {{a, b}}"
    then have "x \<in> ?d ` A" and x: "x \<noteq> {a, b}" by simp_all
    from this(1) obtain k where "x = ?d k" "k \<in> A" by (rule imageE)
    then have "x = ?d k" "k \<in> A" "?d k \<noteq> {a, b}" using x by simp_all
    then show "x \<in> ?d ` (A - {(a, b), (b, a)})" using d [of k] by (intro image_eqI [of x ?d k]) simp_all
  qed
qed

lemma symmetric2: "symmetric st \<Longrightarrow> symmetric (st((a, b) \<mapsto> s, (b, a) \<mapsto> s))"
  unfolding symmetric_def
proof (intro allI impI)
  fix x y
  assume st: "\<forall>a b. st (a, b) = Some FriendshipStatusAccepted \<longrightarrow> st (b, a) = Some FriendshipStatusAccepted"
    and "(st((a, b) \<mapsto> s, (b, a) \<mapsto> s)) (x, y) = Some FriendshipStatusAccepted"
  then show "(st((a, b) \<mapsto> s, (b, a) \<mapsto> s)) (y, x) = Some FriendshipStatusAccepted"
    using st [rule_format, of x y] by (cases "(x, y) = (a, b) \<or> (x, y) = (b, a)") (auto simp del: not_Some_eq)
qed

lemma symmetric1:
  assumes "symmetric st" "st (b, a) \<noteq> Some FriendshipStatusAccepted" "s \<noteq> FriendshipStatusAccepted"
  shows "symmetric (st((a, b) \<mapsto> s))"
  unfolding symmetric_def
proof (intro allI impI)
  fix x y assume xy: "(st((a, b) \<mapsto> s)) (x, y) = Some FriendshipStatusAccepted"
  then have "(x, y) \<noteq> (a, b)" using assms(3) by auto
  then have st: "st (x, y) = Some FriendshipStatusAccepted" using xy by auto
  then have "(y, x) \<noteq> (a, b)" using assms(2) by auto
  moreover have "st (y, x) = Some FriendshipStatusAccepted" using st assms(1) unfolding symmetric_def by blast
  ultimately show "(st((a, b) \<mapsto> s)) (y, x) = Some FriendshipStatusAccepted" by (metis fun_upd_other)
qed

lemma restatus2_inv: "friend_inv db \<Longrightarrow> restatus2 a b s db db' \<Longrightarrow> friend_inv db'"
  unfolding friend_inv_split restatus2_def using symmetric2 by auto

lemma accepted_sym: "friend_inv db \<Longrightarrow> status_of db (a, b) = Some FriendshipStatusAccepted \<Longrightarrow> status_of db (b, a) = Some FriendshipStatusAccepted"
  unfolding friend_inv_split symmetric_def by blast

lemma restatus2_accept:
  assumes "a \<noteq> b" "friend_inv db" "restatus2 a b FriendshipStatusAccepted db db'"
  shows "friend_inv db' \<and> abs_friends db' = befriend a b (abs_friends db)"
proof -
  have st: "status_of db' = (status_of db)((a, b) \<mapsto> FriendshipStatusAccepted, (b, a) \<mapsto> FriendshipStatusAccepted)"
    using assms(3) by (simp add: restatus2_def)
  have "friend_inv db'" using assms by (blast intro: restatus2_inv)
  moreover have "friends (abs_friends db') = insert {a, b} (friends (abs_friends db))"
    using assms(1) by (auto simp: abs_friends_def st doubleton_eq_iff)
  moreover have "requests (abs_friends db') = requests (abs_friends db) - {(a, b), (b, a)}"
    by (auto simp: abs_friends_def st status_neq split: if_splits)
  ultimately show ?thesis by (simp add: befriend_def)
qed

lemma restatus2_reject:
  assumes "friend_inv db" "status_of db (b, a) = Some FriendshipStatusPending" "restatus2 a b FriendshipStatusRejected db db'"
  shows "friend_inv db' \<and> abs_friends db' = spec_reject a b (abs_friends db)"
proof -
  have st: "status_of db' = (status_of db)((a, b) \<mapsto> FriendshipStatusRejected, (b, a) \<mapsto> FriendshipStatusRejected)"
    using assms(3) by (simp add: restatus2_def)
  have no: "status_of db (a, b) \<noteq> Some FriendshipStatusAccepted" "status_of db (b, a) \<noteq> Some FriendshipStatusAccepted"
    using accepted_sym [OF assms(1)] assms(2) status_neq by auto
  have "friend_inv db'" using assms by (blast intro: restatus2_inv)
  moreover have "friends (abs_friends db') = friends (abs_friends db)"
    unfolding friends_image using no by (intro arg_cong [where f = "image _"]) (auto simp: st status_neq)
  moreover have "requests (abs_friends db') = requests (abs_friends db) - {(a, b), (b, a)}"
    by (auto simp: abs_friends_def st status_neq split: if_splits)
  ultimately show ?thesis by (simp add: spec_reject_def)
qed

lemma restatus2_delete:
  assumes "friend_inv db" "status_of db (a, b) = Some FriendshipStatusAccepted" "restatus2 a b FriendshipStatusDeleted db db'"
  shows "friend_inv db' \<and> abs_friends db' = spec_delete a b (abs_friends db)"
proof -
  have st: "status_of db' = (status_of db)((a, b) \<mapsto> FriendshipStatusDeleted, (b, a) \<mapsto> FriendshipStatusDeleted)"
    using assms(3) by (simp add: restatus2_def)
  have sym: "status_of db (b, a) = Some FriendshipStatusAccepted" using accepted_sym [OF assms(1)] assms(2) by auto
  have "friend_inv db'" using assms by (blast intro: restatus2_inv)
  moreover have "friends (abs_friends db') = friends (abs_friends db) - {{a, b}}"
    unfolding friends_image doubletons_minus [symmetric]
    by (intro arg_cong [where f = "image _"]) (auto simp: st status_neq split: if_splits)
  moreover have "requests (abs_friends db') = requests (abs_friends db)"
    using assms(2) sym by (auto simp: abs_friends_def st status_neq)
  ultimately show ?thesis by (simp add: spec_delete_def)
qed

lemma restatus_request:
  assumes "friend_inv db" "status_of db (a, b) \<noteq> Some FriendshipStatusAccepted" "restatus (a, b) FriendshipStatusPending db db'"
  shows "friend_inv db' \<and> abs_friends db' = (abs_friends db)\<lparr>requests := insert (a, b) (requests (abs_friends db))\<rparr>"
proof -
  have st: "status_of db' = (status_of db)((a, b) \<mapsto> FriendshipStatusPending)" using assms(3) by (simp add: restatus_def)
  have ba: "status_of db (b, a) \<noteq> Some FriendshipStatusAccepted" using accepted_sym [OF assms(1)] assms(2) by auto
  have "friend_inv db'"
    using assms(1,3) symmetric1 [where st = "status_of db", OF _ ba status_neq(1)] by (auto simp: friend_inv_split restatus_def)
  moreover have "friends (abs_friends db') = friends (abs_friends db)"
    unfolding friends_image using assms(2) by (intro arg_cong [where f = "image _"]) (auto simp: st status_neq)
  moreover have "requests (abs_friends db') = insert (a, b) (requests (abs_friends db))"
    by (auto simp: abs_friends_def st status_neq split: if_splits)
  ultimately show ?thesis by simp
qed

lemma validate_pair_ok: "validateFriendshipPair u f = Inr p \<Longrightarrow> p = (u, f) \<and> u \<noteq> f"
  by (auto simp: validateFriendshipPair_def validateRequiredID_def split: if_splits)

text \<open>A handler that validates, runs one transaction and converts the row.\<close>

lemma handler_cases:
  assumes "with_status (andThen (lift_result (validateFriendshipPair u f)) (\<lambda>(a, b).
      andThen (transact (body a b)) (\<lambda>x. ret (conv x)))) (db, fs) = (r, (db', fs'))"
  shows "(db' = db \<and> isl r) \<or> u \<noteq> f \<and> (\<exists>x fs1. body u f (db, fs) = (Inr x, (db', fs1)))"
proof -
  obtain r0 where w: "andThen (lift_result (validateFriendshipPair u f)) (\<lambda>(a, b).
      andThen (transact (body a b)) (\<lambda>x. ret (conv x))) (db, fs) = (r0, (db', fs'))" "isl r0 = isl r"
    using assms by (auto simp: with_status_def split: prod.splits sum.splits)
  show ?thesis
  proof (cases "validateFriendshipPair u f")
    case (Inl e)
    then show ?thesis using w by (auto simp: andThen_def lift_result_def raise_def)
  next
    case (Inr p)
    then have p: "p = (u, f)" "u \<noteq> f" using validate_pair_ok by blast+
    obtain r1 fs1 where t: "transact (body u f) (db, fs) = (r1, (db', fs1))" "isl r1 = isl r0"
      using w(1) Inr p by (auto simp: andThen_def lift_result_def ret_def split: prod.splits sum.splits)
    then show ?thesis using transact_cases [OF t(1)] w(2) p by (cases r1) auto
  qed
qed

lemma AddFriend_refines:
  assumes inv: "friend_inv db" and run: "AddFriend now u f (db, fs) = (r, (db', fs'))"
  shows "friend_inv db' \<and> (db' = db \<and> isl r \<or> abs_friends db' = spec_add u f (abs_friends db))"
proof -
  have sym: "symmetric (status_of db)" using inv by (simp add: friend_inv_split)
  have "with_status (andThen (lift_result (validateFriendshipPair u f)) (\<lambda>(a, b).
        andThen (transact (andThen (friend_decide a b) (friend_apply now a b))) (\<lambda>x. ret (case x of (row, c) \<Rightarrow> (toFriendship row, c)))))
        (db, fs) = (r, (db', fs'))"
    using run unfolding AddFriend_def by (simp add: case_prod_unfold)
  from handler_cases [OF this] show ?thesis
  proof (elim disjE conjE exE)
    fix x fs1 assume n: "u \<noteq> f" and b: "andThen (friend_decide u f) (friend_apply now u f) (db, fs) = (Inr x, (db', fs1))"
    show ?thesis
      using add_body_okD [OF b] inv restatus2_accept [OF n inv restatus2I] restatus_request [OF inv]
      by (auto simp: spec_add_def friends_iff [OF sym] requests_iff split: if_splits)
  qed (use inv in simp)
qed

lemma befriend_commute: "befriend a b = befriend b a"
  by (auto simp: befriend_def fun_eq_iff insert_commute)

lemma spec_reject_commute: "spec_reject a b = spec_reject b a"
  by (auto simp: spec_reject_def fun_eq_iff insert_commute)

lemma AcceptFriendRequest_refines:
  assumes inv: "friend_inv db" and run: "AcceptFriendRequest now u f (db, fs) = (r, (db', fs'))"
  shows "friend_inv db' \<and> (db' = db \<and> isl r \<or> (f, u) \<in> requests (abs_friends db) \<and> abs_friends db' = befriend u f (abs_friends db))"
  using handler_cases [OF run [unfolded AcceptFriendRequest_def decideFriendRequest_def]]
proof (elim disjE conjE exE)
  fix x fs1 assume n: "u \<noteq> f" and b: "decide_body now u f FriendshipStatusAccepted (db, fs) = (Inr x, (db', fs1))"
  show ?thesis
    using decide_body_okD [OF b] restatus2_accept [OF n [symmetric] inv restatus2I]
    by (auto simp: requests_iff befriend_commute [of u f])
qed (use inv in simp)

lemma RejectFriendRequest_refines:
  assumes inv: "friend_inv db" and run: "RejectFriendRequest now u f (db, fs) = (r, (db', fs'))"
  shows "friend_inv db' \<and> (db' = db \<and> isl r \<or> (f, u) \<in> requests (abs_friends db) \<and> abs_friends db' = spec_reject u f (abs_friends db))"
  using handler_cases [OF run [unfolded RejectFriendRequest_def decideFriendRequest_def]]
proof (elim disjE conjE exE)
  fix x fs1 assume b: "decide_body now u f FriendshipStatusRejected (db, fs) = (Inr x, (db', fs1))"
  obtain db1 where p: "status_of db (f, u) = Some FriendshipStatusPending"
    and "restatus (f, u) FriendshipStatusRejected db db1" "restatus (u, f) FriendshipStatusRejected db1 db'"
    using decide_body_okD [OF b] by blast
  then have "restatus2 u f FriendshipStatusRejected db db'"
    by (cases "u = f") (auto simp: restatus_def restatus2_def fun_upd_twist)
  from restatus2_reject [OF inv p this] p show ?thesis by (simp add: requests_iff)
qed (use inv in simp)

lemma DeleteFriend_refines:
  assumes inv: "friend_inv db" and run: "DeleteFriend now u f (db, fs) = (r, (db', fs'))"
  shows "friend_inv db' \<and> (db' = db \<and> isl r \<or> {u, f} \<in> friends (abs_friends db) \<and> abs_friends db' = spec_delete u f (abs_friends db))"
  using handler_cases [OF run [unfolded DeleteFriend_def]]
proof (elim disjE conjE exE)
  fix x fs1 assume n: "u \<noteq> f" and b: "delete_body now u f (db, fs) = (Inr x, (db', fs1))"
  have sym: "symmetric (status_of db)" using inv by (simp add: friend_inv_split)
  obtain db1 where acc: "status_of db (u, f) = Some FriendshipStatusAccepted" and r1: "restatus (u, f) FriendshipStatusDeleted db db1"
    and r2: "if status_of db1 (f, u) = Some FriendshipStatusAccepted then restatus (f, u) FriendshipStatusDeleted db1 db' else db' = db1"
    using delete_body_okD [OF b] by blast
  have "status_of db1 (f, u) = Some FriendshipStatusAccepted"
    using accepted_sym [OF inv acc] r1 n by (auto simp: restatus_def)
  then have "restatus2 u f FriendshipStatusDeleted db db'" using r1 r2 by (auto intro: restatus2I)
  from restatus2_delete [OF inv acc this] acc show ?thesis by (simp add: friends_iff [OF sym])
qed (use inv in simp)

lemma EnsureFriendship_refines:
  assumes inv: "friend_inv db" and run: "EnsureFriendship now u f (db, fs) = (r, (db', fs'))"
  shows "friend_inv db' \<and> (db' = db \<and> isl r \<or> abs_friends db' = befriend u f (abs_friends db))"
  using handler_cases [OF run [unfolded EnsureFriendship_def]]
proof (elim disjE conjE exE)
  fix x fs1 assume n: "u \<noteq> f" and b: "ensure_body now u f (db, fs) = (Inr x, (db', fs1))"
  show ?thesis using ensure_body_okD [OF b] restatus2_accept [OF n inv restatus2I] by auto
qed (use inv in simp)

text \<open>
  C11: the handlers of the friends service implement the specification. Whatever fails, a handler
  keeps the two directions of every friendship equal, and either changes nothing or takes exactly the
  step of the specification; when it succeeds it has taken it. Adding someone who has an open request
  to oneself makes both friends; accepting and rejecting need an open request, deleting a friendship.
\<close>

theorem friends_refine_spec:
  assumes inv: "friend_inv db"
  shows "(AddFriend now u f (db, fs) = (r1, (db1, fs1)) \<longrightarrow> friend_inv db1 \<and>
       (db1 = db \<and> isl r1 \<or> abs_friends db1 = spec_add u f (abs_friends db)))
    \<and> (AcceptFriendRequest now u f (db, fs) = (r2, (db2, fs2)) \<longrightarrow> friend_inv db2 \<and>
       (db2 = db \<and> isl r2 \<or> (f, u) \<in> requests (abs_friends db) \<and> abs_friends db2 = befriend u f (abs_friends db)))
    \<and> (RejectFriendRequest now u f (db, fs) = (r3, (db3, fs3)) \<longrightarrow> friend_inv db3 \<and>
       (db3 = db \<and> isl r3 \<or> (f, u) \<in> requests (abs_friends db) \<and> abs_friends db3 = spec_reject u f (abs_friends db)))
    \<and> (DeleteFriend now u f (db, fs) = (r4, (db4, fs4)) \<longrightarrow> friend_inv db4 \<and>
       (db4 = db \<and> isl r4 \<or> {u, f} \<in> friends (abs_friends db) \<and> abs_friends db4 = spec_delete u f (abs_friends db)))
    \<and> (EnsureFriendship now u f (db, fs) = (r5, (db5, fs5)) \<longrightarrow> friend_inv db5 \<and>
       (db5 = db \<and> isl r5 \<or> abs_friends db5 = befriend u f (abs_friends db)))"
  using AddFriend_refines [OF inv] AcceptFriendRequest_refines [OF inv] RejectFriendRequest_refines [OF inv]
    DeleteFriend_refines [OF inv] EnsureFriendship_refines [OF inv]
  by (intro conjI [where P = "_ \<longrightarrow> _"] impI) blast+

definition no_friends :: friend_db where
  "no_friends = \<lparr>friendships = []\<rparr>"

lemma friend_inv_none: "friend_inv no_friends"
  by (simp add: friend_inv_def no_friends_def status_of_def)

theorem friends_refine_spec_witness:
  "\<exists>db'. (\<exists>x. AddFriend 5 ''a'' ''b'' (no_friends, []) = (Inr x, (db', []))) \<and> friend_inv db'
     \<and> abs_friends db' = spec_add ''a'' ''b'' (abs_friends no_friends)"
proof -
  let ?k = "AddFriend 5 ''a'' ''b'' (no_friends, [])"
  have k: "isl (fst ?k) = False" "snd (snd ?k) = []" by code_simp+
  obtain x db' where run: "?k = (Inr x, (db', []))" using k by (metis prod.collapse isl_def sum.exhaust)
  from friends_refine_spec [OF friend_inv_none, THEN conjunct1, rule_format, OF run] run show ?thesis by auto
qed

section \<open>Views\<close>

lemma rows_of:
  assumes "friend_rows db"
  shows "r \<in> set (map snd (filter (\<lambda>(k, r). P k \<and> f_Status r = s) (friendships db)))
    \<longleftrightarrow> (\<exists>a b. map_of (friendships db) (a, b) = Some r \<and> P (a, b) \<and> f_Status r = s \<and> f_AccountId r = a \<and> f_FriendAccountId r = b)"
    (is "?L \<longleftrightarrow> ?R")
proof
  have d: "distinct (map fst (friendships db))"
    and k: "\<And>a b r. map_of (friendships db) (a, b) = Some r \<Longrightarrow> f_AccountId r = a \<and> f_FriendAccountId r = b"
    using assms by (simp_all add: friend_rows_def)
  { assume ?L
    then obtain a b where "((a, b), r) \<in> set (friendships db)" "P (a, b)" "f_Status r = s" by auto
    then have "map_of (friendships db) (a, b) = Some r" using d by simp
    then show ?R using \<open>P (a, b)\<close> \<open>f_Status r = s\<close> k by blast }
  { assume ?R
    then obtain a b where "((a, b), r) \<in> set (friendships db)" "P (a, b)" "f_Status r = s" using map_of_SomeD by fast
    then show ?L by force }
qed

lemma listed_friends:
  assumes "friend_rows db"
  shows "f_FriendAccountId ` set (map snd (filter (\<lambda>(k, r). fst k = u \<and> f_Status r = s) (friendships db))) = {b. status_of db (u, b) = Some s}"
      (is "?out = ?B")
    and "f_AccountId ` set (map snd (filter (\<lambda>(k, r). snd k = u \<and> f_Status r = s) (friendships db))) = {a. status_of db (a, u) = Some s}"
      (is "?inc = ?A")
proof -
  have k: "f_AccountId r = a \<and> f_FriendAccountId r = b" if "map_of (friendships db) (a, b) = Some r" for a b r
    using assms that by (simp add: friend_rows_def)
  have "b \<in> ?out \<longleftrightarrow> (\<exists>r. map_of (friendships db) (u, b) = Some r \<and> f_Status r = s)" for b
    unfolding image_iff Bex_def rows_of [OF assms, of _ "\<lambda>k. fst k = u"] using k by auto
  then show "?out = ?B" by (auto simp: status_of_def)
  have "a \<in> ?inc \<longleftrightarrow> (\<exists>r. map_of (friendships db) (a, u) = Some r \<and> f_Status r = s)" for a
    unfolding image_iff Bex_def rows_of [OF assms, of _ "\<lambda>k. snd k = u"] using k by auto
  then show "?inc = ?A" by (auto simp: status_of_def)
qed

text \<open>
  C15: the views show the specification's state: \<^verbatim>\<open>GetFriendship\<close> calls two accounts friends exactly when
  they are, from either side; \<^verbatim>\<open>ListFriends\<close> lists exactly the friends; \<^verbatim>\<open>ListFriendRequests\<close> lists
  exactly the open requests to and from an account. Reading changes nothing.
\<close>

theorem friend_views_exact:
  assumes inv: "friend_inv db"
  shows "(GetFriendship u f (db, fs) = (Inr v, (db1, fs1)) \<longrightarrow> db1 = db \<and> fr_UserId v = u \<and> fr_FriendId v = f
       \<and> (fr_IsFriend v \<longleftrightarrow> {u, f} \<in> friends (abs_friends db)))
    \<and> (ListFriends u (db, fs) = (Inr vs, (db2, fs2)) \<longrightarrow> db2 = db
       \<and> fr_FriendId ` set vs = {f. {u, f} \<in> friends (abs_friends db)} \<and> (\<forall>v\<in>set vs. fr_IsFriend v))
    \<and> (ListFriendRequests u (db, fs) = (Inr (inc, out), (db3, fs3)) \<longrightarrow> db3 = db
       \<and> fr_UserId ` set inc = {f. (f, u) \<in> requests (abs_friends db)} \<and> fr_FriendId ` set out = {f. (u, f) \<in> requests (abs_friends db)})"
proof (intro conjI [where P = "_ \<longrightarrow> _"] impI)
  have sym: "symmetric (status_of db)" and rows: "friend_rows db" using inv by (simp_all add: friend_inv_split)
  have k: "f_AccountId r = a \<and> f_FriendAccountId r = b" if "map_of (friendships db) (a, b) = Some r" for a b r
    using rows that by (simp add: friend_rows_def)
  note views = toFriendship_def friendshipView_def noneFriendship_def
  { assume "GetFriendship u f (db, fs) = (Inr v, (db1, fs1))"
    then obtain ex fs' where ex: "found (FindPairForUpdate u f) (db, fs) = (Inr ex, (db, fs'))"
      and v: "(case ex of Some row \<Rightarrow> ret (toFriendship row)
       | None \<Rightarrow> andThen (found (FindPairForUpdate f u)) (\<lambda>reverse. case reverse of
               Some row \<Rightarrow> if f_Status row = FriendshipStatusPending
                           then ret (friendshipView u f FriendshipStatusPending (f_CreatedAt row) (f_UpdatedAt row))
                           else ret (noneFriendship u f)
             | None \<Rightarrow> ret (noneFriendship u f))) (db, fs') = (Inr v, (db1, fs1))"
      unfolding GetFriendship_def
      by (auto simp: runs dest!: validate_pair_ok dest: found_FindPair_okD)
    show "db1 = db \<and> fr_UserId v = u \<and> fr_FriendId v = f \<and> (fr_IsFriend v \<longleftrightarrow> {u, f} \<in> friends (abs_friends db))"
    proof (cases ex)
      case (Some row)
      then show ?thesis
        using v found_FindPair_okD [OF ex] k by (auto simp: runs views friends_iff [OF sym] status_of_def)
    next
      case None
      then have "status_of db (u, f) = None" using found_FindPair_okD [OF ex] by (simp add: status_of_def)
      moreover obtain rev fs'' where "found (FindPairForUpdate f u) (db, fs') = (Inr rev, (db, fs''))"
        "(case rev of Some row \<Rightarrow> if f_Status row = FriendshipStatusPending
                           then ret (friendshipView u f FriendshipStatusPending (f_CreatedAt row) (f_UpdatedAt row))
                           else ret (noneFriendship u f)
             | None \<Rightarrow> ret (noneFriendship u f)) (db, fs'') = (Inr v, (db1, fs1))"
        using v None by (auto simp: runs dest: found_FindPair_okD)
      ultimately show ?thesis
        by (auto simp: runs views friends_iff [OF sym] status_neq split: option.splits if_splits)
    qed }
  { assume "ListFriends u (db, fs) = (Inr vs, (db2, fs2))"
    then have "db2 = db" and vs: "vs = map toFriendship (sort_key f_FriendAccountId
       (map snd (filter (\<lambda>(k, r). fst k = u \<and> f_Status r = FriendshipStatusAccepted) (friendships db))))"
      unfolding ListFriends_def ListByAccountStatus_def by (auto simp: runs dest!: query_okD)
    moreover have "fr_FriendId ` set vs = f_FriendAccountId ` set (map snd (filter (\<lambda>(k, r). fst k = u \<and> f_Status r = FriendshipStatusAccepted) (friendships db)))"
      unfolding vs by (simp add: image_comp views comp_def)
    moreover have "\<forall>v\<in>set vs. fr_IsFriend v" unfolding vs by (auto simp: views)
    ultimately show "db2 = db \<and> fr_FriendId ` set vs = {f. {u, f} \<in> friends (abs_friends db)} \<and> (\<forall>v\<in>set vs. fr_IsFriend v)"
      using listed_friends(1) [OF rows] by (simp add: friends_iff [OF sym]) }
  { assume "ListFriendRequests u (db, fs) = (Inr (inc, out), (db3, fs3))"
    then have "db3 = db" and inc: "inc = map toFriendship (sort_key f_AccountId
       (map snd (filter (\<lambda>(k, r). snd k = u \<and> f_Status r = FriendshipStatusPending) (friendships db))))"
      and out: "out = map toFriendship (sort_key f_FriendAccountId
       (map snd (filter (\<lambda>(k, r). fst k = u \<and> f_Status r = FriendshipStatusPending) (friendships db))))"
      unfolding ListFriendRequests_def ListByAccountStatus_def ListByFriendStatus_def by (auto simp: runs dest!: query_okD)
    moreover have "fr_UserId ` set inc = f_AccountId ` set (map snd (filter (\<lambda>(k, r). snd k = u \<and> f_Status r = FriendshipStatusPending) (friendships db)))"
      unfolding inc by (simp add: image_comp views comp_def)
    moreover have "fr_FriendId ` set out = f_FriendAccountId ` set (map snd (filter (\<lambda>(k, r). fst k = u \<and> f_Status r = FriendshipStatusPending) (friendships db)))"
      unfolding out by (simp add: image_comp views comp_def)
    ultimately show "db3 = db \<and> fr_UserId ` set inc = {f. (f, u) \<in> requests (abs_friends db)}
        \<and> fr_FriendId ` set out = {f. (u, f) \<in> requests (abs_friends db)}"
      using listed_friends [OF rows] by (simp add: requests_iff) }
qed

definition demo_friends :: friend_db where
  "demo_friends = fst (snd (EnsureFriendship 5 ''a'' ''b'' (no_friends, [])))"

theorem friend_views_exact_witness:
  "\<exists>v. GetFriendship ''b'' ''a'' (demo_friends, []) = (Inr v, (demo_friends, [])) \<and> fr_IsFriend v
     \<and> {''b'', ''a''} \<in> friends (abs_friends demo_friends)"
proof -
  let ?k = "GetFriendship ''b'' ''a'' (demo_friends, [])"
  have inv: "friend_inv demo_friends"
    unfolding demo_friends_def by (metis EnsureFriendship_refines friend_inv_none prod.collapse)
  have k: "map_sum id fr_IsFriend (fst ?k) = Inr True" "snd ?k = (demo_friends, [])" by code_simp+
  then obtain v where run: "?k = (Inr v, (demo_friends, []))" "fr_IsFriend v" by (cases ?k; cases "fst ?k") auto
  from friend_views_exact [OF inv, THEN conjunct1, rule_format, OF run(1)] run show ?thesis by blast
qed

section \<open>Requests at the same time\<close>

lemma FindPair_clean: "found (FindPairForUpdate a b) (db, []) = (Inr (map_of (friendships db) (a, b)), (db, []))"
  by (cases "map_of (friendships db) (a, b)")
    (simp_all add: found_def FindPairForUpdate_def query_def andThen_def ret_def raise_def)

lemma Upsert_clean: "UpsertStatus now a b s (db, []) =
     (let r = \<lparr>f_AccountId = a, f_FriendAccountId = b, f_Status = s, f_CreatedAt = now, f_UpdatedAt = now\<rparr> in (Inr r, (put_row r db, [])))"
  by (simp add: UpsertStatus_def exec_row_def andThen_def ret_def Let_def)

text \<open>
  C17: the comment on \<^verbatim>\<open>AddFriend\<close> says that two accounts which add each other become friends. When the
  two transactions overlap they do not: the row locks of \<^verbatim>\<open>FindPairForUpdate\<close> lock nothing as long as there
  is no row, so both read that there is no request and both write their own. Afterwards each has an
  open request to the other, and adding again does not help: the handler reports the open request and
  changes nothing.
\<close>

theorem mutual_requests_stay_pending:
  assumes n: "u \<noteq> f" and none: "map_of (friendships db) (u, f) = None" "map_of (friendships db) (f, u) = None"
  shows "\<exists>d e x db1 y db2. friend_decide u f (db, []) = (Inr d, (db, [])) \<and> friend_decide f u (db, []) = (Inr e, (db, []))
    \<and> friend_apply now u f d (db, []) = (Inr x, (db1, [])) \<and> friend_apply now f u e (db1, []) = (Inr y, (db2, []))
    \<and> status_of db2 (u, f) = Some FriendshipStatusPending \<and> status_of db2 (f, u) = Some FriendshipStatusPending
    \<and> (\<forall>v created db3 fs fs3. AddFriend now u f (db2, fs) = (Inr (v, created), (db3, fs3)) \<longrightarrow> db3 = db2 \<and> \<not> created \<and> \<not> fr_IsFriend v)"
proof -
  let ?r = "\<lambda>a b. \<lparr>f_AccountId = a, f_FriendAccountId = b, f_Status = FriendshipStatusPending, f_CreatedAt = now, f_UpdatedAt = now\<rparr>"
  let ?db1 = "put_row (?r u f) db" let ?db2 = "put_row (?r f u) ?db1"
  have d: "friend_decide u f (db, []) = (Inr (Inr False), (db, []))" "friend_decide f u (db, []) = (Inr (Inr False), (db, []))"
    using none by (simp_all add: friend_decide_def FindPair_clean andThen_def ret_def)
  have a: "friend_apply now u f (Inr False) (db, []) = (Inr (?r u f, True), (?db1, []))"
    "friend_apply now f u (Inr False) (?db1, []) = (Inr (?r f u, True), (?db2, []))"
    by (simp_all add: friend_apply_def Upsert_clean andThen_def ret_def Let_def)
  have m: "map_of (friendships ?db2) (u, f) = Some (?r u f)" "map_of (friendships ?db2) (f, u) = Some (?r f u)"
    using n by (simp_all add: put_row_def update_conv')
  then have st: "status_of ?db2 (u, f) = Some FriendshipStatusPending" "status_of ?db2 (f, u) = Some FriendshipStatusPending"
    by (simp_all add: status_of_def)
  have "db3 = ?db2 \<and> \<not> created \<and> \<not> fr_IsFriend v" if "AddFriend now u f (?db2, fs) = (Inr (v, created), (db3, fs3))" for v created db3 fs fs3
  proof -
    from that obtain row fs1 where b: "andThen (friend_decide u f) (friend_apply now u f) (?db2, fs) = (Inr (row, created), (db3, fs1))"
      and v: "v = toFriendship row"
      unfolding AddFriend_def by (auto simp: runs dest!: validate_pair_ok transact_okD)
    then obtain dec fs2 where dec: "friend_decide u f (?db2, fs) = (Inr dec, (?db2, fs2))" "friend_apply now u f dec (?db2, fs2) = (Inr (row, created), (db3, fs1))"
      by (auto simp: runs dest: friend_decide_okD)
    then have "dec = Inl (?r u f)" using friend_decide_okD [OF dec(1)] st m by (cases dec) auto
    then show ?thesis
      using dec(2) by (auto simp: friend_apply_def runs v toFriendship_def friendshipView_def status_neq)
  qed
  then show ?thesis using d a st by blast
qed

theorem mutual_requests_stay_pending_witness:
  "\<exists>d e x db1 y db2. friend_decide ''a'' ''b'' (no_friends, []) = (Inr d, (no_friends, []))
    \<and> friend_decide ''b'' ''a'' (no_friends, []) = (Inr e, (no_friends, []))
    \<and> friend_apply 5 ''a'' ''b'' d (no_friends, []) = (Inr x, (db1, [])) \<and> friend_apply 5 ''b'' ''a'' e (db1, []) = (Inr y, (db2, []))
    \<and> status_of db2 (''a'', ''b'') = Some FriendshipStatusPending \<and> status_of db2 (''b'', ''a'') = Some FriendshipStatusPending"
proof -
  have "''a'' \<noteq> ''b''" "map_of (friendships no_friends) (''a'', ''b'') = None" "map_of (friendships no_friends) (''b'', ''a'') = None"
    by (simp_all add: no_friends_def)
  from mutual_requests_stay_pending [OF this, of 5] show ?thesis by blast
qed

end
