(* ===== verification/Presence.thy ===== *)
theory Presence
  imports Infra "HOL-Library.AList"
begin

text \<open>
  Which connections an account has, on any gateway: the interface \<^verbatim>\<open>PresenceStore\<close> of
  \<^verbatim>\<open>pkg/presence/store.go\<close> and its two implementations, in memory (\<^verbatim>\<open>memory.go\<close>) and on Redis
  (\<^verbatim>\<open>redis.go\<close>). An instant and a duration are numbers of nanoseconds. An operation takes one reading
  \<open>now\<close> of the clock, which Redis is taken to share; a mutex makes an operation of the memory store one step,
  and an operation of the Redis store is the sequence of its commands, any of which may fail.
  The locale \<open>presence_contract\<close> says what both stores promise.
\<close>

section \<open>Connections and their validation\<close>

definition zeroTime :: int where
  "zeroTime = - 62135596800 * 10 ^ 9"

record ConnectionMetadata =
  cm_UserID :: string
  cm_ConnectionID :: string
  cm_InstanceID :: string
  cm_GatewayID :: string
  cm_DeviceID :: string
  cm_Platform :: string
  cm_RemoteAddr :: string
  cm_UserAgent :: string
  cm_ConnectedAt :: int
  cm_LastHeartbeatAt :: int
  cm_ExpiresAt :: int

definition ErrInvalidConnection :: goerror where
  "ErrInvalidConnection = PlainError ''presence connection requires user id, connection id, and positive ttl''"

definition ErrConnectionNotFound :: goerror where
  "ErrConnectionNotFound = PlainError ''presence connection not found''"

definition normalizeMetadata :: "ConnectionMetadata \<Rightarrow> int \<Rightarrow> int \<Rightarrow> ConnectionMetadata result" where
  "normalizeMetadata metadata now ttl =
     (if TrimSpace (cm_UserID metadata) = [] \<or> TrimSpace (cm_ConnectionID metadata) = [] \<or> ttl \<le> 0
      then Inl ErrInvalidConnection
      else let inst = TrimSpace (cm_InstanceID metadata);
               gate = TrimSpace (cm_GatewayID metadata);
               inst' = (if inst = [] then gate else inst);
               gate' = (if gate = [] then inst' else gate)
           in Inr (metadata\<lparr>cm_UserID := TrimSpace (cm_UserID metadata),
                cm_ConnectionID := TrimSpace (cm_ConnectionID metadata),
                cm_InstanceID := inst', cm_GatewayID := gate',
                cm_ConnectedAt := (if cm_ConnectedAt metadata = zeroTime then now else cm_ConnectedAt metadata),
                cm_LastHeartbeatAt := (if cm_LastHeartbeatAt metadata = zeroTime then now else cm_LastHeartbeatAt metadata),
                cm_ExpiresAt := now + ttl\<rparr>))"

definition validateConnectionRef :: "string \<Rightarrow> string \<Rightarrow> int \<Rightarrow> goerror option" where
  "validateConnectionRef userID connectionID ttl =
     (if TrimSpace userID = [] \<or> TrimSpace connectionID = [] \<or> ttl \<le> 0 then Some ErrInvalidConnection else None)"

definition validateUserID :: "string \<Rightarrow> bool" where
  "validateUserID userID \<longleftrightarrow> TrimSpace userID \<noteq> []"

text \<open>The interface: a store is the record of its operations.\<close>

record 's PresenceStore =
  RegisterConnection :: "int \<Rightarrow> ConnectionMetadata \<Rightarrow> int \<Rightarrow> ('s, unit) act"
  Heartbeat :: "int \<Rightarrow> string \<Rightarrow> string \<Rightarrow> int \<Rightarrow> ('s, unit) act"
  UnregisterConnection :: "int \<Rightarrow> string \<Rightarrow> string \<Rightarrow> ('s, unit) act"
  ListUserConnections :: "int \<Rightarrow> string \<Rightarrow> ('s, ConnectionMetadata list) act"

definition IsUserOnline :: "'s PresenceStore \<Rightarrow> int \<Rightarrow> string \<Rightarrow> ('s, bool) act" where
  "IsUserOnline store now userID =
     andThen (ListUserConnections store now userID) (\<lambda>connections. ret (connections \<noteq> []))"

section \<open>The memory store\<close>

type_synonym user_connections = "(string \<times> ConnectionMetadata) list"

record MemoryStore =
  ms_connections :: "(string \<times> user_connections) list"

definition NewMemoryStore :: MemoryStore where
  "NewMemoryStore = \<lparr>ms_connections = []\<rparr>"

text \<open>A missing inner map reads as an empty one.\<close>

definition user_conns :: "MemoryStore \<Rightarrow> string \<Rightarrow> user_connections" where
  "user_conns s userID = (case map_of (ms_connections s) userID of None \<Rightarrow> [] | Some cs \<Rightarrow> cs)"

definition set_conns :: "string \<Rightarrow> user_connections \<Rightarrow> MemoryStore \<Rightarrow> MemoryStore" where
  "set_conns userID cs s =
     s\<lparr>ms_connections := (if cs = [] then AList.delete userID (ms_connections s)
                          else AList.update userID cs (ms_connections s))\<rparr>"

definition locked :: "('s \<Rightarrow> 'a result \<times> 's) \<Rightarrow> ('s, 'a) act" where
  "locked f = (\<lambda>(s, fs). case f s of (r, s') \<Rightarrow> (r, (s', fs)))"

definition Memory_RegisterConnection :: "int \<Rightarrow> ConnectionMetadata \<Rightarrow> int \<Rightarrow> (MemoryStore, unit) act" where
  "Memory_RegisterConnection now metadata0 ttl =
     locked (\<lambda>s. case normalizeMetadata metadata0 now ttl of
         Inl e \<Rightarrow> (Inl e, s)
       | Inr metadata \<Rightarrow>
           (Inr (), set_conns (cm_UserID metadata)
              (AList.update (cm_ConnectionID metadata) metadata (user_conns s (cm_UserID metadata))) s))"

definition Memory_Heartbeat :: "int \<Rightarrow> string \<Rightarrow> string \<Rightarrow> int \<Rightarrow> (MemoryStore, unit) act" where
  "Memory_Heartbeat now rawUser rawConnection ttl =
     locked (\<lambda>s. case validateConnectionRef rawUser rawConnection ttl of
         Some e \<Rightarrow> (Inl e, s)
       | None \<Rightarrow>
           let userID = TrimSpace rawUser; connectionID = TrimSpace rawConnection
           in case map_of (user_conns s userID) connectionID of
                None \<Rightarrow> (Inl ErrConnectionNotFound, s)
              | Some metadata \<Rightarrow>
                  if cm_ExpiresAt metadata < now then (Inl ErrConnectionNotFound, s)
                  else (Inr (), set_conns userID (AList.update connectionID
                          (metadata\<lparr>cm_LastHeartbeatAt := now, cm_ExpiresAt := now + ttl\<rparr>) (user_conns s userID)) s))"

definition Memory_UnregisterConnection :: "int \<Rightarrow> string \<Rightarrow> string \<Rightarrow> (MemoryStore, unit) act" where
  "Memory_UnregisterConnection now rawUser rawConnection =
     locked (\<lambda>s. if TrimSpace rawUser = [] \<or> TrimSpace rawConnection = [] then (Inl ErrInvalidConnection, s)
       else (Inr (), set_conns (TrimSpace rawUser)
               (AList.delete (TrimSpace rawConnection) (user_conns s (TrimSpace rawUser))) s))"

definition Memory_ListUserConnections :: "int \<Rightarrow> string \<Rightarrow> (MemoryStore, ConnectionMetadata list) act" where
  "Memory_ListUserConnections now rawUser =
     locked (\<lambda>s. if \<not> validateUserID rawUser then (Inl ErrInvalidConnection, s)
       else let userID = TrimSpace rawUser; cs = user_conns s userID
            in if cs = [] then (Inr [], s)
               else let alive = filter (\<lambda>(_, metadata). cm_ExpiresAt metadata > now) cs
                    in (Inr (sort_key cm_ConnectionID (map snd alive)), set_conns userID alive s))"

definition memory_store :: "MemoryStore PresenceStore" where
  "memory_store = \<lparr>RegisterConnection = Memory_RegisterConnection, Heartbeat = Memory_Heartbeat,
     UnregisterConnection = Memory_UnregisterConnection, ListUserConnections = Memory_ListUserConnections\<rparr>"

section \<open>Redis\<close>

text \<open>
  Hashes, sets and strings with the instants at which their keys expire. The store keeps the three kinds under
  different keys (\<open>key_families_disjoint\<close> below), so each kind has a map of its own.
\<close>

record redis =
  r_hash :: "string \<Rightarrow> ((string \<rightharpoonup> string) \<times> int option) option"
  r_set :: "string \<Rightarrow> (string list \<times> int option) option"
  r_str :: "string \<Rightarrow> (string \<times> int option) option"

definition empty_redis :: redis where
  "empty_redis = \<lparr>r_hash = (\<lambda>_. None), r_set = (\<lambda>_. None), r_str = (\<lambda>_. None)\<rparr>"

definition at_time :: "int \<Rightarrow> ('v \<times> int option) option \<Rightarrow> ('v \<times> int option) option" where
  "at_time now e = (case e of None \<Rightarrow> None
     | Some (v, d) \<Rightarrow> (case d of None \<Rightarrow> e | Some until \<Rightarrow> if now < until then e else None))"

definition hset :: "int \<Rightarrow> string \<Rightarrow> (string \<times> string) list \<Rightarrow> redis \<Rightarrow> redis" where
  "hset now k fvs r = r\<lparr>r_hash := (r_hash r)(k \<mapsto>
     (case at_time now (r_hash r k) of None \<Rightarrow> (map_of fvs, None) | Some (v, d) \<Rightarrow> (v ++ map_of fvs, d)))\<rparr>"

definition expire_hash :: "int \<Rightarrow> string \<Rightarrow> int \<Rightarrow> redis \<Rightarrow> redis" where
  "expire_hash now k ttl r = r\<lparr>r_hash := (r_hash r)(k :=
     (case at_time now (r_hash r k) of None \<Rightarrow> None | Some (v, d) \<Rightarrow> Some (v, Some (now + ttl))))\<rparr>"

definition expire_set :: "int \<Rightarrow> string \<Rightarrow> int \<Rightarrow> redis \<Rightarrow> redis" where
  "expire_set now k ttl r = r\<lparr>r_set := (r_set r)(k :=
     (case at_time now (r_set r k) of None \<Rightarrow> None | Some (v, d) \<Rightarrow> Some (v, Some (now + ttl))))\<rparr>"

definition sadd :: "int \<Rightarrow> string \<Rightarrow> string \<Rightarrow> redis \<Rightarrow> redis" where
  "sadd now k x r = r\<lparr>r_set := (r_set r)(k \<mapsto>
     (case at_time now (r_set r k) of None \<Rightarrow> ([x], None) | Some (v, d) \<Rightarrow> (List.insert x v, d)))\<rparr>"

definition srem :: "int \<Rightarrow> string \<Rightarrow> string list \<Rightarrow> redis \<Rightarrow> redis" where
  "srem now k xs r = r\<lparr>r_set := (r_set r)(k :=
     (case at_time now (r_set r k) of
        None \<Rightarrow> None
      | Some (v, d) \<Rightarrow> (let v' = filter (\<lambda>x. x \<notin> set xs) v in if v' = [] then None else Some (v', d))))\<rparr>"

definition setex :: "int \<Rightarrow> string \<Rightarrow> string \<Rightarrow> int \<Rightarrow> redis \<Rightarrow> redis" where
  "setex now k v ttl r = r\<lparr>r_str := (r_str r)(k \<mapsto> (v, Some (now + ttl)))\<rparr>"

definition del_hashes :: "string list \<Rightarrow> redis \<Rightarrow> redis" where
  "del_hashes ks r = r\<lparr>r_hash := (\<lambda>k. if k \<in> set ks then None else r_hash r k)\<rparr>"

definition del_set :: "string \<Rightarrow> redis \<Rightarrow> redis" where
  "del_set k r = r\<lparr>r_set := (r_set r)(k := None)\<rparr>"

definition del_str :: "string \<Rightarrow> redis \<Rightarrow> redis" where
  "del_str k r = r\<lparr>r_str := (r_str r)(k := None)\<rparr>"

text \<open>A hash has at least one field; the reply for a missing one is empty.\<close>

definition HGetAll :: "int \<Rightarrow> string \<Rightarrow> redis \<Rightarrow> (string \<rightharpoonup> string) option" where
  "HGetAll now k r = map_option fst (at_time now (r_hash r k))"

definition SMembers :: "int \<Rightarrow> string \<Rightarrow> redis \<Rightarrow> string list" where
  "SMembers now k r = (case at_time now (r_set r k) of None \<Rightarrow> [] | Some (v, _) \<Rightarrow> v)"

text \<open>A pipeline sends its commands one after another; a failure leaves those that were executed.\<close>

definition pipe :: "(redis \<Rightarrow> redis) list \<Rightarrow> (redis, unit) act" where
  "pipe cmds = for_each (\<lambda>f. call ''redis pipeline'' (\<lambda>r. ((), f r))) cmds"

section \<open>The Redis store\<close>

text \<open>
  \<open>rs_lifetime\<close> is the time to live that the Redis client sends for a duration (it counts whole seconds).
\<close>

record RedisStore =
  rs_prefix :: string
  rs_lifetime :: "int \<Rightarrow> int"

definition defaultPresenceRedisKeyPrefix :: string where
  "defaultPresenceRedisKeyPrefix = ''agents_im:presence''"

definition trim_colons :: "string \<Rightarrow> string" where
  "trim_colons s = rev (dropWhile (\<lambda>c. c = CHR '':'') (rev (dropWhile (\<lambda>c. c = CHR '':'') s)))"

definition newRedisKeyspace :: "string \<Rightarrow> string" where
  "newRedisKeyspace prefix0 =
     (let pre = trim_colons (TrimSpace prefix0)
      in if pre = [] then trim_colons defaultPresenceRedisKeyPrefix else pre)"

definition userConnections :: "string \<Rightarrow> string \<Rightarrow> string" where
  "userConnections pre userID = pre @ '':user:'' @ userID @ '':connections''"

definition userOnline :: "string \<Rightarrow> string \<Rightarrow> string" where
  "userOnline pre userID = pre @ '':user:'' @ userID @ '':online''"

definition connection :: "string \<Rightarrow> string \<Rightarrow> string" where
  "connection pre connectionID = pre @ '':conn:'' @ connectionID"

definition userKeyTTL :: "int \<Rightarrow> int" where
  "userKeyTTL ttl = (if ttl \<le> 0 then 0 else ttl * 2)"

definition UnixMilli :: "int \<Rightarrow> int" where
  "UnixMilli t = wrap64 (t div 10 ^ 6)"

definition redisHash :: "ConnectionMetadata \<Rightarrow> (string \<times> string) list" where
  "redisHash m =
     [(''user_id'', cm_UserID m), (''connection_id'', cm_ConnectionID m), (''instance_id'', cm_InstanceID m),
      (''gateway_id'', cm_GatewayID m), (''device_id'', cm_DeviceID m), (''platform'', cm_Platform m),
      (''remote_addr'', cm_RemoteAddr m), (''user_agent'', cm_UserAgent m),
      (''connected_at_unix_ms'', FormatInt (UnixMilli (cm_ConnectedAt m))),
      (''last_heartbeat_at_unix_ms'', FormatInt (UnixMilli (cm_LastHeartbeatAt m))),
      (''expires_at_unix_ms'', FormatInt (UnixMilli (cm_ExpiresAt m)))]"

definition field :: "(string \<rightharpoonup> string) \<Rightarrow> string \<Rightarrow> string" where
  "field fvs name = (case fvs name of None \<Rightarrow> [] | Some v \<Rightarrow> v)"

definition unixMilliField :: "(string \<rightharpoonup> string) \<Rightarrow> string \<Rightarrow> int option" where
  "unixMilliField fvs name =
     (let raw = TrimSpace (field fvs name)
      in if raw = [] then None else map_option (\<lambda>v. v * 10 ^ 6) (ParseInt raw))"

fun firstNonEmptyString :: "string list \<Rightarrow> string" where
  "firstNonEmptyString [] = []"
| "firstNonEmptyString (v # vs) = (if TrimSpace v \<noteq> [] then TrimSpace v else firstNonEmptyString vs)"

definition metadataFromRedisHash :: "(string \<rightharpoonup> string) option \<Rightarrow> ConnectionMetadata option" where
  "metadataFromRedisHash reply =
     (case reply of None \<Rightarrow> None | Some fvs \<Rightarrow>
        (case unixMilliField fvs ''connected_at_unix_ms'' of None \<Rightarrow> None | Some connectedAt \<Rightarrow>
        (case unixMilliField fvs ''last_heartbeat_at_unix_ms'' of None \<Rightarrow> None | Some lastHeartbeatAt \<Rightarrow>
        (case unixMilliField fvs ''expires_at_unix_ms'' of None \<Rightarrow> None | Some expiresAt \<Rightarrow>
           let m = \<lparr>cm_UserID = field fvs ''user_id'', cm_ConnectionID = field fvs ''connection_id'',
                    cm_InstanceID = firstNonEmptyString [field fvs ''instance_id'', field fvs ''gateway_id''],
                    cm_GatewayID = field fvs ''gateway_id'', cm_DeviceID = field fvs ''device_id'',
                    cm_Platform = field fvs ''platform'', cm_RemoteAddr = field fvs ''remote_addr'',
                    cm_UserAgent = field fvs ''user_agent'', cm_ConnectedAt = connectedAt,
                    cm_LastHeartbeatAt = lastHeartbeatAt, cm_ExpiresAt = expiresAt\<rparr>
           in if cm_UserID m \<noteq> [] \<and> cm_ConnectionID m \<noteq> [] then Some m else None))))"

text \<open>The five commands with which a connection is registered or renewed.\<close>

definition write_connection :: "RedisStore \<Rightarrow> int \<Rightarrow> ConnectionMetadata \<Rightarrow> string \<Rightarrow> string \<Rightarrow> int \<Rightarrow> (redis, unit) act" where
  "write_connection R now metadata userID connectionID ttl =
     pipe [hset now (connection (rs_prefix R) connectionID) (redisHash metadata),
           expire_hash now (connection (rs_prefix R) connectionID) (rs_lifetime R ttl),
           sadd now (userConnections (rs_prefix R) userID) connectionID,
           expire_set now (userConnections (rs_prefix R) userID) (rs_lifetime R (userKeyTTL ttl)),
           setex now (userOnline (rs_prefix R) userID) ''1'' (rs_lifetime R (userKeyTTL ttl))]"

definition Redis_RegisterConnection :: "RedisStore \<Rightarrow> int \<Rightarrow> ConnectionMetadata \<Rightarrow> int \<Rightarrow> (redis, unit) act" where
  "Redis_RegisterConnection R now metadata0 ttl =
     andThen (lift_result (normalizeMetadata metadata0 now ttl)) (\<lambda>metadata.
       write_connection R now metadata (cm_UserID metadata) (cm_ConnectionID metadata) ttl)"

definition read_entry :: "RedisStore \<Rightarrow> int \<Rightarrow> string \<Rightarrow> redis \<Rightarrow> ConnectionMetadata option" where
  "read_entry R now connectionID r = metadataFromRedisHash (HGetAll now (connection (rs_prefix R) connectionID) r)"

definition current :: "int \<Rightarrow> string \<Rightarrow> ConnectionMetadata option \<Rightarrow> bool" where
  "current now userID e \<longleftrightarrow>
     (case e of None \<Rightarrow> False | Some metadata \<Rightarrow> cm_UserID metadata = userID \<and> cm_ExpiresAt metadata > now)"

definition Redis_Heartbeat :: "RedisStore \<Rightarrow> int \<Rightarrow> string \<Rightarrow> string \<Rightarrow> int \<Rightarrow> (redis, unit) act" where
  "Redis_Heartbeat R now rawUser rawConnection ttl =
     andThen (check (validateConnectionRef rawUser rawConnection ttl)) (\<lambda>_.
       let userID = TrimSpace rawUser; connectionID = TrimSpace rawConnection
       in andThen (call ''hgetall'' (\<lambda>r. (read_entry R now connectionID r, r))) (\<lambda>e.
            if \<not> current now userID e then raise ErrConnectionNotFound
            else write_connection R now ((the e)\<lparr>cm_LastHeartbeatAt := now, cm_ExpiresAt := now + ttl\<rparr>)
                   userID connectionID ttl))"

text \<open>The loop of \<^verbatim>\<open>ListUserConnections\<close>: the connections that are current and the stale ids.\<close>

fun split_stale ::
  "RedisStore \<Rightarrow> int \<Rightarrow> string \<Rightarrow> string list \<Rightarrow> (redis, ConnectionMetadata list \<times> string list) act" where
  "split_stale R now userID [] = ret ([], [])"
| "split_stale R now userID (connectionID # ids) =
     andThen (call ''hgetall'' (\<lambda>r. (read_entry R now connectionID r, r))) (\<lambda>e.
     andThen (split_stale R now userID ids) (\<lambda>(connections, stale).
       if current now userID e then ret (the e # connections, stale) else ret (connections, connectionID # stale)))"

definition Redis_ListUserConnections :: "RedisStore \<Rightarrow> int \<Rightarrow> string \<Rightarrow> (redis, ConnectionMetadata list) act" where
  "Redis_ListUserConnections R now rawUser =
     (if \<not> validateUserID rawUser then raise ErrInvalidConnection
      else let userID = TrimSpace rawUser in
        andThen (call ''smembers'' (\<lambda>r. (SMembers now (userConnections (rs_prefix R) userID) r, r))) (\<lambda>connectionIDs.
          if connectionIDs = [] then ret []
          else andThen (split_stale R now userID connectionIDs) (\<lambda>(connections, stale).
            andThen (if stale \<noteq> [] \<or> connections = []
                     then pipe ((if stale \<noteq> [] then [srem now (userConnections (rs_prefix R) userID) stale,
                                    del_hashes (map (connection (rs_prefix R)) stale)] else [])
                                @ (if connections = [] then [del_str (userOnline (rs_prefix R) userID)] else []))
                     else ret ()) (\<lambda>_.
            ret (sort_key cm_ConnectionID connections)))))"

text \<open>\<^verbatim>\<open>UnregisterConnection\<close> in its two halves: another gateway may act between them.\<close>

definition unregister_read :: "RedisStore \<Rightarrow> int \<Rightarrow> string \<Rightarrow> string \<Rightarrow> (redis, ConnectionMetadata list) act" where
  "unregister_read R now rawUser rawConnection =
     (if TrimSpace rawUser = [] \<or> TrimSpace rawConnection = [] then raise ErrInvalidConnection
      else andThen (pipe [del_hashes [connection (rs_prefix R) (TrimSpace rawConnection)],
                          srem now (userConnections (rs_prefix R) (TrimSpace rawUser)) [TrimSpace rawConnection]]) (\<lambda>_.
           Redis_ListUserConnections R now (TrimSpace rawUser)))"

definition unregister_clear :: "RedisStore \<Rightarrow> string \<Rightarrow> ConnectionMetadata list \<Rightarrow> (redis, unit) act" where
  "unregister_clear R rawUser connections =
     (if connections = []
      then call ''del'' (\<lambda>r. ((), del_set (userConnections (rs_prefix R) (TrimSpace rawUser))
                                  (del_str (userOnline (rs_prefix R) (TrimSpace rawUser)) r)))
      else ret ())"

definition Redis_UnregisterConnection :: "RedisStore \<Rightarrow> int \<Rightarrow> string \<Rightarrow> string \<Rightarrow> (redis, unit) act" where
  "Redis_UnregisterConnection R now rawUser rawConnection =
     andThen (unregister_read R now rawUser rawConnection) (unregister_clear R rawUser)"

definition redis_store :: "RedisStore \<Rightarrow> redis PresenceStore" where
  "redis_store R = \<lparr>RegisterConnection = Redis_RegisterConnection R, Heartbeat = Redis_Heartbeat R,
     UnregisterConnection = Redis_UnregisterConnection R, ListUserConnections = Redis_ListUserConnections R\<rparr>"

section \<open>The contract of a store\<close>

text \<open>
  \<open>live s t u c\<close> says that the state shows connection \<open>c\<close> for account \<open>u\<close> at time \<open>t\<close>. A connection id belongs
  to one account (\<open>owner\<close>): a gateway draws it at random for each connection. \<open>q\<close> is the precision with which the
  store keeps an instant. The laws are those of calls that no failure disturbs.
\<close>

locale presence_contract =
  fixes store :: "'s PresenceStore" and ttl :: int and q :: "int \<Rightarrow> int" and owner :: "string \<Rightarrow> string"
    and okp :: "int \<Rightarrow> 's \<Rightarrow> bool" and live :: "'s \<Rightarrow> int \<Rightarrow> string \<Rightarrow> string \<Rightarrow> bool"
  assumes okp_later: "okp now s \<Longrightarrow> now \<le> t \<Longrightarrow> okp t s"
    and register_run: "okp now s \<Longrightarrow> 0 \<le> now \<Longrightarrow> normalizeMetadata md now ttl = Inr m
      \<Longrightarrow> owner (cm_ConnectionID m) = cm_UserID m
      \<Longrightarrow> \<exists>s'. RegisterConnection store now md ttl (s, []) = (Inr (), (s', [])) \<and> okp now s'
            \<and> (\<forall>t\<ge>now. \<forall>u c. live s' t u c \<longleftrightarrow>
                  (if u = cm_UserID m \<and> c = cm_ConnectionID m then t < q (now + ttl) else live s t u c))"
    and heartbeat_run: "okp now s \<Longrightarrow> 0 \<le> now \<Longrightarrow> TrimSpace ru = u0 \<Longrightarrow> TrimSpace rc = c0
      \<Longrightarrow> validateConnectionRef ru rc ttl = None
      \<Longrightarrow> \<exists>r s'. Heartbeat store now ru rc ttl (s, []) = (r, (s', [])) \<and> okp now s'
            \<and> (live s now u0 c0 \<longrightarrow> r = Inr ())
            \<and> (\<forall>t\<ge>now. \<forall>u c. live s' t u c \<longleftrightarrow>
                  (if r = Inr () \<and> u = u0 \<and> c = c0 then t < q (now + ttl) else live s t u c))"
    and unregister_run: "okp now s \<Longrightarrow> TrimSpace ru = u0 \<Longrightarrow> TrimSpace rc = c0 \<Longrightarrow> u0 \<noteq> [] \<Longrightarrow> c0 \<noteq> [] \<Longrightarrow> owner c0 = u0
      \<Longrightarrow> \<exists>s'. UnregisterConnection store now ru rc (s, []) = (Inr (), (s', [])) \<and> okp now s'
            \<and> (\<forall>t\<ge>now. \<forall>u c. live s' t u c \<longleftrightarrow> \<not> (u = u0 \<and> c = c0) \<and> live s t u c)"
    and list_run: "okp now s \<Longrightarrow> TrimSpace ru = u0 \<Longrightarrow> u0 \<noteq> []
      \<Longrightarrow> \<exists>cs s'. ListUserConnections store now ru (s, []) = (Inr cs, (s', [])) \<and> okp now s'
            \<and> (\<forall>t\<ge>now. \<forall>u c. live s' t u c \<longleftrightarrow> live s t u c)
            \<and> finite {c. live s now u0 c} \<and> map cm_ConnectionID cs = sorted_list_of_set {c. live s now u0 c}
            \<and> (\<forall>md\<in>set cs. cm_UserID md = u0)"
    and refused_run:
      "normalizeMetadata md now ttl = Inl e \<Longrightarrow> RegisterConnection store now md ttl (s, []) = (Inl e, (s, []))"
      "validateConnectionRef ru rc ttl = Some e \<Longrightarrow> Heartbeat store now ru rc ttl (s, []) = (Inl e, (s, []))"
      "TrimSpace ru = [] \<or> TrimSpace rc = []
         \<Longrightarrow> UnregisterConnection store now ru rc (s, []) = (Inl ErrInvalidConnection, (s, []))"
      "TrimSpace ru = [] \<Longrightarrow> ListUserConnections store now ru (s, []) = (Inl ErrInvalidConnection, (s, []))"

text \<open>
  A history of calls, and beside it what it should leave behind: the instant up to which each connection was last
  registered or renewed. \<open>run_history\<close> runs the calls on a store and keeps that table.
\<close>

datatype presence_op =
  Reg ConnectionMetadata | Beat string string | Unreg string string | Show string

type_synonym expiry_table = "string \<Rightarrow> string \<Rightarrow> int option"

definition run_op :: "'s PresenceStore \<Rightarrow> int \<Rightarrow> int \<Rightarrow> presence_op \<Rightarrow> 's \<Rightarrow> bool \<times> 's" where
  "run_op store ttl now op s =
     (case op of
        Reg md \<Rightarrow> (case RegisterConnection store now md ttl (s, []) of (r, (s', _)) \<Rightarrow> (r = Inr (), s'))
      | Beat u c \<Rightarrow> (case Heartbeat store now u c ttl (s, []) of (r, (s', _)) \<Rightarrow> (r = Inr (), s'))
      | Unreg u c \<Rightarrow> (case UnregisterConnection store now u c (s, []) of (r, (s', _)) \<Rightarrow> (r = Inr (), s'))
      | Show u \<Rightarrow> (case ListUserConnections store now u (s, []) of (r, (s', _)) \<Rightarrow> (\<not> isl r, s')))"

definition set_expiry :: "string \<Rightarrow> string \<Rightarrow> int option \<Rightarrow> expiry_table \<Rightarrow> expiry_table" where
  "set_expiry u c e m = m(TrimSpace u := (m (TrimSpace u))(TrimSpace c := e))"

definition note_op :: "int \<Rightarrow> int \<Rightarrow> presence_op \<Rightarrow> bool \<Rightarrow> expiry_table \<Rightarrow> expiry_table" where
  "note_op ttl now op good m =
     (if \<not> good then m
      else case op of
        Reg md \<Rightarrow> set_expiry (cm_UserID md) (cm_ConnectionID md) (Some (now + ttl)) m
      | Beat u c \<Rightarrow> set_expiry u c (Some (now + ttl)) m
      | Unreg u c \<Rightarrow> set_expiry u c None m
      | Show u \<Rightarrow> m)"

fun run_history :: "'s PresenceStore \<Rightarrow> int \<Rightarrow> (int \<times> presence_op) list \<Rightarrow> 's \<times> expiry_table \<Rightarrow> 's \<times> expiry_table" where
  "run_history store ttl [] sm = sm"
| "run_history store ttl ((now, op) # ops) (s, m) =
     (case run_op store ttl now op s of (good, s') \<Rightarrow> run_history store ttl ops (s', note_op ttl now op good m))"

text \<open>Ids belong to accounts, and time does not run backwards.\<close>

definition owned :: "(string \<Rightarrow> string) \<Rightarrow> presence_op \<Rightarrow> bool" where
  "owned owner op \<longleftrightarrow>
     (case op of
        Reg md \<Rightarrow> owner (TrimSpace (cm_ConnectionID md)) = TrimSpace (cm_UserID md)
      | Unreg u c \<Rightarrow> owner (TrimSpace c) = TrimSpace u
      | _ \<Rightarrow> True)"

definition history_ok :: "(string \<Rightarrow> string) \<Rightarrow> (int \<times> presence_op) list \<Rightarrow> bool" where
  "history_ok owner ops \<longleftrightarrow> sorted (map fst ops) \<and> list_all (\<lambda>(t, op). 0 \<le> t \<and> owned owner op) ops"

text \<open>What a table predicts at \<open>now\<close>: the listing of every account, and that its heartbeats are accepted.\<close>

definition reports :: "'s PresenceStore \<Rightarrow> int \<Rightarrow> (int \<Rightarrow> int) \<Rightarrow> int \<Rightarrow> 's \<Rightarrow> expiry_table \<Rightarrow> bool" where
  "reports store ttl q now s m \<longleftrightarrow>
     (\<forall>ru. TrimSpace ru \<noteq> [] \<longrightarrow>
        (\<exists>cs W. ListUserConnections store now ru (s, []) = (Inr cs, W)
           \<and> map cm_ConnectionID cs = sorted_list_of_set {c. \<exists>e. m (TrimSpace ru) c = Some e \<and> now < q e}
           \<and> (\<forall>md\<in>set cs. cm_UserID md = TrimSpace ru)))
     \<and> (\<forall>ru rc e. m (TrimSpace ru) (TrimSpace rc) = Some e \<and> now < q e \<and> validateConnectionRef ru rc ttl = None
          \<longrightarrow> (\<exists>W. Heartbeat store now ru rc ttl (s, []) = (Inr (), W)))"

context presence_contract begin

definition tracked :: "int \<Rightarrow> 's \<Rightarrow> expiry_table \<Rightarrow> bool" where
  "tracked now s m \<longleftrightarrow> okp now s \<and> (\<forall>t\<ge>now. \<forall>u c. live s t u c \<longleftrightarrow> (\<exists>e. m u c = Some e \<and> t < q e))"

lemma tracked_later: "tracked now s m \<Longrightarrow> now \<le> t \<Longrightarrow> tracked t s m"
  unfolding tracked_def using okp_later by auto

lemma tracked_op:
  assumes "tracked now s m" "0 \<le> now" "owned owner op" "run_op store ttl now op s = (good, s')"
  shows "tracked now s' (note_op ttl now op good m)"
proof -
  have ok: "okp now s" and live: "\<And>t u c. now \<le> t \<Longrightarrow> live s t u c \<longleftrightarrow> (\<exists>e. m u c = Some e \<and> t < q e)"
    using assms(1) by (auto simp: tracked_def)
  show ?thesis
  proof (cases op)
    case (Reg md)
    show ?thesis
    proof (cases "normalizeMetadata md now ttl")
      case (Inl e)
      then show ?thesis using assms Reg refused_run(1) by (auto simp: run_op_def note_op_def)
    next
      case (Inr nm)
      then have n: "cm_UserID nm = TrimSpace (cm_UserID md)" "cm_ConnectionID nm = TrimSpace (cm_ConnectionID md)"
        by (auto simp: normalizeMetadata_def Let_def split: if_splits)
      with register_run [OF ok assms(2) Inr] assms(3,4) Reg show ?thesis
        by (auto simp: run_op_def note_op_def owned_def tracked_def live set_expiry_def)
    qed
  next
    case (Beat u c)
    show ?thesis
    proof (cases "validateConnectionRef u c ttl")
      case (Some e)
      then show ?thesis using assms Beat refused_run(2) by (auto simp: run_op_def note_op_def)
    next
      case None
      from heartbeat_run [OF ok assms(2) refl refl this] assms(4) Beat show ?thesis
        by (auto simp: run_op_def note_op_def tracked_def live set_expiry_def)
    qed
  next
    case (Unreg u c)
    show ?thesis
    proof (cases "TrimSpace u = [] \<or> TrimSpace c = []")
      case True
      then show ?thesis using assms Unreg refused_run(3) by (auto simp: run_op_def note_op_def)
    next
      case False
      with unregister_run [OF ok refl refl, of u c] assms(3,4) Unreg show ?thesis
        by (auto simp: run_op_def note_op_def owned_def tracked_def live set_expiry_def)
    qed
  next
    case (Show u)
    show ?thesis
    proof (cases "TrimSpace u = []")
      case True
      then show ?thesis using assms Show refused_run(4) by (auto simp: run_op_def note_op_def)
    next
      case False
      from list_run [OF ok refl this] assms(4) Show show ?thesis
        by (auto simp: run_op_def note_op_def tracked_def live)
    qed
  qed
qed

lemma tracked_history:
  assumes "tracked t0 s m" "history_ok owner ops" "\<forall>(t, op)\<in>set ops. t0 \<le> t \<and> t \<le> now" "t0 \<le> now"
    "run_history store ttl ops (s, m) = (s', m')"
  shows "tracked now s' m'"
  using assms
proof (induction ops arbitrary: t0 s m)
  case Nil
  then show ?case by (auto intro: tracked_later)
next
  case (Cons x ops)
  obtain t op where x: "x = (t, op)" by (cases x)
  obtain d s1 where r: "run_op store ttl t op s = (d, s1)" by (cases "run_op store ttl t op s")
  have "tracked t s1 (note_op ttl t op d m)"
    using Cons.prems(1,2,3) by (intro tracked_op [OF _ _ _ r] tracked_later [OF Cons.prems(1)]) (auto simp: x history_ok_def)
  moreover have "\<forall>(t', op')\<in>set ops. t \<le> t' \<and> t' \<le> now" "t \<le> now" "history_ok owner ops"
    using Cons.prems(2,3) by (auto simp: x history_ok_def)
  ultimately show ?case using Cons.IH Cons.prems(5) by (simp add: x r)
qed

lemma tracked_reports: "tracked now s m \<Longrightarrow> 0 \<le> now \<Longrightarrow> reports store ttl q now s m"
proof -
  assume t: "tracked now s m" and n: "0 \<le> now"
  then have ok: "okp now s" and live: "\<And>u c. live s now u c \<longleftrightarrow> (\<exists>e. m u c = Some e \<and> now < q e)"
    by (auto simp: tracked_def)
  show ?thesis
    unfolding reports_def live [symmetric]
    using list_run [OF ok refl] heartbeat_run [OF ok n refl refl] live by metis
qed

end

section \<open>The memory store keeps the contract\<close>

definition memory_ok :: "int \<Rightarrow> MemoryStore \<Rightarrow> bool" where
  "memory_ok now s \<longleftrightarrow>
     (\<forall>u. distinct (map fst (user_conns s u))
        \<and> (\<forall>(c, md)\<in>set (user_conns s u). cm_ConnectionID md = c \<and> cm_UserID md = u))"

definition memory_live :: "MemoryStore \<Rightarrow> int \<Rightarrow> string \<Rightarrow> string \<Rightarrow> bool" where
  "memory_live s t u c \<longleftrightarrow> (case map_of (user_conns s u) c of None \<Rightarrow> False | Some md \<Rightarrow> t < cm_ExpiresAt md)"

lemma user_conns_set [simp]: "user_conns (set_conns u cs s) v = (if v = u then cs else user_conns s v)"
  by (auto simp: user_conns_def set_conns_def update_conv' delete_conv' split: option.splits)

lemma normalize_okD:
  "normalizeMetadata md now ttl = Inr m \<Longrightarrow>
     cm_UserID m = TrimSpace (cm_UserID md) \<and> cm_ConnectionID m = TrimSpace (cm_ConnectionID md)
     \<and> cm_UserID m \<noteq> [] \<and> cm_ConnectionID m \<noteq> [] \<and> cm_ExpiresAt m = now + ttl \<and> 0 < ttl"
  by (auto simp: normalizeMetadata_def Let_def split: if_splits)

lemma memory_ok_set:
  assumes "memory_ok now s" "distinct (map fst cs)" "\<forall>(c, md)\<in>set cs. cm_ConnectionID md = c \<and> cm_UserID md = u"
  shows "memory_ok now (set_conns u cs s)"
  using assms by (auto simp: memory_ok_def)

lemma memory_live_set:
  "memory_live (set_conns u cs s) t v c \<longleftrightarrow>
     (if v = u then (case map_of cs c of None \<Rightarrow> False | Some md \<Rightarrow> t < cm_ExpiresAt md) else memory_live s t v c)"
  by (simp add: memory_live_def)

lemma set_update_subset: "set (AList.update k v xs) \<subseteq> insert (k, v) (set xs)"
  by (induction xs) auto

lemma set_delete: "set (AList.delete k xs) \<subseteq> set xs"
  by (induction xs) auto

lemma memory_ok_update:
  "memory_ok now s \<Longrightarrow> cm_ConnectionID m = c \<Longrightarrow> cm_UserID m = u
     \<Longrightarrow> memory_ok now (set_conns u (AList.update c m (user_conns s u)) s)"
  using set_update_subset [of c m "user_conns s u"]
  by (intro memory_ok_set) (auto simp: memory_ok_def distinct_update)

lemma map_of_case_iff:
  "distinct (map fst cs) \<Longrightarrow>
     (case map_of cs c of None \<Rightarrow> False | Some md \<Rightarrow> P md) \<longleftrightarrow> (\<exists>md. (c, md) \<in> set cs \<and> P md)"
proof (cases "map_of cs c")
  case None
  then have "c \<notin> fst ` set cs" by (simp add: map_of_eq_None_iff)
  with None show ?thesis by force
qed (auto dest: map_of_SomeD eq_key_imp_eq_value)

lemma memory_live_filter:
  assumes "distinct (map fst cs)" "now \<le> t"
  shows "(case map_of (filter (\<lambda>(_, md). now < cm_ExpiresAt md) cs) c of None \<Rightarrow> False | Some md \<Rightarrow> t < cm_ExpiresAt md)
    \<longleftrightarrow> (case map_of cs c of None \<Rightarrow> False | Some md \<Rightarrow> t < cm_ExpiresAt md)"
  using assms by (auto simp: map_of_case_iff distinct_map_filter)

lemma sorted_ids:
  "distinct (map f ms) \<Longrightarrow> map f (sort_key f ms) = sorted_list_of_set (f ` set ms)"
  by (metis distinct_map distinct_sort list.set_map set_sort sorted_list_of_set.idem_if_sorted_distinct sorted_sort_key)

lemma memory_listing:
  assumes "distinct (map fst cs)" "\<forall>(c, md)\<in>set cs. cm_ConnectionID md = c \<and> cm_UserID md = u"
    and alive: "alive = filter (\<lambda>(_, md). now < cm_ExpiresAt md) cs"
  shows "map cm_ConnectionID (sort_key cm_ConnectionID (map snd alive))
      = sorted_list_of_set {c. case map_of cs c of None \<Rightarrow> False | Some md \<Rightarrow> now < cm_ExpiresAt md}"
    and "finite {c. case map_of cs c of None \<Rightarrow> False | Some md \<Rightarrow> now < cm_ExpiresAt md}"
proof -
  let ?L = "{c. case map_of cs c of None \<Rightarrow> False | Some md \<Rightarrow> now < cm_ExpiresAt md}"
  have ids: "map cm_ConnectionID (map snd alive) = map fst alive"
    using assms(2) by (auto simp: alive)
  have L: "?L = fst ` set alive"
    using assms(1) by (force simp: map_of_case_iff alive image_iff)
  then show "finite ?L" by simp
  have "distinct (map cm_ConnectionID (map snd alive))"
    unfolding ids unfolding alive by (rule distinct_map_filter [OF assms(1)])
  moreover have "cm_ConnectionID ` set (map snd alive) = ?L" using ids L by (metis list.set_map)
  ultimately show "map cm_ConnectionID (sort_key cm_ConnectionID (map snd alive)) = sorted_list_of_set ?L"
    by (metis sorted_ids)
qed

interpretation memory: presence_contract memory_store ttl "\<lambda>e. e" owner memory_ok memory_live for ttl owner
proof (unfold_locales, goal_cases)
  case (1 now s t)
  then show ?case by (simp add: memory_ok_def)
next
  case (2 now s md m)
  then show ?case
    by (auto simp: memory_store_def Memory_RegisterConnection_def locked_def memory_live_set update_conv'
        memory_live_def dest: normalize_okD intro: memory_ok_update)
next
  case (3 now s ru u0 rc c0)
  show ?case
  proof (cases "map_of (user_conns s u0) c0")
    case None
    then show ?thesis
      using 3 by (auto simp: memory_store_def Memory_Heartbeat_def locked_def Let_def memory_live_def)
  next
    case (Some md)
    then have "cm_ConnectionID md = c0 \<and> cm_UserID md = u0"
      using 3(1) map_of_SomeD [OF Some] by (auto simp: memory_ok_def)
    with 3 Some show ?thesis
      by (auto simp: memory_store_def Memory_Heartbeat_def locked_def Let_def memory_live_def memory_ok_update
          update_conv')
  qed
next
  case (4 now s ru u0 rc c0)
  then show ?case
    by (auto simp: memory_store_def Memory_UnregisterConnection_def locked_def memory_live_set delete_conv'
        memory_live_def distinct_delete memory_ok_def dest: set_delete [THEN subsetD])
next
  case (5 now s ru u0)
  let ?cs = "user_conns s u0"
  have ok: "distinct (map fst ?cs)" "\<forall>(c, md)\<in>set ?cs. cm_ConnectionID md = c \<and> cm_UserID md = u0"
    using 5(1) by (auto simp: memory_ok_def)
  note listing = memory_listing [OF ok refl, of now]
  show ?case
  proof (cases "?cs = []")
    case True
    then show ?thesis
      using 5 by (auto simp: memory_store_def Memory_ListUserConnections_def locked_def validateUserID_def memory_live_def)
  next
    case False
    let ?alive = "filter (\<lambda>(_, md). now < cm_ExpiresAt md) ?cs"
    have "memory_ok now (set_conns u0 ?alive s)"
      using ok by (intro memory_ok_set 5(1) distinct_map_filter) auto
    moreover have "memory_live (set_conns u0 ?alive s) t u c \<longleftrightarrow> memory_live s t u c" if "now \<le> t" for t u c
      using memory_live_filter [OF ok(1) that] by (auto simp: memory_live_set memory_live_def)
    moreover have "ListUserConnections memory_store now ru (s, [])
        = (Inr (sort_key cm_ConnectionID (map snd ?alive)), (set_conns u0 ?alive s, []))"
      using False 5 by (simp add: memory_store_def Memory_ListUserConnections_def locked_def validateUserID_def Let_def)
    moreover have "\<forall>md\<in>set (sort_key cm_ConnectionID (map snd ?alive)). cm_UserID md = u0"
      using ok(2) by fastforce
    ultimately show ?thesis
      using listing unfolding memory_live_def by blast
  qed
qed (auto simp: memory_store_def locked_def Memory_RegisterConnection_def Memory_Heartbeat_def
    Memory_UnregisterConnection_def Memory_ListUserConnections_def validateUserID_def)

section \<open>The Redis store keeps the contract\<close>

lemma key_inject [simp]:
  "connection pre c = connection pre c' \<longleftrightarrow> c = c'"
  "userConnections pre u = userConnections pre u' \<longleftrightarrow> u = u'"
  by (simp_all add: connection_def userConnections_def)

text \<open>No key of one kind is a key of another kind.\<close>

lemma key_families_disjoint:
  "connection pre c \<noteq> userConnections pre u" "connection pre c \<noteq> userOnline pre u"
  "userConnections pre u \<noteq> userOnline pre v"
proof -
  have "last (userConnections pre u) \<noteq> last (userOnline pre v)"
    by (simp add: userConnections_def userOnline_def)
  then show "userConnections pre u \<noteq> userOnline pre v" by metis
qed (simp_all add: connection_def userConnections_def userOnline_def)

text \<open>What is stored, whether or not its key has expired.\<close>

definition entry :: "RedisStore \<Rightarrow> redis \<Rightarrow> string \<Rightarrow> ConnectionMetadata option" where
  "entry R s c = metadataFromRedisHash (map_option fst (r_hash s (connection (rs_prefix R) c)))"

definition members :: "RedisStore \<Rightarrow> redis \<Rightarrow> string \<Rightarrow> string list" where
  "members R s u = (case r_set s (userConnections (rs_prefix R) u) of None \<Rightarrow> [] | Some (v, _) \<Rightarrow> v)"

text \<open>A key with a time to live outlasts the connections it is needed for.\<close>

definition outlasts :: "('v \<times> int option) option \<Rightarrow> int \<Rightarrow> bool" where
  "outlasts e t \<longleftrightarrow> (case e of Some (v, Some D) \<Rightarrow> t \<le> D | _ \<Rightarrow> True)"

definition redis_ok :: "RedisStore \<Rightarrow> int \<Rightarrow> (string \<Rightarrow> string) \<Rightarrow> int \<Rightarrow> redis \<Rightarrow> bool" where
  "redis_ok R ttl owner now s \<longleftrightarrow>
     (\<forall>u. distinct (members R s u) \<and> (\<forall>c\<in>set (members R s u). owner c = u))
     \<and> (\<forall>c md. entry R s c = Some md \<longrightarrow>
          cm_ConnectionID md = c \<and> cm_UserID md = owner c \<and> cm_ExpiresAt md \<le> now + ttl
          \<and> outlasts (r_hash s (connection (rs_prefix R) c)) (cm_ExpiresAt md)
          \<and> (c \<in> set (members R s (owner c)) \<longrightarrow>
               outlasts (r_set s (userConnections (rs_prefix R) (owner c))) (cm_ExpiresAt md)))"

definition redis_live :: "RedisStore \<Rightarrow> redis \<Rightarrow> int \<Rightarrow> string \<Rightarrow> string \<Rightarrow> bool" where
  "redis_live R s t u c \<longleftrightarrow>
     c \<in> set (SMembers t (userConnections (rs_prefix R) u) s) \<and> current t u (read_entry R t c s)"

lemma at_time_outlasts: "outlasts e x \<Longrightarrow> t < x \<Longrightarrow> at_time t e = e"
  by (auto simp: outlasts_def at_time_def split: option.splits)

lemma at_time_sub: "at_time t e = None \<or> at_time t e = e"
  by (auto simp: at_time_def split: option.splits)

lemma redis_okD:
  assumes "redis_ok R ttl owner now s" "entry R s c = Some md"
  shows "cm_ConnectionID md = c" "cm_UserID md = owner c" "cm_ExpiresAt md \<le> now + ttl"
    and "outlasts (r_hash s (connection (rs_prefix R) c)) (cm_ExpiresAt md)"
    and "c \<in> set (members R s (owner c)) \<Longrightarrow> outlasts (r_set s (userConnections (rs_prefix R) (owner c))) (cm_ExpiresAt md)"
  using assms unfolding redis_ok_def by blast+

lemma read_entry_SomeD: "read_entry R t c s = Some md \<Longrightarrow> entry R s c = Some md"
  using at_time_sub [of t "r_hash s (connection (rs_prefix R) c)"]
  by (auto simp: read_entry_def entry_def HGetAll_def metadataFromRedisHash_def)

lemma current_read_entry:
  assumes "redis_ok R ttl owner now s"
  shows "current t u (read_entry R t c s) \<longleftrightarrow> (\<exists>md. entry R s c = Some md \<and> cm_UserID md = u \<and> t < cm_ExpiresAt md)"
proof
  assume "current t u (read_entry R t c s)"
  then obtain md where md: "read_entry R t c s = Some md" "cm_UserID md = u" "t < cm_ExpiresAt md"
    by (auto simp: current_def split: option.splits)
  with read_entry_SomeD show "\<exists>md. entry R s c = Some md \<and> cm_UserID md = u \<and> t < cm_ExpiresAt md" by fast
next
  assume "\<exists>md. entry R s c = Some md \<and> cm_UserID md = u \<and> t < cm_ExpiresAt md"
  then obtain md where md: "entry R s c = Some md" "cm_UserID md = u" "t < cm_ExpiresAt md" by blast
  then have "at_time t (r_hash s (connection (rs_prefix R) c)) = r_hash s (connection (rs_prefix R) c)"
    using at_time_outlasts [OF redis_okD(4) [OF assms]] by blast
  with md show "current t u (read_entry R t c s)" by (simp add: current_def read_entry_def HGetAll_def entry_def)
qed

lemma SMembers_sub: "set (SMembers t (userConnections (rs_prefix R) u) s) \<subseteq> set (members R s u)"
  using at_time_sub [of t "r_set s (userConnections (rs_prefix R) u)"]
  by (cases "r_set s (userConnections (rs_prefix R) u)") (auto simp: SMembers_def members_def)

lemma SMembers_current:
  assumes "redis_ok R ttl owner now s" "entry R s c = Some md" "cm_UserID md = u" "t < cm_ExpiresAt md" "c \<in> set (members R s u)"
  shows "c \<in> set (SMembers t (userConnections (rs_prefix R) u) s)"
proof -
  have "outlasts (r_set s (userConnections (rs_prefix R) u)) (cm_ExpiresAt md)"
    using redis_okD(2,5) [OF assms(1,2)] assms(3,5) by auto
  then show ?thesis using assms(4,5) by (simp add: SMembers_def members_def at_time_outlasts split: option.splits)
qed

lemma SMembers_distinct:
  assumes "redis_ok R ttl owner now s"
  shows "distinct (SMembers t (userConnections (rs_prefix R) u) s)"
proof -
  have "distinct (members R s u)" using assms unfolding redis_ok_def by blast
  then show ?thesis
    using at_time_sub [of t "r_set s (userConnections (rs_prefix R) u)"]
    by (cases "r_set s (userConnections (rs_prefix R) u)") (auto simp: members_def SMembers_def)
qed

lemma redis_live_iff:
  assumes "redis_ok R ttl owner now s"
  shows "redis_live R s t u c \<longleftrightarrow>
    c \<in> set (members R s u) \<and> (\<exists>md. entry R s c = Some md \<and> cm_UserID md = u \<and> t < cm_ExpiresAt md)"
  unfolding redis_live_def current_read_entry [OF assms]
  using SMembers_sub SMembers_current [OF assms] by blast

lemma redis_ok_later: "redis_ok R ttl owner now s \<Longrightarrow> now \<le> t \<Longrightarrow> redis_ok R ttl owner t s"
  unfolding redis_ok_def by (meson add_le_cancel_right order_trans)

lemma decode_redisHash:
  assumes "cm_UserID m \<noteq> []" "cm_ConnectionID m \<noteq> []"
  shows "\<exists>m'. metadataFromRedisHash (Some (v ++ map_of (redisHash m))) = Some m' \<and> cm_UserID m' = cm_UserID m
    \<and> cm_ConnectionID m' = cm_ConnectionID m \<and> cm_ExpiresAt m' = UnixMilli (cm_ExpiresAt m) * 10 ^ 6"
proof -
  have int64: "int64 (UnixMilli t)" for t
    using signed_take_bit_int_greater_eq_minus_exp [of 63 "t div 10 ^ 6"] signed_take_bit_int_less_exp [of 63 "t div 10 ^ 6"]
    by (simp add: UnixMilli_def wrap64_def int64_def)
  show ?thesis
    using assms by (simp add: metadataFromRedisHash_def redisHash_def unixMilliField_def field_def map_add_def
        ParseInt_FormatInt [OF int64])
qed

lemma UnixMilli_le: "0 \<le> t \<Longrightarrow> UnixMilli t * 10 ^ 6 \<le> t"
proof -
  assume "0 \<le> t"
  have "wrap64 (t div 10 ^ 6) \<le> t div 10 ^ 6"
    using \<open>0 \<le> t\<close> unfolding wrap64_def by (simp add: signed_take_bit_int_less_eq_self_iff pos_imp_zdiv_nonneg_iff)
  then have "UnixMilli t * 10 ^ 6 \<le> t div 10 ^ 6 * 10 ^ 6" unfolding UnixMilli_def by (rule mult_right_mono) simp
  also have "\<dots> \<le> t" by (simp add: minus_mod_eq_div_mult [symmetric])
  finally show ?thesis .
qed

lemma UnixMilli_gt:
  assumes "0 \<le> t" "10 ^ 6 \<le> ttl" "t + ttl < 2 ^ 63"
  shows "t < UnixMilli (t + ttl) * 10 ^ 6"
proof -
  have "UnixMilli (t + ttl) = (t + ttl) div 10 ^ 6"
    unfolding UnixMilli_def using assms int_div_less_self [of "t + ttl" "10 ^ 6"] pos_imp_zdiv_nonneg_iff [of "10 ^ 6" "t + ttl"]
    by (auto simp: int64_def intro!: wrap64_id)
  then show ?thesis using assms(2) by (simp add: minus_mod_eq_div_mult [symmetric])
qed

lemma at_time_again: "at_time now e = Some (v, d) \<Longrightarrow> at_time now (Some (v', d)) = Some (v', d)"
  by (auto simp: at_time_def split: option.splits if_splits)

lemma hset_expire:
  "r_hash (expire_hash now k t (hset now k fvs s)) =
     (r_hash s)(k \<mapsto> ((case HGetAll now k s of None \<Rightarrow> Map.empty | Some v \<Rightarrow> v) ++ map_of fvs, Some (now + t)))"
  "r_set (expire_hash now k t (hset now k fvs s)) = r_set s"
  by (auto simp: expire_hash_def hset_def HGetAll_def at_time_again fun_eq_iff split: option.split)
     (simp_all add: at_time_def)

lemma sadd_expire:
  "r_set (expire_set now k t (sadd now k x s)) = (r_set s)(k \<mapsto> (List.insert x (SMembers now k s), Some (now + t)))"
  "r_hash (expire_set now k t (sadd now k x s)) = r_hash s"
  by (auto simp: expire_set_def sadd_def SMembers_def at_time_again fun_eq_iff split: option.split)
     (simp_all add: at_time_def)

lemma SMembers_r_set: "r_set s = r_set s' \<Longrightarrow> SMembers now k s = SMembers now k s'"
  by (simp add: SMembers_def)

lemma write_connection_clean:
  "\<exists>s' v. write_connection R now m u c ttl (s, []) = (Inr (), (s', []))
     \<and> r_hash s' = (r_hash s)(connection (rs_prefix R) c \<mapsto> (v ++ map_of (redisHash m), Some (now + rs_lifetime R ttl)))
     \<and> r_set s' = (r_set s)(userConnections (rs_prefix R) u \<mapsto>
          (List.insert c (SMembers now (userConnections (rs_prefix R) u) s), Some (now + rs_lifetime R (userKeyTTL ttl))))"
proof -
  let ?kc = "connection (rs_prefix R) c" and ?ku = "userConnections (rs_prefix R) u"
  let ?s1 = "expire_hash now ?kc (rs_lifetime R ttl) (hset now ?kc (redisHash m) s)"
  let ?s2 = "expire_set now ?ku (rs_lifetime R (userKeyTTL ttl)) (sadd now ?ku c ?s1)"
  let ?s3 = "setex now (userOnline (rs_prefix R) u) ''1'' (rs_lifetime R (userKeyTTL ttl)) ?s2"
  have "write_connection R now m u c ttl (s, []) = (Inr (), (?s3, []))"
    by (simp add: write_connection_def pipe_def ret_def)
  moreover have "SMembers now ?ku ?s1 = SMembers now ?ku s" by (rule SMembers_r_set) (simp add: hset_expire)
  ultimately show ?thesis by (auto simp: setex_def hset_expire sadd_expire)
qed

text \<open>Registering and renewing have the same effect.\<close>

lemma write_effect:
  assumes ok: "redis_ok R ttl owner now s" and "0 \<le> now" "0 < ttl"
    and life: "ttl \<le> rs_lifetime R ttl" "ttl \<le> rs_lifetime R (ttl * 2)"
    and m: "cm_UserID m = u" "cm_ConnectionID m = c" "u \<noteq> []" "c \<noteq> []" "cm_ExpiresAt m = now + ttl" and own: "owner c = u"
  obtains s' where "write_connection R now m u c ttl (s, []) = (Inr (), (s', []))" "redis_ok R ttl owner now s'"
    and "\<And>t u' c'. now \<le> t \<Longrightarrow> redis_live R s' t u' c' \<longleftrightarrow>
      (if u' = u \<and> c' = c then t < UnixMilli (now + ttl) * 10 ^ 6 else redis_live R s t u' c')"
proof -
  obtain s' v where run: "write_connection R now m u c ttl (s, []) = (Inr (), (s', []))"
    and h: "r_hash s' = (r_hash s)(connection (rs_prefix R) c \<mapsto> (v ++ map_of (redisHash m), Some (now + rs_lifetime R ttl)))"
    and st: "r_set s' = (r_set s)(userConnections (rs_prefix R) u \<mapsto>
          (List.insert c (SMembers now (userConnections (rs_prefix R) u) s), Some (now + rs_lifetime R (userKeyTTL ttl))))"
    using write_connection_clean by blast
  obtain m' where m': "metadataFromRedisHash (Some (v ++ map_of (redisHash m))) = Some m'" "cm_UserID m' = u"
      "cm_ConnectionID m' = c" "cm_ExpiresAt m' = UnixMilli (now + ttl) * 10 ^ 6"
    using decode_redisHash [of m v] m by auto
  have entry': "entry R s' c' = (if c' = c then Some m' else entry R s c')" for c'
    by (simp add: entry_def h m')
  have members': "members R s' u' = (if u' = u then List.insert c (SMembers now (userConnections (rs_prefix R) u) s)
      else members R s u')" for u'
    by (simp add: members_def st)
  have exp': "cm_ExpiresAt m' \<le> now + ttl"
    using UnixMilli_le [of "now + ttl"] assms(2,3) by (simp add: m')
  have dist: "distinct (SMembers now (userConnections (rs_prefix R) u) s)" by (rule SMembers_distinct [OF ok])
  have ok': "redis_ok R ttl owner now s'"
    unfolding redis_ok_def
  proof (intro conjI allI impI)
    fix u' show "distinct (members R s' u')" using ok dist by (auto simp: members' redis_ok_def)
    show "\<forall>c'\<in>set (members R s' u'). owner c' = u'"
      using ok SMembers_sub [of now R u s] own by (auto simp: members' redis_ok_def)
  next
    fix c' md assume e: "entry R s' c' = Some md"
    then show "cm_ConnectionID md = c'" "cm_UserID md = owner c'" "cm_ExpiresAt md \<le> now + ttl"
      using redis_okD [OF ok] m' own exp' by (auto simp: entry' split: if_splits)
    show "outlasts (r_hash s' (connection (rs_prefix R) c')) (cm_ExpiresAt md)"
      using e redis_okD(4) [OF ok] exp' life by (auto simp: entry' h outlasts_def split: if_splits)
    assume "c' \<in> set (members R s' (owner c'))"
    then show "outlasts (r_set s' (userConnections (rs_prefix R) (owner c'))) (cm_ExpiresAt md)"
      using \<open>cm_ExpiresAt md \<le> now + ttl\<close> e redis_okD(5) [OF ok] life(2) assms(3) own
      by (auto simp: st members' entry' userKeyTTL_def outlasts_def split: if_splits)
  qed
  have live: "redis_live R s' t u' c' \<longleftrightarrow>
      (if u' = u \<and> c' = c then t < UnixMilli (now + ttl) * 10 ^ 6 else redis_live R s t u' c')" if "now \<le> t" for t u' c'
    using SMembers_sub [of now R u s] SMembers_current [OF ok, of c' _ u now] that own redis_okD(2) [OF ok] m'
    by (auto simp: redis_live_iff [OF ok] redis_live_iff [OF ok'] entry' members')
  show thesis using that run ok' live by blast
qed

lemma split_stale_clean:
  "split_stale R now u ids (s, []) =
     (Inr (map (\<lambda>c. the (read_entry R now c s)) (filter (\<lambda>c. current now u (read_entry R now c s)) ids),
           filter (\<lambda>c. \<not> current now u (read_entry R now c s)) ids), (s, []))"
  by (induction ids) (simp_all add: ret_def)

text \<open>Dropping ids that are not current changes nothing that is seen from now on.\<close>

lemma drop_effect:
  assumes ok: "redis_ok R ttl owner now s" and own: "\<forall>c\<in>set D. owner c = u"
    and h: "r_hash s' = (\<lambda>k. if k \<in> connection (rs_prefix R) ` set D then None else r_hash s k)"
    and st: "\<And>u'. u' \<noteq> u \<Longrightarrow> r_set s' (userConnections (rs_prefix R) u') = r_set s (userConnections (rs_prefix R) u')"
    and su: "r_set s' (userConnections (rs_prefix R) u) =
      (case at_time now (r_set s (userConnections (rs_prefix R) u)) of None \<Rightarrow> None
       | Some (v, d) \<Rightarrow> let v' = filter (\<lambda>x. x \<notin> set D) v in if v' = [] then None else Some (v', d))"
  shows "redis_ok R ttl owner now s'"
    and "\<And>t u' c'. now \<le> t \<Longrightarrow> redis_live R s' t u' c' \<longleftrightarrow> \<not> (u' = u \<and> c' \<in> set D) \<and> redis_live R s t u' c'"
proof -
  have entry': "entry R s' c = (if c \<in> set D then None else entry R s c)" for c
    by (auto simp: entry_def h metadataFromRedisHash_def image_iff)
  have members': "members R s' u' = (if u' = u then filter (\<lambda>x. x \<notin> set D) (SMembers now (userConnections (rs_prefix R) u) s)
      else members R s u')" for u'
    by (auto simp: members_def SMembers_def st su Let_def split: option.splits)
  have dist: "distinct (SMembers now (userConnections (rs_prefix R) u) s)" by (rule SMembers_distinct [OF ok])
  have later: "outlasts (r_set s (userConnections (rs_prefix R) u)) x \<Longrightarrow> outlasts (r_set s' (userConnections (rs_prefix R) u)) x" for x
    using at_time_sub [of now "r_set s (userConnections (rs_prefix R) u)"]
    by (auto simp: su outlasts_def Let_def split: option.splits)
  show ok': "redis_ok R ttl owner now s'"
    unfolding redis_ok_def
  proof (intro conjI allI impI)
    fix u' show "distinct (members R s' u')" using ok dist by (auto simp: members' redis_ok_def)
    show "\<forall>c'\<in>set (members R s' u'). owner c' = u'"
      using ok SMembers_sub [of now R u s] by (auto simp: members' redis_ok_def)
  next
    fix c md assume e: "entry R s' c = Some md"
    then have e0: "entry R s c = Some md" "c \<notin> set D" by (auto simp: entry' split: if_splits)
    show "cm_ConnectionID md = c" "cm_UserID md = owner c" "cm_ExpiresAt md \<le> now + ttl"
      using redis_okD [OF ok e0(1)] by auto
    show "outlasts (r_hash s' (connection (rs_prefix R) c)) (cm_ExpiresAt md)"
      using redis_okD(4) [OF ok e0(1)] e0(2) by (auto simp: h outlasts_def)
    assume "c \<in> set (members R s' (owner c))"
    then show "outlasts (r_set s' (userConnections (rs_prefix R) (owner c))) (cm_ExpiresAt md)"
      using redis_okD(5) [OF ok e0(1)] later st SMembers_sub [of now R u s] by (auto simp: members' split: if_splits)
  qed
  show "redis_live R s' t u' c' \<longleftrightarrow> \<not> (u' = u \<and> c' \<in> set D) \<and> redis_live R s t u' c'" if "now \<le> t" for t u' c'
  proof (cases "c' \<in> set D")
    case True
    then have "owner c' = u" using own by blast
    with True show ?thesis
      using redis_okD(2) [OF ok, of c'] by (auto simp: redis_live_iff [OF ok] redis_live_iff [OF ok'] entry')
  next
    case False
    have "c' \<in> set (SMembers now (userConnections (rs_prefix R) u) s) \<longleftrightarrow> c' \<in> set (members R s u)"
      if "entry R s c' = Some md" "cm_UserID md = u" "t < cm_ExpiresAt md" for md
      using SMembers_sub [of now R u s] SMembers_current [OF ok that(1,2), of now] that(3) \<open>now \<le> t\<close> by fastforce
    with False show ?thesis
      by (auto simp: redis_live_iff [OF ok] redis_live_iff [OF ok'] entry' members')
  qed
qed

lemma srem_del_clean:
  "r_hash (del_hashes (map (connection (rs_prefix R)) D) (srem now k D s))
     = (\<lambda>k. if k \<in> connection (rs_prefix R) ` set D then None else r_hash s k)"
  "r_set (del_hashes ks (srem now k D s)) = (r_set s)(k := (case at_time now (r_set s k) of None \<Rightarrow> None
       | Some (v, d) \<Rightarrow> let v' = filter (\<lambda>x. x \<notin> set D) v in if v' = [] then None else Some (v', d)))"
  by (auto simp: del_hashes_def srem_def fun_eq_iff)

lemma stale_dropped:
  assumes ok: "redis_ok R ttl owner now s" and D: "set D \<subseteq> set (members R s u)"
    and s': "r_hash s' = r_hash (del_hashes (map (connection (rs_prefix R)) D) (srem now (userConnections (rs_prefix R) u) D s))"
      "r_set s' = r_set (del_hashes (map (connection (rs_prefix R)) D) (srem now (userConnections (rs_prefix R) u) D s))"
  shows "redis_ok R ttl owner now s'"
    and "\<And>t u' c'. now \<le> t \<Longrightarrow> redis_live R s' t u' c' \<longleftrightarrow> \<not> (u' = u \<and> c' \<in> set D) \<and> redis_live R s t u' c'"
proof -
  have own: "\<forall>c\<in>set D. owner c = u" using ok D unfolding redis_ok_def by blast
  note drop_effect [OF ok own, of s']
  then show "redis_ok R ttl owner now s'"
    and "\<And>t u' c'. now \<le> t \<Longrightarrow> redis_live R s' t u' c' \<longleftrightarrow> \<not> (u' = u \<and> c' \<in> set D) \<and> redis_live R s t u' c'"
    by (simp_all add: s' srem_del_clean)
qed

lemma redis_live_later:
  "redis_ok R ttl owner now s \<Longrightarrow> redis_live R s t u c \<Longrightarrow> now \<le> t \<Longrightarrow> redis_live R s now u c"
  by (auto simp: redis_live_iff)

lemma redis_list_effect:
  assumes ok: "redis_ok R ttl owner now s" and u: "TrimSpace ru = u" "u \<noteq> []"
  shows "\<exists>cs s'. Redis_ListUserConnections R now ru (s, []) = (Inr cs, (s', [])) \<and> redis_ok R ttl owner now s'
     \<and> (\<forall>t\<ge>now. \<forall>v c. redis_live R s' t v c \<longleftrightarrow> redis_live R s t v c)
     \<and> finite {c. redis_live R s now u c} \<and> map cm_ConnectionID cs = sorted_list_of_set {c. redis_live R s now u c}
     \<and> (\<forall>md\<in>set cs. cm_UserID md = u)"
proof -
  let ?ids = "SMembers now (userConnections (rs_prefix R) u) s"
  let ?cur = "\<lambda>c. current now u (read_entry R now c s)"
  let ?cs = "map (\<lambda>c. the (read_entry R now c s)) (filter ?cur ?ids)"
  let ?stale = "filter (\<lambda>c. \<not> ?cur c) ?ids"
  have live: "{c. redis_live R s now u c} = set (filter ?cur ?ids)" by (auto simp: redis_live_def)
  have read: "cm_ConnectionID (the (read_entry R now c s)) = c" if "?cur c" for c
    using that redis_okD(1) [OF ok] read_entry_SomeD by (fastforce simp: current_def split: option.splits)
  have ids: "map cm_ConnectionID ?cs = filter ?cur ?ids" by (auto simp: o_def read intro!: map_idI)
  have "cm_ConnectionID ` set ?cs = set (filter ?cur ?ids)" using arg_cong [OF ids, of set] by (simp only: list.set_map)
  moreover have "distinct (map cm_ConnectionID ?cs)" unfolding ids by (simp add: SMembers_distinct [OF ok])
  ultimately have listing: "map cm_ConnectionID (sort_key cm_ConnectionID ?cs) = sorted_list_of_set {c. redis_live R s now u c}"
    unfolding live using sorted_ids [of cm_ConnectionID ?cs] by presburger
  have users: "\<forall>md\<in>set (sort_key cm_ConnectionID ?cs). cm_UserID md = u" by (auto simp: current_def split: option.splits)
  have same: "\<forall>t\<ge>now. \<forall>v c. redis_live R s' t v c \<longleftrightarrow> redis_live R s t v c"
    if "\<And>t v c. now \<le> t \<Longrightarrow> redis_live R s' t v c \<longleftrightarrow> \<not> (v = u \<and> c \<in> set ?stale) \<and> redis_live R s t v c" for s'
    using that redis_live_later [OF ok] by (auto simp: redis_live_def)
  have fin: "finite {c. redis_live R s now u c}" unfolding live by simp
  show ?thesis
  proof (cases "?ids = []")
    case True
    then have "Redis_ListUserConnections R now ru (s, []) = (Inr [], (s, []))"
      using u by (simp add: Redis_ListUserConnections_def validateUserID_def ret_def)
    then show ?thesis using ok fin listing users True by auto
  next
    case False
    show ?thesis
    proof (cases "?stale = []")
      case True
      then have "?cs \<noteq> []" using False by (metis (no_types, lifting) filter_True filter_empty_conv map_is_Nil_conv)
      then have "Redis_ListUserConnections R now ru (s, []) = (Inr (sort_key cm_ConnectionID ?cs), (s, []))"
        using u False True by (simp add: Redis_ListUserConnections_def validateUserID_def split_stale_clean ret_def)
      then show ?thesis using ok fin listing users by blast
    next
      case stale: False
      let ?s1 = "del_hashes (map (connection (rs_prefix R)) ?stale) (srem now (userConnections (rs_prefix R) u) ?stale s)"
      let ?s' = "if ?cs = [] then del_str (userOnline (rs_prefix R) u) ?s1 else ?s1"
      have "Redis_ListUserConnections R now ru (s, []) = (Inr (sort_key cm_ConnectionID ?cs), (?s', []))"
        using u False stale by (simp add: Redis_ListUserConnections_def validateUserID_def split_stale_clean ret_def pipe_def Let_def)
      moreover have "set ?stale \<subseteq> set (members R s u)" using SMembers_sub [of now R u s] by auto
      then have "redis_ok R ttl owner now ?s'"
        and "\<And>t v c. now \<le> t \<Longrightarrow> redis_live R ?s' t v c \<longleftrightarrow> \<not> (v = u \<and> c \<in> set ?stale) \<and> redis_live R s t v c"
        by (intro stale_dropped [OF ok]; simp add: del_str_def)+
      ultimately show ?thesis using same [of ?s'] fin listing users by blast
    qed
  qed
qed

lemma unregister_read_effect:
  assumes ok: "redis_ok R ttl owner now s" and u: "TrimSpace ru = u" "u \<noteq> []" and c: "TrimSpace rc = c" "c \<noteq> []"
    and own: "owner c = u"
  shows "\<exists>cs s'. unregister_read R now ru rc (s, []) = (Inr cs, (s', [])) \<and> redis_ok R ttl owner now s'
     \<and> (\<forall>t\<ge>now. \<forall>v d. redis_live R s' t v d \<longleftrightarrow> \<not> (v = u \<and> d = c) \<and> redis_live R s t v d)
     \<and> (cs = [] \<longleftrightarrow> (\<forall>d. d \<noteq> c \<longrightarrow> \<not> redis_live R s now u d))"
proof -
  let ?ku = "userConnections (rs_prefix R) u"
  let ?s1 = "srem now ?ku [c] (del_hashes [connection (rs_prefix R) c] s)"
  have "\<forall>d\<in>set [c]. owner d = u" using own by simp
  note drop = drop_effect [OF ok this, of ?s1]
  have ok1: "redis_ok R ttl owner now ?s1"
    and live1: "\<And>t v d. now \<le> t \<Longrightarrow> redis_live R ?s1 t v d \<longleftrightarrow> \<not> (v = u \<and> d = c) \<and> redis_live R s t v d"
    by (use drop in \<open>auto simp: srem_def del_hashes_def fun_eq_iff\<close>)
  have "TrimSpace u = u" using u by auto
  then obtain cs s2 where l: "Redis_ListUserConnections R now u (?s1, []) = (Inr cs, (s2, []))" "redis_ok R ttl owner now s2"
      "\<forall>t\<ge>now. \<forall>v d. redis_live R s2 t v d \<longleftrightarrow> redis_live R ?s1 t v d"
      "finite {d. redis_live R ?s1 now u d}" "map cm_ConnectionID cs = sorted_list_of_set {d. redis_live R ?s1 now u d}"
    using redis_list_effect [OF ok1, of u u] u(2) by blast
  have "cs = [] \<longleftrightarrow> {d. redis_live R ?s1 now u d} = {}"
    using l(4,5) by (metis map_is_Nil_conv sorted_list_of_set_eq_Nil_iff)
  then have "cs = [] \<longleftrightarrow> (\<forall>d. d \<noteq> c \<longrightarrow> \<not> redis_live R s now u d)" using live1 [of now] by blast
  moreover have "unregister_read R now ru rc (s, []) = (Inr cs, (s2, []))"
    using u c l(1) by (simp add: unregister_read_def pipe_def ret_def)
  ultimately show ?thesis using l(2,3) live1 by auto
qed

text \<open>Dropping the set of an account loses its connections and no others.\<close>

lemma clear_effect:
  assumes ok: "redis_ok R ttl owner now s" and s': "s' = del_set (userConnections (rs_prefix R) u) (del_str (userOnline (rs_prefix R) u) s)"
  shows "redis_ok R ttl owner now s'" "redis_live R s' t v d \<longleftrightarrow> v \<noteq> u \<and> redis_live R s t v d" "entry R s' = entry R s"
proof -
  have members': "members R s' v = (if v = u then [] else members R s v)" for v
    by (simp add: members_def del_set_def del_str_def s')
  show entry': "entry R s' = entry R s" by (simp add: entry_def del_set_def del_str_def fun_eq_iff s')
  show ok': "redis_ok R ttl owner now s'"
    unfolding redis_ok_def
  proof (intro conjI allI impI)
    fix v
    have "distinct (members R s v)" "\<forall>d\<in>set (members R s v). owner d = v" using ok unfolding redis_ok_def by blast+
    then show "distinct (members R s' v)" "\<forall>d\<in>set (members R s' v). owner d = v" by (simp_all add: members')
  next
    fix d md assume "entry R s' d = Some md"
    then have e: "entry R s d = Some md" by (simp add: entry')
    note old = redis_okD [OF ok e]
    show "cm_ConnectionID md = d" "cm_UserID md = owner d" "cm_ExpiresAt md \<le> now + ttl" by (rule old)+
    show "outlasts (r_hash s' (connection (rs_prefix R) d)) (cm_ExpiresAt md)"
      using old(4) by (simp add: del_set_def del_str_def s')
    assume "d \<in> set (members R s' (owner d))"
    then have "owner d \<noteq> u" "d \<in> set (members R s (owner d))" by (auto simp: members' split: if_splits)
    then show "outlasts (r_set s' (userConnections (rs_prefix R) (owner d))) (cm_ExpiresAt md)"
      using old(5) by (simp add: del_set_def del_str_def s')
  qed
  show "redis_live R s' t v d \<longleftrightarrow> v \<noteq> u \<and> redis_live R s t v d"
    by (auto simp: redis_live_iff [OF ok] redis_live_iff [OF ok'] members' entry')
qed

lemma redis_unregister_effect:
  assumes ok: "redis_ok R ttl owner now s" and u: "TrimSpace ru = u" "u \<noteq> []" and c: "TrimSpace rc = c" "c \<noteq> []"
    and own: "owner c = u"
  shows "\<exists>s'. Redis_UnregisterConnection R now ru rc (s, []) = (Inr (), (s', [])) \<and> redis_ok R ttl owner now s'
     \<and> (\<forall>t\<ge>now. \<forall>v d. redis_live R s' t v d \<longleftrightarrow> \<not> (v = u \<and> d = c) \<and> redis_live R s t v d)"
proof -
  obtain cs s2 where read: "unregister_read R now ru rc (s, []) = (Inr cs, (s2, []))" and ok2: "redis_ok R ttl owner now s2"
    and live2: "\<forall>t\<ge>now. \<forall>v d. redis_live R s2 t v d \<longleftrightarrow> \<not> (v = u \<and> d = c) \<and> redis_live R s t v d"
    and cs: "cs = [] \<longleftrightarrow> (\<forall>d. d \<noteq> c \<longrightarrow> \<not> redis_live R s now u d)"
    using unregister_read_effect [OF assms] by blast
  show ?thesis
  proof (cases "cs = []")
    case False
    then have "Redis_UnregisterConnection R now ru rc (s, []) = (Inr (), (s2, []))"
      by (simp add: Redis_UnregisterConnection_def read unregister_clear_def ret_def)
    then show ?thesis using ok2 live2 by blast
  next
    case True
    note clear = clear_effect [OF ok2 refl, of u]
    have "\<not> redis_live R s2 t u d" if "now \<le> t" for t d
      using that True cs live2 redis_live_later [OF ok, of t u d] by blast
    moreover have "Redis_UnregisterConnection R now ru rc (s, [])
        = (Inr (), (del_set (userConnections (rs_prefix R) u) (del_str (userOnline (rs_prefix R) u) s2), []))"
      using True u by (simp add: Redis_UnregisterConnection_def read unregister_clear_def)
    ultimately show ?thesis using clear live2 by blast
  qed
qed

lemma redis_heartbeat_effect:
  assumes ok: "redis_ok R ttl owner now s" and "0 \<le> now"
    and life: "ttl \<le> rs_lifetime R ttl" "ttl \<le> rs_lifetime R (ttl * 2)"
    and ref: "TrimSpace ru = u" "TrimSpace rc = c" "validateConnectionRef ru rc ttl = None"
  shows "\<exists>r s'. Redis_Heartbeat R now ru rc ttl (s, []) = (r, (s', [])) \<and> redis_ok R ttl owner now s'
     \<and> (current now u (read_entry R now c s) \<longrightarrow> r = Inr ())
     \<and> (\<forall>t\<ge>now. \<forall>v d. redis_live R s' t v d \<longleftrightarrow>
          (if r = Inr () \<and> v = u \<and> d = c then t < UnixMilli (now + ttl) * 10 ^ 6 else redis_live R s t v d))"
proof (cases "current now u (read_entry R now c s)")
  case False
  then have "Redis_Heartbeat R now ru rc ttl (s, []) = (Inl ErrConnectionNotFound, (s, []))"
    using ref by (simp add: Redis_Heartbeat_def check_def ret_def raise_def)
  with ok False show ?thesis by auto
next
  case True
  then obtain md where md: "read_entry R now c s = Some md" "cm_UserID md = u" by (auto simp: current_def split: option.splits)
  note e = redis_okD [OF ok read_entry_SomeD [OF md(1)]]
  have ne: "u \<noteq> []" "c \<noteq> []" "0 < ttl" using ref by (auto simp: validateConnectionRef_def split: if_splits)
  obtain s' where "write_connection R now (md\<lparr>cm_LastHeartbeatAt := now, cm_ExpiresAt := now + ttl\<rparr>) u c ttl (s, []) = (Inr (), (s', []))"
      "redis_ok R ttl owner now s'"
      "\<And>t u' c'. now \<le> t \<Longrightarrow> redis_live R s' t u' c' \<longleftrightarrow>
        (if u' = u \<and> c' = c then t < UnixMilli (now + ttl) * 10 ^ 6 else redis_live R s t u' c')"
    by (rule write_effect [OF ok \<open>0 \<le> now\<close> ne(3) life, of "md\<lparr>cm_LastHeartbeatAt := now, cm_ExpiresAt := now + ttl\<rparr>" u c])
       (use md(2) e ne in auto)
  moreover from this(1) have "Redis_Heartbeat R now ru rc ttl (s, []) = (Inr (), (s', []))"
    using ref True md(1) by (simp add: Redis_Heartbeat_def check_def ret_def)
  ultimately show ?thesis by auto
qed

text \<open>
  The client's rounding of a time to live must not cut below the time to live of a connection; it keeps whole seconds.
\<close>

definition lifetimes_kept :: "RedisStore \<Rightarrow> int \<Rightarrow> bool" where
  "lifetimes_kept R ttl \<longleftrightarrow> ttl \<le> rs_lifetime R ttl \<and> ttl \<le> rs_lifetime R (ttl * 2)"

interpretation redis: presence_contract "redis_store R" ttl "\<lambda>e. UnixMilli e * 10 ^ 6" owner
    "\<lambda>now s. lifetimes_kept R ttl \<and> redis_ok R ttl owner now s" "redis_live R" for R ttl owner
proof (unfold_locales, goal_cases)
  case (1 now s t)
  then show ?case by (auto intro: redis_ok_later)
next
  case (2 now s md m)
  then have ok: "redis_ok R ttl owner now s" and life: "ttl \<le> rs_lifetime R ttl" "ttl \<le> rs_lifetime R (ttl * 2)"
    by (simp_all add: lifetimes_kept_def)
  note m = normalize_okD [OF 2(3)]
  obtain s' where "write_connection R now m (cm_UserID m) (cm_ConnectionID m) ttl (s, []) = (Inr (), (s', []))"
      "redis_ok R ttl owner now s'"
      "\<And>t u' c'. now \<le> t \<Longrightarrow> redis_live R s' t u' c' \<longleftrightarrow>
        (if u' = cm_UserID m \<and> c' = cm_ConnectionID m then t < UnixMilli (now + ttl) * 10 ^ 6 else redis_live R s t u' c')"
    by (rule write_effect [OF ok 2(2) _ life, of m "cm_UserID m" "cm_ConnectionID m"]) (use m 2(4) in auto)
  then show ?case
    using 2(1) by (auto simp: redis_store_def Redis_RegisterConnection_def 2(3) lift_result_def ret_def)
next
  case (3 now s ru u0 rc c0)
  then have "redis_ok R ttl owner now s" "ttl \<le> rs_lifetime R ttl" "ttl \<le> rs_lifetime R (ttl * 2)"
    by (simp_all add: lifetimes_kept_def)
  from redis_heartbeat_effect [OF this(1) 3(2) this(2,3) 3(3-5)] 3(1) show ?case by (auto simp: redis_store_def redis_live_def)
next
  case (4 now s ru u0 rc c0)
  with redis_unregister_effect [of R ttl owner now s ru u0 rc c0] show ?case by (simp add: redis_store_def)
next
  case (5 now s ru u0)
  then have "redis_ok R ttl owner now s" by simp
  from redis_list_effect [OF this 5(2,3)] 5(1) show ?case by (simp add: redis_store_def)
qed (auto simp: redis_store_def Redis_RegisterConnection_def Redis_Heartbeat_def Redis_UnregisterConnection_def
    unregister_read_def Redis_ListUserConnections_def validateUserID_def lift_result_def check_def raise_def andThen_def)

section \<open>Properties\<close>

lemma redis_ok_empty: "redis_ok R ttl owner now empty_redis"
  by (simp add: redis_ok_def members_def entry_def empty_redis_def metadataFromRedisHash_def)

lemma redis_live_empty [simp]: "\<not> redis_live R empty_redis t u c"
  by (simp add: redis_live_def SMembers_def empty_redis_def at_time_def)

lemma tracked_empty:
  "memory.tracked 0 NewMemoryStore (\<lambda>_ _. None)"
  "lifetimes_kept R ttl \<Longrightarrow> redis.tracked R ttl owner 0 empty_redis (\<lambda>_ _. None)"
  unfolding memory.tracked_def redis.tracked_def
  by (simp_all add: memory_ok_def memory_live_def NewMemoryStore_def user_conns_def redis_ok_empty)

text \<open>Two connections of one account: one is renewed, the other is unregistered.\<close>

definition demo_metadata :: "string \<Rightarrow> ConnectionMetadata" where
  "demo_metadata c = \<lparr>cm_UserID = ''u1'', cm_ConnectionID = c, cm_InstanceID = ''g1'', cm_GatewayID = [], cm_DeviceID = [],
     cm_Platform = ''web'', cm_RemoteAddr = [], cm_UserAgent = [], cm_ConnectedAt = 5, cm_LastHeartbeatAt = zeroTime, cm_ExpiresAt = 0\<rparr>"

definition demo_redis :: RedisStore where
  "demo_redis = \<lparr>rs_prefix = newRedisKeyspace [], rs_lifetime = (\<lambda>d. d)\<rparr>"

definition demo_history :: "(int \<times> presence_op) list" where
  "demo_history =
     [(1000000, Reg (demo_metadata ''c1'')), (2000000, Reg (demo_metadata ''c2'')), (3000000, Beat ''u1'' ''c1''),
      (4000000, Unreg ''u1'' ''c2''), (4000000, Show ''u1'')]"

text \<open>
  C18: after any history of calls on the presence store, in memory or on Redis, the listing of an account at a later
  instant shows exactly the connections that were registered or renewed less than the time to live ago and not
  unregistered since, in the order of their ids and under that account, and a heartbeat of such a connection is
  accepted. Redis keeps the instant of expiry in whole milliseconds. The history is one in which time does not run
  backwards, an id belongs to one account, and no call is disturbed by a failure.
\<close>
theorem presence_stores_track:
  assumes "history_ok owner ops" "\<forall>(t, op)\<in>set ops. t \<le> now" "0 \<le> now" "lifetimes_kept R ttl"
  shows "(case run_history memory_store ttl ops (NewMemoryStore, \<lambda>_ _. None) of
            (s, m) \<Rightarrow> reports memory_store ttl (\<lambda>e. e) now s m)
    \<and> (case run_history (redis_store R) ttl ops (empty_redis, \<lambda>_ _. None) of
            (s, m) \<Rightarrow> reports (redis_store R) ttl (\<lambda>e. UnixMilli e * 10 ^ 6) now s m)"
proof -
  have ts: "\<forall>(t, op)\<in>set ops. 0 \<le> t \<and> t \<le> now" using assms(1,2) by (auto simp: history_ok_def list_all_iff)
  obtain s m where M: "run_history memory_store ttl ops (NewMemoryStore, \<lambda>_ _. None) = (s, m)" by (metis prod.exhaust)
  obtain s' m' where R: "run_history (redis_store R) ttl ops (empty_redis, \<lambda>_ _. None) = (s', m')" by (metis prod.exhaust)
  show ?thesis
    unfolding M R prod.case
    using memory.tracked_history [OF tracked_empty(1) assms(1) ts assms(3) M]
      redis.tracked_history [OF tracked_empty(2) [OF assms(4)] assms(1) ts assms(3) R]
      memory.tracked_reports redis.tracked_reports assms(3) by blast
qed

theorem presence_stores_track_witness:
  "history_ok (\<lambda>_. ''u1'') demo_history
    \<and> (case run_history memory_store 9000000 demo_history (NewMemoryStore, \<lambda>_ _. None) of
          (s, m) \<Rightarrow> reports memory_store 9000000 (\<lambda>e. e) 5000000 s m \<and> m ''u1'' ''c1'' = Some 12000000 \<and> m ''u1'' ''c2'' = None)
    \<and> (case run_history (redis_store demo_redis) 9000000 demo_history (empty_redis, \<lambda>_ _. None) of
          (s, m) \<Rightarrow> reports (redis_store demo_redis) 9000000 (\<lambda>e. UnixMilli e * 10 ^ 6) 5000000 s m)"
proof -
  have h: "history_ok (\<lambda>_. ''u1'') demo_history" "\<forall>(t, op)\<in>set demo_history. t \<le> 5000000" by code_simp+
  have life: "lifetimes_kept demo_redis 9000000" by (simp add: lifetimes_kept_def demo_redis_def)
  have m: "(case run_history memory_store 9000000 demo_history (NewMemoryStore, \<lambda>_ _. None) of
      (s, m) \<Rightarrow> m ''u1'' ''c1'' = Some 12000000 \<and> m ''u1'' ''c2'' = None)" by code_simp
  show ?thesis using presence_stores_track [OF h _ life] h(1) m by (auto split: prod.splits)
qed

text \<open>
  C21: an unregistration on Redis that overlaps a registration of the same account loses the new connection. The
  account has at most the connection \<open>c1\<close>; the gateway that closes it has found no other connection, then the account
  registers \<open>c2\<close>, and then the first gateway deletes the set of the account. From then on the account has no
  listed connection although \<open>c2\<close> was registered and its entry is still stored, until the next heartbeat
  of \<open>c2\<close>, which is accepted and lists it again.
\<close>
theorem unregister_loses_new_connection:
  assumes "redis_ok R ttl owner now s" "lifetimes_kept R ttl" "0 \<le> now" "\<forall>c. c \<noteq> c1 \<longrightarrow> \<not> redis_live R s now u c"
    and "TrimSpace u = u" "u \<noteq> []" "TrimSpace c1 = c1" "c1 \<noteq> []" "owner c1 = u"
    and md: "normalizeMetadata md now ttl = Inr m" "cm_UserID m = u" "cm_ConnectionID m = c2" "owner c2 = u" "c2 \<noteq> c1"
    and t: "now \<le> t" "t < UnixMilli (now + ttl) * 10 ^ 6" "10 ^ 6 \<le> ttl" "t + ttl < 2 ^ 63"
  shows "\<exists>s1 s2 s3. unregister_read R now u c1 (s, []) = (Inr [], (s1, []))
      \<and> Redis_RegisterConnection R now md ttl (s1, []) = (Inr (), (s2, []))
      \<and> unregister_clear R u [] (s2, []) = (Inr (), (s3, []))
      \<and> (\<exists>W. Redis_ListUserConnections R t u (s3, []) = (Inr [], W))
      \<and> (\<exists>s4 W cs. Redis_Heartbeat R t u c2 ttl (s3, []) = (Inr (), (s4, []))
            \<and> Redis_ListUserConnections R t u (s4, []) = (Inr cs, W)
            \<and> map cm_ConnectionID cs = [c2])"
proof -
  obtain s1 where s1: "unregister_read R now u c1 (s, []) = (Inr [], (s1, []))" "redis_ok R ttl owner now s1"
    using unregister_read_effect [OF assms(1,5,6,7,8,9)] assms(4) by blast
  note n = normalize_okD [OF md(1)]
  have life: "ttl \<le> rs_lifetime R ttl" "ttl \<le> rs_lifetime R (ttl * 2)" using assms(2) by (auto simp: lifetimes_kept_def)
  obtain s2 where s2: "write_connection R now m u c2 ttl (s1, []) = (Inr (), (s2, []))" "redis_ok R ttl owner now s2"
      "\<And>t u' c'. now \<le> t \<Longrightarrow> redis_live R s2 t u' c' \<longleftrightarrow>
        (if u' = u \<and> c' = c2 then t < UnixMilli (now + ttl) * 10 ^ 6 else redis_live R s1 t u' c')"
    by (rule write_effect [OF s1(2) assms(3) _ life, of m u c2]) (use md n in auto)
  have reg: "Redis_RegisterConnection R now md ttl (s1, []) = (Inr (), (s2, []))"
    using s2(1) md by (simp add: Redis_RegisterConnection_def lift_result_def ret_def)
  let ?s3 = "del_set (userConnections (rs_prefix R) u) (del_str (userOnline (rs_prefix R) u) s2)"
  have clr: "unregister_clear R u [] (s2, []) = (Inr (), (?s3, []))"
    using assms(5) by (simp add: unregister_clear_def)
  note clear = clear_effect [OF s2(2) refl, of u]
  have ok3: "redis_ok R ttl owner t ?s3" by (rule redis_ok_later [OF clear(1) t(1)])
  have none: "{c. redis_live R ?s3 t u c} = {}" by (simp add: clear(2))
  obtain W where l3: "Redis_ListUserConnections R t u (?s3, []) = (Inr [], W)"
    using redis_list_effect [OF ok3 assms(5,6)] by (auto simp: none)
  have "redis_live R s2 t u c2" using s2(3) [OF t(1)] t(2) by simp
  then obtain e where "entry R ?s3 c2 = Some e" "cm_UserID e = u" "t < cm_ExpiresAt e"
    unfolding redis_live_iff [OF s2(2)] clear(3) by blast
  then have cur: "current t u (read_entry R t c2 ?s3)" unfolding current_read_entry [OF ok3] by blast
  have "0 < ttl" "TrimSpace c2 = c2" "c2 \<noteq> []" using n md by auto
  then have "validateConnectionRef u c2 ttl = None" using assms(5,6) by (simp add: validateConnectionRef_def)
  with redis_heartbeat_effect [OF ok3 _ life assms(5) \<open>TrimSpace c2 = c2\<close>] t(1) assms(3)
  obtain r s4 where h: "Redis_Heartbeat R t u c2 ttl (?s3, []) = (r, (s4, []))" "redis_ok R ttl owner t s4"
      "\<forall>t'\<ge>t. \<forall>v d. redis_live R s4 t' v d \<longleftrightarrow>
          (if r = Inr () \<and> v = u \<and> d = c2 then t' < UnixMilli (t + ttl) * 10 ^ 6 else redis_live R ?s3 t' v d)"
    and r: "r = Inr ()"
    using cur by fastforce
  have "{c. redis_live R s4 t u c} = {c2}"
    using h(3) r UnixMilli_gt [of t ttl] t assms(3) by (auto simp: clear(2))
  then obtain cs W' where "Redis_ListUserConnections R t u (s4, []) = (Inr cs, W')"
      "map cm_ConnectionID cs = [c2]"
    using redis_list_effect [OF h(2) assms(5,6)] by auto
  then show ?thesis using s1(1) reg clr l3 h(1) [unfolded r]
    by - (rule exI [of _ s1], rule exI [of _ s2], rule exI [of _ ?s3], intro conjI exI; assumption)
qed

theorem unregister_loses_new_connection_witness:
  "\<exists>s1 s2 s3. unregister_read demo_redis 1000000 ''u1'' ''c1'' (empty_redis, []) = (Inr [], (s1, []))
      \<and> Redis_RegisterConnection demo_redis 1000000 (demo_metadata ''c2'') 9000000 (s1, []) = (Inr (), (s2, []))
      \<and> unregister_clear demo_redis ''u1'' [] (s2, []) = (Inr (), (s3, []))
      \<and> (\<exists>W. Redis_ListUserConnections demo_redis 2000000 ''u1'' (s3, []) = (Inr [], W))
      \<and> (\<exists>s4 W cs. Redis_Heartbeat demo_redis 2000000 ''u1'' ''c2'' 9000000 (s3, []) = (Inr (), (s4, []))
            \<and> Redis_ListUserConnections demo_redis 2000000 ''u1'' (s4, []) = (Inr cs, W)
            \<and> map cm_ConnectionID cs = [''c2''])"
proof -
  have ids: "TrimSpace ''u1'' = ''u1''" "TrimSpace ''c1'' = ''c1''" "TrimSpace ''c2'' = ''c2''" by code_simp+
  have n: "normalizeMetadata (demo_metadata ''c2'') 1000000 9000000
      = Inr ((demo_metadata ''c2'')\<lparr>cm_GatewayID := ''g1'', cm_LastHeartbeatAt := 1000000, cm_ExpiresAt := 10000000\<rparr>)"
    by code_simp
  have u: "(2000000 :: int) < UnixMilli (1000000 + 9000000) * 10 ^ 6" by code_simp
  show ?thesis
    by (rule unregister_loses_new_connection [OF redis_ok_empty [of demo_redis 9000000 "\<lambda>_. ''u1''"] _ _ _ _ _ _ _ _ n _ _ _ _ _ u])
       (use ids in \<open>simp_all add: lifetimes_kept_def demo_redis_def demo_metadata_def\<close>)
qed

end
