(* ===== verification/Gateway.thy ===== *)
theory Gateway
  imports Presence
begin

text \<open>
  The connections of one msggateway instance and the delivery of events to them:
  \<^verbatim>\<open>connection_manager.go\<close> and \<^verbatim>\<open>delivery.go\<close> under \<^verbatim>\<open>service/msggateway/internal/ws/\<close>, the types of
  \<^verbatim>\<open>pkg/gateway/delivery\<close>, and the gRPC surface \<^verbatim>\<open>grpcserver/server.go\<close> through which the push service
  reaches an instance. A write to a socket is a call that may fail; what was written is kept per connection. The check
  of the context is a call whose failure is a cancelled context.
\<close>

section \<open>Connections\<close>

text \<open>
  A connection is identified by its id. What changes during its life (the time it was last seen, its rate limiter)
  is kept by the gateway under that id; the socket is represented by what was written to it.
\<close>

record Connection =
  c_ID :: string
  c_UserID :: string
  c_InstanceID :: string
  c_RemoteAddr :: string
  c_UserAgent :: string
  c_DeviceID :: string
  c_Platform :: string
  c_JTI :: string
  c_Device :: string
  c_ConnectedAt :: int
  c_TraceID :: string
  c_RequestID :: string

record ConnectionManager =
  byID :: "(string \<times> Connection) list"
  byUserID :: "(string \<times> (string \<times> Connection) list) list"

definition NewConnectionManager :: ConnectionManager where
  "NewConnectionManager = \<lparr>byID = [], byUserID = []\<rparr>"

definition of_user :: "ConnectionManager \<Rightarrow> string \<Rightarrow> (string \<times> Connection) list" where
  "of_user m userID = (case map_of (byUserID m) userID of None \<Rightarrow> [] | Some cs \<Rightarrow> cs)"

text \<open>The server's manager has no presence reporter, so \<^verbatim>\<open>Register\<close> and \<^verbatim>\<open>Unregister\<close> only change the tables.\<close>

definition Register :: "Connection \<Rightarrow> ConnectionManager \<Rightarrow> Connection list \<times> ConnectionManager" where
  "Register conn m =
     (let userConnections = of_user m (c_UserID conn);
          ids = sort (filter (\<lambda>i. i \<noteq> c_ID conn) (map fst userConnections));
          replaced = map (\<lambda>i. the (map_of userConnections i)) ids
      in (replaced,
          \<lparr>byID = AList.update (c_ID conn) conn (fold AList.delete ids (byID m)),
           byUserID = AList.update (c_UserID conn)
             (AList.update (c_ID conn) conn (fold AList.delete ids userConnections)) (byUserID m)\<rparr>))"

definition Unregister :: "string \<Rightarrow> ConnectionManager \<Rightarrow> ConnectionManager" where
  "Unregister connectionID m =
     (case map_of (byID m) connectionID of
        None \<Rightarrow> m
      | Some conn \<Rightarrow>
          (let rest = AList.delete connectionID (of_user m (c_UserID conn))
           in m\<lparr>byID := AList.delete connectionID (byID m),
                byUserID := (case map_of (byUserID m) (c_UserID conn) of
                    None \<Rightarrow> byUserID m
                  | Some _ \<Rightarrow> if rest = [] then AList.delete (c_UserID conn) (byUserID m)
                              else AList.update (c_UserID conn) rest (byUserID m))\<rparr>))"

definition UserConnections :: "ConnectionManager \<Rightarrow> string \<Rightarrow> Connection list" where
  "UserConnections m userID = map snd (of_user m userID)"

definition UserConnectionIDs :: "ConnectionManager \<Rightarrow> string \<Rightarrow> string list" where
  "UserConnectionIDs m userID = map fst (of_user m userID)"

definition Count :: "ConnectionManager \<Rightarrow> nat" where
  "Count m = length (byID m)"

definition UserCount :: "ConnectionManager \<Rightarrow> string \<Rightarrow> nat" where
  "UserCount m userID = length (of_user m userID)"

section \<open>Events and results of a delivery\<close>

definition StatusDelivered :: string where "StatusDelivered = ''delivered''"
definition StatusOffline :: string where "StatusOffline = ''offline''"
definition StatusFailed :: string where "StatusFailed = ''failed''"
definition StatusRouted :: string where "StatusRouted = ''routed''"
definition EventMessageReceived :: string where "EventMessageReceived = ''message_received''"

lemmas status_defs = StatusDelivered_def StatusOffline_def StatusFailed_def StatusRouted_def

text \<open>\<open>dm_ContentMetadata\<close> is the text of the JSON object of that name, empty when there is none.\<close>

record DeliveryMessage =
  dm_ServerMsgID :: string
  dm_ClientMsgID :: string
  dm_ConversationID :: string
  dm_Seq :: int
  dm_SenderID :: string
  dm_ReceiverID :: string
  dm_GroupID :: string
  dm_ChatType :: string
  dm_ContentType :: string
  dm_Content :: string
  dm_ContentMetadata :: string
  dm_MessageOrigin :: string
  dm_AgentAccountID :: string
  dm_TriggerServerMsgID :: string
  dm_AgentRunID :: string
  dm_AllowRecursiveTrigger :: bool
  dm_SendTime :: int
  dm_CreatedAt :: int
  dm_TraceID :: string
  dm_RequestID :: string
  dm_TraceParent :: string
  dm_TraceState :: string

record DeliveryEvent =
  de_Type :: string
  de_Data :: DeliveryMessage

definition NewMessageEvent :: "string \<Rightarrow> DeliveryMessage \<Rightarrow> DeliveryEvent" where
  "NewMessageEvent eventType message = \<lparr>de_Type = eventType, de_Data = message\<rparr>"

record Route =
  rt_UserID :: string
  rt_ConnectionID :: string
  rt_InstanceID :: string
  rt_GatewayID :: string
  rt_DeviceID :: string
  rt_Platform :: string
  rt_Local :: bool

record RecipientResult =
  rr_UserID :: string
  rr_Status :: string
  rr_DeliveredConnectionIDs :: "string list"
  rr_FailedConnectionIDs :: "string list"
  rr_Routes :: "Route list"
  rr_Error :: string

record DeliveryResult =
  dr_ConversationID :: string
  dr_Recipients :: "RecipientResult list"
  dr_DeliveredRecipients :: int
  dr_DeliveredConnections :: int
  dr_OfflineRecipients :: int
  dr_FailedRecipients :: int
  dr_RoutedRecipients :: int

definition new_result :: "string \<Rightarrow> DeliveryResult" where
  "new_result conversationID =
     \<lparr>dr_ConversationID = conversationID, dr_Recipients = [], dr_DeliveredRecipients = 0, dr_DeliveredConnections = 0,
      dr_OfflineRecipients = 0, dr_FailedRecipients = 0, dr_RoutedRecipients = 0\<rparr>"

definition AddRecipient :: "RecipientResult \<Rightarrow> DeliveryResult \<Rightarrow> DeliveryResult" where
  "AddRecipient recipient r0 =
     (let r = r0\<lparr>dr_Recipients := dr_Recipients r0 @ [recipient]\<rparr>
      in if rr_Status recipient = StatusDelivered
         then r\<lparr>dr_DeliveredRecipients := dr_DeliveredRecipients r + 1,
                dr_DeliveredConnections := dr_DeliveredConnections r + int (length (rr_DeliveredConnectionIDs recipient))\<rparr>
         else if rr_Status recipient = StatusOffline then r\<lparr>dr_OfflineRecipients := dr_OfflineRecipients r + 1\<rparr>
         else if rr_Status recipient = StatusFailed then r\<lparr>dr_FailedRecipients := dr_FailedRecipients r + 1\<rparr>
         else if rr_Status recipient = StatusRouted then r\<lparr>dr_RoutedRecipients := dr_RoutedRecipients r + 1\<rparr>
         else r)"

section \<open>The state of an instance\<close>

text \<open>
  \<open>'f\<close> is the type of the frames on the sockets other than delivered events (replies and close frames, which the
  command handling adds), \<open>'p\<close> the state of the presence store, \<open>'x\<close> what the command handling keeps.
\<close>

datatype 'f frame = EventFrame DeliveryEvent | OtherFrame 'f

record ('p, 'f, 'x) gateway =
  gw_connections :: ConnectionManager
  gw_presence :: 'p
  gw_out :: "(string \<times> 'f frame) list"
  gw_more :: 'x

type_synonym ('p, 'f, 'x, 'a) gw_act = "(('p, 'f, 'x) gateway, 'a) act"

definition on_presence :: "('p, 'a) act \<Rightarrow> ('p, 'f, 'x, 'a) gw_act" where
  "on_presence m = (\<lambda>(w, fs). case m (gw_presence w, fs) of (r, (p, fs')) \<Rightarrow> (r, (w\<lparr>gw_presence := p\<rparr>, fs')))"

definition modify :: "('w \<Rightarrow> 'w) \<Rightarrow> ('w, unit) act" where
  "modify f = (\<lambda>(w, fs). (Inr (), (f w, fs)))"

definition ctx_err :: "('w, unit) act" where
  "ctx_err = call ''context canceled'' (\<lambda>w. ((), w))"

definition writeJSON :: "string \<Rightarrow> 'f frame \<Rightarrow> ('p, 'f, 'x, unit) gw_act" where
  "writeJSON connectionID v = call ''websocket write'' (\<lambda>w. ((), w\<lparr>gw_out := gw_out w @ [(connectionID, v)]\<rparr>))"

fun err_text :: "goerror \<Rightarrow> string" where
  "err_text (AppError _ m) = m"
| "err_text (StatusError _ m) = m"
| "err_text (internalError e) = err_text e"
| "err_text (Wrapped _ e) = err_text e"
| "err_text (PlainError m) = m"

section \<open>Delivery\<close>

text \<open>The store an instance uses, if any, and its id.\<close>

record 'p dispatcher =
  d_presence :: "'p PresenceStore option"
  d_instanceID :: string

definition NewPresenceAwareDeliveryDispatcher :: "'p PresenceStore option \<Rightarrow> string \<Rightarrow> 'p dispatcher" where
  "NewPresenceAwareDeliveryDispatcher store instanceID = \<lparr>d_presence = store, d_instanceID = TrimSpace instanceID\<rparr>"

definition sameInstance :: "string \<Rightarrow> string \<Rightarrow> string \<Rightarrow> bool" where
  "sameInstance instanceID gatewayID localInstanceID \<longleftrightarrow>
     TrimSpace localInstanceID \<noteq> []
     \<and> (TrimSpace instanceID = TrimSpace localInstanceID \<or> TrimSpace gatewayID = TrimSpace localInstanceID)"

definition lookupRoutes :: "'p dispatcher \<Rightarrow> int \<Rightarrow> string \<Rightarrow> ('p, 'f, 'x, Route list) gw_act" where
  "lookupRoutes d now userID =
     (case d_presence d of
        None \<Rightarrow> ret []
      | Some store \<Rightarrow>
          andThen (on_presence (ListUserConnections store now userID)) (\<lambda>connections.
          ret (map (\<lambda>md. \<lparr>rt_UserID = cm_UserID md, rt_ConnectionID = cm_ConnectionID md,
                          rt_InstanceID = cm_InstanceID md, rt_GatewayID = cm_GatewayID md, rt_DeviceID = cm_DeviceID md,
                          rt_Platform = cm_Platform md,
                          rt_Local = sameInstance (cm_InstanceID md) (cm_GatewayID md) (d_instanceID d)\<rparr>) connections)))"

definition recipient_result :: "string \<Rightarrow> string \<Rightarrow> Route list \<Rightarrow> string \<Rightarrow> RecipientResult" where
  "recipient_result userID status routes err =
     \<lparr>rr_UserID = userID, rr_Status = status, rr_DeliveredConnectionIDs = [], rr_FailedConnectionIDs = [],
      rr_Routes = routes, rr_Error = err\<rparr>"

definition unregister_conn :: "string \<Rightarrow> ('p, 'f, 'x, unit) gw_act" where
  "unregister_conn connectionID = modify (\<lambda>w. w\<lparr>gw_connections := Unregister connectionID (gw_connections w)\<rparr>)"

text \<open>The loop over the connections of an account: the results so far, and the error that ended it early.\<close>

fun write_all ::
  "DeliveryEvent \<Rightarrow> Connection list \<Rightarrow> RecipientResult \<Rightarrow> ('p, 'f, 'x, RecipientResult \<times> goerror option) gw_act" where
  "write_all event [] recipient = ret (recipient, None)"
| "write_all event (conn # conns) recipient =
     andThen (attempt ctx_err) (\<lambda>c. case c of
         Inl e \<Rightarrow> ret (recipient\<lparr>rr_Error := err_text e\<rparr>, Some e)
       | Inr _ \<Rightarrow>
           andThen (attempt (writeJSON (c_ID conn) (EventFrame event))) (\<lambda>r. case r of
               Inl e \<Rightarrow>
                 andThen (unregister_conn (c_ID conn)) (\<lambda>_.
                 write_all event conns (recipient\<lparr>rr_FailedConnectionIDs := rr_FailedConnectionIDs recipient @ [c_ID conn],
                                                  rr_Error := err_text e\<rparr>))
             | Inr _ \<Rightarrow>
                 write_all event conns
                   (recipient\<lparr>rr_DeliveredConnectionIDs := rr_DeliveredConnectionIDs recipient @ [c_ID conn]\<rparr>)))"

definition finish_recipient :: "RecipientResult \<Rightarrow> RecipientResult" where
  "finish_recipient r0 =
     (let r = (if rr_DeliveredConnectionIDs r0 \<noteq> [] then r0\<lparr>rr_Status := StatusDelivered\<rparr> else r0)
      in if rr_FailedConnectionIDs r = [] then r\<lparr>rr_Error := []\<rparr> else r)"

definition deliver_local ::
  "DeliveryEvent \<Rightarrow> string \<Rightarrow> Route list \<Rightarrow> Connection list \<Rightarrow> ('p, 'f, 'x, RecipientResult \<times> goerror option) gw_act" where
  "deliver_local event userID routes conns =
     andThen (write_all event conns (recipient_result userID StatusFailed routes [])) (\<lambda>(recipient, e).
       ret (if e = None then finish_recipient recipient else recipient, e))"

definition deliverToUser ::
  "'p dispatcher \<Rightarrow> int \<Rightarrow> string \<Rightarrow> DeliveryEvent \<Rightarrow> ('p, 'f, 'x, RecipientResult \<times> goerror option) gw_act" where
  "deliverToUser d now userID event =
     andThen (attempt ctx_err) (\<lambda>c. case c of
         Inl e \<Rightarrow> ret (recipient_result userID StatusFailed [] (err_text e), Some e)
       | Inr _ \<Rightarrow>
           andThen (attempt (lookupRoutes d now userID)) (\<lambda>l. case l of
               Inl e \<Rightarrow> ret (recipient_result userID StatusFailed [] (err_text e), Some e)
             | Inr routes \<Rightarrow>
                 if d_presence d \<noteq> None \<and> routes = [] then ret (recipient_result userID StatusOffline [] [], None)
                 else (\<lambda>W. let conns = UserConnections (gw_connections (fst W)) userID
                           in if conns = []
                              then ret (if routes \<noteq> [] then recipient_result userID StatusRouted routes []
                                        else recipient_result userID StatusOffline [] [], None) W
                              else deliver_local event userID routes conns W)))"

definition DeliverToUser ::
  "'p dispatcher \<Rightarrow> int \<Rightarrow> string \<Rightarrow> DeliveryEvent \<Rightarrow> ('p, 'f, 'x, DeliveryResult \<times> goerror option) gw_act" where
  "DeliverToUser d now rawUser event =
     (if TrimSpace rawUser = [] then raise (InvalidArgument ''delivery user_id is required'')
      else if TrimSpace (de_Type event) = [] then raise (InvalidArgument ''delivery event type is required'')
      else andThen (deliverToUser d now (TrimSpace rawUser) event) (\<lambda>(recipient, e).
             ret (AddRecipient recipient (new_result (dm_ConversationID (de_Data event))), e)))"

fun deliver_each ::
  "'p dispatcher \<Rightarrow> int \<Rightarrow> DeliveryEvent \<Rightarrow> string set \<Rightarrow> string list \<Rightarrow> DeliveryResult
     \<Rightarrow> ('p, 'f, 'x, DeliveryResult \<times> goerror option) gw_act" where
  "deliver_each d now event seen [] result = ret (result, None)"
| "deliver_each d now event seen (rawUser # ids) result =
     (let userID = TrimSpace rawUser
      in if userID = [] \<or> userID \<in> seen then deliver_each d now event seen ids result
         else andThen (deliverToUser d now userID event) (\<lambda>(recipient, e).
                let result' = AddRecipient recipient result
                in if e \<noteq> None then ret (result', e) else deliver_each d now event (insert userID seen) ids result'))"

definition DeliverToConversation ::
  "'p dispatcher \<Rightarrow> int \<Rightarrow> string \<Rightarrow> string list \<Rightarrow> DeliveryEvent \<Rightarrow> ('p, 'f, 'x, DeliveryResult \<times> goerror option) gw_act" where
  "DeliverToConversation d now rawConversation recipientUserIDs event0 =
     (let conversationID = TrimSpace rawConversation
      in if conversationID = [] then raise (InvalidArgument ''conversation_id is required'')
         else if TrimSpace (de_Type event0) = [] then raise (InvalidArgument ''delivery event type is required'')
         else let event = (if TrimSpace (dm_ConversationID (de_Data event0)) = []
                           then event0\<lparr>de_Data := (de_Data event0)\<lparr>dm_ConversationID := conversationID\<rparr>\<rparr> else event0)
              in deliver_each d now event {} recipientUserIDs (new_result conversationID))"

section \<open>The gRPC surface\<close>

record BatchPushOneMsgReq =
  bp_ConversationId :: string
  bp_PushToUserIds :: "string list"
  bp_EventJson :: string

record RecipientDeliveryResult =
  rd_UserId :: string
  rd_Status :: string
  rd_Error :: string

text \<open>\<open>decode\<close> is \<^verbatim>\<open>json.Unmarshal\<close> at the type of delivery events; an empty text leaves the zero event.\<close>

definition zero_event :: DeliveryEvent where
  "zero_event = \<lparr>de_Type = [], de_Data =
     \<lparr>dm_ServerMsgID = [], dm_ClientMsgID = [], dm_ConversationID = [], dm_Seq = 0, dm_SenderID = [], dm_ReceiverID = [],
      dm_GroupID = [], dm_ChatType = [], dm_ContentType = [], dm_Content = [], dm_ContentMetadata = [], dm_MessageOrigin = [],
      dm_AgentAccountID = [], dm_TriggerServerMsgID = [], dm_AgentRunID = [], dm_AllowRecursiveTrigger = False,
      dm_SendTime = 0, dm_CreatedAt = 0, dm_TraceID = [], dm_RequestID = [], dm_TraceParent = [], dm_TraceState = []\<rparr>\<rparr>"

definition BatchPushOneMsg ::
  "(string \<Rightarrow> DeliveryEvent result) \<Rightarrow> 'p dispatcher \<Rightarrow> int \<Rightarrow> BatchPushOneMsgReq
     \<Rightarrow> ('p, 'f, 'x, RecipientDeliveryResult list) gw_act" where
  "BatchPushOneMsg decode d now req =
     (case (if bp_EventJson req = [] then Inr zero_event else decode (bp_EventJson req)) of
        Inl e \<Rightarrow> raise (StatusError codes_InvalidArgument (''decode event_json: '' @ err_text e))
      | Inr event \<Rightarrow>
          andThen (attempt (DeliverToConversation d now (bp_ConversationId req) (bp_PushToUserIds req) event)) (\<lambda>r. case r of
              Inl e \<Rightarrow> raise (StatusError codes_Unavailable (err_text e))
            | Inr (result, Some e) \<Rightarrow> raise (StatusError codes_Unavailable (err_text e))
            | Inr (result, None) \<Rightarrow>
                ret (map (\<lambda>rr. \<lparr>rd_UserId = rr_UserID rr, rd_Status = rr_Status rr, rd_Error = rr_Error rr\<rparr>)
                       (dr_Recipients result))))"

section \<open>The tables of connections agree\<close>

text \<open>
  Both tables hold the same connections under their ids and accounts, and an account has at most one.
\<close>

definition conn_inv :: "ConnectionManager \<Rightarrow> bool" where
  "conn_inv m \<longleftrightarrow>
     distinct (map fst (byID m)) \<and> (\<forall>u. distinct (map fst (of_user m u)))
     \<and> (\<forall>u i c. map_of (of_user m u) i = Some c \<longleftrightarrow> map_of (byID m) i = Some c \<and> c_UserID c = u)
     \<and> (\<forall>i c. map_of (byID m) i = Some c \<longrightarrow> c_ID c = i)
     \<and> (\<forall>i c j d. map_of (byID m) i = Some c \<and> map_of (byID m) j = Some d \<and> c_UserID c = c_UserID d \<longrightarrow> i = j)"

lemma map_of_fold_delete: "map_of (fold AList.delete ids xs) i = (if i \<in> set ids then None else map_of xs i)"
  by (induction ids arbitrary: xs) (auto simp: delete_conv')

lemma distinct_fold_delete: "distinct (map fst xs) \<Longrightarrow> distinct (map fst (fold AList.delete ids xs))"
  by (induction ids arbitrary: xs) (auto simp: distinct_delete)

lemma conn_inv_new: "conn_inv NewConnectionManager"
  by (simp add: conn_inv_def NewConnectionManager_def of_user_def)

lemma Register_tables:
  assumes "Register conn m = (replaced, m')" and inv: "conn_inv m"
  shows "map_of (byID m') i = (if i = c_ID conn then Some conn
            else if (\<exists>c. map_of (byID m) i = Some c \<and> c_UserID c = c_UserID conn) then None else map_of (byID m) i)"
    and "map_of (of_user m' u) i = (if u \<noteq> c_UserID conn then map_of (of_user m u) i else if i = c_ID conn then Some conn else None)"
    and "distinct (map fst (byID m'))" "distinct (map fst (of_user m' u))"
    and "set replaced = {c. \<exists>i. i \<noteq> c_ID conn \<and> map_of (byID m) i = Some c \<and> c_UserID c = c_UserID conn}"
proof -
  let ?cs = "of_user m (c_UserID conn)"
  let ?ids = "sort (filter (\<lambda>i. i \<noteq> c_ID conn) (map fst ?cs))"
  have r: "replaced = map (\<lambda>i. the (map_of ?cs i)) ?ids"
    and m': "byID m' = AList.update (c_ID conn) conn (fold AList.delete ?ids (byID m))"
      "byUserID m' = AList.update (c_UserID conn) (AList.update (c_ID conn) conn (fold AList.delete ?ids ?cs)) (byUserID m)"
    using assms(1) by (auto simp: Register_def Let_def)
  have look: "map_of ?cs i = Some c \<longleftrightarrow> map_of (byID m) i = Some c \<and> c_UserID c = c_UserID conn" for i c
    using inv by (auto simp: conn_inv_def)
  have keys: "i \<in> fst ` set ?cs \<longleftrightarrow> (\<exists>c. map_of (byID m) i = Some c \<and> c_UserID c = c_UserID conn)" for i
    using look map_of_eq_None_iff [of ?cs i] by (metis not_Some_eq)
  show "map_of (byID m') i = (if i = c_ID conn then Some conn
            else if (\<exists>c. map_of (byID m) i = Some c \<and> c_UserID c = c_UserID conn) then None else map_of (byID m) i)"
    by (auto simp: m' update_conv' map_of_fold_delete keys image_iff [symmetric])
  have "of_user m' u = (if u = c_UserID conn then AList.update (c_ID conn) conn (fold AList.delete ?ids ?cs) else of_user m u)" for u
    by (auto simp: of_user_def m' update_conv' split: option.splits)
  note users = this
  show "map_of (of_user m' u) i = (if u \<noteq> c_UserID conn then map_of (of_user m u) i else if i = c_ID conn then Some conn else None)"
    by (auto simp: users update_conv' map_of_fold_delete map_of_eq_None_iff)
  show "distinct (map fst (byID m'))" "distinct (map fst (of_user m' u))"
    using inv by (auto simp: m' users conn_inv_def distinct_update distinct_fold_delete)
  show "set replaced = {c. \<exists>i. i \<noteq> c_ID conn \<and> map_of (byID m) i = Some c \<and> c_UserID c = c_UserID conn}"
  proof (rule set_eqI)
    fix c
    have "i \<in> set ?ids \<longleftrightarrow> i \<noteq> c_ID conn \<and> (\<exists>c. map_of ?cs i = Some c)" for i
      using map_of_eq_None_iff [of ?cs i] by (auto simp: image_iff [symmetric])
    then have "c \<in> set replaced \<longleftrightarrow> (\<exists>i. i \<noteq> c_ID conn \<and> map_of ?cs i = Some c)"
      unfolding r set_map image_iff Bex_def by (metis option.sel)
    then show "c \<in> set replaced \<longleftrightarrow> c \<in> {c. \<exists>i. i \<noteq> c_ID conn \<and> map_of (byID m) i = Some c \<and> c_UserID c = c_UserID conn}"
      by (simp add: look)
  qed
qed

lemma conn_inv_Register:
  assumes "conn_inv m" "map_of (byID m) (c_ID conn) = None" "Register conn m = (replaced, m')"
  shows "conn_inv m'"
proof -
  note t = Register_tables [OF assms(3,1)]
  have look: "\<And>u i c. map_of (of_user m u) i = Some c \<longleftrightarrow> map_of (byID m) i = Some c \<and> c_UserID c = u"
    and ids: "\<And>i c. map_of (byID m) i = Some c \<Longrightarrow> c_ID c = i"
    and one: "\<And>i c j d. map_of (byID m) i = Some c \<Longrightarrow> map_of (byID m) j = Some d \<Longrightarrow> c_UserID c = c_UserID d \<Longrightarrow> i = j"
    using assms(1) unfolding conn_inv_def by blast+
  show ?thesis
    unfolding conn_inv_def
  proof (intro conjI allI impI)
    show "distinct (map fst (byID m'))" "\<And>u. distinct (map fst (of_user m' u))" by (rule t)+
  next
    fix u i c show "map_of (of_user m' u) i = Some c \<longleftrightarrow> map_of (byID m') i = Some c \<and> c_UserID c = u"
      using assms(2) by (auto simp: t(1,2) look split: if_splits)
  next
    fix i c assume "map_of (byID m') i = Some c" then show "c_ID c = i" using ids by (auto simp: t(1) split: if_splits)
  next
    fix i c j d assume "map_of (byID m') i = Some c \<and> map_of (byID m') j = Some d \<and> c_UserID c = c_UserID d"
    then show "i = j" using one [of i c j d] by (auto simp: t(1) split: if_splits)
  qed
qed

lemma conn_inv_snd_Register: "conn_inv m \<Longrightarrow> map_of (byID m) (c_ID conn) = None \<Longrightarrow> conn_inv (snd (Register conn m))"
  by (rule conn_inv_Register [of m conn "fst (Register conn m)"]) simp_all

lemma Unregister_tables:
  assumes inv: "conn_inv m"
  shows "map_of (byID (Unregister k m)) i = (if i = k then None else map_of (byID m) i)"
    and "map_of (of_user (Unregister k m) u) i = (if i = k then None else map_of (of_user m u) i)"
    and "distinct (map fst (byID (Unregister k m)))" "distinct (map fst (of_user (Unregister k m) u))"
proof -
  have look: "\<And>u i c. map_of (of_user m u) i = Some c \<longleftrightarrow> map_of (byID m) i = Some c \<and> c_UserID c = u"
    and dist: "distinct (map fst (byID m))" "\<And>u. distinct (map fst (of_user m u))"
    using inv unfolding conn_inv_def by blast+
  have users: "of_user (Unregister k m) u =
      (if (\<exists>c. map_of (byID m) k = Some c \<and> c_UserID c = u) then AList.delete k (of_user m u) else of_user m u)" for u
    by (auto simp: of_user_def Unregister_def Let_def delete_conv' update_conv' split: option.splits)
  show "map_of (byID (Unregister k m)) i = (if i = k then None else map_of (byID m) i)"
    by (auto simp: Unregister_def Let_def delete_conv' split: option.splits)
  show "map_of (of_user (Unregister k m) u) i = (if i = k then None else map_of (of_user m u) i)"
    using look [of u k] by (cases "map_of (of_user m u) k") (auto simp: users delete_conv')
  show "distinct (map fst (byID (Unregister k m)))"
    using dist by (auto simp: Unregister_def Let_def distinct_delete split: option.splits)
  show "distinct (map fst (of_user (Unregister k m) u))" using dist by (simp add: users distinct_delete)
qed

lemma conn_inv_Unregister: "conn_inv m \<Longrightarrow> conn_inv (Unregister k m)"
  using Unregister_tables [of m k] unfolding conn_inv_def by (simp split: if_splits)

lemma UserConnections_iff:
  assumes "conn_inv m"
  shows "c \<in> set (UserConnections m u) \<longleftrightarrow> map_of (byID m) (c_ID c) = Some c \<and> c_UserID c = u"
    and "length (UserConnections m u) \<le> 1"
proof -
  have look: "\<And>i c. map_of (of_user m u) i = Some c \<longleftrightarrow> map_of (byID m) i = Some c \<and> c_UserID c = u"
    and dist: "distinct (map fst (of_user m u))" and ids: "\<And>i c. map_of (byID m) i = Some c \<Longrightarrow> c_ID c = i"
    and one: "\<And>i c j d. map_of (byID m) i = Some c \<Longrightarrow> map_of (byID m) j = Some d \<Longrightarrow> c_UserID c = c_UserID d \<Longrightarrow> i = j"
    using assms unfolding conn_inv_def by blast+
  have "c \<in> set (UserConnections m u) \<longleftrightarrow> (\<exists>i. map_of (of_user m u) i = Some c)"
    using dist by (force simp: UserConnections_def map_of_eq_Some_iff)
  then show "c \<in> set (UserConnections m u) \<longleftrightarrow> map_of (byID m) (c_ID c) = Some c \<and> c_UserID c = u"
    using look ids by metis
  have "i = j" if "i \<in> set (map fst (of_user m u))" "j \<in> set (map fst (of_user m u))" for i j
    using that look one by (metis (no_types, opaque_lifting) in_set_conv_nth map_of_eq_None_iff not_None_eq set_map)
  then have "card (set (map fst (of_user m u))) \<le> 1" by (metis card_le_Suc0_iff_eq One_nat_def List.finite_set)
  then show "length (UserConnections m u) \<le> 1"
    using distinct_card [OF dist] by (simp add: UserConnections_def)
qed

section \<open>What a delivery does, whatever fails\<close>

definition recipients :: "string list \<Rightarrow> string list" where
  "recipients ids = keep_first {} (filter (\<lambda>u. u \<noteq> []) (map TrimSpace ids))"

lemma attempt_run: "attempt m W = (Inr r, W') \<longleftrightarrow> m W = (r, W')"
  by (auto simp: attempt_def split: prod.splits)

lemma attempt_not_Inl [simp]: "attempt m W = (Inl e, W') \<longleftrightarrow> False"
  by (auto simp: attempt_def split: prod.splits)

lemma ctx_err_state: "ctx_err (w, fs) = (r, (w', fs')) \<Longrightarrow> w' = w"
  by (auto simp: ctx_err_def call_def split: list.splits fault.splits)

lemma writeJSON_cases:
  "writeJSON i v (w, fs) = (r, (w', fs')) \<Longrightarrow>
     w' = w \<and> isl r \<or> w' = w\<lparr>gw_out := gw_out w @ [(i, v)]\<rparr>"
  by (auto simp: writeJSON_def call_def split: list.splits fault.splits)

lemma writeJSON_ok: "writeJSON i v (w, fs) = (Inr u, (w', fs')) \<Longrightarrow> w' = w\<lparr>gw_out := gw_out w @ [(i, v)]\<rparr>"
  by (auto simp: writeJSON_def dest!: call_okD)

text \<open>
  \<open>delivery_step\<close> relates the states before and after writing an event to connections with the ids \<open>C\<close>: events were
  appended for those only, and those only were taken out of the tables.
\<close>

definition delivery_step ::
  "DeliveryEvent \<Rightarrow> string set \<Rightarrow> ('p, 'f, 'x) gateway \<Rightarrow> ('p, 'f, 'x) gateway \<Rightarrow> (string \<times> 'f frame) list \<Rightarrow> bool" where
  "delivery_step ev C w w' new \<longleftrightarrow>
     gw_out w' = gw_out w @ new \<and> gw_more w' = gw_more w
     \<and> (\<forall>x\<in>set new. snd x = EventFrame ev \<and> fst x \<in> C)
     \<and> (\<exists>gone. gw_connections w' = fold Unregister gone (gw_connections w) \<and> set gone \<subseteq> C)"

lemma delivery_step_refl: "delivery_step ev C w w []"
  by (auto simp: delivery_step_def intro!: exI [of _ "[]"])

lemma delivery_step_presence: "delivery_step ev C w w' new \<Longrightarrow> delivery_step ev C w (w'\<lparr>gw_presence := p\<rparr>) new"
  by (simp add: delivery_step_def)

lemma delivery_step_trans:
  assumes "delivery_step ev C w w1 n1" "delivery_step ev C w1 w2 n2"
  shows "delivery_step ev C w w2 (n1 @ n2)"
proof -
  obtain g1 g2 where "gw_connections w1 = fold Unregister g1 (gw_connections w)" "set g1 \<subseteq> C"
      "gw_connections w2 = fold Unregister g2 (gw_connections w1)" "set g2 \<subseteq> C"
    using assms by (auto simp: delivery_step_def)
  then have "\<exists>g. gw_connections w2 = fold Unregister g (gw_connections w) \<and> set g \<subseteq> C"
    by (intro exI [of _ "g1 @ g2"]) simp
  then show ?thesis using assms unfolding delivery_step_def by (intro conjI) auto
qed

lemma delivery_step_mono: "delivery_step ev C w w' new \<Longrightarrow> C \<subseteq> D \<Longrightarrow> delivery_step ev D w w' new"
  unfolding delivery_step_def by blast

lemma delivery_step_write:
  "i \<in> C \<Longrightarrow> delivery_step ev C w (w\<lparr>gw_out := gw_out w @ [(i, EventFrame ev)]\<rparr>) [(i, EventFrame ev)]"
  by (auto simp: delivery_step_def intro!: exI [of _ "[]"])

lemma delivery_step_unregister:
  "i \<in> C \<Longrightarrow> delivery_step ev C w (w\<lparr>gw_connections := Unregister i (gw_connections w)\<rparr>) []"
  by (auto simp: delivery_step_def intro!: exI [of _ "[i]"])

lemma write_all_safe:
  assumes "write_all ev conns rr (w, fs) = (r, (w', fs'))" "c_ID ` set conns \<subseteq> C"
  shows "\<exists>rr' e new del. r = Inr (rr', e) \<and> delivery_step ev C w w' new \<and> gw_presence w' = gw_presence w
     \<and> rr_UserID rr' = rr_UserID rr \<and> rr_Status rr' = rr_Status rr
     \<and> rr_DeliveredConnectionIDs rr' = rr_DeliveredConnectionIDs rr @ del \<and> set del \<subseteq> c_ID ` set conns
     \<and> (\<forall>i\<in>set del. (i, EventFrame ev) \<in> set new)"
  using assms
proof (induction conns arbitrary: rr w fs)
  case Nil
  then show ?case using delivery_step_refl by (fastforce simp: ret_def)
next
  case (Cons conn conns)
  have C: "c_ID conn \<in> C" "c_ID ` set conns \<subseteq> C" using Cons.prems(2) by auto
  obtain q w0 fs0 where q: "ctx_err (w, fs) = (q, (w0, fs0))" by (metis prod.exhaust)
  then have [simp]: "w0 = w" by (rule ctx_err_state)
  have a: "attempt ctx_err (w, fs) = (Inr q, (w, fs0))" using q by (simp add: attempt_run)
  show ?case
  proof (cases q)
    case (Inl e)
    then have "r = Inr (rr\<lparr>rr_Error := err_text e\<rparr>, Some e)" "w' = w" using Cons.prems(1) a by (auto simp: ret_def)
    then show ?thesis using delivery_step_refl by fastforce
  next
    case (Inr u)
    obtain p w1 fs1 where p: "writeJSON (c_ID conn) (EventFrame ev) (w, fs0) = (p, (w1, fs1))" by (metis prod.exhaust)
    have b: "attempt (writeJSON (c_ID conn) (EventFrame ev)) (w, fs0) = (Inr p, (w1, fs1))" using p by (simp add: attempt_run)
    show ?thesis
    proof (cases p)
      case (Inl e)
      obtain n1 where s1: "delivery_step ev C w w1 n1" "gw_presence w1 = gw_presence w"
        using writeJSON_cases [OF p] delivery_step_refl delivery_step_write [OF C(1)] by fastforce
      let ?w2 = "w1\<lparr>gw_connections := Unregister (c_ID conn) (gw_connections w1)\<rparr>"
      have s2: "delivery_step ev C w ?w2 n1"
        using delivery_step_trans [OF s1(1) delivery_step_unregister [OF C(1)]] by simp
      have run: "write_all ev conns (rr\<lparr>rr_FailedConnectionIDs := rr_FailedConnectionIDs rr @ [c_ID conn], rr_Error := err_text e\<rparr>)
          (?w2, fs1) = (r, (w', fs'))"
        using Cons.prems(1) a b \<open>q = Inr u\<close> Inl by (simp add: unregister_conn_def modify_def)
      from Cons.IH [OF run C(2)] obtain rr' e' n2 del where
        "r = Inr (rr', e')" "delivery_step ev C ?w2 w' n2" "gw_presence w' = gw_presence w1"
        "rr_UserID rr' = rr_UserID rr" "rr_Status rr' = rr_Status rr"
        "rr_DeliveredConnectionIDs rr' = rr_DeliveredConnectionIDs rr @ del" "set del \<subseteq> c_ID ` set conns"
        "\<forall>i\<in>set del. (i, EventFrame ev) \<in> set n2"
        by auto
      with delivery_step_trans [OF s2] s1(2) show ?thesis by fastforce
    next
      case (Inr v)
      then have w1: "w1 = w\<lparr>gw_out := gw_out w @ [(c_ID conn, EventFrame ev)]\<rparr>" using writeJSON_ok p by blast
      have run: "write_all ev conns (rr\<lparr>rr_DeliveredConnectionIDs := rr_DeliveredConnectionIDs rr @ [c_ID conn]\<rparr>) (w1, fs1) = (r, (w', fs'))"
        using Cons.prems(1) a b \<open>q = Inr u\<close> Inr by simp
      from Cons.IH [OF run C(2)] obtain rr' e' n2 del where
        "r = Inr (rr', e')" "delivery_step ev C w1 w' n2" "gw_presence w' = gw_presence w1"
        "rr_UserID rr' = rr_UserID rr" "rr_Status rr' = rr_Status rr"
        "rr_DeliveredConnectionIDs rr' = rr_DeliveredConnectionIDs rr @ c_ID conn # del" "set del \<subseteq> c_ID ` set conns"
        "\<forall>i\<in>set del. (i, EventFrame ev) \<in> set n2"
        by auto
      with delivery_step_trans [OF delivery_step_write [OF C(1), of ev w], of w' n2] w1 show ?thesis
        by (intro exI [of _ rr'] exI [of _ e'] exI [of _ "[(c_ID conn, EventFrame ev)] @ n2"] exI [of _ "c_ID conn # del"]) auto
    qed
  qed
qed

definition conns_of :: "ConnectionManager \<Rightarrow> string \<Rightarrow> string set" where
  "conns_of m u = {i. \<exists>c. map_of (byID m) i = Some c \<and> c_UserID c = u}"

lemma lookupRoutes_state:
  "lookupRoutes d now u (w, fs) = (r, (w', fs')) \<Longrightarrow> \<exists>p. w' = w\<lparr>gw_presence := p\<rparr>"
  by (auto simp: lookupRoutes_def ret_def andThen_def on_presence_def split: option.splits prod.splits sum.splits intro: exI [of _ "gw_presence w"])

lemma deliver_local_safe:
  assumes "deliver_local ev u routes conns (w, fs) = (r, (w', fs'))" "c_ID ` set conns \<subseteq> C"
  shows "\<exists>rr e new. r = Inr (rr, e) \<and> delivery_step ev C w w' new \<and> rr_UserID rr = u
     \<and> rr_Status rr \<in> {StatusDelivered, StatusFailed}
     \<and> (rr_Status rr = StatusDelivered \<longrightarrow> (\<exists>i\<in>C. (i, EventFrame ev) \<in> set new))"
proof -
  let ?r0 = "recipient_result u StatusFailed routes []"
  obtain q w1 fs1 where q: "write_all ev conns ?r0 (w, fs) = (q, (w1, fs1))" by (metis prod.exhaust)
  from write_all_safe [OF q assms(2)] obtain rr e new del where
    w: "q = Inr (rr, e)" "delivery_step ev C w w1 new" "rr_UserID rr = u" "rr_Status rr = StatusFailed"
      "rr_DeliveredConnectionIDs rr = del" "set del \<subseteq> c_ID ` set conns" "\<forall>i\<in>set del. (i, EventFrame ev) \<in> set new"
    by (auto simp: recipient_result_def)
  let ?rr = "if e = None then finish_recipient rr else rr"
  have "r = Inr (?rr, e)" "w' = w1" using assms(1) q w(1) by (auto simp: deliver_local_def ret_def)
  moreover have "rr_UserID ?rr = u" "rr_Status ?rr \<in> {StatusDelivered, StatusFailed}"
    using w(3,4) by (auto simp: finish_recipient_def Let_def)
  moreover have "\<exists>i\<in>C. (i, EventFrame ev) \<in> set new" if "rr_Status ?rr = StatusDelivered"
  proof -
    have "del \<noteq> []" using that w(4,5) by (auto simp: finish_recipient_def Let_def status_defs split: if_splits)
    then have "hd del \<in> set del" by simp
    then show ?thesis using w(6,7) assms(2) by blast
  qed
  ultimately show ?thesis using w(2) by blast
qed

lemma deliverToUser_safe:
  assumes inv: "conn_inv (gw_connections w)" and run: "deliverToUser d now u ev (w, fs) = (r, (w', fs'))"
    and C: "C = conns_of (gw_connections w) u"
  shows "\<exists>rr e new. r = Inr (rr, e) \<and> delivery_step ev C w w' new \<and> rr_UserID rr = u
     \<and> rr_Status rr \<in> {StatusDelivered, StatusFailed, StatusOffline, StatusRouted}
     \<and> (rr_Status rr = StatusDelivered \<longrightarrow> (\<exists>i\<in>C. (i, EventFrame ev) \<in> set new))
     \<and> (rr_Status rr \<in> {StatusOffline, StatusRouted} \<longrightarrow> new = [])"
proof -
  obtain q w0 fs0 where q: "ctx_err (w, fs) = (q, (w0, fs0))" by (metis prod.exhaust)
  then have [simp]: "w0 = w" by (rule ctx_err_state)
  have a: "attempt ctx_err (w, fs) = (Inr q, (w, fs0))" using q by (simp add: attempt_run)
  obtain l w1 fs1 where l: "lookupRoutes d now u (w, fs0) = (l, (w1, fs1))" by (metis prod.exhaust)
  then obtain p where w1: "w1 = w\<lparr>gw_presence := p\<rparr>" using lookupRoutes_state by blast
  have b: "attempt (lookupRoutes d now u) (w, fs0) = (Inr l, (w1, fs1))" using l by (simp add: attempt_run)
  have stay: "delivery_step ev C w w []" "delivery_step ev C w w1 []"
    unfolding w1 by (intro delivery_step_refl delivery_step_presence)+
  show ?thesis
  proof (cases q)
    case (Inl e)
    with run a stay show ?thesis by (fastforce simp: deliverToUser_def ret_def recipient_result_def status_defs)
  next
    case (Inr x)
    note q = this
    show ?thesis
    proof (cases l)
      case (Inl e)
      with run a b q stay show ?thesis by (fastforce simp: deliverToUser_def ret_def recipient_result_def status_defs)
    next
      case (Inr routes)
      let ?conns = "UserConnections (gw_connections w1) u"
      show ?thesis
      proof (cases "d_presence d \<noteq> None \<and> routes = [] \<or> ?conns = []")
        case True
        then obtain rr where rr: "r = Inr (rr, None)" "w' = w1" "rr_UserID rr = u" "rr_Status rr \<in> {StatusOffline, StatusRouted}"
          using run a b q Inr by (auto simp: deliverToUser_def ret_def recipient_result_def Let_def split: if_splits)
        then have "rr_Status rr \<noteq> StatusDelivered" by (auto simp: status_defs)
        with rr stay(2) show ?thesis by blast
      next
        case False
        then have loc: "deliver_local ev u routes ?conns (w1, fs1) = (r, (w', fs'))"
          using run a b q Inr by (auto simp: deliverToUser_def Let_def)
        have sub: "c_ID ` set ?conns \<subseteq> C"
          unfolding C conns_of_def w1 using UserConnections_iff(1) [OF inv] by auto
        obtain rr e new where "r = Inr (rr, e)" "delivery_step ev C w1 w' new" "rr_UserID rr = u"
            "rr_Status rr \<in> {StatusDelivered, StatusFailed}"
            "rr_Status rr = StatusDelivered \<longrightarrow> (\<exists>i\<in>C. (i, EventFrame ev) \<in> set new)"
          using deliver_local_safe [OF loc sub] by blast
        with delivery_step_trans [OF stay(2)] show ?thesis
          by (intro exI [of _ rr] exI [of _ e] exI [of _ new]) (auto simp: status_defs)
      qed
    qed
  qed
qed

lemma conn_inv_fold: "conn_inv m \<Longrightarrow> conn_inv (fold Unregister gone m)"
  by (induction gone arbitrary: m) (auto intro: conn_inv_Unregister)

lemma delivery_step_inv: "delivery_step ev C w w' new \<Longrightarrow> conn_inv (gw_connections w) \<Longrightarrow> conn_inv (gw_connections w')"
  unfolding delivery_step_def by (auto intro: conn_inv_fold)

lemma conns_of_Unregister: "conn_inv m \<Longrightarrow> conns_of (Unregister k m) u \<subseteq> conns_of m u"
  using Unregister_tables(1) [of m k] by (auto simp: conns_of_def split: if_splits)

lemma conns_of_fold: "conn_inv m \<Longrightarrow> conns_of (fold Unregister gone m) u \<subseteq> conns_of m u"
proof (induction gone arbitrary: m)
  case (Cons k gone)
  then show ?case using conns_of_Unregister [OF Cons.prems, of k u] conn_inv_Unregister [OF Cons.prems] by force
qed simp

lemma delivery_step_conns:
  "delivery_step ev C w w' new \<Longrightarrow> conn_inv (gw_connections w) \<Longrightarrow> conns_of (gw_connections w') u \<subseteq> conns_of (gw_connections w) u"
  unfolding delivery_step_def by (metis conns_of_fold)

text \<open>The results of a loop over recipients; the last one may have met an error.\<close>

definition outcome_ok :: "DeliveryEvent \<Rightarrow> (string \<Rightarrow> string set) \<Rightarrow> (string \<times> 'f frame) list \<Rightarrow> RecipientResult \<Rightarrow> bool" where
  "outcome_ok ev C new rr \<longleftrightarrow>
     rr_Status rr \<in> {StatusDelivered, StatusFailed, StatusOffline, StatusRouted}
     \<and> (rr_Status rr = StatusDelivered \<longrightarrow> (\<exists>i\<in>C (rr_UserID rr). (i, EventFrame ev) \<in> set new))"

lemma outcome_ok_mono:
  "outcome_ok ev C new rr \<Longrightarrow> (\<And>u. C u \<subseteq> D u) \<Longrightarrow> set new \<subseteq> set new' \<Longrightarrow> outcome_ok ev D new' rr"
  unfolding outcome_ok_def by blast

lemma deliver_each_safe:
  assumes "conn_inv (gw_connections w)" "deliver_each d now ev seen ids res (w, fs) = (r, (w', fs'))"
    and C: "C = conns_of (gw_connections w)"
  shows "\<exists>res' e new rest. r = Inr (res', e) \<and> dr_Recipients res' = dr_Recipients res @ rest
     \<and> delivery_step ev (\<Union>u\<in>set (keep_first seen (filter (\<lambda>u. u \<noteq> []) (map TrimSpace ids))). C u) w w' new
     \<and> list_all (outcome_ok ev C new) rest
     \<and> prefix (map rr_UserID rest) (keep_first seen (filter (\<lambda>u. u \<noteq> []) (map TrimSpace ids)))
     \<and> (e = None \<longrightarrow> map rr_UserID rest = keep_first seen (filter (\<lambda>u. u \<noteq> []) (map TrimSpace ids)))"
  using assms
proof (induction ids arbitrary: seen res w fs C)
  case Nil
  then show ?case using delivery_step_refl by (fastforce simp: ret_def)
next
  case (Cons raw ids)
  let ?u = "TrimSpace raw"
  let ?us = "\<lambda>seen. keep_first seen (filter (\<lambda>u. u \<noteq> []) (map TrimSpace ids))"
  show ?case
  proof (cases "?u = [] \<or> ?u \<in> seen")
    case True
    then have run: "deliver_each d now ev seen ids res (w, fs) = (r, (w', fs'))" using Cons.prems(2) by (simp add: Let_def)
    from True Cons.IH [OF Cons.prems(1) run Cons.prems(3)] show ?thesis by auto
  next
    case False
    obtain q w1 fs1 where q: "deliverToUser d now ?u ev (w, fs) = (q, (w1, fs1))" by (metis prod.exhaust)
    from deliverToUser_safe [OF Cons.prems(1) q refl] obtain rr e n1 where
      u: "q = Inr (rr, e)" "delivery_step ev (C ?u) w w1 n1" "rr_UserID rr = ?u" "outcome_ok ev C n1 rr"
      unfolding Cons.prems(3) outcome_ok_def by auto
    have rec: "dr_Recipients (AddRecipient rr res) = dr_Recipients res @ [rr]" by (simp add: AddRecipient_def Let_def)
    let ?D = "\<Union>u\<in>set (?u # ?us (insert ?u seen)). C u"
    have s1: "delivery_step ev ?D w w1 n1" using u(2) by (rule delivery_step_mono) auto
    have us: "keep_first seen (filter (\<lambda>u. u \<noteq> []) (map TrimSpace (raw # ids))) = ?u # ?us (insert ?u seen)"
      using False by simp
    show ?thesis
    proof (cases e)
      case (Some err)
      then have "r = Inr (AddRecipient rr res, e)" "w' = w1"
        using Cons.prems(2) q u(1) False by (auto simp: Let_def ret_def)
      then show ?thesis
        unfolding us using s1 u rec Some by (intro exI [of _ "AddRecipient rr res"] exI [of _ e] exI [of _ n1] exI [of _ "[rr]"]) auto
    next
      case None
      have inv1: "conn_inv (gw_connections w1)" by (rule delivery_step_inv [OF u(2) Cons.prems(1)])
      have run: "deliver_each d now ev (insert ?u seen) ids (AddRecipient rr res) (w1, fs1) = (r, (w', fs'))"
        using Cons.prems(2) q u(1) False None by (auto simp: Let_def)
      have sub: "conns_of (gw_connections w1) v \<subseteq> C v" for v
        unfolding Cons.prems(3) by (rule delivery_step_conns [OF u(2) Cons.prems(1)])
      from Cons.IH [OF inv1 run refl] obtain res' e' n2 rest where
        h: "r = Inr (res', e')" "dr_Recipients res' = dr_Recipients res @ rr # rest"
          "delivery_step ev (\<Union>u\<in>set (?us (insert ?u seen)). conns_of (gw_connections w1) u) w1 w' n2"
          "list_all (outcome_ok ev (conns_of (gw_connections w1)) n2) rest"
          "prefix (map rr_UserID rest) (?us (insert ?u seen))"
          "e' = None \<longrightarrow> map rr_UserID rest = ?us (insert ?u seen)"
        by (auto simp: rec)
      have "delivery_step ev ?D w1 w' n2" by (rule delivery_step_mono [OF h(3)]) (use sub in auto)
      note step = delivery_step_trans [OF s1 this]
      have "list_all (outcome_ok ev C (n1 @ n2)) (rr # rest)"
        using h(4) outcome_ok_mono [where new = n2 and new' = "n1 @ n2", OF _ sub]
          outcome_ok_mono [where new' = "n1 @ n2", OF u(4) subset_refl]
        by (auto simp: list_all_iff)
      then show ?thesis
        unfolding us using step h u(3)
        by (intro exI [of _ res'] exI [of _ e'] exI [of _ "n1 @ n2"] exI [of _ "rr # rest"]) auto
    qed
  qed
qed

section \<open>What an undisturbed delivery does\<close>

definition expected_status :: "(string \<Rightarrow> string \<Rightarrow> bool) \<Rightarrow> ConnectionManager \<Rightarrow> string \<Rightarrow> string" where
  "expected_status present m u =
     (if \<nexists>c. present u c then StatusOffline else if UserConnections m u = [] then StatusRouted else StatusDelivered)"

definition expected_frames ::
  "DeliveryEvent \<Rightarrow> (string \<Rightarrow> string \<Rightarrow> bool) \<Rightarrow> ConnectionManager \<Rightarrow> string \<Rightarrow> (string \<times> 'f frame) list" where
  "expected_frames ev present m u =
     (if \<nexists>c. present u c then [] else map (\<lambda>c. (c_ID c, EventFrame ev)) (UserConnections m u))"

lemma write_all_clean:
  "write_all ev conns rr (w, []) =
     (Inr (rr\<lparr>rr_DeliveredConnectionIDs := rr_DeliveredConnectionIDs rr @ map c_ID conns\<rparr>, None),
      (w\<lparr>gw_out := gw_out w @ map (\<lambda>c. (c_ID c, EventFrame ev)) conns\<rparr>, []))"
  by (induction conns arbitrary: rr w) (simp_all add: ret_def attempt_def ctx_err_def writeJSON_def)

context presence_contract begin

lemma deliverToUser_clean:
  assumes "d_presence d = Some store" "okp now (gw_presence w)" "TrimSpace u = u" "u \<noteq> []"
  shows "\<exists>rr p'. deliverToUser d now u ev (w, []) = (Inr (rr, None),
        (w\<lparr>gw_presence := p', gw_out := gw_out w @ expected_frames ev (live (gw_presence w) now) (gw_connections w) u\<rparr>, []))
      \<and> okp now p' \<and> (\<forall>t\<ge>now. \<forall>v c. live p' t v c \<longleftrightarrow> live (gw_presence w) t v c)
      \<and> rr_UserID rr = u \<and> rr_Status rr = expected_status (live (gw_presence w) now) (gw_connections w) u"
proof -
  obtain cs p' where l: "ListUserConnections store now u (gw_presence w, []) = (Inr cs, (p', []))" "okp now p'"
      "\<forall>t\<ge>now. \<forall>v c. live p' t v c \<longleftrightarrow> live (gw_presence w) t v c"
      "finite {c. live (gw_presence w) now u c}" "map cm_ConnectionID cs = sorted_list_of_set {c. live (gw_presence w) now u c}"
    using list_run [OF assms(2,3,4)] by blast
  have none: "cs = [] \<longleftrightarrow> (\<nexists>c. live (gw_presence w) now u c)"
    using l(4,5) by (metis (mono_tags, lifting) empty_Collect_eq map_is_Nil_conv sorted_list_of_set_eq_Nil_iff)
  let ?w1 = "w\<lparr>gw_presence := p'\<rparr>" and ?conns = "UserConnections (gw_connections w) u"
  obtain routes where r: "lookupRoutes d now u (w, []) = (Inr routes, (?w1, []))" "routes = [] \<longleftrightarrow> cs = []"
    using assms(1) l(1) by (simp add: lookupRoutes_def on_presence_def ret_def)
  have pre: "deliverToUser d now u ev (w, []) =
      (if routes = [] then (Inr (recipient_result u StatusOffline [] [], None), (?w1, []))
       else if ?conns = [] then (Inr (recipient_result u StatusRouted routes [], None), (?w1, []))
       else deliver_local ev u routes ?conns (?w1, []))"
    using assms(1) r(1) by (simp add: deliverToUser_def attempt_def ctx_err_def ret_def Let_def)
  show ?thesis
  proof (cases "routes = [] \<or> ?conns = []")
    case True
    then have "?w1 = w\<lparr>gw_presence := p', gw_out := gw_out w @ expected_frames ev (live (gw_presence w) now) (gw_connections w) u\<rparr>"
      using r(2) none by (auto simp: expected_frames_def)
    moreover have "\<exists>rr. deliverToUser d now u ev (w, []) = (Inr (rr, None), (?w1, [])) \<and> rr_UserID rr = u
        \<and> rr_Status rr = expected_status (live (gw_presence w) now) (gw_connections w) u"
    proof (cases "routes = []")
      case True
      then show ?thesis using r(2) none unfolding pre by (simp add: expected_status_def recipient_result_def)
    next
      case False
      then have "\<exists>c. live (gw_presence w) now u c" "?conns = []" using r(2) none True by auto
      then show ?thesis using False unfolding pre by (auto simp: expected_status_def recipient_result_def)
    qed
    ultimately show ?thesis using l(2,3) by metis
  next
    case False
    have "deliver_local ev u routes ?conns (?w1, []) =
        (Inr (finish_recipient ((recipient_result u StatusFailed routes [])\<lparr>rr_DeliveredConnectionIDs := map c_ID ?conns\<rparr>), None),
         (?w1\<lparr>gw_out := gw_out w @ map (\<lambda>c. (c_ID c, EventFrame ev)) ?conns\<rparr>, []))"
      by (simp add: deliver_local_def write_all_clean ret_def recipient_result_def)
    then show ?thesis
      using False pre l(2,3) r(2) none
      by (auto simp: expected_status_def expected_frames_def finish_recipient_def recipient_result_def Let_def)
  qed
qed

lemma deliver_each_clean:
  assumes "d_presence d = Some store" "okp now (gw_presence w)"
    and us: "us = keep_first seen (filter (\<lambda>u. u \<noteq> []) (map TrimSpace ids))"
    and live0: "\<And>u c. live (gw_presence w) now u c \<longleftrightarrow> present u c" and m: "m = gw_connections w"
  shows "\<exists>res' p' rest. deliver_each d now ev seen ids res (w, []) = (Inr (res', None),
        (w\<lparr>gw_presence := p', gw_out := gw_out w @ concat (map (expected_frames ev present m) us)\<rparr>, []))
      \<and> okp now p' \<and> dr_Recipients res' = dr_Recipients res @ rest
      \<and> map (\<lambda>rr. (rr_UserID rr, rr_Status rr)) rest = map (\<lambda>u. (u, expected_status present m u)) us"
  using assms
proof (induction ids arbitrary: seen res w us)
  case Nil
  then show ?case by (auto simp: ret_def intro!: exI [of _ "gw_presence w"])
next
  case (Cons raw ids)
  let ?u = "TrimSpace raw"
  show ?case
  proof (cases "?u = [] \<or> ?u \<in> seen")
    case True
    then have "us = keep_first seen (filter (\<lambda>u. u \<noteq> []) (map TrimSpace ids))" using Cons.prems(3) by auto
    from Cons.IH [OF Cons.prems(1,2) this Cons.prems(4,5)] True show ?thesis by (simp add: Let_def)
  next
    case False
    have P: "live (gw_presence w) now = present" using Cons.prems(4) by (simp add: fun_eq_iff)
    obtain rr p1 where u: "deliverToUser d now ?u ev (w, []) = (Inr (rr, None),
        (w\<lparr>gw_presence := p1, gw_out := gw_out w @ expected_frames ev present m ?u\<rparr>, []))"
        "okp now p1" "\<forall>t\<ge>now. \<forall>v c. live p1 t v c \<longleftrightarrow> live (gw_presence w) t v c"
        "rr_UserID rr = ?u" "rr_Status rr = expected_status present m ?u"
      using deliverToUser_clean [OF Cons.prems(1,2), of ?u ev] False unfolding P Cons.prems(5) by auto
    let ?w1 = "w\<lparr>gw_presence := p1, gw_out := gw_out w @ expected_frames ev present m ?u\<rparr>"
    let ?us = "keep_first (insert ?u seen) (filter (\<lambda>u. u \<noteq> []) (map TrimSpace ids))"
    have us: "us = ?u # ?us" using Cons.prems(3) False by simp
    have "\<And>u c. live (gw_presence ?w1) now u c \<longleftrightarrow> present u c" using u(3) Cons.prems(4) by simp
    from Cons.IH [of ?w1 ?us "insert ?u seen" "AddRecipient rr res", OF Cons.prems(1) _ refl this] u(2) Cons.prems(5)
    obtain res' p' rest where h: "deliver_each d now ev (insert ?u seen) ids (AddRecipient rr res) (?w1, []) = (Inr (res', None),
          (?w1\<lparr>gw_presence := p', gw_out := gw_out ?w1 @ concat (map (expected_frames ev present m) ?us)\<rparr>, []))"
        "okp now p'" "dr_Recipients res' = dr_Recipients (AddRecipient rr res) @ rest"
        "map (\<lambda>rr. (rr_UserID rr, rr_Status rr)) rest = map (\<lambda>u. (u, expected_status present m u)) ?us"
      by auto
    have "dr_Recipients (AddRecipient rr res) = dr_Recipients res @ [rr]" by (simp add: AddRecipient_def Let_def)
    then show ?thesis
      using h u False by (intro exI [of _ res'] exI [of _ p'] exI [of _ "rr # rest"]) (auto simp: us Let_def)
  qed
qed

end

section \<open>Properties\<close>

definition delivered_event :: "string \<Rightarrow> DeliveryEvent \<Rightarrow> DeliveryEvent" where
  "delivered_event rawConversation event =
     (if TrimSpace (dm_ConversationID (de_Data event)) = []
      then event\<lparr>de_Data := (de_Data event)\<lparr>dm_ConversationID := TrimSpace rawConversation\<rparr>\<rparr> else event)"

lemma DeliverToConversation_unfold:
  "DeliverToConversation d now conv ids ev W =
     (if TrimSpace conv = [] \<or> TrimSpace (de_Type ev) = []
      then raise (InvalidArgument (if TrimSpace conv = [] then ''conversation_id is required'' else ''delivery event type is required'')) W
      else deliver_each d now (delivered_event conv ev) {} ids (new_result (TrimSpace conv)) W)"
  by (simp add: DeliverToConversation_def delivered_event_def Let_def)

text \<open>
  C19: a delivery to a conversation, under any failures of the presence store, of the sockets or of the context, writes the event
  to connections of the listed recipients only and keeps the tables of connections in agreement; it reports each
  recipient at most once and, unless it ends with an error, all of them in their order; and a recipient reported
  as delivered has a connection on this instance to which the event was written.
\<close>
theorem delivery_only_to_recipients:
  assumes "conn_inv (gw_connections w)" "DeliverToConversation d now conv ids ev (w, fs) = (Inr (res, e), (w', fs'))"
  shows "conn_inv (gw_connections w')
    \<and> (\<exists>new. gw_out w' = gw_out w @ new
         \<and> (\<forall>x\<in>set new. snd x = EventFrame (delivered_event conv ev)
              \<and> (\<exists>u\<in>set (recipients ids). fst x \<in> conns_of (gw_connections w) u))
         \<and> (\<forall>rr\<in>set (dr_Recipients res). rr_Status rr = StatusDelivered \<longrightarrow>
              (\<exists>i\<in>conns_of (gw_connections w) (rr_UserID rr). (i, EventFrame (delivered_event conv ev)) \<in> set new)))
    \<and> prefix (map rr_UserID (dr_Recipients res)) (recipients ids)
    \<and> (e = None \<longrightarrow> map rr_UserID (dr_Recipients res) = recipients ids)"
proof -
  let ?ev = "delivered_event conv ev" and ?C = "conns_of (gw_connections w)"
  have run: "deliver_each d now ?ev {} ids (new_result (TrimSpace conv)) (w, fs) = (Inr (res, e), (w', fs'))"
    using assms(2) unfolding DeliverToConversation_unfold by (auto simp: raise_def split: if_splits)
  from deliver_each_safe [OF assms(1) run refl] obtain new rest where
    h: "dr_Recipients res = rest" "delivery_step ?ev (\<Union>u\<in>set (recipients ids). ?C u) w w' new"
      "list_all (outcome_ok ?ev ?C new) rest" "prefix (map rr_UserID rest) (recipients ids)"
      "e = None \<longrightarrow> map rr_UserID rest = recipients ids"
    by (auto simp: recipients_def new_result_def)
  have "\<forall>rr\<in>set rest. rr_Status rr = StatusDelivered \<longrightarrow> (\<exists>i\<in>?C (rr_UserID rr). (i, EventFrame ?ev) \<in> set new)"
    using h(3) by (auto simp: list_all_iff outcome_ok_def)
  moreover have "gw_out w' = gw_out w @ new"
      "\<forall>x\<in>set new. snd x = EventFrame ?ev \<and> (\<exists>u\<in>set (recipients ids). fst x \<in> ?C u)"
    using h(2) by (auto simp: delivery_step_def)
  ultimately show ?thesis using delivery_step_inv [OF h(2) assms(1)] h(1,4,5) by blast
qed

definition demo_conn :: "string \<Rightarrow> string \<Rightarrow> Connection" where
  "demo_conn i u = \<lparr>c_ID = i, c_UserID = u, c_InstanceID = ''g1'', c_RemoteAddr = [], c_UserAgent = [], c_DeviceID = [],
     c_Platform = [], c_JTI = ''j1'', c_Device = ''web'', c_ConnectedAt = 1, c_TraceID = [], c_RequestID = []\<rparr>"

definition demo_gateway :: "(MemoryStore, unit, unit) gateway" where
  "demo_gateway =
     \<lparr>gw_connections = snd (Register (demo_conn ''c2'' ''u2'') (snd (Register (demo_conn ''c1'' ''u1'') NewConnectionManager))),
      gw_presence = fst (snd (Memory_RegisterConnection 1000000 (demo_metadata ''c1'') 9000000 (NewMemoryStore, []))),
      gw_out = [], gw_more = ()\<rparr>"

definition demo_event :: DeliveryEvent where
  "demo_event = zero_event\<lparr>de_Type := EventMessageReceived\<rparr>"

theorem delivery_only_to_recipients_witness:
  "conn_inv (gw_connections demo_gateway)
    \<and> (\<exists>res w'. DeliverToConversation (NewPresenceAwareDeliveryDispatcher (Some memory_store) ''g1'') 2000000 ''single:u1:u2''
          ['' u1'', ''u2'', ''u1'', ''u3''] demo_event (demo_gateway, [NoFault]) = (Inr (res, None), (w', []))
        \<and> map rr_UserID (dr_Recipients res) = [''u1'', ''u2'', ''u3'']
        \<and> map rr_Status (dr_Recipients res) = [StatusDelivered, StatusOffline, StatusOffline]
        \<and> gw_out w' = [(''c1'', EventFrame (delivered_event ''single:u1:u2'' demo_event))]
        \<and> conn_inv (gw_connections w'))"
proof -
  let ?run = "DeliverToConversation (NewPresenceAwareDeliveryDispatcher (Some memory_store) ''g1'') 2000000 ''single:u1:u2''
      ['' u1'', ''u2'', ''u1'', ''u3''] demo_event (demo_gateway, [NoFault])"
  have inv: "conn_inv (gw_connections demo_gateway)"
  proof -
    have "map_of (byID NewConnectionManager) (c_ID (demo_conn ''c1'' ''u1'')) = None"
      "map_of (byID (snd (Register (demo_conn ''c1'' ''u1'') NewConnectionManager))) (c_ID (demo_conn ''c2'' ''u2'')) = None"
      by code_simp+
    then show ?thesis unfolding demo_gateway_def by (simp add: conn_inv_snd_Register conn_inv_new)
  qed
  have ev: "case ?run of (r, (w', fs')) \<Rightarrow> fs' = [] \<and> (case r of Inl _ \<Rightarrow> False | Inr (res, e) \<Rightarrow> e = None
        \<and> map rr_UserID (dr_Recipients res) = [''u1'', ''u2'', ''u3'']
        \<and> map rr_Status (dr_Recipients res) = [StatusDelivered, StatusOffline, StatusOffline]
        \<and> gw_out w' = [(''c1'', EventFrame (delivered_event ''single:u1:u2'' demo_event))])"
    by code_simp
  then obtain res w' where run: "?run = (Inr (res, None), (w', []))"
    and rest: "map rr_UserID (dr_Recipients res) = [''u1'', ''u2'', ''u3'']"
      "map rr_Status (dr_Recipients res) = [StatusDelivered, StatusOffline, StatusOffline]"
      "gw_out w' = [(''c1'', EventFrame (delivered_event ''single:u1:u2'' demo_event))]"
    by (auto split: prod.splits sum.splits)
  from delivery_only_to_recipients [OF inv run] have "conn_inv (gw_connections w')" by blast
  with inv run rest show ?thesis by - (intro conjI exI [of _ res] exI [of _ w']; assumption)
qed

end
