(* ===== verification/Auth_Token.thy ===== *)
theory Auth_Token
  imports Presence
begin

text \<open>
  Access tokens and active sessions: \<^verbatim>\<open>pkg/auth/token/token.go\<close> (signed tokens), the Redis session store of
  \<^verbatim>\<open>pkg/middleware/active_session_store.go\<close> (one active token per account and kind of device), and the
  middleware that guards HTTP routes. JSON, base64 and HMAC are parameters; instants are numbers of nanoseconds.
\<close>

section \<open>Tokens\<close>

record Claims =
  cl_UserID :: string
  cl_Identifier :: string
  cl_JTI :: string
  cl_Device :: string
  cl_LoginIP :: string
  cl_IssuedAt :: int
  cl_ExpiresAt :: int

record tokenHeader =
  th_Algorithm :: string
  th_Type :: string

record tokenPayload =
  tp_Subject :: string
  tp_UserID :: string
  tp_Identifier :: string
  tp_JTI :: string
  tp_SessionID :: string
  tp_Device :: string
  tp_LoginIP :: string
  tp_IssuedAt :: int
  tp_ExpiresAt :: int

text \<open>
  \<^verbatim>\<open>json.Marshal\<close> and \<^verbatim>\<open>json.Unmarshal\<close> at the two types, \<^verbatim>\<open>base64.RawURLEncoding\<close>, and HMAC-SHA256 with the
  secret first.
\<close>

record token_lib =
  header_encode :: "tokenHeader \<Rightarrow> string"
  header_decode :: "string \<Rightarrow> tokenHeader option"
  payload_encode :: "tokenPayload \<Rightarrow> string"
  payload_decode :: "string \<Rightarrow> tokenPayload option"
  b64_encode :: "string \<Rightarrow> string"
  b64_decode :: "string \<Rightarrow> string option"
  hmac_sha256 :: "string \<Rightarrow> string \<Rightarrow> string"

record HMACTokenManager =
  tm_secret :: string
  tm_ttl :: int

definition NewHMACTokenManager :: "string \<Rightarrow> int \<Rightarrow> HMACTokenManager" where
  "NewHMACTokenManager secret ttl =
     \<lparr>tm_secret = (if TrimSpace secret = [] then ''dev-auth-secret-change-me'' else secret),
      tm_ttl = (if ttl \<le> 0 then 24 * 3600 * 10 ^ 9 else ttl)\<rparr>"

definition Unix :: "int \<Rightarrow> int" where
  "Unix t = t div 10 ^ 9"

definition sign :: "token_lib \<Rightarrow> string \<Rightarrow> string \<Rightarrow> string" where
  "sign lib signingInput secret = hmac_sha256 lib secret signingInput"

definition Issue ::
  "token_lib \<Rightarrow> HMACTokenManager \<Rightarrow> int \<Rightarrow> string \<Rightarrow> string \<Rightarrow> string \<Rightarrow> string \<Rightarrow> string \<Rightarrow> (string \<times> Claims) result" where
  "Issue lib m now jti rawUser rawIdentifier device loginIP =
     (let userID = TrimSpace rawUser; identifier = TrimSpace rawIdentifier
      in if userID = [] then Inl (InvalidArgument ''user_id is required'')
         else if identifier = [] then Inl (InvalidArgument ''identifier is required'')
         else let claims = \<lparr>cl_UserID = userID, cl_Identifier = identifier, cl_JTI = jti, cl_Device = TrimSpace device,
                            cl_LoginIP = TrimSpace loginIP, cl_IssuedAt = now, cl_ExpiresAt = now + tm_ttl m\<rparr>;
                  headerSegment = b64_encode lib (header_encode lib \<lparr>th_Algorithm = ''HS256'', th_Type = ''JWT''\<rparr>);
                  payloadSegment = b64_encode lib (payload_encode lib
                    \<lparr>tp_Subject = cl_UserID claims, tp_UserID = cl_UserID claims, tp_Identifier = cl_Identifier claims,
                     tp_JTI = cl_JTI claims, tp_SessionID = cl_JTI claims, tp_Device = cl_Device claims,
                     tp_LoginIP = cl_LoginIP claims, tp_IssuedAt = Unix (cl_IssuedAt claims),
                     tp_ExpiresAt = Unix (cl_ExpiresAt claims)\<rparr>);
                  signingInput = headerSegment @ ''.'' @ payloadSegment
              in Inr (signingInput @ ''.'' @ b64_encode lib (sign lib signingInput (tm_secret m)), claims))"

definition decodeJSON :: "token_lib \<Rightarrow> (string \<Rightarrow> 'a option) \<Rightarrow> string \<Rightarrow> 'a option" where
  "decodeJSON lib unmarshal segment = Option.bind (b64_decode lib segment) unmarshal"

definition Parse :: "token_lib \<Rightarrow> HMACTokenManager \<Rightarrow> string \<Rightarrow> Claims result" where
  "Parse lib m raw0 =
     (let raw = TrimSpace raw0
      in if raw = [] then Inl (Unauthenticated ''token is required'')
         else case split_on (CHR ''.'') raw of
             [headerSegment, payloadSegment, signature] \<Rightarrow>
               (case decodeJSON lib (header_decode lib) headerSegment of
                  None \<Rightarrow> Inl (Unauthenticated ''token header is invalid'')
                | Some header \<Rightarrow>
                    if th_Algorithm header \<noteq> ''HS256'' \<or> th_Type header \<noteq> ''JWT''
                    then Inl (Unauthenticated ''token header is invalid'')
                    else (case b64_decode lib signature of
                        None \<Rightarrow> Inl (Unauthenticated ''token signature is invalid'')
                      | Some actual \<Rightarrow>
                          if actual \<noteq> sign lib (headerSegment @ ''.'' @ payloadSegment) (tm_secret m)
                          then Inl (Unauthenticated ''token signature is invalid'')
                          else (case decodeJSON lib (payload_decode lib) payloadSegment of
                              None \<Rightarrow> Inl (Unauthenticated ''token payload is invalid'')
                            | Some p \<Rightarrow>
                                if TrimSpace (tp_Subject p) = [] \<or> TrimSpace (tp_Identifier p) = [] \<or> tp_ExpiresAt p \<le> 0
                                then Inl (Unauthenticated ''token payload is invalid'')
                                else Inr \<lparr>cl_UserID = tp_Subject p, cl_Identifier = tp_Identifier p, cl_JTI = tp_JTI p,
                                          cl_Device = tp_Device p, cl_LoginIP = tp_LoginIP p,
                                          cl_IssuedAt = tp_IssuedAt p * 10 ^ 9, cl_ExpiresAt = tp_ExpiresAt p * 10 ^ 9\<rparr>)))
           | _ \<Rightarrow> Inl (Unauthenticated ''token format is invalid''))"

definition ValidateToken :: "token_lib \<Rightarrow> HMACTokenManager \<Rightarrow> int \<Rightarrow> string \<Rightarrow> Claims result" where
  "ValidateToken lib m now raw =
     (case Parse lib m raw of
        Inl e \<Rightarrow> Inl e
      | Inr claims \<Rightarrow> if \<not> now < cl_ExpiresAt claims then Inl (Unauthenticated ''token expired'') else Inr claims)"

section \<open>Active sessions\<close>

text \<open>One hash per account, from the kind of device to the id of its active token.\<close>

definition sessionKey :: "string \<Rightarrow> string" where
  "sessionKey userID = ''user_active_sessions:'' @ TrimSpace userID"

text \<open>The two commands run as one transaction; \<open>life\<close> is the client's rounding of a time to live.\<close>

definition SetActive :: "(int \<Rightarrow> int) \<Rightarrow> int \<Rightarrow> string \<Rightarrow> string \<Rightarrow> string \<Rightarrow> int \<Rightarrow> (redis, unit) act" where
  "SetActive life now rawUser device rawJti ttl0 =
     (let userID = TrimSpace rawUser; jti = TrimSpace rawJti
      in if userID = [] \<or> jti = [] then raise (InvalidArgument ''user_id and jti are required'')
         else let ttl = (if ttl0 \<le> 0 then 24 * 3600 * 10 ^ 9 else ttl0); key = sessionKey userID
              in (\<lambda>W. case call ''tx pipeline'' (\<lambda>r. ((), expire_hash now key (life ttl) (hset now key [(TrimSpace device, jti)] r))) W of
                    (Inl e, W') \<Rightarrow> (Inl (Internal ''write active session failed''), W')
                  | (Inr u, W') \<Rightarrow> (Inr u, W')))"

definition ValidateSession :: "int \<Rightarrow> string \<Rightarrow> string \<Rightarrow> string \<Rightarrow> (redis, unit) act" where
  "ValidateSession now rawUser device rawJti =
     (let userID = TrimSpace rawUser; jti = TrimSpace rawJti
      in if userID = [] \<or> jti = [] then raise (Unauthenticated ''token session is not active'')
         else (\<lambda>W. case call ''hget'' (\<lambda>r. (Option.bind (HGetAll now (sessionKey userID) r) (\<lambda>h. h (TrimSpace device)), r)) W of
               (Inl e, W') \<Rightarrow> (Inl (Internal ''read active session failed''), W')
             | (Inr None, W') \<Rightarrow> (Inl (Unauthenticated ''token session is not active''), W')
             | (Inr (Some active), W') \<Rightarrow>
                 (if TrimSpace active \<noteq> jti then Inl (Unauthenticated ''token session is not active'') else Inr (), W')))"

text \<open>The middleware: it reads the claims that the token handler put into the request and lets the request pass or not.\<close>

definition DeviceAuth_Handle :: "int \<Rightarrow> string \<Rightarrow> string \<Rightarrow> string \<Rightarrow> (redis, unit) act" where
  "DeviceAuth_Handle now userID jti device =
     (if userID = [] \<or> jti = [] then raise (Unauthenticated ''token session is not active'')
      else ValidateSession now userID device jti)"

text \<open>A request with a token, as the services check it: the token, then its session.\<close>

definition authenticate_token :: "token_lib \<Rightarrow> HMACTokenManager \<Rightarrow> int \<Rightarrow> string \<Rightarrow> (redis, Claims) act" where
  "authenticate_token lib m now raw =
     andThen (lift_result (ValidateToken lib m now raw)) (\<lambda>claims.
     andThen (ValidateSession now (cl_UserID claims) (cl_Device claims) (cl_JTI claims)) (\<lambda>_. ret claims))"

section \<open>Properties\<close>

text \<open>What the tokens rely on of the libraries.\<close>

definition token_libs_ok :: "token_lib \<Rightarrow> bool" where
  "token_libs_ok lib \<longleftrightarrow>
     (\<forall>h. header_decode lib (header_encode lib h) = Some h) \<and> (\<forall>p. payload_decode lib (payload_encode lib p) = Some p)
     \<and> (\<forall>s. b64_decode lib (b64_encode lib s) = Some s)
     \<and> (\<forall>s. \<forall>c\<in>set (b64_encode lib s). printable c \<and> c \<noteq> CHR ''.'')"

lemma Parse_Issue:
  assumes lib: "token_libs_ok lib" and i: "Issue lib m now jti u idf dev ip = Inr (raw, cl)" and pos: "0 < Unix (now + tm_ttl m)"
  shows "Parse lib m raw = Inr (cl\<lparr>cl_IssuedAt := Unix now * 10 ^ 9, cl_ExpiresAt := Unix (now + tm_ttl m) * 10 ^ 9\<rparr>)"
proof -
  let ?h = "\<lparr>th_Algorithm = ''HS256'', th_Type = ''JWT''\<rparr>"
  obtain p where raw: "raw = b64_encode lib (header_encode lib ?h) @ ''.'' @ b64_encode lib (payload_encode lib p) @ ''.''
        @ b64_encode lib (sign lib (b64_encode lib (header_encode lib ?h) @ ''.'' @ b64_encode lib (payload_encode lib p)) (tm_secret m))"
    and p: "p = \<lparr>tp_Subject = TrimSpace u, tp_UserID = TrimSpace u, tp_Identifier = TrimSpace idf, tp_JTI = jti, tp_SessionID = jti,
        tp_Device = TrimSpace dev, tp_LoginIP = TrimSpace ip, tp_IssuedAt = Unix now, tp_ExpiresAt = Unix (now + tm_ttl m)\<rparr>"
    and cl: "cl = \<lparr>cl_UserID = TrimSpace u, cl_Identifier = TrimSpace idf, cl_JTI = jti, cl_Device = TrimSpace dev,
        cl_LoginIP = TrimSpace ip, cl_IssuedAt = now, cl_ExpiresAt = now + tm_ttl m\<rparr>"
    and ne: "TrimSpace u \<noteq> []" "TrimSpace idf \<noteq> []"
    using i by (auto simp: Issue_def Let_def split: if_splits)
  let ?a = "b64_encode lib (header_encode lib ?h)" and ?b = "b64_encode lib (payload_encode lib p)"
  let ?c = "b64_encode lib (sign lib (?a @ ''.'' @ ?b) (tm_secret m))"
  have b64: "\<And>s. b64_decode lib (b64_encode lib s) = Some s" "\<And>s c. c \<in> set (b64_encode lib s) \<Longrightarrow> printable c \<and> c \<noteq> CHR ''.''"
    using lib by (auto simp: token_libs_ok_def)
  have "printable (CHR ''.'')" by (simp add: printable_def)
  then have "\<forall>c\<in>set raw. printable c" using b64(2) by (auto simp: raw)
  moreover have "raw \<noteq> []" by (simp add: raw)
  ultimately have trim: "TrimSpace raw = raw" by (intro TrimSpace_printable) auto
  have "split_on (CHR ''.'') raw = [?a, ?b, ?c]"
  proof -
    have "CHR ''.'' \<notin> set ?a" "CHR ''.'' \<notin> set ?b" "CHR ''.'' \<notin> set ?c" using b64(2) by blast+
    then show ?thesis by (simp add: raw split_on_append split_on_single)
  qed
  moreover have "decodeJSON lib (header_decode lib) ?a = Some ?h" "decodeJSON lib (payload_decode lib) ?b = Some p"
    using lib by (simp_all add: decodeJSON_def b64(1) token_libs_ok_def)
  moreover have "raw \<noteq> []" by (simp add: raw)
  ultimately show ?thesis
    using pos ne by (simp add: Parse_def trim Let_def b64(1)) (simp add: p cl)
qed

lemma SetActive_clean:
  assumes "TrimSpace u \<noteq> []" "TrimSpace j \<noteq> []" "0 < ttl"
  shows "\<exists>r'. SetActive life now u d j ttl (r, []) = (Inr (), (r', []))
    \<and> r_hash r' = (r_hash r)(sessionKey u \<mapsto>
        ((case HGetAll now (sessionKey u) r of None \<Rightarrow> Map.empty | Some h \<Rightarrow> h)(TrimSpace d \<mapsto> TrimSpace j), Some (now + life ttl)))"
proof -
  let ?k = "sessionKey u"
  let ?r' = "expire_hash now ?k (life ttl) (hset now ?k [(TrimSpace d, TrimSpace j)] r)"
  have "sessionKey (TrimSpace u) = ?k" by (simp add: sessionKey_def)
  then have "SetActive life now u d j ttl (r, []) = (Inr (), (?r', []))"
    using assms by (simp add: SetActive_def Let_def)
  then show ?thesis by (auto simp: hset_expire)
qed

lemma ValidateSession_clean:
  assumes "TrimSpace u \<noteq> []" "TrimSpace j \<noteq> []" "r_hash r (sessionKey u) = Some (h, Some until)" "now < until"
  shows "ValidateSession now u d j (r, []) =
    (case h (TrimSpace d) of
       Some a \<Rightarrow> if TrimSpace a = TrimSpace j then Inr () else Inl (Unauthenticated ''token session is not active'')
     | None \<Rightarrow> Inl (Unauthenticated ''token session is not active''), (r, []))"
proof -
  have "sessionKey (TrimSpace u) = sessionKey u" by (simp add: sessionKey_def)
  then show ?thesis
    using assms by (auto simp: ValidateSession_def Let_def HGetAll_def at_time_def split: option.split)
qed

text \<open>
  C20: a token issued at login and made the active one of its account and kind of device is accepted, with the
  claims it was issued for, at every instant before its expiry, which counts whole seconds, and refused as
  expired afterwards. When the account logs in again, the older token is refused if the login was on the same kind
  of device and is still accepted if it was on another one.
\<close>
theorem single_active_session:
  assumes lib: "token_libs_ok lib" and i: "Issue lib m t0 jti u idf dev ip = Inr (raw, cl)"
    and ttl: "0 < tm_ttl m" "tm_ttl m \<le> life (tm_ttl m)" "0 \<le> t0" "0 < Unix (t0 + tm_ttl m)"
    and jti: "TrimSpace jti \<noteq> []" "TrimSpace jti2 \<noteq> []" "TrimSpace jti2 \<noteq> TrimSpace jti"
    and t: "t0 \<le> t1" "t1 < t0 + tm_ttl m" "t1 \<le> now"
  shows "\<exists>r1 r2. SetActive life t0 (cl_UserID cl) (cl_Device cl) (cl_JTI cl) (tm_ttl m) (r0, []) = (Inr (), (r1, []))
      \<and> SetActive life t1 (cl_UserID cl) dev2 jti2 (tm_ttl m) (r1, []) = (Inr (), (r2, []))
      \<and> (\<exists>claims. cl_UserID claims = TrimSpace u \<and> cl_Identifier claims = TrimSpace idf \<and> cl_JTI claims = jti
           \<and> cl_Device claims = TrimSpace dev
           \<and> fst (authenticate_token lib m now raw (r1, []))
               = (if now < Unix (t0 + tm_ttl m) * 10 ^ 9 then Inr claims else Inl (Unauthenticated ''token expired''))
           \<and> fst (authenticate_token lib m now raw (r2, []))
               = (if \<not> now < Unix (t0 + tm_ttl m) * 10 ^ 9 then Inl (Unauthenticated ''token expired'')
                  else if TrimSpace dev2 = TrimSpace dev then Inl (Unauthenticated ''token session is not active'')
                  else Inr claims))"
proof -
  let ?claims = "cl\<lparr>cl_IssuedAt := Unix t0 * 10 ^ 9, cl_ExpiresAt := Unix (t0 + tm_ttl m) * 10 ^ 9\<rparr>"
  have cl: "cl_UserID cl = TrimSpace u" "cl_Identifier cl = TrimSpace idf" "cl_JTI cl = jti" "cl_Device cl = TrimSpace dev"
    and u: "TrimSpace u \<noteq> []"
    using i by (auto simp: Issue_def Let_def split: if_splits)
  have val: "ValidateToken lib m now raw =
      (if now < Unix (t0 + tm_ttl m) * 10 ^ 9 then Inr ?claims else Inl (Unauthenticated ''token expired''))"
    by (simp add: ValidateToken_def Parse_Issue [OF lib i ttl(4)])
  let ?k = "sessionKey (TrimSpace u)"
  have un: "TrimSpace (TrimSpace u) \<noteq> []" using u by simp
  obtain r1 where r1: "SetActive life t0 (TrimSpace u) (TrimSpace dev) jti (tm_ttl m) (r0, []) = (Inr (), (r1, []))"
      "r_hash r1 ?k = Some ((case HGetAll t0 ?k r0 of None \<Rightarrow> Map.empty | Some h \<Rightarrow> h)(TrimSpace dev \<mapsto> TrimSpace jti),
         Some (t0 + life (tm_ttl m)))"
    using SetActive_clean [OF un jti(1) ttl(1), of life t0 "TrimSpace dev" r0] by auto
  obtain r2 where r2: "SetActive life t1 (TrimSpace u) dev2 jti2 (tm_ttl m) (r1, []) = (Inr (), (r2, []))"
      "r_hash r2 ?k = Some ((case HGetAll t1 ?k r1 of None \<Rightarrow> Map.empty | Some h \<Rightarrow> h)(TrimSpace dev2 \<mapsto> TrimSpace jti2),
         Some (t1 + life (tm_ttl m)))"
    using SetActive_clean [OF un jti(2) ttl(1), of life t1 dev2 r1] by auto
  have h1: "HGetAll t1 ?k r1 = Some ((case HGetAll t0 ?k r0 of None \<Rightarrow> Map.empty | Some h \<Rightarrow> h)(TrimSpace dev \<mapsto> TrimSpace jti))"
    using t ttl(2) by (simp add: HGetAll_def r1(2) at_time_def)
  have le: "Unix (t0 + tm_ttl m) * 10 ^ 9 \<le> t0 + tm_ttl m"
    unfolding Unix_def by (simp add: minus_mod_eq_div_mult [symmetric])
  have ses1: "fst (ValidateSession now (TrimSpace u) (TrimSpace dev) jti (r1, [])) = Inr ()" if "now < Unix (t0 + tm_ttl m) * 10 ^ 9"
    using ValidateSession_clean [OF un jti(1) r1(2), of now "TrimSpace dev"] that le ttl(2) by simp
  have ses2: "fst (ValidateSession now (TrimSpace u) (TrimSpace dev) jti (r2, []))
      = (if TrimSpace dev2 = TrimSpace dev then Inl (Unauthenticated ''token session is not active'') else Inr ())"
    if "now < Unix (t0 + tm_ttl m) * 10 ^ 9"
    using ValidateSession_clean [OF un jti(1) r2(2), of now "TrimSpace dev"] that le ttl(2) t jti(3) by (simp add: h1)
  have auth: "fst (authenticate_token lib m now raw (r, [])) =
      (if now < Unix (t0 + tm_ttl m) * 10 ^ 9
       then (case fst (ValidateSession now (TrimSpace u) (TrimSpace dev) jti (r, [])) of Inl e \<Rightarrow> Inl e | Inr _ \<Rightarrow> Inr ?claims)
       else Inl (Unauthenticated ''token expired''))" for r
    by (auto simp: authenticate_token_def val lift_result_def ret_def raise_def andThen_def cl split: sum.splits prod.splits)
  show ?thesis
    unfolding cl using r1(1) r2(1) ses1 ses2 auth cl
    by - (rule exI [of _ r1], rule exI [of _ r2], auto intro!: exI [of _ ?claims])
qed

text \<open>
  A coding for examples: a byte as two letters, a text after its length in unary, a number in unary.
\<close>

definition demo_byte :: "char \<Rightarrow> string" where
  "demo_byte c = [char_of (97 + (of_char c :: nat) div 16), char_of (97 + (of_char c :: nat) mod 16)]"

fun demo_bytes :: "string \<Rightarrow> string" where
  "demo_bytes (a # b # s) = char_of ((of_char a - 97) * 16 + (of_char b - 97 :: nat)) # demo_bytes s"
| "demo_bytes _ = []"

lemma demo_bytes_inverse: "demo_bytes (concat (map demo_byte s)) = s"
proof (induction s)
  case (Cons c s)
  have "(of_char c :: nat) div 16 < 16" by (rule less_mult_imp_div_less) simp
  then have "of_char (char_of (97 + (of_char c :: nat) div 16) :: char) = 97 + (of_char c :: nat) div 16"
    "of_char (char_of (97 + (of_char c :: nat) mod 16) :: char) = 97 + (of_char c :: nat) mod 16"
    by (simp_all add: of_char_of)
  then show ?case using Cons by (simp add: demo_byte_def)
qed simp

lemma demo_byte_chars: "x \<in> set (demo_byte c) \<Longrightarrow> printable x \<and> x \<noteq> CHR ''.''"
proof -
  assume "x \<in> set (demo_byte c)"
  moreover have "(of_char c :: nat) div 16 < 16" "(of_char c :: nat) mod 16 < 16" by (auto intro: less_mult_imp_div_less)
  ultimately obtain n where "x = char_of (97 + n)" "n < (16 :: nat)" unfolding demo_byte_def by (auto simp del: char_of_eq_iff)
  then have "(of_char x :: nat) = 97 + n" by (simp add: of_char_of)
  then show ?thesis using \<open>n < 16\<close> by (auto simp: printable_def)
qed

definition demo_text :: "string \<Rightarrow> string" where
  "demo_text s = replicate (length s) (CHR ''1'') @ CHR ''0'' # s"

definition demo_untext :: "string \<Rightarrow> string \<times> string" where
  "demo_untext xs = (let n = length (takeWhile (\<lambda>c. c = CHR ''1'') xs) in (take n (drop (n + 1) xs), drop (2 * n + 1) xs))"

lemma demo_untext_inverse: "demo_untext (demo_text s @ rest) = (s, rest)"
proof -
  have "takeWhile (\<lambda>c. c = CHR ''1'') (demo_text s @ rest) = replicate (length s) (CHR ''1'')"
  proof -
    have "takeWhile (\<lambda>c. c = CHR ''1'') (replicate n (CHR ''1'') @ CHR ''0'' # ys) = replicate n (CHR ''1'')" for n ys
      by (induction n) simp_all
    then show ?thesis by (simp add: demo_text_def)
  qed
  then show ?thesis by (simp add: demo_untext_def demo_text_def Let_def)
qed

definition demo_int :: "int \<Rightarrow> string" where
  "demo_int i = (if i < 0 then CHR ''-'' # replicate (nat (- i)) (CHR ''1'') else replicate (nat i) (CHR ''1''))"

definition demo_unint :: "string \<Rightarrow> int" where
  "demo_unint s = (if s \<noteq> [] \<and> hd s = CHR ''-'' then - int (length (tl s)) else int (length s))"

lemma demo_unint_inverse: "demo_unint (demo_int i) = i"
  by (cases "nat i") (auto simp: demo_unint_def demo_int_def)

definition demo_token_lib :: token_lib where
  "demo_token_lib =
     \<lparr>header_encode = (\<lambda>h. demo_text (th_Algorithm h) @ demo_text (th_Type h)),
      header_decode = (\<lambda>s. let (a, s1) = demo_untext s; (t, _) = demo_untext s1 in Some \<lparr>th_Algorithm = a, th_Type = t\<rparr>),
      payload_encode = (\<lambda>p. demo_text (tp_Subject p) @ demo_text (tp_UserID p) @ demo_text (tp_Identifier p) @ demo_text (tp_JTI p)
         @ demo_text (tp_SessionID p) @ demo_text (tp_Device p) @ demo_text (tp_LoginIP p)
         @ demo_text (demo_int (tp_IssuedAt p)) @ demo_text (demo_int (tp_ExpiresAt p))),
      payload_decode = (\<lambda>s. let (a, s1) = demo_untext s; (b, s2) = demo_untext s1; (c, s3) = demo_untext s2; (d, s4) = demo_untext s3;
           (e, s5) = demo_untext s4; (f, s6) = demo_untext s5; (g, s7) = demo_untext s6; (i, s8) = demo_untext s7; (x, _) = demo_untext s8
         in Some \<lparr>tp_Subject = a, tp_UserID = b, tp_Identifier = c, tp_JTI = d, tp_SessionID = e, tp_Device = f, tp_LoginIP = g,
              tp_IssuedAt = demo_unint i, tp_ExpiresAt = demo_unint x\<rparr>),
      b64_encode = (\<lambda>s. concat (map demo_byte s)), b64_decode = (\<lambda>s. Some (demo_bytes s)),
      hmac_sha256 = (\<lambda>secret s. secret @ s)\<rparr>"

lemma demo_token_libs_ok: "token_libs_ok demo_token_lib"
  using demo_untext_inverse [of _ "[]"]
  by (auto simp: token_libs_ok_def demo_token_lib_def demo_untext_inverse demo_unint_inverse demo_bytes_inverse
      dest: demo_byte_chars)

theorem single_active_session_witness:
  "\<exists>raw cl r1 r2. Issue demo_token_lib \<lparr>tm_secret = ''k'', tm_ttl = 5000000000\<rparr> 1000000000 ''j1'' ''u1'' ''alice'' ''web'' [] = Inr (raw, cl)
      \<and> SetActive (\<lambda>d. d) 1000000000 (cl_UserID cl) (cl_Device cl) (cl_JTI cl) 5000000000 (empty_redis, []) = (Inr (), (r1, []))
      \<and> SetActive (\<lambda>d. d) 2000000000 (cl_UserID cl) ''web'' ''j2'' 5000000000 (r1, []) = (Inr (), (r2, []))
      \<and> fst (authenticate_token demo_token_lib \<lparr>tm_secret = ''k'', tm_ttl = 5000000000\<rparr> 3000000000 raw (r2, []))
          = Inl (Unauthenticated ''token session is not active'')"
proof -
  let ?m = "\<lparr>tm_secret = ''k'', tm_ttl = 5000000000\<rparr>"
  have ids: "TrimSpace ''u1'' = ''u1''" "TrimSpace ''alice'' = ''alice''" "TrimSpace ''j1'' = ''j1''" "TrimSpace ''j2'' = ''j2''"
    by code_simp+
  obtain raw cl where i: "Issue demo_token_lib ?m 1000000000 ''j1'' ''u1'' ''alice'' ''web'' [] = Inr (raw, cl)"
    using ids by (auto simp: Issue_def Let_def)
  have "Unix (1000000000 + 5000000000) = 6" by code_simp
  with single_active_session [OF demo_token_libs_ok i, of "\<lambda>d. d" "''j2''" 2000000000 3000000000 empty_redis "''web''"] ids i
  show ?thesis by (auto simp: i)
qed

end
