(* ===== verification/Gateway_Ws.thy ===== *)
theory Gateway_Ws
  imports Gateway Auth_Token Complex_Main
begin

text \<open>
  The WebSocket server of msggateway (\<^verbatim>\<open>service/msggateway/internal/ws/server.go\<close> and
  \<^verbatim>\<open>internal/config/gateway.go\<close>): the handshake, the commands of a connection with their rate limit, heartbeats,
  and the end of a connection. The commands go to a message backend through the requests of \<^verbatim>\<open>pkg/gateway/contract.go\<close>.
  Decoding of JSON and of URLs are parameters; hosts of origins are ASCII, and errors of the configuration leave out the values
  their texts quote. The handshake is also split at the registration of
  the connection, so that \<^verbatim>\<open>Ws_Sessions\<close> can interleave the two parts.
\<close>

section \<open>Configuration and origins\<close>

record GatewayWSConfig =
  wc_AllowedOrigins :: "string list"
  wc_AllowQueryToken :: bool
  wc_PingIntervalSeconds :: int
  wc_HeartbeatTimeoutSeconds :: int
  wc_CommandRateLimitPerSecond :: int
  wc_CommandRateLimitBurst :: int

definition DefaultGatewayWSConfig :: GatewayWSConfig where
  "DefaultGatewayWSConfig = \<lparr>wc_AllowedOrigins = [], wc_AllowQueryToken = False, wc_PingIntervalSeconds = 30,
     wc_HeartbeatTimeoutSeconds = 75, wc_CommandRateLimitPerSecond = 20, wc_CommandRateLimitBurst = 40\<rparr>"

text \<open>What \<^verbatim>\<open>url.Parse\<close> finds in a URL, and the environment: \<^verbatim>\<open>os.ExpandEnv\<close> and a variable.\<close>

record url_parts =
  u_Scheme :: string
  u_Host :: string
  u_HasUser :: bool
  u_RawQuery :: string
  u_Fragment :: string
  u_Path :: string

record env =
  expand_env :: "string \<Rightarrow> string"
  parse_url :: "string \<Rightarrow> url_parts option"
  env_origins :: string

definition plain_origin :: "url_parts \<Rightarrow> bool" where
  "plain_origin p \<longleftrightarrow> TrimSpace (u_Host p) \<noteq> [] \<and> \<not> u_HasUser p \<and> u_RawQuery p = [] \<and> u_Fragment p = []
     \<and> (u_Path p = [] \<or> u_Path p = ''/'')"

definition canonical :: "url_parts \<Rightarrow> string" where
  "canonical p = ToLower (u_Scheme p) @ ''://'' @ ToLower (u_Host p)"

definition normalizeOrigin :: "env \<Rightarrow> string \<Rightarrow> string result" where
  "normalizeOrigin E origin0 =
     (let origin = TrimSpace (expand_env E origin0)
      in if origin = [] then Inr []
         else if origin = ''*'' then Inl (PlainError ''gateway websocket allowed origin is invalid: wildcard origins are not allowed'')
         else case parse_url E origin of
             None \<Rightarrow> Inl (PlainError ''gateway websocket allowed origin is invalid'')
           | Some p \<Rightarrow>
               if u_Scheme p \<noteq> ''http'' \<and> u_Scheme p \<noteq> ''https''
               then Inl (PlainError ''gateway websocket allowed origin is invalid: scheme must be http or https'')
               else if \<not> plain_origin p
               then Inl (PlainError ''gateway websocket allowed origin is invalid: expected exact scheme://host[:port]'')
               else Inr (canonical p))"

definition originListFromValue :: "env \<Rightarrow> string \<Rightarrow> string list" where
  "originListFromValue E value0 =
     (let v = TrimSpace (expand_env E value0)
      in if v = [] then [] else filter (\<lambda>w. w \<noteq> []) (map TrimSpace (split_on (CHR '','') v)))"

fun normalize_origins :: "env \<Rightarrow> string set \<Rightarrow> string list \<Rightarrow> string list result" where
  "normalize_origins E seen [] = Inr []"
| "normalize_origins E seen (origin # origins) =
     (case normalizeOrigin E origin of
        Inl e \<Rightarrow> Inl e
      | Inr n \<Rightarrow>
          if n = [] \<or> n \<in> seen then normalize_origins E seen origins
          else (case normalize_origins E (insert n seen) origins of Inl e \<Rightarrow> Inl e | Inr ns \<Rightarrow> Inr (n # ns)))"

definition NormalizeGatewayWSConfig :: "env \<Rightarrow> GatewayWSConfig \<Rightarrow> GatewayWSConfig result" where
  "NormalizeGatewayWSConfig E cfg =
     (let origins = (if wc_AllowedOrigins cfg = [] then originListFromValue E (env_origins E) else wc_AllowedOrigins cfg)
      in case normalize_origins E {} origins of
           Inl e \<Rightarrow> Inl e
         | Inr normalized \<Rightarrow>
             if wc_PingIntervalSeconds cfg > 0 \<and> wc_HeartbeatTimeoutSeconds cfg > 0
                \<and> wc_PingIntervalSeconds cfg \<ge> wc_HeartbeatTimeoutSeconds cfg
             then Inl (PlainError ''gateway websocket ping interval must be smaller than heartbeat timeout'')
             else Inr (cfg\<lparr>wc_AllowedOrigins := normalized\<rparr>))"

definition normalizeRequestOrigin :: "env \<Rightarrow> string \<Rightarrow> string option" where
  "normalizeRequestOrigin E origin =
     (case parse_url E (TrimSpace origin) of
        None \<Rightarrow> None
      | Some p \<Rightarrow>
          if (u_Scheme p \<noteq> ''http'' \<and> u_Scheme p \<noteq> ''https'') \<or> \<not> plain_origin p then None else Some (canonical p))"

text \<open>What the server reads of a handshake request.\<close>

record ws_request =
  rq_Origin :: string
  rq_TLS :: bool
  rq_ForwardedProto :: string
  rq_Host :: string
  rq_HostHeader :: string
  rq_Authorization :: string
  rq_QueryToken :: string
  rq_RemoteAddr :: string
  rq_UserAgent :: string
  rq_DeviceID :: string
  rq_Platforms :: "string list"
  rq_TraceID :: string
  rq_RequestID :: string

definition sameRequestOrigin :: "ws_request \<Rightarrow> string" where
  "sameRequestOrigin r =
     (let forwarded = TrimSpace (rq_ForwardedProto r);
          proto = ToLower (TrimSpace (hd (split_on (CHR '','') forwarded)));
          scheme = (if forwarded \<noteq> [] \<and> (proto = ''http'' \<or> proto = ''https'') then proto
                    else if rq_TLS r then ''https'' else ''http'');
          host0 = ToLower (TrimSpace (rq_Host r));
          host = (if host0 = [] then ToLower (TrimSpace (rq_HostHeader r)) else host0)
      in if host = [] then [] else scheme @ ''://'' @ host)"

definition checkOrigin :: "env \<Rightarrow> string list \<Rightarrow> ws_request \<Rightarrow> bool" where
  "checkOrigin E origins r =
     (let origin = TrimSpace (rq_Origin r)
      in if origin = [] then True
         else case normalizeRequestOrigin E origin of
             None \<Rightarrow> False
           | Some normalized \<Rightarrow> if origins \<noteq> [] then normalized \<in> set origins else normalized = sameRequestOrigin r)"

text \<open>\<^verbatim>\<open>strings.Fields\<close>: the words between runs of white space.\<close>

fun word_of :: "string \<Rightarrow> string" where
  "word_of [] = []"
| "word_of (c # s) = (if clean_head space_runes (c # s) then c # word_of s else [])"

function Fields :: "string \<Rightarrow> string list" where
  "Fields s =
     (let t = strip_leading space_runes s
      in if t = [] then [] else word_of t # Fields (drop (length (word_of t)) t))"
  by pat_completeness auto

lemma fields_shorter:
  assumes "strip_leading space_runes s \<noteq> []"
  shows "length (drop (length (word_of (strip_leading space_runes s))) (strip_leading space_runes s)) < length s"
proof -
  let ?t = "strip_leading space_runes s"
  obtain p where "s = p @ ?t" using strip_leading_suffix [of space_runes s] by (auto simp: suffix_def)
  then have "length ?t \<le> length s" by (metis le_add2 length_append)
  moreover have "clean_head space_runes ?t" by (rule strip_leading_clean)
  then have "0 < length (word_of ?t)" using assms by (cases ?t) auto
  ultimately show ?thesis using assms by (cases ?t) (auto simp: less_le_trans)
qed

termination Fields
  by (relation "measure length") (auto simp only: in_measure intro: fields_shorter)

declare Fields.simps [simp del]

definition bearerToken :: "string \<Rightarrow> string" where
  "bearerToken headerValue =
     (if TrimSpace headerValue = [] then []
      else case Fields (TrimSpace headerValue) of
          [scheme, tok] \<Rightarrow> if ToLower scheme = ''bearer'' then TrimSpace tok else []
        | _ \<Rightarrow> [])"

section \<open>Requests and replies\<close>

definition CommandSendMessage :: string where "CommandSendMessage = ''send_message''"
definition CommandPullMessages :: string where "CommandPullMessages = ''pull_messages''"
definition CommandGetConversationSeqs :: string where "CommandGetConversationSeqs = ''get_conversation_seqs''"
definition CommandMarkConversationRead :: string where "CommandMarkConversationRead = ''mark_conversation_read''"
definition CommandHeartbeat :: string where "CommandHeartbeat = ''heartbeat''"

lemmas command_defs = CommandSendMessage_def CommandPullMessages_def CommandGetConversationSeqs_def
  CommandMarkConversationRead_def CommandHeartbeat_def

record SendMessageCommandRequest =
  sc_ChatType :: string
  sc_ReceiverID :: string
  sc_GroupID :: string
  sc_ClientMsgID :: string
  sc_ContentType :: string
  sc_Content :: string

record SendMessageRPCRequest =
  sr_SenderID :: string
  sr_ReceiverID :: string
  sr_GroupID :: string
  sr_ChatType :: string
  sr_ClientMsgID :: string
  sr_ContentType :: string
  sr_Content :: string

record PullMessagesCommandRequest =
  pc_ConversationID :: string
  pc_FromSeq :: int
  pc_ToSeq :: int
  pc_Limit :: int
  pc_Order :: string

record PullMessagesRPCRequest =
  pr_UserID :: string
  pr_ConversationID :: string
  pr_FromSeq :: int
  pr_ToSeq :: int
  pr_Limit :: int
  pr_Order :: string

record GetConversationSeqsRPCRequest =
  gr_UserID :: string
  gr_ConversationIDs :: "string list"

record MarkConversationReadCommandRequest =
  mc_ConversationID :: string
  mc_HasReadSeq :: int

record MarkConversationAsReadRPCRequest =
  mq_UserID :: string
  mq_ConversationID :: string
  mq_HasReadSeq :: int

record MessageSnapshot =
  sn_ServerMsgID :: string
  sn_ClientMsgID :: string
  sn_ConversationID :: string
  sn_Seq :: int
  sn_SenderID :: string
  sn_ReceiverID :: string
  sn_GroupID :: string
  sn_ChatType :: string
  sn_ContentType :: string
  sn_Content :: string
  sn_MessageOrigin :: string
  sn_AgentAccountID :: string
  sn_TriggerServerMsgID :: string
  sn_AgentRunID :: string
  sn_AllowRecursiveTrigger :: bool
  sn_SendTime :: int
  sn_CreatedAt :: int

record SeqStateSnapshot =
  sq_ConversationID :: string
  sq_MaxSeq :: int
  sq_HasReadSeq :: int
  sq_UnreadCount :: int
  sq_MaxSeqTime :: int
  sq_LastMessage :: "MessageSnapshot option"

record MarkReadResponse =
  mk_ConversationID :: string
  mk_HasReadSeq :: int
  mk_MaxSeq :: int
  mk_UnreadCount :: int
  mk_Updated :: bool

definition MapSendMessageRequest :: "string \<Rightarrow> SendMessageCommandRequest \<Rightarrow> SendMessageRPCRequest" where
  "MapSendMessageRequest userID req =
     \<lparr>sr_SenderID = userID, sr_ReceiverID = sc_ReceiverID req, sr_GroupID = sc_GroupID req, sr_ChatType = sc_ChatType req,
      sr_ClientMsgID = sc_ClientMsgID req, sr_ContentType = sc_ContentType req, sr_Content = sc_Content req\<rparr>"

definition MapPullMessagesRequest :: "string \<Rightarrow> PullMessagesCommandRequest \<Rightarrow> PullMessagesRPCRequest" where
  "MapPullMessagesRequest userID req =
     \<lparr>pr_UserID = userID, pr_ConversationID = pc_ConversationID req, pr_FromSeq = pc_FromSeq req, pr_ToSeq = pc_ToSeq req,
      pr_Limit = pc_Limit req, pr_Order = pc_Order req\<rparr>"

definition MapGetConversationSeqsRequest :: "string \<Rightarrow> string list \<Rightarrow> GetConversationSeqsRPCRequest" where
  "MapGetConversationSeqsRequest userID conversationIDs = \<lparr>gr_UserID = userID, gr_ConversationIDs = conversationIDs\<rparr>"

definition MapMarkConversationReadRequest ::
  "string \<Rightarrow> MarkConversationReadCommandRequest \<Rightarrow> MarkConversationAsReadRPCRequest" where
  "MapMarkConversationReadRequest userID req =
     \<lparr>mq_UserID = userID, mq_ConversationID = mc_ConversationID req, mq_HasReadSeq = mc_HasReadSeq req\<rparr>"

text \<open>The backend as the record of its operations, over the state \<open>'b\<close> of the rest of the system.\<close>

record 'b MessageBackend =
  be_SendMessage :: "SendMessageRPCRequest \<Rightarrow> ('b, MessageSnapshot \<times> bool) act"
  be_PullMessages :: "PullMessagesRPCRequest \<Rightarrow> ('b, MessageSnapshot list \<times> bool \<times> int) act"
  be_GetConversationSeqs :: "GetConversationSeqsRPCRequest \<Rightarrow> ('b, SeqStateSnapshot list) act"
  be_MarkConversationAsRead :: "MarkConversationAsReadRPCRequest \<Rightarrow> ('b, MarkReadResponse) act"

record commandFrame =
  cf_RequestID :: string
  cf_RequestIDCamel :: string
  cf_TraceID :: string
  cf_TraceIDCamel :: string
  cf_Type :: string
  cf_Command :: string
  cf_Payload :: string

datatype reply_data =
    HeartbeatData string string string int
  | SendData MessageSnapshot bool
  | PullData "MessageSnapshot list" bool int
  | SeqsData "SeqStateSnapshot list"
  | ReadData MarkReadResponse

record responseFrame =
  rf_RequestID :: string
  rf_RequestIDCamel :: string
  rf_TraceID :: string
  rf_TraceIDCamel :: string
  rf_Type :: string
  rf_Command :: string
  rf_Status :: string
  rf_Error :: "(string \<times> string) option"
  rf_Data :: "reply_data option"
  rf_Payload :: "reply_data option"

datatype ws_frame = Reply responseFrame | CloseFrame int string

definition CloseCodeSessionReplaced :: int where "CloseCodeSessionReplaced = 4001"
definition CloseCodeSessionInvalid :: int where "CloseCodeSessionInvalid = 4002"

definition requestID :: "commandFrame \<Rightarrow> string" where
  "requestID f = (if TrimSpace (cf_RequestID f) \<noteq> [] then TrimSpace (cf_RequestID f) else TrimSpace (cf_RequestIDCamel f))"

definition commandType :: "commandFrame \<Rightarrow> string" where
  "commandType f = (if TrimSpace (cf_Type f) \<noteq> [] then TrimSpace (cf_Type f) else TrimSpace (cf_Command f))"

definition traceID :: "commandFrame \<Rightarrow> string" where
  "traceID f = (if TrimSpace (cf_TraceID f) \<noteq> [] then TrimSpace (cf_TraceID f) else TrimSpace (cf_TraceIDCamel f))"

definition frontendErrorCode :: "Code \<Rightarrow> string" where
  "frontendErrorCode c =
     (case c of
        CodeUnauthenticated \<Rightarrow> ''UNAUTHORIZED''
      | CodeInvalidArgument \<Rightarrow> ''VALIDATION_ERROR''
      | CodeNotFound \<Rightarrow> ''NOT_FOUND''
      | CodeAlreadyExists \<Rightarrow> ''CONFLICT''
      | CodeRateLimited \<Rightarrow> ''RATE_LIMITED''
      | _ \<Rightarrow> ''INTERNAL'')"

definition errorResponse :: "string \<Rightarrow> string \<Rightarrow> goerror \<Rightarrow> responseFrame" where
  "errorResponse reqID cmd err =
     (let appErr = the (From (Some err))
      in \<lparr>rf_RequestID = reqID, rf_RequestIDCamel = reqID, rf_TraceID = [], rf_TraceIDCamel = [], rf_Type = cmd,
          rf_Command = cmd, rf_Status = ''error'', rf_Error = Some (frontendErrorCode (fst appErr), snd appErr),
          rf_Data = None, rf_Payload = None\<rparr>)"

text \<open>Trace ids: \<open>fresh\<close> is the random id that is used when none is given.\<close>

definition sanitizeID :: "string \<Rightarrow> string" where
  "sanitizeID value0 =
     (let v = TrimSpace value0
      in if length v < 8 \<or> length v > 128 then []
         else if \<forall>c\<in>set v. (CHR ''a'' \<le> c \<and> c \<le> CHR ''z'') \<or> (CHR ''A'' \<le> c \<and> c \<le> CHR ''Z'')
                           \<or> (CHR ''0'' \<le> c \<and> c \<le> CHR ''9'') \<or> c \<in> {CHR ''-'', CHR ''_'', CHR ''.''}
              then v else [])"

definition NewTraceContext :: "string \<Rightarrow> string \<Rightarrow> string \<Rightarrow> string \<times> string" where
  "NewTraceContext fresh trace request =
     (let t = (if sanitizeID trace = [] then fresh else sanitizeID trace);
          r = (if sanitizeID request = [] then t else sanitizeID request)
      in (t, r))"

section \<open>The rate limit\<close>

text \<open>
  A token bucket in \<^verbatim>\<open>float64\<close>: a number of that type is a rational, and an operation is the exact one followed by the
  rounding \<open>rnd\<close>, a parameter. Numbers too large for the type do not occur.
\<close>

record commandRateLimiter =
  rl_rate :: rat
  rl_burst :: rat
  rl_tokens :: rat
  rl_last :: int

definition newCommandRateLimiter :: "(rat \<Rightarrow> rat) \<Rightarrow> GatewayWSConfig \<Rightarrow> int \<Rightarrow> commandRateLimiter option" where
  "newCommandRateLimiter rnd cfg now =
     (if wc_CommandRateLimitPerSecond cfg \<le> 0 then None
      else let burst = (if wc_CommandRateLimitBurst cfg \<le> 0 then wc_CommandRateLimitPerSecond cfg else wc_CommandRateLimitBurst cfg)
           in Some \<lparr>rl_rate = rnd (of_int (wc_CommandRateLimitPerSecond cfg)), rl_burst = rnd (of_int burst),
                    rl_tokens = rnd (of_int burst), rl_last = now\<rparr>)"

text \<open>\<^verbatim>\<open>Duration.Seconds\<close> of a duration that is not negative.\<close>

definition seconds :: "(rat \<Rightarrow> rat) \<Rightarrow> int \<Rightarrow> rat" where
  "seconds rnd d = rnd (rnd (of_int (d div 10 ^ 9)) + rnd (rnd (of_int (d mod 10 ^ 9)) / 10 ^ 9))"

definition Allow :: "(rat \<Rightarrow> rat) \<Rightarrow> int \<Rightarrow> commandRateLimiter \<Rightarrow> bool \<times> commandRateLimiter" where
  "Allow rnd now l0 =
     (let l1 = (if rl_last l0 = zeroTime then l0\<lparr>rl_last := now\<rparr> else l0);
          d = now - rl_last l1;
          l2 = (if d > 0 \<and> seconds rnd d > 0
                then let t = rnd (rl_tokens l1 + rnd (seconds rnd d * rl_rate l1))
                     in l1\<lparr>rl_tokens := (if t > rl_burst l1 then rl_burst l1 else t), rl_last := now\<rparr>
                else l1)
      in if rl_tokens l2 < 1 then (False, l2) else (True, l2\<lparr>rl_tokens := rnd (rl_tokens l2 - 1)\<rparr>))"

section \<open>The server\<close>

text \<open>
  \<open>ws_accepted\<close> holds the connections between the end of the handshake and their registration, \<open>ws_open\<close> those whose
  read loop runs, \<open>ws_closing\<close> those whose loop ended and whose clean-up is to come. \<open>ws_system\<close> is the state of the services
  behind the gateway.
\<close>

record 'b ws_state =
  ws_accepted :: "Connection list"
  ws_open :: "Connection list"
  ws_closing :: "Connection list"
  ws_ids :: "string list"
  ws_lastSeen :: "string \<Rightarrow> int"
  ws_limiter :: "string \<Rightarrow> commandRateLimiter option"
  ws_system :: 'b

type_synonym ('p, 'b) ws_gateway = "('p, ws_frame, 'b ws_state) gateway"
type_synonym ('p, 'b, 'a) ws_act = "(('p, 'b) ws_gateway, 'a) act"

text \<open>\<^verbatim>\<open>json.Unmarshal\<close> at the types of the commands.\<close>

record ws_codec =
  frame_decode :: "string \<Rightarrow> commandFrame option"
  send_decode :: "string \<Rightarrow> SendMessageCommandRequest option"
  pull_decode :: "string \<Rightarrow> PullMessagesCommandRequest option"
  seqs_decode :: "string \<Rightarrow> string list option"
  read_decode :: "string \<Rightarrow> MarkConversationReadCommandRequest option"

text \<open>
  The server. The checks of tokens and of sessions and the backend are its collaborators; what they need of the libraries
  is part of the record.
\<close>

record ('p, 'b) Server =
  s_lib :: token_lib
  s_codec :: ws_codec
  s_env :: env
  s_round :: "rat \<Rightarrow> rat"
  s_tokenManager :: HMACTokenManager
  s_sessions :: "(int \<Rightarrow> string \<Rightarrow> string \<Rightarrow> string \<Rightarrow> ('b, unit) act) option"
  s_backend :: "'b MessageBackend option"
  s_presence :: "'p PresenceStore option"
  s_presenceTTL :: int
  s_instanceID :: string
  s_wsConfig :: GatewayWSConfig
  s_configErr :: "goerror option"
  s_origins :: "string list"

definition normalizeAuth :: "string \<Rightarrow> int \<Rightarrow> string \<times> int" where
  "normalizeAuth secret expire =
     (if TrimSpace secret = [] then ''dev-jwt-secret-change-me'' else secret, if expire \<le> 0 then 86400 else expire)"

definition originSet :: "string list \<Rightarrow> string list" where
  "originSet origins = filter (\<lambda>w. w \<noteq> []) (map TrimSpace origins)"

definition configureWebSocket :: "('p, 'b) Server \<Rightarrow> ('p, 'b) Server" where
  "configureWebSocket S =
     (case NormalizeGatewayWSConfig (s_env S) (s_wsConfig S) of
        Inl e \<Rightarrow> S\<lparr>s_configErr := Some e, s_origins := []\<rparr>
      | Inr resolved \<Rightarrow> S\<lparr>s_wsConfig := resolved, s_configErr := None, s_origins := originSet (wc_AllowedOrigins resolved)\<rparr>)"

text \<open>The options of the constructor.\<close>

type_synonym ('p, 'b) ServerOption = "('p, 'b) Server \<Rightarrow> ('p, 'b) Server"

definition WithSessionStore :: "(int \<Rightarrow> string \<Rightarrow> string \<Rightarrow> string \<Rightarrow> ('b, unit) act) option \<Rightarrow> ('p, 'b) ServerOption" where
  "WithSessionStore store S = S\<lparr>s_sessions := store\<rparr>"

definition WithPresenceStore :: "'p PresenceStore option \<Rightarrow> ('p, 'b) ServerOption" where
  "WithPresenceStore store S = S\<lparr>s_presence := store\<rparr>"

definition WithPresenceTTL :: "int \<Rightarrow> ('p, 'b) ServerOption" where
  "WithPresenceTTL ttl S = (if ttl > 0 then S\<lparr>s_presenceTTL := ttl\<rparr> else S)"

definition WithInstanceID :: "string \<Rightarrow> ('p, 'b) ServerOption" where
  "WithInstanceID instanceID S = (if TrimSpace instanceID \<noteq> [] then S\<lparr>s_instanceID := TrimSpace instanceID\<rparr> else S)"

definition WithGatewayWSConfig :: "GatewayWSConfig \<Rightarrow> ('p, 'b) ServerOption" where
  "WithGatewayWSConfig wsConfig S = S\<lparr>s_wsConfig := wsConfig, s_configErr := None\<rparr>"

text \<open>
  \<open>store0\<close> is the memory store of a new server and \<open>instance0\<close> its id from the environment; the default time to live of a
  heartbeat is 60 seconds.
\<close>

definition NewServer ::
  "token_lib \<Rightarrow> ws_codec \<Rightarrow> env \<Rightarrow> (rat \<Rightarrow> rat) \<Rightarrow> 'p PresenceStore \<Rightarrow> string \<Rightarrow> string \<Rightarrow> int
     \<Rightarrow> 'b MessageBackend option \<Rightarrow> ('p, 'b) ServerOption list \<Rightarrow> ('p, 'b) Server" where
  "NewServer lib codec E rnd store0 instance0 secret0 expire0 backend opts =
     (case normalizeAuth secret0 expire0 of (secret, expire) \<Rightarrow>
        configureWebSocket (fold (\<lambda>opt. opt) opts
          \<lparr>s_lib = lib, s_codec = codec, s_env = E, s_round = rnd,
           s_tokenManager = NewHMACTokenManager secret (expire * 10 ^ 9), s_sessions = None, s_backend = backend,
           s_presence = Some store0, s_presenceTTL = 60 * 10 ^ 9, s_instanceID = instance0,
           s_wsConfig = DefaultGatewayWSConfig, s_configErr = None, s_origins = []\<rparr>))"

definition Ready :: "('p, 'b) Server \<Rightarrow> goerror option" where
  "Ready S = (case s_configErr S of Some e \<Rightarrow> Some e
     | None \<Rightarrow> if s_backend S = None then Some (PlainError ''message backend is not configured'') else None)"

definition on_system :: "('b, 'a) act \<Rightarrow> ('p, 'b, 'a) ws_act" where
  "on_system m = (\<lambda>(w, fs). case m (ws_system (gw_more w), fs) of
     (r, (b, fs')) \<Rightarrow> (r, (w\<lparr>gw_more := (gw_more w)\<lparr>ws_system := b\<rparr>\<rparr>, fs')))"

definition modify_ws :: "('b ws_state \<Rightarrow> 'b ws_state) \<Rightarrow> ('p, 'b, unit) ws_act" where
  "modify_ws f = modify (\<lambda>w. w\<lparr>gw_more := f (gw_more w)\<rparr>)"

section \<open>Presence of a connection\<close>

definition presenceMetadata :: "Connection \<Rightarrow> int \<Rightarrow> ConnectionMetadata" where
  "presenceMetadata c lastHeartbeat =
     \<lparr>cm_UserID = c_UserID c, cm_ConnectionID = c_ID c, cm_InstanceID = c_InstanceID c, cm_GatewayID = c_InstanceID c,
      cm_DeviceID = c_DeviceID c, cm_Platform = c_Platform c, cm_RemoteAddr = c_RemoteAddr c, cm_UserAgent = c_UserAgent c,
      cm_ConnectedAt = c_ConnectedAt c, cm_LastHeartbeatAt = lastHeartbeat, cm_ExpiresAt = zeroTime\<rparr>"

definition touch :: "int \<Rightarrow> Connection \<Rightarrow> ('p, 'b, unit) ws_act" where
  "touch now c = modify_ws (\<lambda>x. x\<lparr>ws_lastSeen := (ws_lastSeen x)(c_ID c := now)\<rparr>)"

definition registerPresence :: "('p, 'b) Server \<Rightarrow> int \<Rightarrow> Connection \<Rightarrow> ('p, 'b, unit) ws_act" where
  "registerPresence S now conn =
     (case s_presence S of
        None \<Rightarrow> ret ()
      | Some store \<Rightarrow> (\<lambda>W. on_presence
          (RegisterConnection store now (presenceMetadata conn (ws_lastSeen (gw_more (fst W)) (c_ID conn))) (s_presenceTTL S)) W))"

definition refreshPresence :: "('p, 'b) Server \<Rightarrow> int \<Rightarrow> Connection \<Rightarrow> ('p, 'b, unit) ws_act" where
  "refreshPresence S now conn =
     (case s_presence S of
        None \<Rightarrow> ret ()
      | Some store \<Rightarrow>
          andThen (attempt (on_presence (Heartbeat store now (c_UserID conn) (c_ID conn) (s_presenceTTL S)))) (\<lambda>r. case r of
              Inl e \<Rightarrow> if e = ErrConnectionNotFound then registerPresence S now conn else raise e
            | Inr _ \<Rightarrow> ret ()))"

definition unregisterPresence :: "('p, 'b) Server \<Rightarrow> int \<Rightarrow> Connection \<Rightarrow> ('p, 'b, unit) ws_act" where
  "unregisterPresence S now conn =
     (case s_presence S of
        None \<Rightarrow> ret ()
      | Some store \<Rightarrow> on_presence (UnregisterConnection store now (c_UserID conn) (c_ID conn)))"

text \<open>A call whose error is discarded.\<close>

definition ignore :: "('w, unit) act \<Rightarrow> ('w, unit) act" where
  "ignore m = andThen (attempt m) (\<lambda>_. ret ())"

text \<open>The error of the close frame is returned after the socket is closed, and no caller looks at it.\<close>

definition closeWithCode :: "Connection \<Rightarrow> int \<Rightarrow> string \<Rightarrow> ('p, 'b, unit) ws_act" where
  "closeWithCode c code reason = writeJSON (c_ID c) (OtherFrame (CloseFrame code reason))"

section \<open>The handshake\<close>

datatype handshake = HttpError nat | UpgradeFailed | Opened Connection

definition validateActiveSession ::
  "('p, 'b) Server \<Rightarrow> int \<Rightarrow> string \<Rightarrow> string \<Rightarrow> string \<Rightarrow> ('p, 'b, unit) ws_act" where
  "validateActiveSession S now userID device jti =
     (case s_sessions S of None \<Rightarrow> ret () | Some check_session \<Rightarrow> on_system (check_session now userID device jti))"

definition raw_token :: "('p, 'b) Server \<Rightarrow> ws_request \<Rightarrow> string" where
  "raw_token S r =
     (let tok = bearerToken (rq_Authorization r)
      in if tok = [] \<and> wc_AllowQueryToken (s_wsConfig S) then TrimSpace (rq_QueryToken r) else tok)"

definition authenticate :: "('p, 'b) Server \<Rightarrow> int \<Rightarrow> ws_request \<Rightarrow> ('p, 'b, Claims) ws_act" where
  "authenticate S now r =
     (let rawToken = raw_token S r
      in if rawToken = [] then raise (Unauthenticated ''token is required'')
         else andThen (lift_result (ValidateToken (s_lib S) (s_tokenManager S) now rawToken)) (\<lambda>claims.
              if TrimSpace (cl_UserID claims) = [] then raise (Unauthenticated ''authenticated user is required'')
              else andThen (validateActiveSession S now (cl_UserID claims) (cl_Device claims) (cl_JTI claims)) (\<lambda>_.
                   ret claims)))"

definition clientPlatform :: "ws_request \<Rightarrow> string" where
  "clientPlatform r = TrimSpace (firstNonEmptyString (rq_Platforms r))"

text \<open>\<open>cid\<close> is the new connection's id, \<open>trace\<close> and \<open>req\<close> the ids that tracing gave the request.\<close>

definition new_connection :: "('p, 'b) Server \<Rightarrow> int \<Rightarrow> string \<Rightarrow> string \<Rightarrow> string \<Rightarrow> ws_request \<Rightarrow> Claims \<Rightarrow> Connection" where
  "new_connection S now cid trace req r claims =
     \<lparr>c_ID = cid, c_UserID = cl_UserID claims, c_InstanceID = s_instanceID S, c_RemoteAddr = rq_RemoteAddr r,
      c_UserAgent = rq_UserAgent r, c_DeviceID = TrimSpace (rq_DeviceID r), c_Platform = clientPlatform r,
      c_JTI = cl_JTI claims, c_Device = cl_Device claims, c_ConnectedAt = now, c_TraceID = trace, c_RequestID = req\<rparr>"

text \<open>\<^verbatim>\<open>HandleWebSocket\<close> up to the registration, then the registration, with the old connections of the account closed.\<close>

definition open_connection :: "('p, 'b) Server \<Rightarrow> int \<Rightarrow> Connection \<Rightarrow> ('p, 'b, unit) ws_act" where
  "open_connection S now conn =
     andThen (modify_ws (\<lambda>x. x\<lparr>ws_accepted := conn # ws_accepted x, ws_ids := c_ID conn # ws_ids x,
                ws_lastSeen := (ws_lastSeen x)(c_ID conn := now),
                ws_limiter := (ws_limiter x)(c_ID conn := newCommandRateLimiter (s_round S) (s_wsConfig S) now)\<rparr>)) (\<lambda>_.
     ignore (registerPresence S now conn))"

definition accept_websocket ::
  "('p, 'b) Server \<Rightarrow> int \<Rightarrow> string \<Rightarrow> string \<Rightarrow> string \<Rightarrow> ws_request \<Rightarrow> ('p, 'b, handshake) ws_act" where
  "accept_websocket S now cid trace req r =
     (if s_configErr S \<noteq> None then ret (HttpError 503)
      else andThen (attempt (authenticate S now r)) (\<lambda>a. case a of
          Inl _ \<Rightarrow> ret (HttpError 401)
        | Inr claims \<Rightarrow>
            if s_backend S = None then ret (HttpError 503)
            else if \<not> checkOrigin (s_env S) (s_origins S) r then ret UpgradeFailed
            else andThen (attempt (call ''upgrade'' (\<lambda>w. ((), w)))) (\<lambda>u. case u of
                Inl _ \<Rightarrow> ret UpgradeFailed
              | Inr _ \<Rightarrow>
                  let conn = new_connection S now cid trace req r claims
                  in andThen (open_connection S now conn) (\<lambda>_. ret (Opened conn)))))"

definition register_connection :: "Connection \<Rightarrow> ('p, 'b, unit) ws_act" where
  "register_connection conn =
     (\<lambda>(w, fs). case Register conn (gw_connections w) of (replaced, m) \<Rightarrow>
        for_each (\<lambda>previous. ignore (closeWithCode previous CloseCodeSessionReplaced ''session replaced'')) replaced
          (w\<lparr>gw_connections := m,
             gw_more := (gw_more w)\<lparr>ws_accepted := remove1 conn (ws_accepted (gw_more w)), ws_open := conn # ws_open (gw_more w)\<rparr>\<rparr>, fs))"

definition HandleWebSocket ::
  "('p, 'b) Server \<Rightarrow> int \<Rightarrow> string \<Rightarrow> string \<Rightarrow> string \<Rightarrow> ws_request \<Rightarrow> ('p, 'b, handshake) ws_act" where
  "HandleWebSocket S now cid trace req r =
     andThen (accept_websocket S now cid trace req r) (\<lambda>h. case h of
         Opened conn \<Rightarrow> andThen (register_connection conn) (\<lambda>_. ret h)
       | _ \<Rightarrow> ret h)"

text \<open>The deferred clean-up of a connection.\<close>

definition disconnect :: "('p, 'b) Server \<Rightarrow> int \<Rightarrow> Connection \<Rightarrow> ('p, 'b, unit) ws_act" where
  "disconnect S now conn =
     andThen (unregister_conn (c_ID conn)) (\<lambda>_.
     andThen (ignore (unregisterPresence S now conn)) (\<lambda>_.
     modify_ws (\<lambda>x. x\<lparr>ws_closing := remove1 conn (ws_closing x)\<rparr>)))"

section \<open>Commands\<close>

definition unmarshalPayload :: "(string \<Rightarrow> 'a option) \<Rightarrow> string \<Rightarrow> 'a result" where
  "unmarshalPayload unmarshal payload =
     (case unmarshal (if payload = [] \<or> payload = ''null'' then ''{}'' else payload) of
        None \<Rightarrow> Inl (InvalidArgument ''command payload is invalid'')
      | Some v \<Rightarrow> Inr v)"

definition dispatch :: "('p, 'b) Server \<Rightarrow> int \<Rightarrow> Connection \<Rightarrow> string \<Rightarrow> string \<Rightarrow> ('p, 'b, reply_data) ws_act" where
  "dispatch S now conn cmd payload =
     (let backend = the (s_backend S) in
      if cmd = CommandHeartbeat
      then andThen (ignore (refreshPresence S now conn)) (\<lambda>_.
           ret (HeartbeatData (c_ID conn) (c_UserID conn) (c_InstanceID conn) (UnixMilli now)))
      else if cmd = CommandSendMessage
      then andThen (lift_result (unmarshalPayload (send_decode (s_codec S)) payload)) (\<lambda>req.
           andThen (on_system (be_SendMessage backend (MapSendMessageRequest (c_UserID conn) req))) (\<lambda>(m, dup).
           ret (SendData m dup)))
      else if cmd = CommandPullMessages
      then andThen (lift_result (unmarshalPayload (pull_decode (s_codec S)) payload)) (\<lambda>req.
           andThen (on_system (be_PullMessages backend (MapPullMessagesRequest (c_UserID conn) req))) (\<lambda>(ms, isEnd, nextSeq).
           ret (PullData ms isEnd nextSeq)))
      else if cmd = CommandGetConversationSeqs
      then andThen (lift_result (unmarshalPayload (seqs_decode (s_codec S)) payload)) (\<lambda>req.
           andThen (on_system (be_GetConversationSeqs backend (MapGetConversationSeqsRequest (c_UserID conn) req))) (\<lambda>states.
           ret (SeqsData states)))
      else if cmd = CommandMarkConversationRead
      then andThen (lift_result (unmarshalPayload (read_decode (s_codec S)) payload)) (\<lambda>req.
           andThen (on_system (be_MarkConversationAsRead backend (MapMarkConversationReadRequest (c_UserID conn) req))) (\<lambda>result.
           ret (ReadData result)))
      else raise (InvalidArgument ''unsupported command type''))"

text \<open>The limiter of a connection, where it has one.\<close>

definition allow_command :: "('p, 'b) Server \<Rightarrow> int \<Rightarrow> Connection \<Rightarrow> ('p, 'b, bool) ws_act" where
  "allow_command S now conn =
     (\<lambda>(w, fs). case ws_limiter (gw_more w) (c_ID conn) of
        None \<Rightarrow> (Inr True, (w, fs))
      | Some l \<Rightarrow> (case Allow (s_round S) now l of (ok, l') \<Rightarrow>
          (Inr ok, (w\<lparr>gw_more := (gw_more w)\<lparr>ws_limiter := (ws_limiter (gw_more w))(c_ID conn \<mapsto> l')\<rparr>\<rparr>, fs))))"

definition with_trace :: "string \<Rightarrow> responseFrame \<Rightarrow> responseFrame" where
  "with_trace trace resp = resp\<lparr>rf_TraceID := trace\<rparr>"

definition handleCommand ::
  "('p, 'b) Server \<Rightarrow> int \<Rightarrow> string \<Rightarrow> Connection \<Rightarrow> string \<Rightarrow> ('p, 'b, responseFrame) ws_act" where
  "handleCommand S now fresh conn raw =
     (let (trace0, request0) = NewTraceContext fresh (c_TraceID conn) (c_RequestID conn)
      in case frame_decode (s_codec S) raw of
           None \<Rightarrow> ret (with_trace trace0 (errorResponse [] [] (InvalidArgument ''command envelope is invalid'')))
         | Some frame \<Rightarrow>
             let reqID = requestID frame; cmd = commandType frame;
                 trace = (if traceID frame \<noteq> [] then fst (NewTraceContext fresh (traceID frame) request0) else trace0)
             in andThen (allow_command S now conn) (\<lambda>ok.
                if \<not> ok then ret (with_trace trace (errorResponse reqID cmd (RateLimited ''command rate limit exceeded'')))
                else if TrimSpace reqID = []
                then ret (with_trace trace (errorResponse [] cmd (InvalidArgument ''request_id is required'')))
                else if TrimSpace cmd = []
                then ret (with_trace trace (errorResponse reqID [] (InvalidArgument ''type is required'')))
                else andThen (attempt (dispatch S now conn cmd (cf_Payload frame))) (\<lambda>d. case d of
                    Inl e \<Rightarrow> ret (with_trace trace (errorResponse reqID cmd e))
                  | Inr v \<Rightarrow> ret \<lparr>rf_RequestID = reqID, rf_RequestIDCamel = reqID, rf_TraceID = trace, rf_TraceIDCamel = trace,
                        rf_Type = cmd, rf_Command = cmd, rf_Status = ''ok'', rf_Error = None, rf_Data = Some v,
                        rf_Payload = Some v\<rparr>)))"

text \<open>One round of the read loop on a text or binary message; the result says whether the loop goes on.\<close>

definition read_message ::
  "('p, 'b) Server \<Rightarrow> int \<Rightarrow> string \<Rightarrow> Connection \<Rightarrow> string \<Rightarrow> ('p, 'b, bool) ws_act" where
  "read_message S now fresh conn raw =
     andThen (touch now conn) (\<lambda>_.
     andThen (attempt (validateActiveSession S now (c_UserID conn) (c_Device conn) (c_JTI conn))) (\<lambda>v. case v of
         Inl _ \<Rightarrow> andThen (ignore (closeWithCode conn CloseCodeSessionInvalid ''session invalid'')) (\<lambda>_. ret False)
       | Inr _ \<Rightarrow>
           andThen (handleCommand S now fresh conn raw) (\<lambda>resp.
           andThen (attempt (writeJSON (c_ID conn) (OtherFrame (Reply resp)))) (\<lambda>u. case u of
               Inl _ \<Rightarrow> ret False
             | Inr _ \<Rightarrow> ret True))))"

definition pong :: "('p, 'b) Server \<Rightarrow> int \<Rightarrow> Connection \<Rightarrow> ('p, 'b, unit) ws_act" where
  "pong S now conn = andThen (touch now conn) (\<lambda>_. ignore (refreshPresence S now conn))"

definition pingInterval :: "('p, 'b) Server \<Rightarrow> int" where
  "pingInterval S = (if wc_PingIntervalSeconds (s_wsConfig S) \<le> 0 then wc_PingIntervalSeconds DefaultGatewayWSConfig * 10 ^ 9
     else wc_PingIntervalSeconds (s_wsConfig S) * 10 ^ 9)"

definition heartbeatTimeout :: "('p, 'b) Server \<Rightarrow> int" where
  "heartbeatTimeout S = (if wc_HeartbeatTimeoutSeconds (s_wsConfig S) \<le> 0
     then wc_HeartbeatTimeoutSeconds DefaultGatewayWSConfig * 10 ^ 9
     else wc_HeartbeatTimeoutSeconds (s_wsConfig S) * 10 ^ 9)"

definition DeliveryDispatcher :: "('p, 'b) Server \<Rightarrow> 'p dispatcher" where
  "DeliveryDispatcher S = NewPresenceAwareDeliveryDispatcher (s_presence S) (s_instanceID S)"

definition PushToUser ::
  "('p, 'b) Server \<Rightarrow> int \<Rightarrow> string \<Rightarrow> DeliveryEvent \<Rightarrow> ('p, 'b, DeliveryResult \<times> goerror option) ws_act" where
  "PushToUser S now userID event = DeliverToUser (DeliveryDispatcher S) now userID event"

definition PushToConversation ::
  "('p, 'b) Server \<Rightarrow> int \<Rightarrow> string \<Rightarrow> string list \<Rightarrow> DeliveryEvent \<Rightarrow> ('p, 'b, DeliveryResult \<times> goerror option) ws_act" where
  "PushToConversation S now conversationID recipientUserIDs event =
     DeliverToConversation (DeliveryDispatcher S) now conversationID recipientUserIDs event"

end
