(* ===== verification/Ws_Sessions.thy ===== *)
theory Ws_Sessions
  imports Gateway_Ws "HOL-Library.Multiset"
begin

text \<open>
  The runs of the WebSocket server: a step relation over handshakes, registrations, messages, pongs, ends of connections,
  pushes and whatever other instances do, under any failures, and what holds in every reachable state.
\<close>

section \<open>Steps of an instance\<close>

definition end_loop :: "Connection \<Rightarrow> ('p, 'b) ws_gateway \<Rightarrow> ('p, 'b) ws_gateway" where
  "end_loop c w = w\<lparr>gw_more := (gw_more w)\<lparr>ws_open := remove1 c (ws_open (gw_more w)), ws_closing := c # ws_closing (gw_more w)\<rparr>\<rparr>"

text \<open>
  A handshake gets an id that was not given before: ids are 128 random bits. \<open>elsewhere\<close> is what other instances do to the
  presence store and other clients to the services.
\<close>

inductive ws_step :: "('p, 'b) Server \<Rightarrow> ('p, 'b) ws_gateway \<Rightarrow> ('p, 'b) ws_gateway \<Rightarrow> bool" for S where
  handshake: "cid \<notin> set (ws_ids (gw_more w)) \<Longrightarrow> accept_websocket S now cid trace req r (w, fs) = (h, (w', fs')) \<Longrightarrow> ws_step S w w'"
| registered: "c \<in> set (ws_accepted (gw_more w)) \<Longrightarrow> register_connection c (w, fs) = (h, (w', fs')) \<Longrightarrow> ws_step S w w'"
| message: "c \<in> set (ws_open (gw_more w)) \<Longrightarrow> read_message S now fresh c raw (w, fs) = (Inr True, (w', fs')) \<Longrightarrow> ws_step S w w'"
| last_message: "c \<in> set (ws_open (gw_more w)) \<Longrightarrow> read_message S now fresh c raw (w, fs) = (Inr False, (w', fs'))
    \<Longrightarrow> ws_step S w (end_loop c w')"
| read_error: "c \<in> set (ws_open (gw_more w)) \<Longrightarrow> ws_step S w (end_loop c w)"
| pong: "c \<in> set (ws_open (gw_more w)) \<Longrightarrow> pong S now c (w, fs) = (h, (w', fs')) \<Longrightarrow> ws_step S w w'"
| clean_up: "c \<in> set (ws_closing (gw_more w)) \<Longrightarrow> disconnect S now c (w, fs) = (h, (w', fs')) \<Longrightarrow> ws_step S w w'"
| push_conversation: "PushToConversation S now conv ids ev (w, fs) = (q, (w', fs')) \<Longrightarrow> ws_step S w w'"
| push_user: "PushToUser S now u ev (w, fs) = (q, (w', fs')) \<Longrightarrow> ws_step S w w'"
| elsewhere: "ws_step S w (w\<lparr>gw_presence := p, gw_more := (gw_more w)\<lparr>ws_system := b\<rparr>\<rparr>)"

definition ws_start :: "('p, 'b) ws_gateway \<Rightarrow> bool" where
  "ws_start w \<longleftrightarrow> gw_connections w = NewConnectionManager \<and> ws_accepted (gw_more w) = [] \<and> ws_open (gw_more w) = []
     \<and> ws_closing (gw_more w) = [] \<and> ws_ids (gw_more w) = []"

inductive ws_reachable :: "('p, 'b) Server \<Rightarrow> ('p, 'b) ws_gateway \<Rightarrow> bool" for S where
  start: "ws_start w \<Longrightarrow> ws_reachable S w"
| step: "ws_reachable S w \<Longrightarrow> ws_step S w w' \<Longrightarrow> ws_reachable S w'"

section \<open>The invariant of the sessions\<close>

definition sessions :: "('p, 'b) ws_gateway \<Rightarrow> ConnectionManager \<times> Connection list \<times> Connection list \<times> Connection list \<times> string list" where
  "sessions w = (gw_connections w, ws_accepted (gw_more w), ws_open (gw_more w), ws_closing (gw_more w), ws_ids (gw_more w))"

text \<open>Some valid token named the account, the kind of device and the token id of the connection.\<close>

definition authenticated :: "('p, 'b) Server \<Rightarrow> Connection \<Rightarrow> bool" where
  "authenticated S c \<longleftrightarrow> (\<exists>now raw claims. ValidateToken (s_lib S) (s_tokenManager S) now raw = Inr claims
     \<and> c_UserID c = cl_UserID claims \<and> c_Device c = cl_Device claims \<and> c_JTI c = cl_JTI claims)"

definition ws_inv :: "('p, 'b) Server \<Rightarrow> ConnectionManager \<times> Connection list \<times> Connection list \<times> Connection list \<times> string list \<Rightarrow> bool" where
  "ws_inv S = (\<lambda>(m, acc, opn, cls, ids). conn_inv m
     \<and> (\<forall>i c. map_of (byID m) i = Some c \<longrightarrow> c \<in> set opn \<union> set cls)
     \<and> distinct (map c_ID (acc @ opn @ cls)) \<and> c_ID ` set (acc @ opn @ cls) \<subseteq> set ids
     \<and> (\<forall>c\<in>set (acc @ opn @ cls). authenticated S c \<and> TrimSpace (c_UserID c) \<noteq> []))"

text \<open>Computations that leave the sessions alone.\<close>

definition calm :: "(('p, 'b) ws_gateway, 'a) act \<Rightarrow> bool" where
  "calm m \<longleftrightarrow> (\<forall>w fs r w' fs'. m (w, fs) = (r, (w', fs')) \<longrightarrow> sessions w' = sessions w)"

named_theorems calm_intros

lemma calmD: "calm m \<Longrightarrow> m (w, fs) = (r, (w', fs')) \<Longrightarrow> sessions w' = sessions w"
  unfolding calm_def by blast

lemma calm_parts [calm_intros]:
  "calm (ret x)" "calm (raise e)" "calm (lift_result q)" "calm (on_presence pm)" "calm (on_system sm)" "calm (touch now c)"
  "calm (writeJSON i f)" "calm (call what (\<lambda>w. (y, w)))" "calm (allow_command S now c)"
  by (auto simp: calm_def ret_def raise_def lift_result_def on_presence_def on_system_def touch_def modify_ws_def modify_def
      writeJSON_def call_def allow_command_def sessions_def split: sum.splits prod.splits list.splits fault.splits option.splits)

lemma calm_andThen [calm_intros]: "calm m \<Longrightarrow> (\<And>x. calm (f x)) \<Longrightarrow> calm (andThen m f)"
  unfolding calm_def andThen_def by (fastforce split: prod.splits sum.splits)

lemma calm_attempt [calm_intros]: "calm m \<Longrightarrow> calm (attempt m)"
  unfolding calm_def attempt_def by (auto split: prod.splits)

lemma calm_ignore [calm_intros]: "calm m \<Longrightarrow> calm (ignore m)"
  by (simp add: ignore_def calm_andThen calm_attempt calm_parts)

lemma calm_for_each [calm_intros]: "(\<And>x. calm (f x)) \<Longrightarrow> calm (for_each f xs)"
  by (induction xs) (auto intro: calm_intros)

lemma calm_registerPresence [calm_intros]: "calm (registerPresence S now c)"
  by (auto simp: calm_def registerPresence_def on_presence_def sessions_def ret_def split: option.splits prod.splits)

lemma calm_refreshPresence [calm_intros]: "calm (refreshPresence S now c)"
  by (auto simp: refreshPresence_def intro!: calm_intros split: sum.split option.split)

lemma calm_operations [calm_intros]:
  "calm (unregisterPresence S now c)" "calm (closeWithCode c code reason)" "calm (validateActiveSession S now u d j)"
  by (auto simp: unregisterPresence_def closeWithCode_def validateActiveSession_def intro!: calm_intros split: option.split)

lemma calm_authenticate [calm_intros]: "calm (authenticate S now r)"
  by (auto simp: authenticate_def Let_def intro!: calm_intros)

lemma calm_dispatch [calm_intros]: "calm (dispatch S now c cmd payload)"
  by (auto simp: dispatch_def Let_def intro!: calm_intros split: prod.split)

lemma calm_handleCommand [calm_intros]: "calm (handleCommand S now fresh c raw)"
  by (auto simp: handleCommand_def Let_def intro!: calm_intros split: prod.split option.split sum.split)

lemma calm_read_message: "calm (read_message S now fresh c raw)"
  by (auto simp: read_message_def intro!: calm_intros split: sum.split)

lemma calm_pong: "calm (pong S now c)"
  by (auto simp: pong_def intro!: calm_intros)

section \<open>Every step keeps the invariant\<close>

lemma ws_inv_start: "ws_start w \<Longrightarrow> ws_inv S (sessions w)"
  by (simp add: ws_start_def sessions_def ws_inv_def conn_inv_new) (simp add: NewConnectionManager_def)

lemma authenticate_okD:
  assumes "authenticate S now r (w, fs) = (Inr claims, (w', fs'))"
  shows "ValidateToken (s_lib S) (s_tokenManager S) now (raw_token S r) = Inr claims \<and> TrimSpace (cl_UserID claims) \<noteq> []"
  using assms by (auto simp: authenticate_def Let_def andThen_def raise_def ret_def lift_result_def split: if_splits prod.splits sum.splits)

lemma attempt_okD: "attempt m W = (Inr r, W') \<Longrightarrow> m W = (r, W')"
  by (simp add: attempt_run)

lemma open_connection_sessions:
  assumes "open_connection S now c (w, fs) = (h, (w', fs'))"
  shows "h = Inr () \<and> sessions w' = (case sessions w of (m, acc, opn, cls, ids) \<Rightarrow> (m, c # acc, opn, cls, c_ID c # ids))"
proof -
  let ?w1 = "w\<lparr>gw_more := (gw_more w)\<lparr>ws_accepted := c # ws_accepted (gw_more w), ws_ids := c_ID c # ws_ids (gw_more w),
      ws_lastSeen := (ws_lastSeen (gw_more w))(c_ID c := now),
      ws_limiter := (ws_limiter (gw_more w))(c_ID c := newCommandRateLimiter (s_round S) (s_wsConfig S) now)\<rparr>\<rparr>"
  have run: "ignore (registerPresence S now c) (?w1, fs) = (h, (w', fs'))"
    using assms by (simp add: open_connection_def andThen_def modify_ws_def modify_def)
  have "calm (ignore (registerPresence S now c))" by (intro calm_intros)
  from calmD [OF this run] have "sessions w' = sessions ?w1" .
  moreover have "h = Inr ()" using run by (auto simp: ignore_def andThen_def attempt_def ret_def split: prod.splits)
  ultimately show ?thesis by (simp add: sessions_def)
qed

lemma accept_cases:
  assumes "accept_websocket S now cid trace req r (w, fs) = (h, (w', fs'))"
  shows "sessions w' = sessions w \<and> (\<forall>c. h \<noteq> Inr (Opened c))
    \<or> (\<exists>c. c_ID c = cid \<and> authenticated S c \<and> TrimSpace (c_UserID c) \<noteq> [] \<and> h = Inr (Opened c)
         \<and> sessions w' = (case sessions w of (m, acc, opn, cls, ids) \<Rightarrow> (m, c # acc, opn, cls, cid # ids)))"
proof (cases "s_configErr S = None")
  case False
  then show ?thesis using assms by (auto simp: accept_websocket_def ret_def)
next
  case True
  obtain a w1 fs1 where a: "authenticate S now r (w, fs) = (a, (w1, fs1))" by (metis surj_pair)
  then have s1: "sessions w1 = sessions w" using calmD [OF calm_authenticate] by blast
  have run: "(case a of Inl _ \<Rightarrow> ret (HttpError 401)
        | Inr claims \<Rightarrow>
            if s_backend S = None then ret (HttpError 503)
            else if \<not> checkOrigin (s_env S) (s_origins S) r then ret UpgradeFailed
            else andThen (attempt (call ''upgrade'' (\<lambda>w. ((), w)))) (\<lambda>u. case u of
                Inl _ \<Rightarrow> ret UpgradeFailed
              | Inr _ \<Rightarrow>
                  let conn = new_connection S now cid trace req r claims
                  in andThen (open_connection S now conn) (\<lambda>_. ret (Opened conn)))) (w1, fs1) = (h, (w', fs'))"
    using assms True a by (simp add: accept_websocket_def andThen_def attempt_def)
  show ?thesis
  proof (cases a)
    case (Inl e)
    then show ?thesis using run s1 by (auto simp: ret_def)
  next
    case (Inr claims)
    let ?c = "new_connection S now cid trace req r claims"
    from authenticate_okD a Inr have auth: "ValidateToken (s_lib S) (s_tokenManager S) now (raw_token S r) = Inr claims"
      "TrimSpace (cl_UserID claims) \<noteq> []" by blast+
    then have c: "c_ID ?c = cid" "authenticated S ?c" "TrimSpace (c_UserID ?c) \<noteq> []"
      by (auto simp: new_connection_def authenticated_def)
    obtain u w2 fs2 where u: "call ''upgrade'' (\<lambda>w. ((), w)) (w1, fs1) = (u, (w2, fs2))" by (metis surj_pair)
    then have s2: "sessions w2 = sessions w" using calmD [OF calm_parts(8) u] s1 by simp
    show ?thesis
    proof (cases "s_backend S = None \<or> \<not> checkOrigin (s_env S) (s_origins S) r")
      case True
      then have "w' = w1 \<and> (\<forall>c. h \<noteq> Inr (Opened c))" using run Inr by (auto simp: ret_def split: if_splits)
      then show ?thesis using s1 by simp
    next
      case False
      then have run2: "(case u of Inl _ \<Rightarrow> ret UpgradeFailed
          | Inr _ \<Rightarrow> andThen (open_connection S now ?c) (\<lambda>_. ret (Opened ?c))) (w2, fs2) = (h, (w', fs'))"
        using run Inr u by (cases u) (auto simp: andThen_def attempt_def Let_def split: if_splits)
      show ?thesis
      proof (cases u)
        case Inl
        then show ?thesis using run2 s2 by (auto simp: ret_def)
      next
        case u: Inr
        obtain h1 w3 fs3 where o: "open_connection S now ?c (w2, fs2) = (h1, (w3, fs3))" by (metis surj_pair)
        from open_connection_sessions [OF o] have h1: "h1 = Inr ()"
          "sessions w3 = (case sessions w2 of (m, acc, opn, cls, ids) \<Rightarrow> (m, ?c # acc, opn, cls, cid # ids))"
          using c(1) by auto
        then have "w' = w3" "h = Inr (Opened ?c)" using run2 u o by (simp_all add: andThen_def ret_def)
        then show ?thesis using c h1(2) s2 by (intro disjI2 exI [of _ ?c]) simp
      qed
    qed
  qed
qed

lemma register_cases:
  assumes "register_connection c (w, fs) = (h, (w', fs'))"
  shows "sessions w' = (case sessions w of (m, acc, opn, cls, ids) \<Rightarrow> (snd (Register c m), remove1 c acc, c # opn, cls, ids))"
proof -
  obtain replaced m where r: "Register c (gw_connections w) = (replaced, m)" by (metis surj_pair)
  let ?w1 = "w\<lparr>gw_connections := m, gw_more := (gw_more w)\<lparr>ws_accepted := remove1 c (ws_accepted (gw_more w)),
      ws_open := c # ws_open (gw_more w)\<rparr>\<rparr>"
  have run: "for_each (\<lambda>previous. ignore (closeWithCode previous CloseCodeSessionReplaced ''session replaced'')) replaced (?w1, fs)
      = (h, (w', fs'))"
    using assms r by (simp add: register_connection_def)
  have "calm (for_each (\<lambda>previous. ignore (closeWithCode previous CloseCodeSessionReplaced ''session replaced'')) replaced
      :: ('a, 'b, unit) ws_act)" by (intro calm_intros)
  from calmD [OF this run] have "sessions w' = sessions ?w1" .
  then show ?thesis using r by (simp add: sessions_def)
qed

lemma disconnect_cases:
  assumes "disconnect S now c (w, fs) = (h, (w', fs'))"
  shows "sessions w' = (case sessions w of (m, acc, opn, cls, ids) \<Rightarrow> (Unregister (c_ID c) m, acc, opn, remove1 c cls, ids))"
proof -
  let ?w1 = "w\<lparr>gw_connections := Unregister (c_ID c) (gw_connections w)\<rparr>"
  obtain q w2 fs2 where q: "ignore (unregisterPresence S now c) (?w1, fs) = (q, (w2, fs2))" by (metis surj_pair)
  moreover have "q = Inr ()" using q by (auto simp: ignore_def andThen_def attempt_def ret_def split: prod.splits)
  ultimately have "w' = w2\<lparr>gw_more := (gw_more w2)\<lparr>ws_closing := remove1 c (ws_closing (gw_more w2))\<rparr>\<rparr>"
    using assms by (simp add: disconnect_def andThen_def unregister_conn_def modify_ws_def modify_def)
  moreover have "calm (ignore (unregisterPresence S now c))" by (intro calm_intros)
  from calmD [OF this q] have "sessions w2 = sessions ?w1" .
  ultimately show ?thesis by (simp add: sessions_def)
qed

lemma delivery_step_sessions:
  "delivery_step ev C w w' new \<Longrightarrow> \<exists>gone. sessions w' = (case sessions w of (m, rest) \<Rightarrow> (fold Unregister gone m, rest))"
  by (auto simp: delivery_step_def sessions_def)

lemma push_cases:
  assumes "conn_inv (gw_connections w)" "PushToConversation S now conv ids ev (w, fs) = (q, (w', fs'))"
  shows "w' = w \<or> (\<exists>new. delivery_step (delivered_event conv ev) (\<Union>u\<in>set (recipients ids). conns_of (gw_connections w) u) w w' new)"
proof (cases "TrimSpace conv = [] \<or> TrimSpace (de_Type ev) = []")
  case True
  then show ?thesis using assms(2) by (auto simp: PushToConversation_def DeliverToConversation_unfold raise_def)
next
  case False
  then have "deliver_each (DeliveryDispatcher S) now (delivered_event conv ev) {} ids (new_result (TrimSpace conv)) (w, fs) = (q, (w', fs'))"
    using assms(2) by (simp add: PushToConversation_def DeliverToConversation_unfold)
  from deliver_each_safe [OF assms(1) this refl] show ?thesis by (auto simp: recipients_def)
qed

lemma push_user_cases:
  assumes "conn_inv (gw_connections w)" "PushToUser S now u ev (w, fs) = (q, (w', fs'))"
  shows "w' = w \<or> (\<exists>new. delivery_step ev (conns_of (gw_connections w) (TrimSpace u)) w w' new)"
proof (cases "TrimSpace u = [] \<or> TrimSpace (de_Type ev) = []")
  case True
  then show ?thesis using assms(2) by (auto simp: PushToUser_def DeliverToUser_def raise_def split: if_splits)
next
  case False
  obtain r w1 fs1 where r: "deliverToUser (DeliveryDispatcher S) now (TrimSpace u) ev (w, fs) = (r, (w1, fs1))" by (metis surj_pair)
  from deliverToUser_safe [OF assms(1) r refl] obtain rr e new where
    d: "r = Inr (rr, e)" "delivery_step ev (conns_of (gw_connections w) (TrimSpace u)) w w1 new" by blast
  then have "w' = w1" using assms(2) False r by (simp add: PushToUser_def DeliverToUser_def andThen_def ret_def)
  with d(2) show ?thesis by blast
qed

lemma ws_inv_accept:
  assumes "ws_inv S (m, acc, opn, cls, ids)" "c_ID c \<notin> set ids" "authenticated S c" "TrimSpace (c_UserID c) \<noteq> []"
  shows "ws_inv S (m, c # acc, opn, cls, c_ID c # ids)"
  using assms by (auto simp: ws_inv_def)

lemma same_elements:
  assumes "mset xs = mset ys"
  shows "distinct (map f xs) = distinct (map f ys)" "set xs = set ys"
proof -
  have "mset (map f xs) = mset (map f ys)" using assms by simp
  then show "distinct (map f xs) = distinct (map f ys)" by (rule mset_eq_imp_distinct_iff)
  show "set xs = set ys" using assms by (rule mset_eq_setD)
qed

lemma distinct_map_remove1: "distinct (map f (xs @ ys)) \<Longrightarrow> distinct (map f (xs @ remove1 c ys))"
  using set_remove1_subset [of c ys] unfolding distinct_map by (auto simp: inj_on_def)

lemma ws_inv_register:
  assumes inv: "ws_inv S (m, acc, opn, cls, ids)" and c: "c \<in> set acc"
  shows "ws_inv S (snd (Register c m), remove1 c acc, c # opn, cls, ids)"
proof -
  have m: "conn_inv m" and mem: "\<And>i d. map_of (byID m) i = Some d \<Longrightarrow> d \<in> set opn \<union> set cls"
    and dist: "distinct (map c_ID (acc @ opn @ cls))" and sub: "c_ID ` set (acc @ opn @ cls) \<subseteq> set ids"
    and auth: "\<forall>d\<in>set (acc @ opn @ cls). authenticated S d \<and> TrimSpace (c_UserID d) \<noteq> []"
    using inv unfolding ws_inv_def by auto
  have "map_of (byID m) (c_ID c) = None"
  proof (rule ccontr)
    assume "map_of (byID m) (c_ID c) \<noteq> None"
    then obtain d where d: "map_of (byID m) (c_ID c) = Some d" by blast
    then have "c_ID d = c_ID c" using m unfolding conn_inv_def by blast
    moreover have "d \<in> set opn \<union> set cls" using mem d by blast
    moreover have "c_ID ` set acc \<inter> c_ID ` (set opn \<union> set cls) = {}" using dist by auto
    ultimately show False using c by blast
  qed
  then have m': "conn_inv (snd (Register c m))" by (rule conn_inv_snd_Register [OF m])
  obtain replaced m1 where r: "Register c m = (replaced, m1)" by (metis surj_pair)
  have mem': "d \<in> set (c # opn) \<union> set cls" if "map_of (byID (snd (Register c m))) i = Some d" for i d
    using that mem Register_tables(1) [OF r m, of i] r by (auto split: if_splits)
  have "distinct (map c_ID acc)" using dist by simp
  then have "distinct acc" by (simp add: distinct_map)
  then have rem: "set (remove1 c acc) = set acc - {c}" by simp
  have "mset (remove1 c acc @ (c # opn) @ cls) = mset (acc @ opn @ cls)" using c by simp
  note same = same_elements [OF this]
  then have "distinct (map c_ID (remove1 c acc @ (c # opn) @ cls))" using dist by blast
  then show ?thesis
    unfolding ws_inv_def case_prod_conv same(2) using m' mem' sub auth by blast
qed

lemma ws_inv_end:
  assumes inv: "ws_inv S (m, acc, opn, cls, ids)" and c: "c \<in> set opn"
  shows "ws_inv S (m, acc, remove1 c opn, c # cls, ids)"
proof -
  have "mset (acc @ remove1 c opn @ c # cls) = mset (acc @ opn @ cls)" using c by simp
  note same = same_elements [OF this]
  have "distinct (map c_ID (acc @ opn @ cls))" using inv by (simp add: ws_inv_def)
  then have "distinct (map c_ID (acc @ remove1 c opn @ c # cls))" using same(1) by blast
  moreover have "set opn \<union> set cls \<subseteq> set (remove1 c opn) \<union> set (c # cls)" by (auto simp: in_set_remove1)
  ultimately show ?thesis using inv unfolding ws_inv_def case_prod_conv same(2) by blast
qed

lemma ws_inv_disconnect:
  assumes inv: "ws_inv S (m, acc, opn, cls, ids)"
  shows "ws_inv S (Unregister (c_ID c) m, acc, opn, remove1 c cls, ids)"
proof -
  have m: "conn_inv m" and mem: "\<And>i d. map_of (byID m) i = Some d \<Longrightarrow> d \<in> set opn \<union> set cls"
    and dist: "distinct (map c_ID ((acc @ opn) @ cls))" and sub: "c_ID ` set (acc @ opn @ cls) \<subseteq> set ids"
    and auth: "\<forall>d\<in>set (acc @ opn @ cls). authenticated S d \<and> TrimSpace (c_UserID d) \<noteq> []"
    using inv unfolding ws_inv_def by auto
  have "d \<in> set opn \<union> set (remove1 c cls)" if "map_of (byID (Unregister (c_ID c) m)) i = Some d" for i d
  proof -
    from that have i: "i \<noteq> c_ID c" "map_of (byID m) i = Some d" using Unregister_tables(1) [OF m] by (auto split: if_splits)
    then have "c_ID d = i" using m unfolding conn_inv_def by blast
    with i have "d \<noteq> c" by blast
    then show ?thesis using mem [OF i(2)] by simp
  qed
  moreover have "set (acc @ opn @ remove1 c cls) \<subseteq> set (acc @ opn @ cls)" using set_remove1_subset [of c cls] by auto
  ultimately show ?thesis
    using conn_inv_Unregister [OF m] distinct_map_remove1 [OF dist] sub auth unfolding ws_inv_def case_prod_conv append_assoc by blast
qed

lemma ws_inv_fold:
  assumes "ws_inv S (m, acc, opn, cls, ids)"
  shows "ws_inv S (fold Unregister gone m, acc, opn, cls, ids)"
  using assms
proof (induction gone arbitrary: m)
  case (Cons k gone)
  have m: "conn_inv m" using Cons.prems by (simp add: ws_inv_def)
  have "map_of (byID m) i = Some d" if "map_of (byID (Unregister k m)) i = Some d" for i d
    using that unfolding Unregister_tables(1) [OF m] by (simp split: if_splits)
  then have "ws_inv S (Unregister k m, acc, opn, cls, ids)"
    using Cons.prems conn_inv_Unregister [OF m] unfolding ws_inv_def case_prod_conv by blast
  then show ?case using Cons.IH by simp
qed simp

lemma delivery_ws_inv:
  assumes "delivery_step ev C w w' new" "ws_inv S (sessions w)"
  shows "ws_inv S (sessions w')"
proof -
  obtain gone where "sessions w' = (case sessions w of (m, rest) \<Rightarrow> (fold Unregister gone m, rest))"
    using delivery_step_sessions [OF assms(1)] by blast
  then show ?thesis using ws_inv_fold [OF assms(2) [unfolded sessions_def]] by (simp add: sessions_def)
qed

lemma ws_inv_step: "ws_step S w w' \<Longrightarrow> ws_inv S (sessions w) \<Longrightarrow> ws_inv S (sessions w')"
proof (induction rule: ws_step.induct)
  case (handshake cid w now trace req r fs h w' fs')
  from accept_cases [OF handshake(2)] show ?case
  proof (elim disjE exE conjE)
    fix c
    assume c: "c_ID c = cid" "authenticated S c" "TrimSpace (c_UserID c) \<noteq> []"
      and s: "sessions w' = (case sessions w of (m, acc, opn, cls, ids) \<Rightarrow> (m, c # acc, opn, cls, cid # ids))"
    show "ws_inv S (sessions w')"
      using ws_inv_accept [OF handshake(3) [unfolded sessions_def] _ c(2,3)] handshake(1) c(1) s by (simp add: sessions_def)
  qed (use handshake(3) in simp)
next
  case (registered c w fs h w' fs')
  show ?case
    using register_cases [OF registered(2)] ws_inv_register [OF registered(3) [unfolded sessions_def] registered(1)]
    by (simp add: sessions_def)
next
  case (message c w now fresh raw fs w' fs')
  then show ?case using calmD [OF calm_read_message] by metis
next
  case (last_message c w now fresh raw fs w' fs')
  then have "sessions w' = sessions w" using calmD [OF calm_read_message] by blast
  then show ?case
    using ws_inv_end [OF last_message(3) [unfolded sessions_def] last_message(1)] by (simp add: sessions_def end_loop_def)
next
  case (read_error c w)
  show ?case
    using ws_inv_end [OF read_error(2) [unfolded sessions_def] read_error(1)] by (simp add: sessions_def end_loop_def)
next
  case (pong c w now fs h w' fs')
  then show ?case using calmD [OF calm_pong] by metis
next
  case (clean_up c w now fs h w' fs')
  show ?case
    using disconnect_cases [OF clean_up(2)] ws_inv_disconnect [OF clean_up(3) [unfolded sessions_def]] by (simp add: sessions_def)
next
  case (push_conversation now conv ids ev w fs q w' fs')
  then have "conn_inv (gw_connections w)" by (simp add: sessions_def ws_inv_def)
  then consider "w' = w" | ev C new where "delivery_step ev C w w' new" using push_cases [OF _ push_conversation(1)] by blast
  then show ?case
    by cases (use push_conversation(2) in simp, rule delivery_ws_inv [OF _ push_conversation(2)])
next
  case (push_user now u ev w fs q w' fs')
  then have "conn_inv (gw_connections w)" by (simp add: sessions_def ws_inv_def)
  then consider "w' = w" | ev C new where "delivery_step ev C w w' new" using push_user_cases [OF _ push_user(1)] by blast
  then show ?case
    by cases (use push_user(2) in simp, rule delivery_ws_inv [OF _ push_user(2)])
next
  case (elsewhere w p b)
  then show ?case by (simp add: sessions_def)
qed

lemma ws_reachable_inv: "ws_reachable S w \<Longrightarrow> ws_inv S (sessions w)"
  by (induction rule: ws_reachable.induct) (auto intro: ws_inv_start ws_inv_step)


text \<open>An instance with two accounts, one of which logs in again from another browser.\<close>

definition demo_codec :: ws_codec where
  "demo_codec = \<lparr>frame_decode = (\<lambda>_. None), send_decode = (\<lambda>_. None), pull_decode = (\<lambda>_. None), seqs_decode = (\<lambda>_. None),
     read_decode = (\<lambda>_. None)\<rparr>"

definition demo_env :: env where
  "demo_env = \<lparr>expand_env = (\<lambda>s. s), parse_url = (\<lambda>_. None), env_origins = []\<rparr>"

definition demo_backend :: "unit MessageBackend" where
  "demo_backend = \<lparr>be_SendMessage = (\<lambda>_. raise (Internal [])), be_PullMessages = (\<lambda>_. raise (Internal [])),
     be_GetConversationSeqs = (\<lambda>_. raise (Internal [])), be_MarkConversationAsRead = (\<lambda>_. raise (Internal []))\<rparr>"

definition demo_ws_lib :: token_lib where
  "demo_ws_lib = demo_token_lib\<lparr>header_decode := (\<lambda>_. Some \<lparr>th_Algorithm = ''HS256'', th_Type = ''JWT''\<rparr>),
     payload_decode := (\<lambda>s. Some \<lparr>tp_Subject = s, tp_UserID = s, tp_Identifier = ''n'', tp_JTI = ''j'', tp_SessionID = ''j'',
       tp_Device = ''web'', tp_LoginIP = [], tp_IssuedAt = 1, tp_ExpiresAt = 100\<rparr>),
     b64_encode := (\<lambda>s. s), b64_decode := Some, hmac_sha256 := (\<lambda>_ _. ''m'')\<rparr>"

definition demo_server :: "(MemoryStore, unit) Server" where
  "demo_server = NewServer demo_ws_lib demo_codec demo_env (\<lambda>x. x) memory_store ''g1'' ''s'' 100 (Some demo_backend)
     [WithPresenceTTL 5000000000]"

definition demo_handshake :: "string \<Rightarrow> ws_request" where
  "demo_handshake u = \<lparr>rq_Origin = [], rq_TLS = False, rq_ForwardedProto = [], rq_Host = ''h'', rq_HostHeader = [],
     rq_Authorization = ''Bearer h.'' @ u @ ''.m'', rq_QueryToken = [], rq_RemoteAddr = [], rq_UserAgent = [], rq_DeviceID = [],
     rq_Platforms = [], rq_TraceID = [], rq_RequestID = []\<rparr>"

definition demo_ws_start :: "(MemoryStore, unit) ws_gateway" where
  "demo_ws_start = \<lparr>gw_connections = NewConnectionManager, gw_presence = NewMemoryStore, gw_out = [],
     gw_more = \<lparr>ws_accepted = [], ws_open = [], ws_closing = [], ws_ids = [], ws_lastSeen = (\<lambda>_. 0), ws_limiter = (\<lambda>_. None),
       ws_system = ()\<rparr>\<rparr>"

definition demo_enter :: "string \<Rightarrow> string \<Rightarrow> (MemoryStore, unit) ws_gateway \<Rightarrow> (MemoryStore, unit) ws_gateway" where
  "demo_enter cid u w = fst (snd (HandleWebSocket demo_server (2 * 10 ^ 9) cid [] [] (demo_handshake u) (w, [])))"

lemma HandleWebSocket_reachable:
  assumes "ws_reachable S w" "cid \<notin> set (ws_ids (gw_more w))" "HandleWebSocket S now cid trace req r (w, fs) = (h, (w', fs'))"
  shows "ws_reachable S w'"
proof -
  obtain h1 w1 fs1 where a: "accept_websocket S now cid trace req r (w, fs) = (h1, (w1, fs1))" by (metis surj_pair)
  then have r1: "ws_reachable S w1" using assms(1,2) by (meson ws_reachable.step ws_step.handshake)
  show ?thesis
  proof (cases "\<exists>c. h1 = Inr (Opened c)")
    case False
    then have "w' = w1" using assms(3) a
      by (auto simp: HandleWebSocket_def andThen_def ret_def split: sum.splits handshake.splits)
    then show ?thesis using r1 by simp
  next
    case True
    then obtain c where c: "h1 = Inr (Opened c)" by blast
    then have m: "c \<in> set (ws_accepted (gw_more w1))" using accept_cases [OF a] by (auto simp: sessions_def)
    obtain h2 w2 fs2 where b: "register_connection c (w1, fs1) = (h2, (w2, fs2))" by (metis surj_pair)
    then have "w' = w2" using assms(3) a c by (cases h2) (auto simp: HandleWebSocket_def andThen_def ret_def)
    then show ?thesis using r1 m b by (meson ws_reachable.step ws_step.registered)
  qed
qed

definition demo_ws :: "(MemoryStore, unit) ws_gateway" where
  "demo_ws = demo_enter ''c3'' ''u1'' (demo_enter ''c2'' ''u2'' (demo_enter ''c1'' ''u1'' demo_ws_start))"

lemma demo_enter_reachable:
  "ws_reachable demo_server w \<Longrightarrow> cid \<notin> set (ws_ids (gw_more w)) \<Longrightarrow> ws_reachable demo_server (demo_enter cid u w)"
  unfolding demo_enter_def by (rule HandleWebSocket_reachable [where w = w and fs = "[]"]) (simp_all add: prod_eq_iff)

lemma demo_ws_reachable: "ws_reachable demo_server demo_ws"
proof -
  have "ws_start demo_ws_start" by (simp add: ws_start_def demo_ws_start_def)
  then show ?thesis
    unfolding demo_ws_def by (intro demo_enter_reachable ws_reachable.start) (assumption, code_simp+)
qed


end
