(* ===== verification/Ws_Commands.thy ===== *)
theory Ws_Commands
  imports Ws_Sessions Reads Group_Svc
begin

text \<open>
  The commands of a WebSocket connection down to the tables: the gateway's backend on msg-rpc
  (\<^verbatim>\<open>service/msggateway/internal/backend/msgrpc.go\<close>), and msg-rpc's client of groups-rpc
  (\<^verbatim>\<open>service/msg/rpc/internal/groupsrpc/groupsrpc.go\<close>), over the models of the three services. What a connection can do is
  confined to the account it was opened for.
\<close>

section \<open>The services behind a gateway\<close>

record services =
  sv_send :: send_world
  sv_db :: pg_db
  sv_groups :: group_db

definition on_send :: "(send_world, 'a) act \<Rightarrow> (services, 'a) act" where
  "on_send m = (\<lambda>(b, fs). case m (sv_send b, fs) of (r, (s, fs')) \<Rightarrow> (r, (b\<lparr>sv_send := s\<rparr>, fs')))"

definition on_db :: "(pg_db, 'a) act \<Rightarrow> (services, 'a) act" where
  "on_db m = (\<lambda>(b, fs). case m (sv_db b, fs) of (r, (s, fs')) \<Rightarrow> (r, (b\<lparr>sv_db := s\<rparr>, fs')))"

definition Client_ListMembers :: "string \<Rightarrow> string \<Rightarrow> (group_db, GroupMemberInfo list) act" where
  "Client_ListMembers groupID requester =
     andThen (rpc (ListMembers groupID requester)) (\<lambda>(_, ms).
       ret (map (\<lambda>m. \<lparr>gm_UserID = mr_UserId m, gm_State = mr_State m\<rparr>) ms))"

text \<open>
  The membership check of msg-rpc during one request. Reading the tables of groups-rpc does not change them; \<open>gf\<close> says which
  of its calls fail.
\<close>

definition groups_lister :: "(string \<Rightarrow> string \<Rightarrow> fault list) \<Rightarrow> group_db \<Rightarrow> group_lister" where
  "groups_lister gf gdb = Some (\<lambda>groupID requester. fst (Client_ListMembers groupID requester (gdb, gf groupID requester)))"

definition pbToSnapshot :: "PbMessage \<Rightarrow> MessageSnapshot" where
  "pbToSnapshot m =
     \<lparr>sn_ServerMsgID = pb_ServerMsgId m, sn_ClientMsgID = pb_ClientMsgId m, sn_ConversationID = pb_ConversationId m,
      sn_Seq = pb_Seq m, sn_SenderID = pb_SenderId m, sn_ReceiverID = pb_ReceiverId m, sn_GroupID = pb_GroupId m,
      sn_ChatType = pb_ChatType m, sn_ContentType = pb_ContentType m, sn_Content = pb_Content m,
      sn_MessageOrigin = pb_MessageOrigin m, sn_AgentAccountID = pb_AgentAccountId m,
      sn_TriggerServerMsgID = pb_TriggerServerMsgId m, sn_AgentRunID = pb_AgentRunId m,
      sn_AllowRecursiveTrigger = pb_AllowRecursiveTrigger m, sn_SendTime = pb_SendTime m, sn_CreatedAt = pb_CreatedAt m\<rparr>"

definition pbToSeqState :: "json_lib \<Rightarrow> ConversationSeqState \<Rightarrow> SeqStateSnapshot" where
  "pbToSeqState js s =
     \<lparr>sq_ConversationID = ss_ConversationID s, sq_MaxSeq = ss_MaxSeq s, sq_HasReadSeq = ss_HasReadSeq s,
      sq_UnreadCount = ss_UnreadCount s, sq_MaxSeqTime = ss_MaxSeqTime s,
      sq_LastMessage = map_option (\<lambda>m. pbToSnapshot (messageToPB js m)) (ss_LastMessage s)\<rparr>"

text \<open>What the backend's service instance is configured with.\<close>

record msg_rpc =
  mr_json :: json_lib
  mr_media :: media_validator
  mr_hash :: "normalizedSend \<Rightarrow> string"
  mr_producer :: bool
  mr_trace :: trace
  mr_group_faults :: "string \<Rightarrow> string \<Rightarrow> fault list"

text \<open>A send whose id generator waits for ever is ended by the deadline of the call.\<close>

definition Backend_SendMessage :: "msg_rpc \<Rightarrow> SendMessageRPCRequest \<Rightarrow> (services, MessageSnapshot \<times> bool) act" where
  "Backend_SendMessage M req =
     (\<lambda>(b, fs).
        andThen (on_send (rpc (\<lambda>W.
          case SendMessage (mr_json M) (mr_media M) (groups_lister (mr_group_faults M) (sv_groups b)) (mr_hash M) (mr_producer M)
                 (mr_trace M)
                 \<lparr>r_SenderId = sr_SenderID req, r_ReceiverId = sr_ReceiverID req, r_GroupId = sr_GroupID req,
                  r_ChatType = sr_ChatType req, r_ClientMsgId = sr_ClientMsgID req, r_ContentType = sr_ContentType req,
                  r_Content = sr_Content req, r_MessageOrigin = [], r_AgentAccountId = [], r_TriggerServerMsgId = [],
                  r_AgentRunId = [], r_AllowRecursiveTrigger = False\<rparr> W of
            None \<Rightarrow> (Inl (Internal ''deadline exceeded''), W)
          | Some x \<Rightarrow> x))) (\<lambda>(m, dup).
        ret (pbToSnapshot m, dup)) (b, fs))"

definition Backend_PullMessages :: "msg_rpc \<Rightarrow> PullMessagesRPCRequest \<Rightarrow> (services, MessageSnapshot list \<times> bool \<times> int) act" where
  "Backend_PullMessages M req =
     (\<lambda>(b, fs).
        andThen (on_db (rpc (PullMessages (mr_json M) (groups_lister (mr_group_faults M) (sv_groups b)) (pr_UserID req)
          (pr_ConversationID req) (pr_FromSeq req) (pr_ToSeq req) (pr_Limit req) (pr_Order req)))) (\<lambda>(ms, isEnd, nextSeq).
        ret (map pbToSnapshot ms, isEnd, nextSeq)) (b, fs))"

definition Backend_GetConversationSeqs :: "msg_rpc \<Rightarrow> GetConversationSeqsRPCRequest \<Rightarrow> (services, SeqStateSnapshot list) act" where
  "Backend_GetConversationSeqs M req =
     (\<lambda>(b, fs).
        andThen (on_db (rpc (GetConversationsSeqState (groups_lister (mr_group_faults M) (sv_groups b)) (gr_UserID req)
          (gr_ConversationIDs req)))) (\<lambda>ss.
        ret (map (pbToSeqState (mr_json M)) ss)) (b, fs))"

definition Backend_MarkConversationAsRead :: "msg_rpc \<Rightarrow> MarkConversationAsReadRPCRequest \<Rightarrow> (services, MarkReadResponse) act" where
  "Backend_MarkConversationAsRead M req =
     (\<lambda>(b, fs).
        andThen (on_db (rpc (MarkConversationAsRead (groups_lister (mr_group_faults M) (sv_groups b)) (mq_UserID req)
          (mq_ConversationID req) (mq_HasReadSeq req)))) (\<lambda>(s, updated).
        ret \<lparr>mk_ConversationID = ss_ConversationID s, mk_HasReadSeq = ss_HasReadSeq s, mk_MaxSeq = ss_MaxSeq s,
             mk_UnreadCount = ss_UnreadCount s, mk_Updated = updated\<rparr>) (b, fs))"

definition MsgRPCBackend :: "msg_rpc \<Rightarrow> services MessageBackend" where
  "MsgRPCBackend M =
     \<lparr>be_SendMessage = Backend_SendMessage M, be_PullMessages = Backend_PullMessages M,
      be_GetConversationSeqs = Backend_GetConversationSeqs M, be_MarkConversationAsRead = Backend_MarkConversationAsRead M\<rparr>"

section \<open>Who may use a conversation\<close>

definition may_use :: "group_db \<Rightarrow> string \<Rightarrow> string \<Rightarrow> bool" where
  "may_use gdb u conv \<longleftrightarrow>
     (case singleConversationParticipants conv of
        Some (a, b) \<Rightarrow> u = a \<or> u = b
      | None \<Rightarrow> (case groupIDFromConversationID conv of None \<Rightarrow> True | Some g \<Rightarrow> u \<in> active_set gdb g))"

lemma ListMembers_okD:
  assumes inv: "group_inv db" and run: "ListMembers g q (db, fs) = (Inr (g', ms), (db', fs'))" and q: "q \<noteq> []"
  shows "q \<in> active_set db g"
proof -
  have "containsActiveMember (active_rows db g) q"
    using run q unfolding ListMembers_def FindActiveByGroup_def validateOptionalID_def
    by (auto simp: runs validateRequiredID_ok split: if_splits dest!: FindOne_okD query_okD)
  then have "q \<in> m_AccountId ` set (active_rows db g)" by (auto simp: containsActiveMember_def list_ex_iff)
  then show ?thesis using active_rows_users [OF inv] by blast
qed

lemma groups_lister_ok:
  assumes "group_inv gdb" "groups_lister gf gdb = Some lister" "lister g u = Inr ms" "u \<noteq> []"
  shows "u \<in> active_set gdb g"
proof -
  obtain r W where c: "Client_ListMembers g u (gdb, gf g u) = (r, W)" by (metis surj_pair)
  with assms have "r = Inr ms" by (auto simp: groups_lister_def)
  with c obtain x db' fs' where "ListMembers g u (gdb, gf g u) = (Inr x, (db', fs'))"
    by (auto simp: Client_ListMembers_def rpc_def andThen_def split: prod.splits sum.splits)
  then show ?thesis using ListMembers_okD [OF assms(1) _ assms(4)] by (metis surj_pair)
qed

lemma read_access_may_use:
  assumes "group_inv gdb" "ensureConversationReadAccess (groups_lister gf gdb) u c = None" "u \<noteq> []"
  shows "may_use gdb u c"
proof (cases "singleConversationParticipants c")
  case (Some ab)
  then show ?thesis using assms(2) by (cases ab) (auto simp: ensureConversationReadAccess_def may_use_def split: if_splits)
next
  case None
  then show ?thesis
    using assms(2) groups_lister_ok [OF assms(1) _ _ assms(3)]
    by (auto simp: ensureConversationReadAccess_def may_use_def split: option.splits sum.splits)
qed

section \<open>Reads touch only the positions of their account\<close>

definition own_only :: "string \<Rightarrow> pg_db \<Rightarrow> pg_db \<Rightarrow> bool" where
  "own_only u db0 db \<longleftrightarrow> messages db = messages db0 \<and> threads db = threads db0
     \<and> (\<forall>v c. v \<noteq> u \<longrightarrow> map_of (states db) (v, c) = map_of (states db0) (v, c))"

lemma own_only_refl: "own_only u db db"
  by (simp add: own_only_def)

lemma own_only_repair: "own_only u db0 db \<Longrightarrow> own_only u db0 (repair_state u c db)"
  by (auto simp: own_only_def map_of_repair_state)

lemma own_only_RepairDirect: "keeps (own_only u db0) (RepairDirect u c)"
  unfolding RepairDirect_def by (rule keeps_stmt) (auto simp: own_only_repair split: option.splits if_splits)

lemma own_only_RepairAllDirect: "keeps (own_only u db0) (RepairAllDirect u)"
proof -
  have "own_only u db0 db \<Longrightarrow> own_only u db0 (fold (\<lambda>(c, t) db. if is_party u t then repair_state u c db else db) cs db)" for cs db
    by (induction cs arbitrary: db) (auto simp: own_only_repair)
  then show ?thesis unfolding RepairAllDirect_def by (intro keeps_stmt) auto
qed

lemma own_only_loading:
  "keeps (own_only u db0) (load_states b u cs)" "keeps (own_only u db0) (loadConversationSeqStates u cs)"
  "keeps (own_only u db0) (loadMessagesForUser u c fr to l ord)"
proof -
  have Q: "keeps (own_only u db0) (QuerySeqState u c)" for c
    unfolding QuerySeqState_def fetchMessageByID_def by (intro keeps_intros) (auto intro!: keeps_intros split: prod.splits)
  show L: "keeps (own_only u db0) (load_states b u cs)" for b cs
    by (induction cs) (auto intro!: keeps_intros own_only_RepairDirect Q)
  show "keeps (own_only u db0) (loadConversationSeqStates u cs)"
    unfolding loadConversationSeqStates_def ListConversationIDs_def
    by (auto intro!: keeps_intros own_only_RepairAllDirect L)
  show "keeps (own_only u db0) (loadMessagesForUser u c fr to l ord)"
    unfolding loadMessagesForUser_def UserScopedBounds_def GetMessagesInRange_def Let_def
    by (auto intro!: keeps_intros own_only_RepairDirect)
qed

lemma own_only_advance: "own_only u db0 db \<Longrightarrow> own_only u db0 (advance_read u c n db)"
  by (auto simp: own_only_def advance_read_def update_conv' split: option.splits)

lemma own_only_setHasReadSeqMax: "keeps (own_only u db0) (setHasReadSeqMax u c n)"
proof -
  have Q: "keeps (own_only u db0) (QuerySeqState u c)" for c
    unfolding QuerySeqState_def fetchMessageByID_def by (intro keeps_intros) (auto intro!: keeps_intros split: prod.splits)
  have A: "keeps (own_only u db0) (AdvanceLastReadSeq u c m)" for m
    unfolding AdvanceLastReadSeq_def by (rule keeps_stmt) (auto simp: own_only_advance)
  have "keeps (own_only u db0) (read_transaction u c n)"
    unfolding read_transaction_def LockReadState_def Let_def by (intro keeps_intros A Q) (auto intro!: keeps_intros A Q)
  then show ?thesis unfolding setHasReadSeqMax_def by (intro keeps_intros keeps_transact own_only_RepairDirect)
qed

lemma required_id: "normalizeMessageRequiredID v fld = Inr u \<Longrightarrow> u = TrimSpace v \<and> u \<noteq> []"
  by (drule normalizeMessageRequiredID_Inr) auto

lemma map_sum_Inr: "map_sum id g x = Inr y \<longleftrightarrow> (\<exists>z. x = Inr z \<and> y = g z)"
  by (cases x) auto

lemma own_only_handlers:
  "keeps (own_only (TrimSpace v) db0) (PullMessages js groups v c fr to l ord)"
  "keeps (own_only (TrimSpace v) db0) (GetConversationsSeqState groups v cs)"
  "keeps (own_only (TrimSpace v) db0) (MarkConversationAsRead groups v c n)"
proof -
  have L: "keeps I (lift_result (normalizeMessageRequiredID v ''user_id''))" for I :: "pg_db \<Rightarrow> bool" by (rule keeps_lift_result)
  have I: "keeps I (andThen (lift_result (normalizeMessageRequiredID v ''user_id'')) f)" if "keeps I (f (TrimSpace v))"
    for I :: "pg_db \<Rightarrow> bool" and f :: "string \<Rightarrow> (pg_db, 'x) act"
    using that required_id [of v "''user_id''"]
    by (cases "normalizeMessageRequiredID v ''user_id''") (auto simp: lift_result_def andThen_def ret_def raise_def keeps_def valid_def)
  show "keeps (own_only (TrimSpace v) db0) (PullMessages js groups v c fr to l ord)"
    unfolding PullMessages_def pull_messages_def Let_def
    by (intro keeps_with_status keeps_andThen I) (auto intro!: keeps_intros own_only_loading split: prod.split)
  show "keeps (own_only (TrimSpace v) db0) (GetConversationsSeqState groups v cs)"
    unfolding GetConversationsSeqState_def
    by (intro keeps_with_status I) (auto intro!: keeps_intros own_only_loading)
  show "keeps (own_only (TrimSpace v) db0) (MarkConversationAsRead groups v c n)"
    unfolding MarkConversationAsRead_def
    by (intro keeps_with_status I) (auto intro!: keeps_intros own_only_setHasReadSeqMax)
qed

lemma normalize_ids_access:
  "normalize_ids groups u raws = Inr cs \<Longrightarrow> \<forall>c\<in>set cs. ensureConversationReadAccess groups u c = None"
  by (induction raws arbitrary: cs) (auto simp: map_sum_Inr split: sum.splits option.splits)

lemma load_states_ids:
  "load_states b u cs (db, fs) = (Inr ss, (db', fs')) \<Longrightarrow> map ss_ConversationID ss = cs"
  by (induction cs arbitrary: ss db fs) (auto simp: runs dest!: QuerySeqState_okD)

lemma filter_readable:
  "filterReadableConversationStates groups u ss = Inr rs \<Longrightarrow> \<forall>s\<in>set rs. ensureConversationReadAccess groups u (ss_ConversationID s) = None"
  by (induction ss arbitrary: rs) (auto simp: map_sum_Inr split: option.splits if_splits)

lemma GetConversationsSeqState_access:
  assumes "GetConversationsSeqState groups v cs (db, fs) = (Inr ss, (db', fs'))"
  shows "\<forall>s\<in>set ss. ensureConversationReadAccess groups (TrimSpace v) (ss_ConversationID s) = None"
proof -
  obtain u ids st db1 fs1 db2 fs2 where n: "normalizeMessageRequiredID v ''user_id'' = Inr u" "normalize_ids groups u cs = Inr ids"
    and l: "loadConversationSeqStates u ids (db1, fs1) = (Inr st, (db2, fs2))"
    and r: "if ids = [] then filterReadableConversationStates groups u st = Inr ss else ss = st"
    using assms unfolding GetConversationsSeqState_def by (auto simp: runs split: if_splits)
  have u: "u = TrimSpace v" using required_id [OF n(1)] by simp
  show ?thesis
  proof (cases "ids = []")
    case True
    then show ?thesis using filter_readable r u by auto
  next
    case False
    then have "map ss_ConversationID st = ids" using l unfolding loadConversationSeqStates_def by (auto simp: runs dest!: load_states_ids)
    then show ?thesis using normalize_ids_access [OF n(2)] r False u by auto
  qed
qed

lemma PullMessages_access:
  assumes "PullMessages js groups v c fr to l ord (db, fs) = (Inr (ms, isEnd, nxt), (db', fs'))"
  shows "\<forall>m\<in>set ms. ensureConversationReadAccess groups (TrimSpace v) (pb_ConversationId m) = None"
  using assms
proof (rule PullMessages_okD)
  fix u c' f l' ord' fr' rows
  assume n: "normalizeMessageRequiredID v ''user_id'' = Inr u" and a: "ensureConversationReadAccess groups u c' = None"
    and p: "normalizePullRange fr to l ord = Inr (f, to, l', ord')"
    and ms: "ms = map (messageToPB js) rows" "(rows, isEnd, nxt) = page ord' l' fr' (readable db' u c' f to)"
  have "0 \<le> l'" using normalizePullRange_okD [OF p] by simp
  then have "set rows \<subseteq> set (readable db' u c' f to)"
    using ms(2) by (auto simp: page_eq Let_def dest: in_set_takeD split: if_splits)
  then have "\<forall>m\<in>set rows. ConversationId m = c'" using readable_mem by blast
  then show ?thesis using a required_id [OF n] by (auto simp: ms(1) messageToPB_def)
qed

section \<open>What a command can do\<close>

definition confined :: "string \<Rightarrow> services \<Rightarrow> services \<Rightarrow> bool" where
  "confined u b b' \<longleftrightarrow> sv_groups b' = sv_groups b \<and> own_only u (sv_db b) (sv_db b')
     \<and> (w_log (sv_send b') = w_log (sv_send b)
        \<or> (\<exists>e. w_log (sv_send b') = w_log (sv_send b) @ [(TopicToTransfer, e)] \<and> EventType e = EventTypeMessageSubmitted
             \<and> SenderID e = u \<and> may_use (sv_groups b) u (ConversationID e)))"

definition reply_confined :: "group_db \<Rightarrow> string \<Rightarrow> reply_data \<Rightarrow> bool" where
  "reply_confined gdb u d \<longleftrightarrow>
     (case d of
        PullData ms _ _ \<Rightarrow> \<forall>m\<in>set ms. may_use gdb u (sn_ConversationID m)
      | SeqsData ss \<Rightarrow> \<forall>s\<in>set ss. may_use gdb u (sq_ConversationID s)
      | _ \<Rightarrow> True)"

lemma confined_refl: "confined u b b"
  by (simp add: confined_def own_only_refl)

lemma SendMessage_log:
  assumes "SendMessage js media groups hash producer tr req (w, fs) = Some (r, (w', fs'))"
  shows "w_log w' = w_log w \<or> (\<exists>ns e. normalize js media groups req = Inr ns \<and> w_log w' = w_log w @ [(TopicToTransfer, e)]
     \<and> EventType e = EventTypeMessageSubmitted \<and> SenderID e = n_SenderID ns \<and> ConversationID e = n_ConversationID ns)"
proof (cases "normalize js media groups req")
  case (Inl e)
  then show ?thesis using assms by (simp add: SendMessage_def)
next
  case (Inr ns)
  show ?thesis
  proof (cases producer)
    case True
    then have "sendDirectKafka js tr ns (hash ns) (w, fs) = Some (r, (w', fs'))" using assms Inr by (simp add: SendMessage_def)
    from sendDirectKafka_cases [OF this] show ?thesis using Inr by (auto simp: Let_def submitted_event_fields)
  qed (use assms Inr in \<open>simp add: SendMessage_def\<close>)
qed

lemma normalized_may_use:
  assumes "group_inv gdb" "normalize js media (groups_lister gf gdb) req = Inr ns"
  shows "may_use gdb (n_SenderID ns) (n_ConversationID ns) \<and> n_SenderID ns = TrimSpace (r_SenderId req)"
proof -
  have wf: "send_wf js (groups_lister gf gdb) ns" and s: "n_SenderID ns = TrimSpace (r_SenderId req)"
    using normalize_Inr [OF assms(2)] by blast+
  from wf consider "singleConversationParticipants (n_ConversationID ns) = Some (orderedSingleUsers (n_SenderID ns) (n_ReceiverID ns))"
    | "resolveGroupParticipants (groups_lister gf gdb) (n_GroupID ns) (n_SenderID ns) = Inr (n_ParticipantUserIDs ns)"
      "n_ConversationID ns = GroupConversationID (n_GroupID ns)" "groupIDFromConversationID (n_ConversationID ns) = Some (n_GroupID ns)"
      "n_SenderID ns \<noteq> []"
    unfolding send_wf_def by blast
  then have "may_use gdb (n_SenderID ns) (n_ConversationID ns)"
  proof cases
    case 1
    then show ?thesis by (auto simp: may_use_def orderedSingleUsers_def split: if_splits)
  next
    case 2
    then obtain lister ms where "groups_lister gf gdb = Some lister" "lister (n_GroupID ns) (n_SenderID ns) = Inr ms"
      using resolveGroupParticipants_Inr by blast
    then have "n_SenderID ns \<in> active_set gdb (n_GroupID ns)" using groups_lister_ok [OF assms(1)] 2(4) by blast
    then show ?thesis using 2(2,3) group_id_not_single by (simp add: may_use_def)
  qed
  with s show ?thesis by blast
qed

lemma on_db_rpc:
  assumes "on_db (rpc m) (b, fs) = (r, (b', fs'))" and m: "keeps (own_only u (sv_db b)) m"
  shows "confined u b b' \<and> (\<forall>x. r = Inr x \<longrightarrow> (\<exists>db fs1. m (sv_db b, fs) = (Inr x, (db, fs1))))"
proof -
  obtain q db fs1 where p: "rpc m (sv_db b, fs) = (q, (db, fs1))" by (metis surj_pair)
  then have r: "r = q" "b' = b\<lparr>sv_db := db\<rparr>" using assms(1) by (simp_all add: on_db_def)
  obtain q' where q': "m (sv_db b, fs) = (q', (db, fs1))" "\<forall>x. q = Inr x \<longrightarrow> q' = Inr x" using rpc_state [OF p] by blast
  have "own_only u (sv_db b) db" using keepsD [OF m own_only_refl q'(1)] .
  then show ?thesis using q' r by (auto simp: confined_def)
qed

lemma Backend_SendMessage_confined:
  assumes inv: "group_inv (sv_groups b)" and run: "Backend_SendMessage M req (b, fs) = (r, (b', fs'))"
  shows "confined (TrimSpace (sr_SenderID req)) b b'"
proof -
  let ?groups = "groups_lister (mr_group_faults M) (sv_groups b)"
  let ?req = "\<lparr>r_SenderId = sr_SenderID req, r_ReceiverId = sr_ReceiverID req, r_GroupId = sr_GroupID req,
                  r_ChatType = sr_ChatType req, r_ClientMsgId = sr_ClientMsgID req, r_ContentType = sr_ContentType req,
                  r_Content = sr_Content req, r_MessageOrigin = [], r_AgentAccountId = [], r_TriggerServerMsgId = [],
                  r_AgentRunId = [], r_AllowRecursiveTrigger = False\<rparr>"
  let ?m = "\<lambda>W. case SendMessage (mr_json M) (mr_media M) ?groups (mr_hash M) (mr_producer M) (mr_trace M) ?req W of
            None \<Rightarrow> (Inl (Internal ''deadline exceeded''), W) | Some x \<Rightarrow> x"
  obtain q sw fs1 where p: "rpc ?m (sv_send b, fs) = (q, (sw, fs1))" by (rule runE)
  then have b': "b' = b\<lparr>sv_send := sw\<rparr>"
    using run by (auto simp: Backend_SendMessage_def on_send_def andThen_def ret_def split: sum.splits prod.splits)
  obtain q' where q': "?m (sv_send b, fs) = (q', (sw, fs1))" using rpc_state [OF p] by blast
  have "w_log sw = w_log (sv_send b)
      \<or> (\<exists>e. w_log sw = w_log (sv_send b) @ [(TopicToTransfer, e)] \<and> EventType e = EventTypeMessageSubmitted
           \<and> SenderID e = TrimSpace (sr_SenderID req) \<and> may_use (sv_groups b) (TrimSpace (sr_SenderID req)) (ConversationID e))"
  proof (cases "SendMessage (mr_json M) (mr_media M) ?groups (mr_hash M) (mr_producer M) (mr_trace M) ?req (sv_send b, fs)")
    case None
    then have "sw = sv_send b" using q' by simp
    then show ?thesis by simp
  next
    case (Some x)
    then have "SendMessage (mr_json M) (mr_media M) ?groups (mr_hash M) (mr_producer M) (mr_trace M) ?req (sv_send b, fs)
        = Some (q', (sw, fs1))" using q' by simp
    from SendMessage_log [OF this] show ?thesis
    proof (elim disjE exE conjE)
      fix ns e
      assume n: "normalize (mr_json M) (mr_media M) ?groups ?req = Inr ns"
        and e: "w_log sw = w_log (sv_send b) @ [(TopicToTransfer, e)]" "EventType e = EventTypeMessageSubmitted"
          "SenderID e = n_SenderID ns" "ConversationID e = n_ConversationID ns"
      from normalized_may_use [OF inv n] have "n_SenderID ns = TrimSpace (sr_SenderID req)"
        "may_use (sv_groups b) (TrimSpace (sr_SenderID req)) (n_ConversationID ns)" by auto
      with e show ?thesis by (intro disjI2 exI [of _ e]) simp
    qed blast
  qed
  then show ?thesis by (auto simp: b' confined_def own_only_refl)
qed

lemma backend_confined:
  assumes inv: "group_inv (sv_groups b)"
  shows "Backend_PullMessages M req2 (b, fs) = (r2, (b2, fs2)) \<Longrightarrow> confined (TrimSpace (pr_UserID req2)) b b2
      \<and> (\<forall>ms isEnd n. r2 = Inr (ms, isEnd, n) \<longrightarrow> reply_confined (sv_groups b) (TrimSpace (pr_UserID req2)) (PullData ms isEnd n))"
    and "Backend_GetConversationSeqs M req3 (b, fs) = (r3, (b3, fs3)) \<Longrightarrow> confined (TrimSpace (gr_UserID req3)) b b3
      \<and> (\<forall>ss. r3 = Inr ss \<longrightarrow> reply_confined (sv_groups b) (TrimSpace (gr_UserID req3)) (SeqsData ss))"
    and "Backend_MarkConversationAsRead M req4 (b, fs) = (r4, (b4, fs4)) \<Longrightarrow> confined (TrimSpace (mq_UserID req4)) b b4"
proof -
  let ?groups = "groups_lister (mr_group_faults M) (sv_groups b)"
  {
    assume r: "Backend_PullMessages M req2 (b, fs) = (r2, (b2, fs2))"
    let ?m = "PullMessages (mr_json M) ?groups (pr_UserID req2) (pr_ConversationID req2) (pr_FromSeq req2) (pr_ToSeq req2)
        (pr_Limit req2) (pr_Order req2)"
    obtain q b' fs' where p: "on_db (rpc ?m) (b, fs) = (q, (b', fs'))" by (metis surj_pair)
    note d = on_db_rpc [OF p own_only_handlers(1)]
    have b2: "b2 = b'" and q: "\<And>x. r2 = Inr x \<Longrightarrow> \<exists>ms e n. q = Inr (ms, e, n) \<and> x = (map pbToSnapshot ms, e, n)"
      using r p by (auto simp: Backend_PullMessages_def andThen_def ret_def split: sum.splits)
    have "reply_confined (sv_groups b) (TrimSpace (pr_UserID req2)) (PullData ms e n)" if x: "r2 = Inr (ms, e, n)" for ms e n
    proof -
      obtain ms0 where ms: "q = Inr (ms0, e, n)" "ms = map pbToSnapshot ms0" using q [OF x] by auto
      then obtain db fs1 where run: "?m (sv_db b, fs) = (Inr (ms0, e, n), (db, fs1))" using d by blast
      have "TrimSpace (pr_UserID req2) \<noteq> []" using run required_id by (auto elim!: PullMessages_okD)
      then show ?thesis
        using PullMessages_access [OF run] read_access_may_use [OF inv] by (auto simp: ms(2) reply_confined_def pbToSnapshot_def)
    qed
    then show "confined (TrimSpace (pr_UserID req2)) b b2
      \<and> (\<forall>ms isEnd n. r2 = Inr (ms, isEnd, n) \<longrightarrow> reply_confined (sv_groups b) (TrimSpace (pr_UserID req2)) (PullData ms isEnd n))"
      using d b2 by blast
  }
  {
    assume r: "Backend_GetConversationSeqs M req3 (b, fs) = (r3, (b3, fs3))"
    let ?m = "GetConversationsSeqState ?groups (gr_UserID req3) (gr_ConversationIDs req3)"
    obtain q b' fs' where p: "on_db (rpc ?m) (b, fs) = (q, (b', fs'))" by (metis surj_pair)
    note d = on_db_rpc [OF p own_only_handlers(2)]
    have b3: "b3 = b'" and q: "\<And>x. r3 = Inr x \<Longrightarrow> \<exists>ss. q = Inr ss \<and> x = map (pbToSeqState (mr_json M)) ss"
      using r p by (auto simp: Backend_GetConversationSeqs_def andThen_def ret_def split: sum.splits)
    have "reply_confined (sv_groups b) (TrimSpace (gr_UserID req3)) (SeqsData ss)" if x: "r3 = Inr ss" for ss
    proof -
      obtain ss0 where ss: "q = Inr ss0" "ss = map (pbToSeqState (mr_json M)) ss0" using q [OF x] by auto
      then obtain db fs1 where run: "?m (sv_db b, fs) = (Inr ss0, (db, fs1))" using d by blast
      have "TrimSpace (gr_UserID req3) \<noteq> []"
        using run required_id unfolding GetConversationsSeqState_def by (auto simp: runs)
      then show ?thesis
        using GetConversationsSeqState_access [OF run] read_access_may_use [OF inv] by (auto simp: ss(2) reply_confined_def pbToSeqState_def)
    qed
    then show "confined (TrimSpace (gr_UserID req3)) b b3
      \<and> (\<forall>ss. r3 = Inr ss \<longrightarrow> reply_confined (sv_groups b) (TrimSpace (gr_UserID req3)) (SeqsData ss))"
      using d b3 by blast
  }
  assume r: "Backend_MarkConversationAsRead M req4 (b, fs) = (r4, (b4, fs4))"
  let ?m = "MarkConversationAsRead ?groups (mq_UserID req4) (mq_ConversationID req4) (mq_HasReadSeq req4)"
  obtain q b' fs' where p: "on_db (rpc ?m) (b, fs) = (q, (b', fs'))" by (metis surj_pair)
  have "b4 = b'" using r p by (auto simp: Backend_MarkConversationAsRead_def andThen_def ret_def split: sum.splits)
  then show "confined (TrimSpace (mq_UserID req4)) b b4" using on_db_rpc [OF p own_only_handlers(3)] by blast
qed

text \<open>The gateway's own parts of a command leave the services alone.\<close>

definition aside :: "(('p, 'b) ws_gateway, 'a) act \<Rightarrow> bool" where
  "aside m \<longleftrightarrow> (\<forall>w fs r w' fs'. m (w, fs) = (r, (w', fs')) \<longrightarrow> ws_system (gw_more w') = ws_system (gw_more w))"

lemma aside_refresh: "aside (ignore (refreshPresence S now c))"
  unfolding aside_def ignore_def refreshPresence_def registerPresence_def attempt_def andThen_def on_presence_def ret_def raise_def
  by (auto split: option.splits prod.splits sum.splits if_splits)

lemma aside_allow: "allow_command S now c (w, fs) = (r, (w', fs')) \<Longrightarrow> ws_system (gw_more w') = ws_system (gw_more w) \<and> \<not> isl r"
  by (auto simp: allow_command_def split: option.splits prod.splits)

lemma on_system_run:
  assumes "on_system m (w, fs) = (r, (w', fs'))"
  shows "m (ws_system (gw_more w), fs) = (r, (ws_system (gw_more w'), fs'))"
  using assms by (auto simp: on_system_def split: prod.splits)

lemma command_run:
  assumes "andThen (lift_result p) (\<lambda>req. andThen (on_system (f req)) h) (w, fs) = (r, (w', fs'))" and h: "h = (\<lambda>x. ret (g x))"
  shows "(\<exists>e. r = Inl e \<and> w' = w)
    \<or> (\<exists>req q fs1. p = Inr req \<and> f req (ws_system (gw_more w), fs) = (q, (ws_system (gw_more w'), fs1)) \<and> r = map_sum id g q)"
proof (cases p)
  case (Inl e)
  then show ?thesis using assms(1) by (auto simp: lift_result_def andThen_def raise_def)
next
  case (Inr req)
  obtain q w1 fs1 where q: "on_system (f req) (w, fs) = (q, (w1, fs1))" by (rule runE)
  then have "w' = w1" "r = map_sum id g q" using assms(1) Inr
    by (cases q; simp add: h lift_result_def andThen_def ret_def)+
  with on_system_run [OF q] Inr show ?thesis by blast
qed

lemma command_names [simp]:
  "CommandHeartbeat \<noteq> CommandSendMessage" "CommandPullMessages \<noteq> CommandHeartbeat" "CommandPullMessages \<noteq> CommandSendMessage"
  "CommandGetConversationSeqs \<noteq> CommandHeartbeat" "CommandGetConversationSeqs \<noteq> CommandSendMessage"
  "CommandGetConversationSeqs \<noteq> CommandPullMessages" "CommandMarkConversationRead \<noteq> CommandHeartbeat"
  "CommandMarkConversationRead \<noteq> CommandSendMessage" "CommandMarkConversationRead \<noteq> CommandPullMessages"
  "CommandMarkConversationRead \<noteq> CommandGetConversationSeqs" "CommandSendMessage \<noteq> CommandHeartbeat"
  by (simp_all add: command_defs)

lemma dispatch_confined:
  assumes backend: "s_backend S = Some (MsgRPCBackend M)" and inv: "group_inv (sv_groups (ws_system (gw_more w)))"
    and run: "dispatch S now c cmd payload (w, fs) = (r, (w', fs'))"
  shows "confined (TrimSpace (c_UserID c)) (ws_system (gw_more w)) (ws_system (gw_more w'))
    \<and> (\<forall>d. r = Inr d \<longrightarrow> reply_confined (sv_groups (ws_system (gw_more w))) (TrimSpace (c_UserID c)) d)"
    (is "?state \<and> ?reply")
proof -
  let ?b = "ws_system (gw_more w)" and ?u = "c_UserID c"
  note ops = backend MsgRPCBackend_def
  consider "cmd = CommandHeartbeat" | "cmd = CommandSendMessage" | "cmd = CommandPullMessages" | "cmd = CommandGetConversationSeqs"
    | "cmd = CommandMarkConversationRead"
    | "cmd \<notin> {CommandHeartbeat, CommandSendMessage, CommandPullMessages, CommandGetConversationSeqs, CommandMarkConversationRead}"
    by blast
  then show ?thesis
  proof cases
    case 1
    obtain q w1 fs1 where q: "ignore (refreshPresence S now c) (w, fs) = (q, (w1, fs1))" by (rule runE)
    have "andThen (ignore (refreshPresence S now c)) (\<lambda>_. ret (HeartbeatData (c_ID c) (c_UserID c) (c_InstanceID c) (UnixMilli now))) (w, fs)
        = (r, (w', fs'))"
      using run 1 by (simp add: dispatch_def)
    then have "w' = w1 \<and> (\<forall>d. r = Inr d \<longrightarrow> d = HeartbeatData (c_ID c) (c_UserID c) (c_InstanceID c) (UnixMilli now))"
      unfolding andThen_def q ret_def by (cases q) auto
    moreover have "ws_system (gw_more w1) = ?b" using aside_refresh q unfolding aside_def by blast
    ultimately show ?thesis by (auto simp: confined_refl reply_confined_def)
  next
    case 2
    then have sent: "andThen (lift_result (unmarshalPayload (send_decode (s_codec S)) payload)) (\<lambda>req.
        andThen (on_system (Backend_SendMessage M (MapSendMessageRequest ?u req))) (\<lambda>(m, dup). ret (SendData m dup))) (w, fs) = (r, (w', fs'))"
      using run by (simp add: dispatch_def ops)
    have "(\<lambda>(m, dup). ret (SendData m dup)) = (\<lambda>x. ret (case x of (m, dup) \<Rightarrow> SendData m dup))" by auto
    from command_run [OF sent this] show ?thesis
    proof (elim disjE exE conjE)
      fix req q fs1
      assume q: "Backend_SendMessage M (MapSendMessageRequest ?u req) (?b, fs) = (q, (ws_system (gw_more w'), fs1))"
        and r: "r = map_sum id (\<lambda>(m, dup). SendData m dup) q"
      from Backend_SendMessage_confined [OF inv q] r show ?thesis
        by (cases q) (auto simp: MapSendMessageRequest_def reply_confined_def)
    qed (auto simp: confined_refl)
  next
    case 3
    then have sent: "andThen (lift_result (unmarshalPayload (pull_decode (s_codec S)) payload)) (\<lambda>req.
        andThen (on_system (Backend_PullMessages M (MapPullMessagesRequest ?u req))) (\<lambda>(ms, e, n). ret (PullData ms e n))) (w, fs) = (r, (w', fs'))"
      using run by (simp add: dispatch_def ops)
    have "(\<lambda>(ms, e, n). ret (PullData ms e n)) = (\<lambda>x. ret (case x of (ms, e, n) \<Rightarrow> PullData ms e n))" by auto
    from command_run [OF sent this] show ?thesis
    proof (elim disjE exE conjE)
      fix req q fs1
      assume q: "Backend_PullMessages M (MapPullMessagesRequest ?u req) (?b, fs) = (q, (ws_system (gw_more w'), fs1))"
        and r: "r = map_sum id (\<lambda>(ms, e, n). PullData ms e n) q"
      from backend_confined(1) [OF inv q] r show ?thesis
        by (cases q) (auto simp: MapPullMessagesRequest_def)
    qed (auto simp: confined_refl)
  next
    case 4
    then have "andThen (lift_result (unmarshalPayload (seqs_decode (s_codec S)) payload)) (\<lambda>req.
        andThen (on_system (Backend_GetConversationSeqs M (MapGetConversationSeqsRequest ?u req))) (\<lambda>ss. ret (SeqsData ss))) (w, fs) = (r, (w', fs'))"
      using run by (simp add: dispatch_def ops)
    from command_run [OF this refl] show ?thesis
    proof (elim disjE exE conjE)
      fix req q fs1
      assume q: "Backend_GetConversationSeqs M (MapGetConversationSeqsRequest ?u req) (?b, fs) = (q, (ws_system (gw_more w'), fs1))"
        and r: "r = map_sum id SeqsData q"
      from backend_confined(2) [OF inv q] r show ?thesis
        by (cases q) (auto simp: MapGetConversationSeqsRequest_def)
    qed (auto simp: confined_refl)
  next
    case 5
    then have "andThen (lift_result (unmarshalPayload (read_decode (s_codec S)) payload)) (\<lambda>req.
        andThen (on_system (Backend_MarkConversationAsRead M (MapMarkConversationReadRequest ?u req))) (\<lambda>x. ret (ReadData x))) (w, fs) = (r, (w', fs'))"
      using run by (simp add: dispatch_def ops)
    from command_run [OF this refl] show ?thesis
    proof (elim disjE exE conjE)
      fix req q fs1
      assume q: "Backend_MarkConversationAsRead M (MapMarkConversationReadRequest ?u req) (?b, fs) = (q, (ws_system (gw_more w'), fs1))"
        and r: "r = map_sum id ReadData q"
      from backend_confined(3) [OF inv q] r show ?thesis
        by (cases q) (auto simp: MapMarkConversationReadRequest_def reply_confined_def)
    qed (auto simp: confined_refl)
  next
    case 6
    then show ?thesis using run by (auto simp: dispatch_def raise_def confined_refl)
  qed
qed

text \<open>
  C23: a command of a WebSocket connection, handled by the gateway over the services it calls, under any failures
  and whatever the command says, acts for the account of the connection only. It publishes at most one event, a
  message sent by that account to a conversation which the account may use: a direct one it takes part in, or that of a group
  in whose tables it is an active member. It changes no stored message and no read position of another account. The
  messages and conversation states in its reply belong to conversations the account may use.
\<close>
theorem ws_commands_confined:
  assumes backend: "s_backend S = Some (MsgRPCBackend M)" and inv: "group_inv (sv_groups (ws_system (gw_more w)))"
    and run: "handleCommand S now fresh c raw (w, fs) = (r, (w', fs'))"
  shows "confined (TrimSpace (c_UserID c)) (ws_system (gw_more w)) (ws_system (gw_more w'))
    \<and> (\<exists>resp. r = Inr resp \<and> (\<forall>d. rf_Data resp = Some d \<longrightarrow>
          reply_confined (sv_groups (ws_system (gw_more w))) (TrimSpace (c_UserID c)) d))"
proof (cases "frame_decode (s_codec S) raw")
  case None
  then show ?thesis
    using run by (auto simp: handleCommand_def ret_def with_trace_def errorResponse_def Let_def confined_refl split: prod.splits)
next
  case (Some frame)
  let ?b = "ws_system (gw_more w)"
  obtain q w1 fs1 where q: "allow_command S now c (w, fs) = (q, (w1, fs1))" by (rule runE)
  then have b1: "ws_system (gw_more w1) = ?b" and "\<not> isl q" using aside_allow by blast+
  then obtain ok where ok: "q = Inr ok" by (cases q) auto
  obtain trace where rest: "(if \<not> ok then ret (with_trace trace (errorResponse (requestID frame) (commandType frame) (RateLimited ''command rate limit exceeded'')))
        else if TrimSpace (requestID frame) = []
        then ret (with_trace trace (errorResponse [] (commandType frame) (InvalidArgument ''request_id is required'')))
        else if TrimSpace (commandType frame) = []
        then ret (with_trace trace (errorResponse (requestID frame) [] (InvalidArgument ''type is required'')))
        else andThen (attempt (dispatch S now c (commandType frame) (cf_Payload frame))) (\<lambda>d. case d of
            Inl e \<Rightarrow> ret (with_trace trace (errorResponse (requestID frame) (commandType frame) e))
          | Inr v \<Rightarrow> ret \<lparr>rf_RequestID = requestID frame, rf_RequestIDCamel = requestID frame, rf_TraceID = trace, rf_TraceIDCamel = trace,
                rf_Type = commandType frame, rf_Command = commandType frame, rf_Status = ''ok'', rf_Error = None,
                rf_Data = Some v, rf_Payload = Some v\<rparr>)) (w1, fs1) = (r, (w', fs'))"
    using run Some q ok by (auto simp: handleCommand_def Let_def andThen_def [of "allow_command S now c"] split: prod.splits)
  show ?thesis
  proof (cases "ok \<and> TrimSpace (requestID frame) \<noteq> [] \<and> TrimSpace (commandType frame) \<noteq> []")
    case False
    then show ?thesis using rest b1
      by (auto simp: ret_def with_trace_def errorResponse_def Let_def confined_refl split: if_splits)
  next
    case True
    obtain d w2 fs2 where d: "dispatch S now c (commandType frame) (cf_Payload frame) (w1, fs1) = (d, (w2, fs2))" by (rule runE)
    from dispatch_confined [OF backend _ d] inv b1
    have c: "confined (TrimSpace (c_UserID c)) ?b (ws_system (gw_more w2))"
      "\<And>v. d = Inr v \<Longrightarrow> reply_confined (sv_groups ?b) (TrimSpace (c_UserID c)) v" by auto
    have "w' = w2" "\<exists>resp. r = Inr resp \<and> (\<forall>v. rf_Data resp = Some v \<longrightarrow> d = Inr v)"
      using rest True d by (cases d; auto simp: andThen_def attempt_def ret_def with_trace_def errorResponse_def Let_def)+
    with c show ?thesis by blast
  qed
qed

text \<open>A party of a direct conversation pulls its history; a raw message stands for the command of its frame.\<close>

definition demo_command_codec :: ws_codec where
  "demo_command_codec = demo_codec\<lparr>
     frame_decode := (\<lambda>raw. Some \<lparr>cf_RequestID = ''r1'', cf_RequestIDCamel = [], cf_TraceID = [], cf_TraceIDCamel = [],
       cf_Type = raw, cf_Command = [], cf_Payload = []\<rparr>),
     pull_decode := (\<lambda>_. Some \<lparr>pc_ConversationID = ''single:1:2'', pc_FromSeq = 0, pc_ToSeq = 0, pc_Limit = 2, pc_Order = []\<rparr>)\<rparr>"

definition demo_msg_rpc :: msg_rpc where
  "demo_msg_rpc = \<lparr>mr_json = demo_json, mr_media = None, mr_hash = (\<lambda>_. []), mr_producer = True, mr_trace = ([], [], [], []),
     mr_group_faults = (\<lambda>_ _. [])\<rparr>"

definition demo_services_server :: "(MemoryStore, services) Server" where
  "demo_services_server = NewServer demo_ws_lib demo_command_codec demo_env (\<lambda>x. x) memory_store ''g1'' ''s'' 100
     (Some (MsgRPCBackend demo_msg_rpc)) []"

definition demo_command_state :: "(MemoryStore, services) ws_gateway" where
  "demo_command_state = \<lparr>gw_connections = NewConnectionManager, gw_presence = NewMemoryStore, gw_out = [],
     gw_more = \<lparr>ws_accepted = [], ws_open = [], ws_closing = [], ws_ids = [], ws_lastSeen = (\<lambda>_. 0), ws_limiter = (\<lambda>_. None),
       ws_system = \<lparr>sv_send = demo_send_world, sv_db = demo_history, sv_groups = demo_groups\<rparr>\<rparr>\<rparr>"

definition demo_command :: "string \<Rightarrow> responseFrame result \<times> (MemoryStore, services) ws_gateway world" where
  "demo_command u = handleCommand demo_services_server 5 ''fresh'' (demo_conn ''c1'' u) CommandPullMessages (demo_command_state, [])"

definition pulled_numbers :: "responseFrame \<Rightarrow> int list option" where
  "pulled_numbers resp = (case rf_Data resp of Some (PullData ms _ _) \<Rightarrow> Some (map sn_Seq ms) | _ \<Rightarrow> None)"

theorem ws_commands_confined_witness:
  "\<exists>resp w'. demo_command ''2'' = (Inr resp, (w', [])) \<and> rf_RequestID resp = ''r1'' \<and> pulled_numbers resp = Some [1, 2]
     \<and> confined ''2'' (ws_system (gw_more demo_command_state)) (ws_system (gw_more w'))
     \<and> (\<forall>d. rf_Data resp = Some d \<longrightarrow> reply_confined demo_groups ''2'' d)"
proof -
  obtain r w' fs' where run: "demo_command ''2'' = (r, (w', fs'))" by (rule runE)
  have "(case fst (demo_command ''2'') of Inl _ \<Rightarrow> False | Inr resp \<Rightarrow> rf_RequestID resp = ''r1'' \<and> pulled_numbers resp = Some [1, 2])"
    "snd (snd (demo_command ''2'')) = []" by code_simp+
  then obtain resp where r: "r = Inr resp" "rf_RequestID resp = ''r1''" "pulled_numbers resp = Some [1, 2]" "fs' = []"
    using run by (auto split: sum.splits)
  have "s_backend demo_services_server = Some (MsgRPCBackend demo_msg_rpc)"
    by (simp add: demo_services_server_def NewServer_def configureWebSocket_def normalizeAuth_def split: sum.split)
  moreover have g: "sv_groups (ws_system (gw_more demo_command_state)) = demo_groups" by (simp add: demo_command_state_def)
  moreover have "TrimSpace (c_UserID (demo_conn ''c1'' ''2'')) = ''2''" by code_simp
  ultimately have "confined ''2'' (ws_system (gw_more demo_command_state)) (ws_system (gw_more w'))
     \<and> (\<forall>d. rf_Data resp = Some d \<longrightarrow> reply_confined demo_groups ''2'' d)"
    using ws_commands_confined [OF _ _ run [unfolded demo_command_def]] group_inv_demo r(1) by simp
  with run r show ?thesis by simp
qed

end
