(* ===== verification/Push.thy ===== *)
theory Push
  imports Gateway Msg_Transfer
begin

text \<open>
  The push service (\<^verbatim>\<open>service/push/internal\<close>): every accepted message of the topic \<^verbatim>\<open>msg.toPush\<close> is
  broadcast to all known gateways (\<^verbatim>\<open>gateway/broadcaster.go\<close>), and what no gateway delivered becomes an event of
  \<^verbatim>\<open>msg.toOfflinePush\<close> (\<^verbatim>\<open>pusher/online.go\<close>), which a second consumer hands to a vendor channel
  (\<^verbatim>\<open>pusher/offline.go\<close>). The gateways are those of \<^verbatim>\<open>Gateway\<close>, each behind its address, on one presence
  store. Calls that the code makes at the same time run one after another here, in the order of the connections.
\<close>

section \<open>The broadcaster\<close>

record Broadcaster =
  b_port :: string
  b_host :: string
  b_static :: "string list"
  b_dialTimeout :: int
  b_pushTimeout :: int
  b_refresh :: int

text \<open>
  The network: \<^verbatim>\<open>net.SplitHostPort\<close> and \<^verbatim>\<open>net.JoinHostPort\<close>. The addresses of a host and the outcome of dialling
  change over time, so they are arguments of each refresh.
\<close>

record net_lib =
  SplitHostPort :: "string \<Rightarrow> (string \<times> string) option"
  JoinHostPort :: "string \<Rightarrow> string \<Rightarrow> string"

definition orDefault :: "int \<Rightarrow> int \<Rightarrow> int" where
  "orDefault d fallback = (if d \<le> 0 then fallback else d)"

definition NewBroadcaster :: "net_lib \<Rightarrow> string \<Rightarrow> int \<Rightarrow> int \<Rightarrow> int \<Rightarrow> Broadcaster result" where
  "NewBroadcaster net target0 dialTimeout pushTimeout refresh =
     (let target = TrimSpace target0;
          b = \<lparr>b_port = [], b_host = [], b_static = [], b_dialTimeout = orDefault dialTimeout (5 * 10 ^ 9),
               b_pushTimeout = orDefault pushTimeout (5 * 10 ^ 9), b_refresh = orDefault refresh (30 * 10 ^ 9)\<rparr>
      in if target = [] then Inl (PlainError ''push gateway target is required'')
         else if CHR '','' \<in> set target then
           (let items = filter (\<lambda>i. i \<noteq> []) (map TrimSpace (split_on (CHR '','') target))
            in if items = [] then Inl (PlainError ''push gateway target list is empty'') else Inr (b\<lparr>b_static := items\<rparr>))
         else (case SplitHostPort net target of
             None \<Rightarrow> Inl (PlainError ''push gateway target must be host:port'')
           | Some (host, port) \<Rightarrow> Inr (b\<lparr>b_host := host, b_port := port\<rparr>)))"

text \<open>The state: the presence store, the gateways by address, the addresses the broadcaster is connected to, the broker.\<close>

record ('p, 'f, 'x) push_world =
  pw_presence :: 'p
  pw_gateways :: "(string \<times> ('p, 'f, 'x) gateway) list"
  pw_conns :: "string list"
  pw_log :: broker_log

definition targets :: "net_lib \<Rightarrow> Broadcaster \<Rightarrow> (string \<Rightarrow> string list result) \<Rightarrow> string list result" where
  "targets net b resolve =
     (if b_static b \<noteq> [] then Inr (b_static b)
      else map_sum id (\<lambda>ips. sort (map (\<lambda>ip. JoinHostPort net ip (b_port b)) ips)) (resolve (b_host b)))"

definition refreshConns ::
  "net_lib \<Rightarrow> Broadcaster \<Rightarrow> (string \<Rightarrow> string list result) \<Rightarrow> (string \<Rightarrow> bool) \<Rightarrow> (('p, 'f, 'x) push_world, unit) act" where
  "refreshConns net b resolve dial =
     andThen (lift_result (targets net b resolve)) (\<lambda>addrs.
       if addrs = [] then raise (PlainError ''no gateway instances resolved'')
       else (\<lambda>(w, fs).
         let kept = filter (\<lambda>a. a \<in> set addrs) (pw_conns w);
             conns = kept @ filter (\<lambda>a. a \<notin> set kept \<and> dial a) (remdups addrs);
             w' = w\<lparr>pw_conns := conns\<rparr>
         in if conns = [] then (Inl (PlainError ''no gateway conns established''), (w', fs)) else (Inr (), (w', fs))))"

text \<open>A unary call to the gateway at an address, which may fail on the way there and on the way back.\<close>

definition on_gateway :: "string \<Rightarrow> ('p, 'f, 'x, 'a) gw_act \<Rightarrow> (('p, 'f, 'x) push_world, 'a) act" where
  "on_gateway addr m = (\<lambda>(w, fs).
     case map_of (pw_gateways w) addr of
       None \<Rightarrow> (Inl (StatusError codes_Unavailable ''no connection''), (w, fs))
     | Some g \<Rightarrow> (case m (g\<lparr>gw_presence := pw_presence w\<rparr>, fs) of (r, (g', fs')) \<Rightarrow>
         (r, (w\<lparr>pw_presence := gw_presence g', pw_gateways := AList.update addr g' (pw_gateways w)\<rparr>, fs'))))"

record PushRequest =
  pq_ConversationID :: string
  pq_RecipientIDs :: "string list"
  pq_EventJSON :: string

record PushResult =
  ps_Delivered :: "string list"
  ps_OfflineUserIDs :: "string list"

text \<open>What each gateway is configured with: decoding, its dispatcher and its clock, by address.\<close>

record 'p fleet =
  fl_decode :: "string \<Rightarrow> DeliveryEvent result"
  fl_encode :: "DeliveryEvent \<Rightarrow> string"
  fl_dispatcher :: "string \<Rightarrow> 'p dispatcher"
  fl_now :: "string \<Rightarrow> int"

definition push_one :: "'p fleet \<Rightarrow> PushRequest \<Rightarrow> string \<Rightarrow> (('p, 'f, 'x) push_world, RecipientDeliveryResult list) act" where
  "push_one F req addr =
     remote (on_gateway addr (BatchPushOneMsg (fl_decode F) (fl_dispatcher F addr) (fl_now F addr)
       \<lparr>bp_ConversationId = pq_ConversationID req, bp_PushToUserIds = pq_RecipientIDs req, bp_EventJson = pq_EventJSON req\<rparr>))"

fun push_all ::
  "'p fleet \<Rightarrow> PushRequest \<Rightarrow> string list \<Rightarrow> (('p, 'f, 'x) push_world, RecipientDeliveryResult list result list) act" where
  "push_all F req [] = ret []"
| "push_all F req (addr # addrs) =
     andThen (attempt (push_one F req addr)) (\<lambda>r. andThen (push_all F req addrs) (\<lambda>rs. ret (r # rs)))"

definition aggregate :: "string list \<Rightarrow> RecipientDeliveryResult list result list \<Rightarrow> PushResult result" where
  "aggregate recipientIDs results =
     (case find isl results of
        Some r \<Rightarrow> Inl (Wrapped ''push: gateway broadcast failed'' (projl r))
      | None \<Rightarrow>
          (let delivered = map rd_UserId (filter (\<lambda>rd. rd_Status rd = StatusDelivered) (concat (map projr results)))
           in Inr \<lparr>ps_Delivered = delivered,
                   ps_OfflineUserIDs = filter (\<lambda>u. u \<noteq> [] \<and> u \<notin> set delivered) (map TrimSpace recipientIDs)\<rparr>))"

definition Broadcast :: "'p fleet \<Rightarrow> PushRequest \<Rightarrow> (('p, 'f, 'x) push_world, PushResult) act" where
  "Broadcast F req = (\<lambda>(w, fs).
     if pw_conns w = [] then (Inl (PlainError ''push: no gateway conns available''), (w, fs))
     else andThen (push_all F req (pw_conns w)) (\<lambda>results. lift_result (aggregate (pq_RecipientIDs req) results)) (w, fs))"

definition Broadcaster_Ready :: "('p, 'f, 'x) push_world \<Rightarrow> goerror option" where
  "Broadcaster_Ready w = (if pw_conns w = [] then Some (PlainError ''no gateway conns'') else None)"

section \<open>The online consumer\<close>

definition uniqueNonEmpty :: "string list \<Rightarrow> string list" where
  "uniqueNonEmpty values = sort (keep_first {} (filter (\<lambda>v. v \<noteq> []) (map TrimSpace values)))"

definition pushRecipients :: "MessageEvent \<Rightarrow> string list" where
  "pushRecipients event =
     uniqueNonEmpty (if p_ReceiverIDs (Payload event) = [] then [p_ReceiverID (Payload event)] else p_ReceiverIDs (Payload event))"

definition deliveryEventFromMessaging :: "MessageEvent \<Rightarrow> DeliveryEvent" where
  "deliveryEventFromMessaging event =
     (let p = Payload event in
      NewMessageEvent EventMessageReceived
        \<lparr>dm_ServerMsgID = ServerMsgID event, dm_ClientMsgID = p_ClientMsgID p, dm_ConversationID = ConversationID event,
         dm_Seq = Seq event, dm_SenderID = SenderID event, dm_ReceiverID = p_ReceiverID p, dm_GroupID = p_GroupID p,
         dm_ChatType = ChatType event, dm_ContentType = p_ContentType p, dm_Content = p_Content p, dm_ContentMetadata = [],
         dm_MessageOrigin = p_MessageOrigin p, dm_AgentAccountID = p_AgentAccountID p,
         dm_TriggerServerMsgID = p_TriggerServerMsgID p, dm_AgentRunID = p_AgentRunID p,
         dm_AllowRecursiveTrigger = p_AllowRecursiveTrigger p, dm_SendTime = p_SendTime p, dm_CreatedAt = CreatedAt event,
         dm_TraceID = p_TraceID p, dm_RequestID = p_RequestID p, dm_TraceParent = p_TraceParent p,
         dm_TraceState = p_TraceState p\<rparr>)"

definition offlinePushEvent :: "MessageEvent \<Rightarrow> string list \<Rightarrow> MessageEvent" where
  "offlinePushEvent event offlineUserIDs =
     (let offline = Clone event
      in offline\<lparr>Payload := (Payload offline)\<lparr>p_ReceiverIDs := offlineUserIDs, p_ReceiverID := []\<rparr>\<rparr>)"

text \<open>Delivery events can always be encoded, so the branch for a failed encoding is not taken.\<close>

definition Online_handleOne :: "json_lib \<Rightarrow> 'p fleet \<Rightarrow> string \<Rightarrow> (('p, 'f, 'x) push_world, unit) act" where
  "Online_handleOne js F record_value =
     (case UnmarshalMessageEvent js record_value of
        Inl _ \<Rightarrow> ret ()
      | Inr event \<Rightarrow>
          if EventType event \<noteq> EventTypeMessageAccepted then ret ()
          else let recipients = pushRecipients event in
            if recipients = [] then ret ()
            else andThen (Broadcast F \<lparr>pq_ConversationID = ConversationID event, pq_RecipientIDs = recipients,
                     pq_EventJSON = fl_encode F (deliveryEventFromMessaging event)\<rparr>) (\<lambda>result.
                 if ps_OfflineUserIDs result = [] then ret ()
                 else PublishEvent js pw_log_update TopicToOfflinePush (offlinePushEvent event (ps_OfflineUserIDs result))))"

definition Online_HandleBatch :: "json_lib \<Rightarrow> 'p fleet \<Rightarrow> string list \<Rightarrow> (('p, 'f, 'x) push_world, unit) act" where
  "Online_HandleBatch js F records = for_each (Online_handleOne js F) records"

section \<open>The offline consumer\<close>

text \<open>The vendor channel as the calls made to it; the one in use records them and succeeds.\<close>

record offline_world =
  ow_pushed :: "(string list \<times> MessageEvent) list"

definition Audit_Push :: "string list \<Rightarrow> MessageEvent \<Rightarrow> (offline_world, unit) act" where
  "Audit_Push userIDs event = modify (\<lambda>w. w\<lparr>ow_pushed := ow_pushed w @ [(userIDs, event)]\<rparr>)"

definition Offline_handleOne ::
  "json_lib \<Rightarrow> (string list \<Rightarrow> MessageEvent \<Rightarrow> (offline_world, unit) act) \<Rightarrow> string \<Rightarrow> (offline_world, unit) act" where
  "Offline_handleOne js push record_value =
     (case UnmarshalMessageEvent js record_value of
        Inl _ \<Rightarrow> ret ()
      | Inr event \<Rightarrow>
          let userIDs = uniqueNonEmpty (p_ReceiverIDs (Payload event)) in
          if userIDs = [] then ret ()
          else (\<lambda>W. case push userIDs event W of
              (Inl e, W') \<Rightarrow> (Inl (Wrapped ''offline push'' e), W')
            | (Inr u, W') \<Rightarrow> (Inr (), W')))"

definition Offline_HandleBatch ::
  "json_lib \<Rightarrow> (string list \<Rightarrow> MessageEvent \<Rightarrow> (offline_world, unit) act) \<Rightarrow> string list \<Rightarrow> (offline_world, unit) act" where
  "Offline_HandleBatch js push records = for_each (Offline_handleOne js push) records"

section \<open>Nobody is left behind\<close>

text \<open>
  \<open>owner\<close> names the account of every connection, on any gateway. A gateway's tables agree with it, and a delivery keeps that.
\<close>

definition owned :: "(string \<Rightarrow> string option) \<Rightarrow> ('p, 'f, 'x) push_world \<Rightarrow> bool" where
  "owned owner w \<longleftrightarrow> (\<forall>addr g. map_of (pw_gateways w) addr = Some g \<longrightarrow>
     conn_inv (gw_connections g)
     \<and> (\<forall>i c. map_of (byID (gw_connections g)) i = Some c \<longrightarrow> owner i = Some (c_UserID c)))"

text \<open>What was written and published stays.\<close>

definition grows :: "('p, 'f, 'x) push_world \<Rightarrow> ('p, 'f, 'x) push_world \<Rightarrow> bool" where
  "grows w w' \<longleftrightarrow> prefix (pw_log w) (pw_log w') \<and> (\<forall>addr g. map_of (pw_gateways w) addr = Some g \<longrightarrow>
     (\<exists>g'. map_of (pw_gateways w') addr = Some g' \<and> prefix (gw_out g) (gw_out g')))"

definition reached :: "(string \<Rightarrow> string option) \<Rightarrow> DeliveryEvent \<Rightarrow> string \<Rightarrow> ('p, 'f, 'x) push_world \<Rightarrow> bool" where
  "reached owner ev u w \<longleftrightarrow> (\<exists>addr g i. map_of (pw_gateways w) addr = Some g \<and> (i, EventFrame ev) \<in> set (gw_out g) \<and> owner i = Some u)"

definition handed_on :: "MessageEvent \<Rightarrow> string \<Rightarrow> ('p, 'f, 'x) push_world \<Rightarrow> bool" where
  "handed_on e u w \<longleftrightarrow> (\<exists>e'. (TopicToOfflinePush, e') \<in> set (pw_log w) \<and> u \<in> set (p_ReceiverIDs (Payload e'))
     \<and> EventID e' = EventID e \<and> ServerMsgID e' = ServerMsgID e \<and> ConversationID e' = ConversationID e)"

lemma grows_refl: "grows w w"
  by (simp add: grows_def)

lemma grows_trans: "grows w1 w2 \<Longrightarrow> grows w2 w3 \<Longrightarrow> grows w1 w3"
  unfolding grows_def by (meson prefix_order.order_trans)

lemma reached_mono: "reached owner ev u w \<Longrightarrow> grows w w' \<Longrightarrow> reached owner ev u w'"
  unfolding reached_def grows_def by (meson set_mono_prefix subsetD)

lemma handed_on_mono: "handed_on e u w \<Longrightarrow> grows w w' \<Longrightarrow> handed_on e u w'"
  unfolding handed_on_def grows_def by (meson set_mono_prefix subsetD)

lemma conns_after_delivery:
  assumes inv: "conn_inv (gw_connections g)" and step: "delivery_step ev C g g' new"
  shows "conn_inv (gw_connections g') \<and> prefix (gw_out g) (gw_out g')
    \<and> (\<forall>i c. map_of (byID (gw_connections g')) i = Some c \<longrightarrow> map_of (byID (gw_connections g)) i = Some c)"
proof -
  obtain gone where gone: "gw_connections g' = fold Unregister gone (gw_connections g)" using step by (auto simp: delivery_step_def)
  have "conn_inv m \<Longrightarrow> map_of (byID (fold Unregister gone m)) i = Some c \<Longrightarrow> map_of (byID m) i = Some c" for m i c
  proof (induction gone arbitrary: m)
    case (Cons k ks)
    have "map_of (byID (Unregister k m)) i = Some c" using Cons conn_inv_Unregister by simp
    then show ?case using Unregister_tables(1) [OF Cons.prems(1), of k i] by (simp split: if_splits)
  qed simp
  then show ?thesis using inv gone delivery_step_inv [OF step inv] step by (auto simp: delivery_step_def)
qed

lemma BatchPushOneMsg_cases:
  assumes inv: "conn_inv (gw_connections g)" and run: "BatchPushOneMsg decode d now req (g, fs) = (r, (g', fs'))"
    and ev: "decode (bp_EventJson req) = Inr ev" "bp_EventJson req \<noteq> []"
  shows "(g' = g \<and> isl r) \<or> TrimSpace (bp_ConversationId req) \<noteq> [] \<and> (\<exists>C new. delivery_step (delivered_event (bp_ConversationId req) ev) C g g' new
      \<and> (\<forall>rs rd. r = Inr rs \<longrightarrow> rd \<in> set rs \<longrightarrow> rd_Status rd = StatusDelivered \<longrightarrow>
           (\<exists>i\<in>conns_of (gw_connections g) (rd_UserId rd). (i, EventFrame (delivered_event (bp_ConversationId req) ev)) \<in> set new)))"
proof -
  let ?conv = "bp_ConversationId req" and ?ids = "bp_PushToUserIds req"
  obtain q g1 fs1 where q: "DeliverToConversation d now ?conv ?ids ev (g, fs) = (q, (g1, fs1))" by (metis surj_pair)
  have g1: "g' = g1" and r: "r = (case q of Inl e \<Rightarrow> Inl (StatusError codes_Unavailable (err_text e))
      | Inr (result, Some e) \<Rightarrow> Inl (StatusError codes_Unavailable (err_text e))
      | Inr (result, None) \<Rightarrow> Inr (map (\<lambda>rr. \<lparr>rd_UserId = rr_UserID rr, rd_Status = rr_Status rr, rd_Error = rr_Error rr\<rparr>) (dr_Recipients result)))"
    using run ev q by (auto simp: BatchPushOneMsg_def andThen_def attempt_def ret_def raise_def split: sum.splits option.splits prod.splits)
  show ?thesis
  proof (cases "TrimSpace ?conv = [] \<or> TrimSpace (de_Type ev) = []")
    case True
    then have "isl q" "g1 = g" using q by (auto simp: DeliverToConversation_unfold raise_def)
    then show ?thesis using g1 r by (auto split: sum.splits)
  next
    case False
    let ?ev = "delivered_event ?conv ev"
    from False q have "deliver_each d now ?ev {} ?ids (new_result (TrimSpace ?conv)) (g, fs) = (q, (g1, fs1))"
      by (simp add: DeliverToConversation_unfold)
    from deliver_each_safe [OF inv this refl] obtain res e new rest where
      "q = Inr (res, e)" "dr_Recipients res = dr_Recipients (new_result (TrimSpace ?conv)) @ rest"
      "list_all (outcome_ok ?ev (conns_of (gw_connections g)) new) rest" "\<exists>C. delivery_step ?ev C g g1 new"
      by (elim exE conjE) blast
    then have h: "q = Inr (res, e)" "dr_Recipients res = rest" "list_all (outcome_ok ?ev (conns_of (gw_connections g)) new) rest"
        "\<exists>C. delivery_step ?ev C g g1 new" by (simp_all add: new_result_def)
    have "\<exists>i\<in>conns_of (gw_connections g) (rd_UserId rd). (i, EventFrame ?ev) \<in> set new"
      if "r = Inr rs" "rd \<in> set rs" "rd_Status rd = StatusDelivered" for rs rd
      using that r h(1-3) by (auto simp: list_all_iff outcome_ok_def split: option.splits)
    with h(4) g1 False show ?thesis by blast
  qed
qed

text \<open>One gateway's share of a broadcast, and the whole of it.\<close>

definition push_effect ::
  "(string \<Rightarrow> string option) \<Rightarrow> ('p, 'f, 'x) push_world \<Rightarrow> ('p, 'f, 'x) push_world \<Rightarrow> bool" where
  "push_effect owner w w' \<longleftrightarrow> owned owner w' \<and> grows w w' \<and> pw_conns w' = pw_conns w \<and> pw_log w' = pw_log w"

lemma push_effect_refl: "owned owner w \<Longrightarrow> push_effect owner w w"
  by (simp add: push_effect_def grows_refl)

lemma push_effect_trans: "push_effect owner w1 w2 \<Longrightarrow> push_effect owner w2 w3 \<Longrightarrow> push_effect owner w1 w3"
  by (auto simp: push_effect_def intro: grows_trans)

definition reports_reached :: "(string \<Rightarrow> string option) \<Rightarrow> DeliveryEvent \<Rightarrow> RecipientDeliveryResult list result \<Rightarrow> ('p, 'f, 'x) push_world \<Rightarrow> bool" where
  "reports_reached owner ev r w \<longleftrightarrow>
     (\<forall>rs rd. r = Inr rs \<longrightarrow> rd \<in> set rs \<longrightarrow> rd_Status rd = StatusDelivered \<longrightarrow> reached owner ev (rd_UserId rd) w)"

lemma reports_reached_mono: "reports_reached owner ev r w \<Longrightarrow> grows w w' \<Longrightarrow> reports_reached owner ev r w'"
  unfolding reports_reached_def by (blast intro: reached_mono)

lemma gateway_push:
  assumes own: "owned owner w" and ev: "decode (bp_EventJson req) = Inr ev" "bp_EventJson req \<noteq> []"
    and run: "on_gateway addr (BatchPushOneMsg decode d now req) (w, fs) = (r, (w', fs'))"
  shows "push_effect owner w w' \<and> reports_reached owner (delivered_event (bp_ConversationId req) ev) r w'
    \<and> (isl r \<or> TrimSpace (bp_ConversationId req) \<noteq> [])"
proof (cases "map_of (pw_gateways w) addr")
  case None
  then show ?thesis using run own by (auto simp: on_gateway_def push_effect_refl reports_reached_def)
next
  case (Some g)
  let ?g = "g\<lparr>gw_presence := pw_presence w\<rparr>" and ?ev = "delivered_event (bp_ConversationId req) ev"
  obtain q g' fs1 where q: "BatchPushOneMsg decode d now req (?g, fs) = (q, (g', fs1))" by (rule runE)
  have r: "q = r" and w': "w' = w\<lparr>pw_presence := gw_presence g', pw_gateways := AList.update addr g' (pw_gateways w)\<rparr>"
    using run Some q by (auto simp: on_gateway_def)
  have g: "conn_inv (gw_connections ?g)" "\<forall>i c. map_of (byID (gw_connections ?g)) i = Some c \<longrightarrow> owner i = Some (c_UserID c)"
    using own Some by (auto simp: owned_def)
  have look: "map_of (pw_gateways w') a = (if a = addr then Some g' else map_of (pw_gateways w) a)" for a
    by (auto simp: w' update_conv')
  have conv: "isl r \<or> TrimSpace (bp_ConversationId req) \<noteq> []" using BatchPushOneMsg_cases [OF g(1) q ev] r by blast
  have eff: "conn_inv (gw_connections g') \<and> prefix (gw_out ?g) (gw_out g')
      \<and> (\<forall>i c. map_of (byID (gw_connections g')) i = Some c \<longrightarrow> map_of (byID (gw_connections ?g)) i = Some c)"
    using BatchPushOneMsg_cases [OF g(1) q ev]
  proof (elim disjE conjE exE)
    show ?thesis if "g' = ?g" using that g(1) by simp
    show ?thesis if "delivery_step ?ev C ?g g' new" for C new by (rule conns_after_delivery [OF g(1) that])
  qed
  have dlv: "\<exists>i. (i, EventFrame ?ev) \<in> set (gw_out g') \<and> owner i = Some (rd_UserId rd)"
    if rd: "r = Inr rs" "rd \<in> set rs" "rd_Status rd = StatusDelivered" for rs rd
  proof -
    from BatchPushOneMsg_cases [OF g(1) q ev] r rd obtain C new where st: "delivery_step ?ev C ?g g' new"
      and "\<exists>i\<in>conns_of (gw_connections ?g) (rd_UserId rd). (i, EventFrame ?ev) \<in> set new"
      by (auto; blast)
    then obtain i where "i \<in> conns_of (gw_connections ?g) (rd_UserId rd)" "(i, EventFrame ?ev) \<in> set new" by blast
    with st g(2) show ?thesis by (auto simp: delivery_step_def conns_of_def)
  qed
  have "owned owner w'" using own eff g(2) by (auto simp: owned_def look)
  moreover have "grows w w'" using eff Some by (auto simp: grows_def look) (auto simp: w')
  moreover have "reports_reached owner ?ev r w'" unfolding reports_reached_def reached_def
    using dlv look [of addr] by fastforce
  ultimately show ?thesis using conv by (simp add: push_effect_def w')
qed

definition carries :: "'p fleet \<Rightarrow> PushRequest \<Rightarrow> DeliveryEvent \<Rightarrow> bool" where
  "carries F req ev \<longleftrightarrow> fl_decode F (pq_EventJSON req) = Inr ev \<and> pq_EventJSON req \<noteq> []
     \<and> dm_ConversationID (de_Data ev) = pq_ConversationID req"

lemma push_one_effect:
  assumes own: "owned owner w" and ev: "carries F req ev" and run: "push_one F req addr (w, fs) = (r, (w', fs'))"
  shows "push_effect owner w w' \<and> reports_reached owner ev r w'"
  using remote_cases [OF run [unfolded push_one_def]]
proof (elim disjE conjE exE)
  assume "w' = w" "isl r"
  then show ?thesis using own by (auto simp: push_effect_refl reports_reached_def)
next
  fix fs1 q fs2
  assume "on_gateway addr (BatchPushOneMsg (fl_decode F) (fl_dispatcher F addr) (fl_now F addr)
      \<lparr>bp_ConversationId = pq_ConversationID req, bp_PushToUserIds = pq_RecipientIDs req, bp_EventJson = pq_EventJSON req\<rparr>) (w, fs1) = (q, (w', fs2))"
    and r: "\<forall>x. r = Inr x \<longrightarrow> q = Inr x"
  from gateway_push [OF own _ _ this(1)] ev have "push_effect owner w w' \<and> reports_reached owner ev q w'"
    by (auto simp: carries_def delivered_event_def reports_reached_def split: if_splits)
  with r show ?thesis by (auto simp: reports_reached_def)
qed

lemma push_all_effect:
  assumes "owned owner w" "carries F req ev" "push_all F req addrs (w, fs) = (q, (w', fs'))"
  shows "push_effect owner w w' \<and> (\<exists>rs. q = Inr rs \<and> (\<forall>r\<in>set rs. reports_reached owner ev r w'))"
  using assms(1,3)
proof (induction addrs arbitrary: w fs q w' fs')
  case Nil
  then show ?case by (auto simp: ret_def push_effect_refl)
next
  case (Cons addr addrs)
  obtain r w1 fs1 where one: "push_one F req addr (w, fs) = (r, (w1, fs1))" by (rule runE)
  obtain q2 w2 fs2 where rest: "push_all F req addrs (w1, fs1) = (q2, (w2, fs2))" by (rule runE)
  note e1 = push_one_effect [OF Cons.prems(1) assms(2) one]
  then have "owned owner w1" by (simp add: push_effect_def)
  note e2 = Cons.IH [OF this rest]
  then obtain rs where rs: "q2 = Inr rs" "\<forall>r\<in>set rs. reports_reached owner ev r w2" by blast
  have run: "q = Inr (r # rs)" "w' = w2" using Cons.prems(2) one rest rs(1) by (auto simp: andThen_def attempt_def ret_def)
  have "grows w1 w2" using e2 by (simp add: push_effect_def)
  then show ?case using e1 e2 rs run by (auto intro: push_effect_trans reports_reached_mono)
qed

lemma aggregate_complete:
  assumes "aggregate ids results = Inr res" "u \<in> set ids" "TrimSpace u = u" "u \<noteq> []"
  shows "u \<in> set (ps_OfflineUserIDs res)
    \<or> (\<exists>rs rd. Inr rs \<in> set results \<and> rd \<in> set rs \<and> rd_Status rd = StatusDelivered \<and> rd_UserId rd = u)"
proof -
  let ?done = "map rd_UserId (filter (\<lambda>rd. rd_Status rd = StatusDelivered) (concat (map projr results)))"
  have ok: "\<forall>r\<in>set results. \<not> isl r" and off: "ps_OfflineUserIDs res = filter (\<lambda>u. u \<noteq> [] \<and> u \<notin> set ?done) (map TrimSpace ids)"
    using assms(1) by (auto simp: aggregate_def find_None_iff split: option.splits)
  show ?thesis
  proof (cases "u \<in> set ?done")
    case True
    then obtain r rd where rd: "r \<in> set results" "rd \<in> set (projr r)" "rd_Status rd = StatusDelivered" "rd_UserId rd = u" by auto
    moreover from ok rd(1) have "r = Inr (projr r)" by (metis sum.collapse(2))
    ultimately show ?thesis by metis
  next
    case False
    have "TrimSpace u \<in> set (map TrimSpace ids)" using assms(2) by simp
    with False assms(3,4) show ?thesis by (simp add: off)
  qed
qed

lemma Broadcast_effect:
  assumes own: "owned owner w" and ev: "carries F req ev" and run: "Broadcast F req (w, fs) = (r, (w', fs'))"
  shows "push_effect owner w w' \<and> (\<forall>res u. r = Inr res \<longrightarrow> u \<in> set (pq_RecipientIDs req) \<longrightarrow> TrimSpace u = u \<longrightarrow> u \<noteq> [] \<longrightarrow>
    reached owner ev u w' \<or> u \<in> set (ps_OfflineUserIDs res))"
proof (cases "pw_conns w = []")
  case True
  then show ?thesis using run own by (auto simp: Broadcast_def push_effect_refl)
next
  case False
  obtain q w1 fs1 where all: "push_all F req (pw_conns w) (w, fs) = (q, (w1, fs1))" by (rule runE)
  note e = push_all_effect [OF own ev all]
  then obtain rs where rs: "q = Inr rs" "\<forall>r\<in>set rs. reports_reached owner ev r w1" by blast
  have w1: "w' = w1" and r: "r = aggregate (pq_RecipientIDs req) rs"
    using run False all rs(1)
    by (auto simp: Broadcast_def andThen_def lift_result_def ret_def raise_def split: sum.splits)
  have "reached owner ev u w' \<or> u \<in> set (ps_OfflineUserIDs res)"
    if u: "r = Inr res" "u \<in> set (pq_RecipientIDs req)" "TrimSpace u = u" "u \<noteq> []" for res u
    using aggregate_complete [OF u(1) [unfolded r] u(2-4)] rs(2) unfolding w1 reports_reached_def by blast
  with e w1 show ?thesis by simp
qed

lemma Broadcast_failed_gateway:
  fixes w :: "('p, 'f, 'x) push_world"
  assumes "addr \<in> set (pw_conns w)" "\<And>W :: ('p, 'f, 'x) push_world world. isl (fst (push_one F req addr W))"
  shows "isl (fst (Broadcast F req (w, fs)))"
proof -
  have "\<exists>rs W'. push_all F req addrs W = (Inr rs, W') \<and> (addr \<in> set addrs \<longrightarrow> (\<exists>r\<in>set rs. isl r))"
    for addrs and W :: "('p, 'f, 'x) push_world world"
  proof (induction addrs arbitrary: W)
    case (Cons a as)
    obtain r W1 where one: "push_one F req a W = (r, W1)" by (cases "push_one F req a W")
    from Cons.IH [of W1] obtain rs W2 where two: "push_all F req as W1 = (Inr rs, W2)" "addr \<in> set as \<longrightarrow> (\<exists>r\<in>set rs. isl r)" by blast
    have "isl r" if "a = addr" using one assms(2) [of W] that by simp
    with one two show ?case by (auto simp: andThen_def attempt_def ret_def)
  qed (simp add: ret_def)
  from this [of "pw_conns w" "(w, fs)"] assms(1) obtain rs W' where
    all: "push_all F req (pw_conns w) (w, fs) = (Inr rs, W')" "\<exists>r\<in>set rs. isl r" by blast
  then have "isl (aggregate (pq_RecipientIDs req) rs)"
    by (cases "find isl rs") (auto simp: aggregate_def find_None_iff)
  with all(1) assms(1) show ?thesis
    by (cases "aggregate (pq_RecipientIDs req) rs") (auto simp: Broadcast_def andThen_def lift_result_def raise_def)
qed

text \<open>The handler, for one record and for a batch.\<close>

definition delivery_codec :: "'p fleet \<Rightarrow> json_lib \<Rightarrow> string \<Rightarrow> bool" where
  "delivery_codec F js record_value \<longleftrightarrow> (\<forall>e. UnmarshalMessageEvent js record_value = Inr e \<longrightarrow>
     fl_decode F (fl_encode F (deliveryEventFromMessaging e)) = Inr (deliveryEventFromMessaging e)
     \<and> fl_encode F (deliveryEventFromMessaging e) \<noteq> [])"

definition served :: "(string \<Rightarrow> string option) \<Rightarrow> json_lib \<Rightarrow> string \<Rightarrow> ('p, 'f, 'x) push_world \<Rightarrow> bool" where
  "served owner js record_value w \<longleftrightarrow>
     (\<forall>e u. UnmarshalMessageEvent js record_value = Inr e \<longrightarrow> EventType e = EventTypeMessageAccepted \<longrightarrow> u \<in> set (pushRecipients e) \<longrightarrow>
        reached owner (deliveryEventFromMessaging e) u w \<or> handed_on e u w)"

lemma served_mono: "served owner js v w \<Longrightarrow> grows w w' \<Longrightarrow> served owner js v w'"
  unfolding served_def by (blast intro: reached_mono handed_on_mono)

lemma pushRecipients_trimmed: "u \<in> set (pushRecipients e) \<Longrightarrow> TrimSpace u = u \<and> u \<noteq> []"
  by (auto simp: pushRecipients_def uniqueNonEmpty_def set_keep_first split: if_splits)

lemma PublishEvent_effect:
  assumes own: "owned owner w" and run: "PublishEvent js pw_log_update topic e (w, fs) = (r, (w', fs'))"
  shows "owned owner w' \<and> grows w w' \<and> (r = Inr () \<longrightarrow> (topic, e) \<in> set (pw_log w'))"
proof -
  have "w' = w \<and> r \<noteq> Inr () \<or> w' = w\<lparr>pw_log := pw_log w @ [(topic, e)]\<rparr>"
    using run by (auto simp: PublishEvent_def raise_def call_def split: option.splits list.splits fault.splits)
  with own show ?thesis by (auto simp: owned_def grows_def)
qed

lemma handleOne_effect:
  assumes own: "owned owner w" and codec: "delivery_codec F js v" and run: "Online_handleOne js F v (w, fs) = (r, (w', fs'))"
  shows "owned owner w' \<and> grows w w' \<and> (r = Inr () \<longrightarrow> served owner js v w')"
proof (cases "\<exists>e. UnmarshalMessageEvent js v = Inr e \<and> EventType e = EventTypeMessageAccepted \<and> pushRecipients e \<noteq> []")
  case False
  then have "w' = w" using run by (auto simp: Online_handleOne_def ret_def Let_def split: sum.splits if_splits)
  moreover from False have "served owner js v w" by (auto simp: served_def)
  ultimately show ?thesis using own by (simp add: grows_refl)
next
  case True
  then obtain e where e: "UnmarshalMessageEvent js v = Inr e" "EventType e = EventTypeMessageAccepted" "pushRecipients e \<noteq> []" by blast
  let ?ev = "deliveryEventFromMessaging e"
  let ?req = "\<lparr>pq_ConversationID = ConversationID e, pq_RecipientIDs = pushRecipients e, pq_EventJSON = fl_encode F ?ev\<rparr>"
  obtain q w1 fs1 where q: "Broadcast F ?req (w, fs) = (q, (w1, fs1))" by (rule runE)
  have "carries F ?req ?ev"
    using codec e(1) by (simp add: carries_def delivery_codec_def deliveryEventFromMessaging_def NewMessageEvent_def Let_def)
  note b = Broadcast_effect [OF own this q]
  then have own1: "owned owner w1" and grows1: "grows w w1" by (simp_all add: push_effect_def)
  show ?thesis
  proof (cases q)
    case (Inl err)
    then have "w' = w1" "r = Inl err" using run e q by (auto simp: Online_handleOne_def andThen_def Let_def)
    with own1 grows1 show ?thesis by simp
  next
    case (Inr res)
    have all: "reached owner ?ev u w1 \<or> u \<in> set (ps_OfflineUserIDs res)" if "u \<in> set (pushRecipients e)" for u
      using b Inr that pushRecipients_trimmed [OF that] by simp
    show ?thesis
    proof (cases "ps_OfflineUserIDs res = []")
      case True
      then have "w' = w1" using run e q Inr by (auto simp: Online_handleOne_def andThen_def Let_def ret_def)
      with own1 grows1 all True e show ?thesis by (simp add: served_def)
    next
      case False
      let ?off = "offlinePushEvent e (ps_OfflineUserIDs res)"
      have pub: "PublishEvent js pw_log_update TopicToOfflinePush ?off (w1, fs1) = (r, (w', fs'))"
        using run e q Inr False by (auto simp: Online_handleOne_def andThen_def Let_def)
      note p = PublishEvent_effect [OF own1 this]
      have "handed_on e u w'" if "r = Inr ()" "u \<in> set (ps_OfflineUserIDs res)" for u
        unfolding handed_on_def using p that by (intro exI [of _ ?off]) (simp add: offlinePushEvent_def Let_def)
      moreover have "grows w1 w'" using p by blast
      ultimately have "r = Inr () \<longrightarrow> served owner js v w'"
        unfolding served_def using all e by (auto intro: reached_mono)
      with p grows1 show ?thesis by (blast intro: grows_trans)
    qed
  qed
qed

lemma HandleBatch_effect:
  assumes "\<forall>v\<in>set records. delivery_codec F js v" "owned owner w" "Online_HandleBatch js F records (w, fs) = (r, (w', fs'))"
  shows "owned owner w' \<and> grows w w' \<and> (r = Inr () \<longrightarrow> (\<forall>v\<in>set records. served owner js v w'))"
  using assms unfolding Online_HandleBatch_def
proof (induction records arbitrary: w fs)
  case Nil
  then show ?case by (simp add: ret_def grows_refl)
next
  case (Cons v vs)
  obtain q w1 fs1 where one: "Online_handleOne js F v (w, fs) = (q, (w1, fs1))" by (rule runE)
  from Cons.prems(1) have codec: "delivery_codec F js v" "\<forall>v\<in>set vs. delivery_codec F js v" by auto
  note h = handleOne_effect [OF Cons.prems(2) codec(1) one]
  show ?case
  proof (cases q)
    case (Inl e)
    with Cons.prems(3) one have "w' = w1" "r = Inl e" by (auto simp: andThen_def)
    with h show ?thesis by simp
  next
    case (Inr x)
    with Cons.prems(3) one have rest: "for_each (Online_handleOne js F) vs (w1, fs1) = (r, (w', fs'))" by (simp add: andThen_def)
    from h have "owned owner w1" by blast
    from Cons.IH [OF codec(2) this rest] h Inr show ?thesis by (auto intro: grows_trans served_mono)
  qed
qed

text \<open>
  C24: Nobody is left behind by an online push. When the push consumer commits a batch of the topic \<^verbatim>\<open>msg.toPush\<close>, after
  however many failed attempts, failed and lost calls included, each recipient of each accepted message of the batch has either been written the
  message's delivery event, by some gateway on a connection of that account, or is named in an event of the topic
  \<^verbatim>\<open>msg.toOfflinePush\<close> that carries the message's identifiers.
\<close>

theorem push_batch_reaches_everyone:
  assumes "\<forall>v\<in>set records. delivery_codec F js v" "owned owner w" "retry_batch (Online_HandleBatch js F) n records (w, fs) = Some (w', fs')"
  shows "\<forall>v\<in>set records. \<forall>e u. UnmarshalMessageEvent js v = Inr e \<longrightarrow> EventType e = EventTypeMessageAccepted \<longrightarrow> u \<in> set (pushRecipients e) \<longrightarrow>
    reached owner (deliveryEventFromMessaging e) u w' \<or> handed_on e u w'"
proof -
  have "keeps (owned owner) (Online_HandleBatch js F records)"
    unfolding keeps_def by (rule validI) (blast dest: HandleBatch_effect [OF assms(1)])+
  from retry_batch_last [OF this _ assms(3)] assms(2) obtain w0 fs0 where
    "owned owner w0" "Online_HandleBatch js F records (w0, fs0) = (Inr (), (w', fs'))" by auto
  from HandleBatch_effect [OF assms(1) this] show ?thesis unfolding served_def by blast
qed

definition demo_pushed_event :: MessageEvent where
  "demo_pushed_event =
     \<lparr>EventID = ''1'', EventType = ''message.accepted'', ConversationID = ''group:g'', ServerMsgID = ''77'', Seq = 1,
      SenderID = ''u4'', ChatType = ''group'', CreatedAt = 5,
      Payload = \<lparr>p_ClientMsgID = ''c1'', p_ReceiverID = [], p_ReceiverIDs = [''u1'', ''u3''], p_GroupID = ''g'', p_ContentType = ''text'',
        p_Content = ''x'', p_MessageOrigin = ''human'', p_AgentAccountID = [], p_TriggerServerMsgID = [],
        p_AgentRunID = [], p_AllowRecursiveTrigger = False, p_UserID = [], p_HasReadSeq = 0, p_ReadAt = 0,
        p_VisibleUserIDs = [], p_AtUserIDs = [], p_PayloadHash = [], p_SendTime = 5, p_TraceID = [],
        p_RequestID = [], p_TraceParent = [], p_TraceState = []\<rparr>\<rparr>"

definition demo_push_json :: json_lib where
  "demo_push_json = demo_json\<lparr>event_decode := \<lambda>_. Inr demo_pushed_event\<rparr>"

definition demo_fleet :: "MemoryStore fleet" where
  "demo_fleet = \<lparr>fl_decode = \<lambda>_. Inr (deliveryEventFromMessaging demo_pushed_event), fl_encode = \<lambda>ev. dm_ServerMsgID (de_Data ev),
     fl_dispatcher = \<lambda>_. NewPresenceAwareDeliveryDispatcher (Some memory_store) ''g1'', fl_now = \<lambda>_. 2000000\<rparr>"

definition demo_push_world :: "(MemoryStore, unit, unit) push_world" where
  "demo_push_world = \<lparr>pw_presence = gw_presence demo_gateway, pw_gateways = [(''g1:80'', demo_gateway)], pw_conns = [''g1:80''], pw_log = []\<rparr>"

definition demo_owner :: "string \<Rightarrow> string option" where
  "demo_owner = map_of [(''c1'', ''u1''), (''c2'', ''u2'')]"

text \<open>The first attempt loses the gateway's answer and is repeated: \<open>u1\<close> is written the message, \<open>u3\<close> is handed on.\<close>

theorem push_batch_reaches_everyone_witness:
  "\<exists>w'. retry_batch (Online_HandleBatch demo_push_json demo_fleet) 2 [''r''] (demo_push_world, [NoFault, FailAfter]) = Some w'
     \<and> pushRecipients demo_pushed_event = [''u1'', ''u3'']
     \<and> (\<forall>u\<in>{''u1'', ''u3''}. reached demo_owner (deliveryEventFromMessaging demo_pushed_event) u (fst w') \<or> handed_on demo_pushed_event u (fst w'))"
proof -
  let ?run = "retry_batch (Online_HandleBatch demo_push_json demo_fleet) 2 [''r''] (demo_push_world, [NoFault, FailAfter])"
  have "?run \<noteq> None" by code_simp
  then obtain w' fs' where run: "?run = Some (w', fs')" by (cases ?run) auto
  have un: "UnmarshalMessageEvent demo_push_json ''r'' = Inr demo_pushed_event" by code_simp
  have "conn_inv (gw_connections demo_gateway)"
  proof -
    have "map_of (byID NewConnectionManager) (c_ID (demo_conn ''c1'' ''u1'')) = None"
      "map_of (byID (snd (Register (demo_conn ''c1'' ''u1'') NewConnectionManager))) (c_ID (demo_conn ''c2'' ''u2'')) = None"
      by code_simp+
    then show ?thesis unfolding demo_gateway_def by (simp add: conn_inv_snd_Register conn_inv_new)
  qed
  moreover have "byID (gw_connections demo_gateway) = [(''c1'', demo_conn ''c1'' ''u1''), (''c2'', demo_conn ''c2'' ''u2'')]" by code_simp
  ultimately have own: "owned demo_owner demo_push_world"
    by (auto simp: owned_def demo_push_world_def demo_owner_def demo_conn_def split: if_splits)
  have "\<forall>v\<in>set [''r'']. delivery_codec demo_fleet demo_push_json v"
    using un by (auto simp: delivery_codec_def demo_fleet_def deliveryEventFromMessaging_def NewMessageEvent_def Let_def demo_pushed_event_def)
  note all = push_batch_reaches_everyone [OF this own run]
  have "EventType demo_pushed_event = EventTypeMessageAccepted" "pushRecipients demo_pushed_event = [''u1'', ''u3'']" by code_simp+
  with all un run show ?thesis by (intro exI [of _ "(w', fs')"]) simp
qed

end
