(* ===== verification/Accounts.thy ===== *)
theory Accounts
  imports Friends Id_Gen
begin

text \<open>
  The user service (\<^verbatim>\<open>service/user/rpc/internal\<close>): accounts and their profiles, two tables written together, and the
  default assistant that each new user gets as a friend. PostgreSQL's cast to a date, the RFC 3339 form of times and
  \<^verbatim>\<open>url.PathEscape\<close> are parameters; so is what agent-rpc does to its own tables when it is asked for the default
  assistant. An operation takes \<open>now\<close>, the clock of its statements, and \<open>mint\<close>, what \<^verbatim>\<open>idgen.NewAccountString\<close> returns to it.
\<close>

section \<open>Tables\<close>

definition AccountTypeAdmin :: int where "AccountTypeAdmin = 0"
definition AccountTypeUser :: int where "AccountTypeUser = 1"
definition AccountTypeAgent :: int where "AccountTypeAgent = 2"
definition AccountTypeTest :: int where "AccountTypeTest = 3"

definition GenderUnknown :: int where "GenderUnknown = 0"
definition GenderMale :: int where "GenderMale = 1"
definition GenderFemale :: int where "GenderFemale = 2"
definition GenderOther :: int where "GenderOther = 3"

lemmas account_type_consts = AccountTypeAdmin_def AccountTypeUser_def AccountTypeAgent_def AccountTypeTest_def
lemmas gender_consts = GenderUnknown_def GenderMale_def GenderFemale_def GenderOther_def

record Accounts =
  a_AccountId :: string
  a_Identifier :: string
  a_AccountType :: int
  a_EmailNormalized :: string
  a_EmailVerifiedAt :: "int option"
  a_CreatedAt :: int
  a_UpdatedAt :: int

record Profiles =
  p_DisplayName :: string
  p_Name :: string
  p_Gender :: int
  p_BirthDate :: "string option"
  p_Region :: string
  p_AvatarMediaId :: int
  p_AvatarUrl :: string
  p_CreatedAt :: int
  p_UpdatedAt :: int

text \<open>The tables by primary key, those of friends-rpc, and those of agent-rpc, which are not modelled.\<close>

record 'a user_world =
  accounts :: "(string \<times> Accounts) list"
  profiles :: "(string \<times> Profiles) list"
  friends_tables :: friend_db
  agent_tables :: 'a

record user_lib =
  pg_date :: "string \<Rightarrow> string option"
  ParseRFC3339 :: "string \<Rightarrow> int option"
  FormatRFC3339 :: "int \<Rightarrow> string"
  PathEscape :: "string \<Rightarrow> string"

definition pgUniqueViolation :: goerror where
  "pgUniqueViolation = PlainError ''23505''"

definition pgCheckViolation :: goerror where
  "pgCheckViolation = PlainError ''23514''"

fun isPostgresCode :: "goerror \<Rightarrow> goerror \<Rightarrow> bool" where
  "isPostgresCode (Wrapped _ e) code \<longleftrightarrow> isPostgresCode e code"
| "isPostgresCode e code \<longleftrightarrow> e = code"

definition IsUniqueViolation :: "goerror \<Rightarrow> bool" where
  "IsUniqueViolation err \<longleftrightarrow> isPostgresCode err pgUniqueViolation"

definition IsCheckViolation :: "goerror \<Rightarrow> bool" where
  "IsCheckViolation err \<longleftrightarrow> isPostgresCode err pgCheckViolation"

text \<open>The unique keys: the account id, the identifier, and the email address when there is one.\<close>

definition account_clash :: "Accounts \<Rightarrow> Accounts \<Rightarrow> bool" where
  "account_clash a b \<longleftrightarrow> a_AccountId a = a_AccountId b \<or> a_Identifier a = a_Identifier b
     \<or> a_EmailNormalized a \<noteq> [] \<and> a_EmailNormalized a = a_EmailNormalized b"

definition Accounts_Insert :: "Accounts \<Rightarrow> (('a, 'z) user_world_scheme, unit) act" where
  "Accounts_Insert a = stmt (\<lambda>w.
     if list_ex (\<lambda>(_, b). account_clash a b) (accounts w) then Inl pgUniqueViolation
     else Inr (w\<lparr>accounts := (a_AccountId a, a) # accounts w\<rparr>))"

record ProfileInsert =
  pi_AccountID :: string
  pi_DisplayName :: string
  pi_Name :: string
  pi_Gender :: int
  pi_BirthDate :: string
  pi_Region :: string
  pi_AvatarMediaID :: int
  pi_AvatarURL :: string

text \<open>The text of a birth date as the column's value.\<close>

definition date_column :: "user_lib \<Rightarrow> string \<Rightarrow> string option result" where
  "date_column L s = (if s = [] then Inr None else case pg_date L s of
     None \<Rightarrow> Inl (PlainError ''invalid input syntax for type date'') | Some d \<Rightarrow> Inr (Some d))"

definition InsertProfile :: "user_lib \<Rightarrow> int \<Rightarrow> ProfileInsert \<Rightarrow> (('a, 'z) user_world_scheme, unit) act" where
  "InsertProfile L now i = stmt (\<lambda>w.
     case date_column L (pi_BirthDate i) of
       Inl e \<Rightarrow> Inl e
     | Inr birth \<Rightarrow>
         if pi_AccountID i \<in> fst ` set (profiles w) then Inl pgUniqueViolation
         else Inr (w\<lparr>profiles := (pi_AccountID i,
           \<lparr>p_DisplayName = pi_DisplayName i, p_Name = pi_Name i, p_Gender = pi_Gender i, p_BirthDate = birth, p_Region = pi_Region i,
            p_AvatarMediaId = pi_AvatarMediaID i, p_AvatarUrl = pi_AvatarURL i, p_CreatedAt = now, p_UpdatedAt = now\<rparr>) # profiles w\<rparr>))"

record ProfilePatch =
  pp_DisplayName :: "string option"
  pp_Name :: "string option"
  pp_Gender :: "int option"
  pp_BirthDate :: "string option"
  pp_Region :: "string option"

definition patch_value :: "'b option \<Rightarrow> 'b \<Rightarrow> 'b" where
  "patch_value v old = (case v of None \<Rightarrow> old | Some x \<Rightarrow> x)"

definition patched :: "user_lib \<Rightarrow> int \<Rightarrow> ProfilePatch \<Rightarrow> Profiles \<Rightarrow> Profiles result" where
  "patched L now patch p =
     (let p' = p\<lparr>p_DisplayName := patch_value (pp_DisplayName patch) (p_DisplayName p), p_Name := patch_value (pp_Name patch) (p_Name p),
                p_Gender := patch_value (pp_Gender patch) (p_Gender p), p_Region := patch_value (pp_Region patch) (p_Region p),
                p_UpdatedAt := now\<rparr>
      in case pp_BirthDate patch of
           None \<Rightarrow> Inr p'
         | Some s \<Rightarrow> map_sum id (\<lambda>birth. p'\<lparr>p_BirthDate := birth\<rparr>) (if TrimSpace s = [] then Inr None else date_column L s))"

definition UpdateProfileFields :: "user_lib \<Rightarrow> int \<Rightarrow> string \<Rightarrow> ProfilePatch \<Rightarrow> (('a, 'z) user_world_scheme, unit) act" where
  "UpdateProfileFields L now accountID patch =
     (if pp_DisplayName patch = None \<and> pp_Name patch = None \<and> pp_Gender patch = None \<and> pp_BirthDate patch = None \<and> pp_Region patch = None
      then query (\<lambda>w. case map_of (profiles w) accountID of None \<Rightarrow> Inl ErrNotFound | Some _ \<Rightarrow> Inr ())
      else exec_row (\<lambda>w. case map_of (profiles w) accountID of
          None \<Rightarrow> Inl ErrNotFound
        | Some p \<Rightarrow> map_sum id (\<lambda>p'. ((), w\<lparr>profiles := AList.update accountID p' (profiles w)\<rparr>)) (patched L now patch p)))"

definition UpdateAvatar :: "int \<Rightarrow> string \<Rightarrow> int \<Rightarrow> string \<Rightarrow> (('a, 'z) user_world_scheme, unit) act" where
  "UpdateAvatar now accountID avatarMediaID avatarURL = exec_row (\<lambda>w. case map_of (profiles w) accountID of
     None \<Rightarrow> Inl ErrNotFound
   | Some p \<Rightarrow> Inr ((), w\<lparr>profiles := AList.update accountID
       (p\<lparr>p_AvatarMediaId := avatarMediaID, p_AvatarUrl := avatarURL, p_UpdatedAt := now\<rparr>) (profiles w)\<rparr>))"

section \<open>The joined view\<close>

record AccountProfile =
  ap_AccountID :: string
  ap_Identifier :: string
  ap_AccountType :: int
  ap_EmailNormalized :: string
  ap_EmailVerifiedAt :: "int option"
  ap_AccountCreatedAt :: int
  ap_AccountUpdatedAt :: int
  ap_DisplayName :: string
  ap_Name :: string
  ap_Gender :: int
  ap_BirthDate :: string
  ap_Region :: string
  ap_AvatarMediaID :: int
  ap_AvatarURL :: string
  ap_ProfileCreatedAt :: int
  ap_ProfileUpdatedAt :: int

definition join_row :: "Accounts \<Rightarrow> Profiles \<Rightarrow> AccountProfile" where
  "join_row a p =
     \<lparr>ap_AccountID = a_AccountId a, ap_Identifier = a_Identifier a, ap_AccountType = a_AccountType a,
      ap_EmailNormalized = a_EmailNormalized a, ap_EmailVerifiedAt = a_EmailVerifiedAt a, ap_AccountCreatedAt = a_CreatedAt a,
      ap_AccountUpdatedAt = a_UpdatedAt a, ap_DisplayName = p_DisplayName p, ap_Name = p_Name p, ap_Gender = p_Gender p,
      ap_BirthDate = patch_value (p_BirthDate p) [], ap_Region = p_Region p, ap_AvatarMediaID = p_AvatarMediaId p,
      ap_AvatarURL = p_AvatarUrl p, ap_ProfileCreatedAt = p_CreatedAt p, ap_ProfileUpdatedAt = p_UpdatedAt p\<rparr>"

definition joined_rows :: "(Accounts \<Rightarrow> bool) \<Rightarrow> ('a, 'z) user_world_scheme \<Rightarrow> AccountProfile list" where
  "joined_rows P w = List.map_filter (\<lambda>(k, a). if P a then map_option (join_row a) (map_of (profiles w) k) else None) (accounts w)"

definition first_row :: "'r list \<Rightarrow> 'r result" where
  "first_row rows = (case rows of [] \<Rightarrow> Inl ErrNotFound | r # _ \<Rightarrow> Inr r)"

definition FindAccountProfileByID :: "string \<Rightarrow> (('a, 'z) user_world_scheme, AccountProfile) act" where
  "FindAccountProfileByID accountID = query (\<lambda>w. first_row (joined_rows (\<lambda>a. a_AccountId a = accountID) w))"

definition FindAccountProfileByIdentifier :: "string \<Rightarrow> (('a, 'z) user_world_scheme, AccountProfile) act" where
  "FindAccountProfileByIdentifier identifier = query (\<lambda>w. first_row (joined_rows (\<lambda>a. a_Identifier a = identifier) w))"

definition ListAccountProfilesByIDs :: "string list \<Rightarrow> (('a, 'z) user_world_scheme, AccountProfile list) act" where
  "ListAccountProfilesByIDs accountIDs =
     (let args = keep_first {} (filter (\<lambda>i. i \<noteq> []) accountIDs)
      in if args = [] then ret [] else query (\<lambda>w. Inr (joined_rows (\<lambda>a. a_AccountId a \<in> set args) w)))"

definition ListAccountProfilesByType :: "int \<Rightarrow> (('a, 'z) user_world_scheme, AccountProfile list) act" where
  "ListAccountProfilesByType accountType =
     query (\<lambda>w. Inr (sort_key ap_AccountID (joined_rows (\<lambda>a. a_AccountType a = accountType) w)))"

definition RenameIdentifier :: "int \<Rightarrow> string \<Rightarrow> string \<Rightarrow> (('a, 'z) user_world_scheme, AccountProfile) act" where
  "RenameIdentifier now fromIdentifier toIdentifier =
     andThen (exec_row (\<lambda>w. case find (\<lambda>(_, a). a_Identifier a = fromIdentifier) (accounts w) of
         None \<Rightarrow> Inl ErrNotFound
       | Some (k, a) \<Rightarrow>
           if list_ex (\<lambda>(j, b). j \<noteq> k \<and> a_Identifier b = toIdentifier) (accounts w) then Inl pgUniqueViolation
           else Inr (k, w\<lparr>accounts := AList.update k (a\<lparr>a_Identifier := toIdentifier, a_UpdatedAt := now\<rparr>) (accounts w)\<rparr>)))
       FindAccountProfileByID"

definition Accounts_ExistsByIdentifier :: "string \<Rightarrow> (('a, 'z) user_world_scheme, bool) act" where
  "Accounts_ExistsByIdentifier identifier = query (\<lambda>w. Inr (list_ex (\<lambda>(_, a). a_Identifier a = identifier) (accounts w)))"

definition Accounts_CountAccounts :: "(('a, 'z) user_world_scheme, int) act" where
  "Accounts_CountAccounts = query (\<lambda>w. Inr (int (length (accounts w))))"

section \<open>Rules\<close>

text \<open>
  \<^verbatim>\<open>validateIdentifier\<close> goes over the runes; a rune beyond ASCII is refused like each of its bytes. Lower case is that of
  \<^const>\<open>ToLower\<close>, which may differ from the code in the length of a rune that is refused anyway.
\<close>

definition is_letter :: "char \<Rightarrow> bool" where
  "is_letter c \<longleftrightarrow> 0x61 \<le> (of_char c :: nat) \<and> (of_char c :: nat) \<le> 0x7A"

definition is_digit :: "char \<Rightarrow> bool" where
  "is_digit c \<longleftrightarrow> 0x30 \<le> (of_char c :: nat) \<and> (of_char c :: nat) \<le> 0x39"

definition validateIdentifier :: "string \<Rightarrow> string result" where
  "validateIdentifier identifier =
     (let normalized = ToLower (TrimSpace identifier)
      in if length normalized < 3 \<or> 32 < length normalized then Inl (InvalidArgument ''identifier must be 3 to 32 characters'')
         else if \<not> is_letter (hd normalized) \<and> \<not> is_digit (hd normalized)
         then Inl (InvalidArgument ''identifier must start with a letter or digit'')
         else if \<not> list_all (\<lambda>c. is_letter c \<or> is_digit c \<or> c = CHR ''_'') normalized
         then Inl (InvalidArgument ''identifier can only contain letters, digits, and underscore'')
         else Inr normalized)"

definition validateProfileName :: "string \<Rightarrow> string \<Rightarrow> string result" where
  "validateProfileName v what =
     (let v = TrimSpace v
      in if v = [] then Inl (InvalidArgument (what @ '' cannot be empty''))
         else if rune_count v > 64 then Inl (InvalidArgument (what @ '' must be 64 characters or fewer''))
         else Inr v)"

definition resolveNames :: "string \<Rightarrow> string \<Rightarrow> string \<Rightarrow> (string \<times> string) result" where
  "resolveNames rawDisplay rawName fallback =
     (let d0 = TrimSpace rawDisplay; n0 = TrimSpace rawName;
          (d1, n1) = (if d0 = [] \<and> n0 = [] then (fallback, fallback) else (d0, n0));
          d2 = (if d1 = [] then n1 else d1);
          n2 = (if n1 = [] then d2 else n1)
      in case validateProfileName d2 ''display_name'' of
           Inl e \<Rightarrow> Inl e
         | Inr displayName \<Rightarrow> (case validateProfileName n2 ''name'' of Inl e \<Rightarrow> Inl e | Inr name \<Rightarrow> Inr (displayName, name)))"

definition validateRegion :: "string \<Rightarrow> string result" where
  "validateRegion region =
     (let region = TrimSpace region
      in if rune_count region > 128 then Inl (InvalidArgument ''region must be 128 characters or fewer'') else Inr region)"

definition validateGender :: "string \<Rightarrow> string result" where
  "validateGender gender =
     (let gender = ToLower (TrimSpace gender)
      in if gender = [] then Inr ''unknown''
         else if gender \<in> {''unknown'', ''male'', ''female'', ''other''} then Inr gender
         else Inl (InvalidArgument ''gender must be unknown, male, female, or other''))"

definition NormalizeAccountType :: "string \<Rightarrow> string option" where
  "NormalizeAccountType v =
     (let normalized = ToLower (TrimSpace v)
      in if normalized = [] \<or> normalized = ''user'' then Some ''user''
         else if normalized \<in> {''agent'', ''admin'', ''test''} then Some normalized else None)"

definition accountTypeToDB :: "string \<Rightarrow> int result" where
  "accountTypeToDB accountType =
     (case NormalizeAccountType accountType of
        None \<Rightarrow> Inl (InvalidArgument ''account_type must be user, agent, admin, or test'')
      | Some normalized \<Rightarrow> Inr (if normalized = ''admin'' then AccountTypeAdmin
          else if normalized = ''agent'' then AccountTypeAgent
          else if normalized = ''test'' then AccountTypeTest else AccountTypeUser))"

definition accountTypeFromDB :: "int \<Rightarrow> string" where
  "accountTypeFromDB v =
     (if v = AccountTypeAdmin then ''admin'' else if v = AccountTypeAgent then ''agent''
      else if v = AccountTypeTest then ''test'' else ''user'')"

definition facetForAccountType :: "int \<Rightarrow> int" where
  "facetForAccountType accountTypeDB = (if accountTypeDB = AccountTypeAgent then FacetAgent else FacetHuman)"

definition genderToDB :: "string \<Rightarrow> int" where
  "genderToDB gender =
     (if gender = ''male'' then GenderMale else if gender = ''female'' then GenderFemale
      else if gender = ''other'' then GenderOther else GenderUnknown)"

definition genderFromDB :: "int \<Rightarrow> string" where
  "genderFromDB v =
     (if v = GenderMale then ''male'' else if v = GenderFemale then ''female''
      else if v = GenderOther then ''other'' else ''unknown'')"

definition parseEmailVerifiedAt :: "user_lib \<Rightarrow> string \<Rightarrow> int option result" where
  "parseEmailVerifiedAt L v =
     (let t = TrimSpace v
      in if t = [] then Inr None
         else case ParseRFC3339 L t of
             None \<Rightarrow> Inl (InvalidArgument ''email_verified_at must be RFC3339 or empty'')
           | Some at \<Rightarrow> Inr (Some at))"

definition DurableAvatarURL :: "user_lib \<Rightarrow> string \<Rightarrow> string" where
  "DurableAvatarURL L mediaID = (let m = TrimSpace mediaID in if m = [] then [] else ''/media/avatars/'' @ PathEscape L m)"

definition ParseAvatarMediaID :: "string \<Rightarrow> int option" where
  "ParseAvatarMediaID s = (let s = TrimSpace s in if s = [] then Some 0 else ParseInt s)"

definition FormatAvatarMediaID :: "int \<Rightarrow> string" where
  "FormatAvatarMediaID i = (if i = 0 then [] else FormatInt i)"

definition mapAccountWriteError :: "goerror \<Rightarrow> goerror" where
  "mapAccountWriteError err =
     (if IsUniqueViolation err then AlreadyExists ''identifier already exists''
      else if IsCheckViolation err then InvalidArgument ''invalid account profile or account_type'' else err)"

definition mapReadError :: "goerror \<Rightarrow> goerror" where
  "mapReadError err = (if err = ErrNotFound then NotFound ''account not found'' else err)"

definition map_error :: "(goerror \<Rightarrow> goerror) \<Rightarrow> ('w, 'a) act \<Rightarrow> ('w, 'a) act" where
  "map_error f m = (\<lambda>W. case m W of (Inl e, W') \<Rightarrow> (Inl (f e), W') | r \<Rightarrow> r)"

record UserEntity =
  u_UserId :: string
  u_Identifier :: string
  u_DisplayName :: string
  u_Name :: string
  u_Gender :: string
  u_BirthDate :: string
  u_Region :: string
  u_AccountType :: string
  u_AvatarMediaId :: string
  u_Email :: string
  u_AvatarUrl :: string
  u_CreatedAt :: int
  u_UpdatedAt :: int

definition unixMilli :: "int \<Rightarrow> int" where
  "unixMilli t = t div 10 ^ 6"

definition toUserEntity :: "AccountProfile \<Rightarrow> UserEntity" where
  "toUserEntity ap =
     \<lparr>u_UserId = ap_AccountID ap, u_Identifier = ap_Identifier ap, u_DisplayName = ap_DisplayName ap, u_Name = ap_Name ap,
      u_Gender = genderFromDB (ap_Gender ap), u_BirthDate = ap_BirthDate ap, u_Region = ap_Region ap,
      u_AccountType = accountTypeFromDB (ap_AccountType ap), u_AvatarMediaId = FormatAvatarMediaID (ap_AvatarMediaID ap),
      u_Email = ap_EmailNormalized ap, u_AvatarUrl = ap_AvatarURL ap, u_CreatedAt = unixMilli (ap_ProfileCreatedAt ap),
      u_UpdatedAt = unixMilli (ap_ProfileUpdatedAt ap)\<rparr>"

section \<open>Default assistant\<close>

text \<open>
  What one request runs with: the libraries, its clock, the ids it is given (at most one of each facet), and
  \<^verbatim>\<open>EnsureDefaultAssistant\<close> of agent-rpc on that service's tables.
\<close>

record 'a user_env =
  ue_lib :: user_lib
  ue_now :: int
  ue_mint :: "int \<Rightarrow> string result"
  ue_agent :: "string \<Rightarrow> ('a, string) act"

definition defaultAssistantIdentifier :: string where "defaultAssistantIdentifier = ''agent_creator''"
definition defaultAssistantLegacyIdentifier :: string where "defaultAssistantLegacyIdentifier = ''agent_father''"

text \<open>The display name is in Chinese; its UTF-8 bytes.\<close>

definition defaultAssistantDisplayName :: string where
  "defaultAssistantDisplayName =
     ''AI '' @ [CHR 0xE5, CHR 0x8A, CHR 0xA9, CHR 0xE6, CHR 0x89, CHR 0x8B]"

record User =
  us_AccountID :: string
  us_Identifier :: string
  us_Email :: string
  us_EmailVerifiedAt :: "int option"
  us_DisplayName :: string
  us_Name :: string
  us_Gender :: string
  us_BirthDate :: string
  us_Region :: string
  us_AccountType :: string
  us_AvatarMediaID :: string
  us_AvatarURL :: string

definition toShareUser :: "AccountProfile \<Rightarrow> User" where
  "toShareUser ap =
     \<lparr>us_AccountID = ap_AccountID ap, us_Identifier = ap_Identifier ap, us_Email = ap_EmailNormalized ap,
      us_EmailVerifiedAt = ap_EmailVerifiedAt ap, us_DisplayName = ap_DisplayName ap, us_Name = ap_Name ap,
      us_Gender = genderFromDB (ap_Gender ap), us_BirthDate = ap_BirthDate ap, us_Region = ap_Region ap,
      us_AccountType = accountTypeFromDB (ap_AccountType ap), us_AvatarMediaID = FormatAvatarMediaID (ap_AvatarMediaID ap),
      us_AvatarURL = ap_AvatarURL ap\<rparr>"

definition mapAssistantWriteError :: "goerror \<Rightarrow> goerror" where
  "mapAssistantWriteError err = (if err = ErrNotFound then NotFound ''account not found'' else mapAccountWriteError err)"

text \<open>Both rows of a new account and the joined view of them: the body of the transactions that create one.\<close>

definition create_rows :: "user_lib \<Rightarrow> int \<Rightarrow> Accounts \<Rightarrow> ProfileInsert \<Rightarrow> (('a, 'z) user_world_scheme, AccountProfile) act" where
  "create_rows L now a i =
     andThen (Accounts_Insert a) (\<lambda>_. andThen (InsertProfile L now i) (\<lambda>_. FindAccountProfileByID (a_AccountId a)))"

definition Repo_Create :: "'a user_env \<Rightarrow> User \<Rightarrow> (('a, 'z) user_world_scheme, User) act" where
  "Repo_Create E account =
     (case accountTypeToDB (us_AccountType account) of
        Inl e \<Rightarrow> raise e
      | Inr accountTypeDB \<Rightarrow>
          andThen (lift_result (let given = TrimSpace (us_AccountID account)
              in if given = [] then ue_mint E (facetForAccountType accountTypeDB) else Inr given)) (\<lambda>accountID.
            case ParseAvatarMediaID (us_AvatarMediaID account) of
              None \<Rightarrow> raise (InvalidArgument ''avatar_media_id must be a decimal media id'')
            | Some avatarMediaID \<Rightarrow>
                andThen (map_error mapAssistantWriteError (transact (create_rows (ue_lib E) (ue_now E)
                    \<lparr>a_AccountId = accountID, a_Identifier = us_Identifier account, a_AccountType = accountTypeDB,
                     a_EmailNormalized = TrimSpace (us_Email account), a_EmailVerifiedAt = us_EmailVerifiedAt account,
                     a_CreatedAt = ue_now E, a_UpdatedAt = ue_now E\<rparr>
                    \<lparr>pi_AccountID = accountID, pi_DisplayName = us_DisplayName account, pi_Name = us_Name account,
                     pi_Gender = genderToDB (us_Gender account), pi_BirthDate = us_BirthDate account, pi_Region = us_Region account,
                     pi_AvatarMediaID = avatarMediaID, pi_AvatarURL = TrimSpace (us_AvatarURL account)\<rparr>)))
                  (\<lambda>created. ret (toShareUser created))))"

definition Repo_GetByID :: "string \<Rightarrow> (('a, 'z) user_world_scheme, User) act" where
  "Repo_GetByID accountID = andThen (map_error mapReadError (FindAccountProfileByID accountID)) (\<lambda>ap. ret (toShareUser ap))"

definition Repo_GetByIdentifier :: "string \<Rightarrow> (('a, 'z) user_world_scheme, User) act" where
  "Repo_GetByIdentifier identifier =
     andThen (map_error mapReadError (FindAccountProfileByIdentifier identifier)) (\<lambda>ap. ret (toShareUser ap))"

definition Repo_ListByAccountType :: "string \<Rightarrow> (('a, 'z) user_world_scheme, User list) act" where
  "Repo_ListByAccountType accountType =
     andThen (lift_result (accountTypeToDB accountType)) (\<lambda>t. andThen (ListAccountProfilesByType t) (\<lambda>aps. ret (map toShareUser aps)))"

definition Repo_RenameIdentifier :: "int \<Rightarrow> string \<Rightarrow> string \<Rightarrow> (('a, 'z) user_world_scheme, User) act" where
  "Repo_RenameIdentifier now fromIdentifier toIdentifier =
     andThen (map_error mapAssistantWriteError
         (RenameIdentifier now (ToLower (TrimSpace fromIdentifier)) (ToLower (TrimSpace toIdentifier))))
       (\<lambda>ap. ret (toShareUser ap))"

definition Repo_UpdateProfile :: "user_lib \<Rightarrow> int \<Rightarrow> string \<Rightarrow> ProfilePatch \<Rightarrow> (('a, 'z) user_world_scheme, User) act" where
  "Repo_UpdateProfile L now accountID patch =
     andThen (map_error mapAssistantWriteError (UpdateProfileFields L now accountID patch)) (\<lambda>_. Repo_GetByID accountID)"

definition isAppNotFound :: "goerror \<Rightarrow> bool" where
  "isAppNotFound err \<longleftrightarrow> (case From (Some err) of Some (c, _) \<Rightarrow> c = CodeNotFound | None \<Rightarrow> False)"

definition ensureAssistantProfile :: "'a user_env \<Rightarrow> User \<Rightarrow> (('a, 'z) user_world_scheme, User) act" where
  "ensureAssistantProfile E account =
     (if us_AccountType account \<noteq> ''agent'' then raise (InvalidArgument ''agent_creator account_type must be agent'')
      else if us_DisplayName account = defaultAssistantDisplayName \<and> us_Name account = defaultAssistantIdentifier then ret account
      else Repo_UpdateProfile (ue_lib E) (ue_now E) (us_AccountID account)
        \<lparr>pp_DisplayName = Some defaultAssistantDisplayName, pp_Name = Some defaultAssistantIdentifier, pp_Gender = None,
         pp_BirthDate = None, pp_Region = None\<rparr>)"

definition new_assistant :: User where
  "new_assistant =
     \<lparr>us_AccountID = [], us_Identifier = defaultAssistantIdentifier, us_Email = [], us_EmailVerifiedAt = None,
      us_DisplayName = defaultAssistantDisplayName, us_Name = defaultAssistantIdentifier, us_Gender = ''unknown'',
      us_BirthDate = [], us_Region = [], us_AccountType = ''agent'', us_AvatarMediaID = [], us_AvatarURL = []\<rparr>"

definition ensureAssistantAccount :: "'a user_env \<Rightarrow> (('a, 'z) user_world_scheme, User) act" where
  "ensureAssistantAccount E =
     andThen (attempt (Repo_GetByIdentifier defaultAssistantIdentifier)) (\<lambda>r. case r of
         Inr account \<Rightarrow> ensureAssistantProfile E account
       | Inl err \<Rightarrow>
           if \<not> isAppNotFound err then raise err
           else andThen (attempt (Repo_GetByIdentifier defaultAssistantLegacyIdentifier)) (\<lambda>legacy. case legacy of
               Inr account \<Rightarrow>
                 andThen (Repo_RenameIdentifier (ue_now E) (us_Identifier account) defaultAssistantIdentifier)
                   (\<lambda>renamed. ensureAssistantProfile E renamed)
             | Inl legacyErr \<Rightarrow> if \<not> isAppNotFound legacyErr then raise legacyErr else Repo_Create E new_assistant))"

definition on_agents :: "('a, 'r) act \<Rightarrow> (('a, 'z) user_world_scheme, 'r) act" where
  "on_agents = zoom agent_tables (\<lambda>t w. w\<lparr>agent_tables := t\<rparr>)"

definition on_friends :: "(friend_db, 'r) act \<Rightarrow> (('a, 'z) user_world_scheme, 'r) act" where
  "on_friends = zoom friends_tables (\<lambda>t w. w\<lparr>friends_tables := t\<rparr>)"

definition ensureAssistant :: "'a user_env \<Rightarrow> (('a, 'z) user_world_scheme, User \<times> string) act" where
  "ensureAssistant E =
     andThen (ensureAssistantAccount E) (\<lambda>account.
     andThen (rpc (remote (on_agents (ue_agent E (us_AccountID account))))) (\<lambda>agentID. ret (account, agentID)))"

definition ensureFriendship :: "int \<Rightarrow> string \<Rightarrow> string \<Rightarrow> (('a, 'z) user_world_scheme, unit) act" where
  "ensureFriendship now userID friendID =
     andThen (rpc (remote (on_friends (EnsureFriendship now userID friendID)))) (\<lambda>_. ret ())"

definition EnsureForUser :: "'a user_env \<Rightarrow> string \<Rightarrow> (('a, 'z) user_world_scheme, unit) act" where
  "EnsureForUser E accountID =
     andThen (Repo_GetByID accountID) (\<lambda>account.
       if us_AccountType account \<noteq> ''user'' \<and> us_AccountType account \<noteq> ''test'' then ret ()
       else andThen (ensureAssistant E) (\<lambda>(assistant, _).
         if us_AccountID account = us_AccountID assistant then ret ()
         else ensureFriendship (ue_now E) (us_AccountID account) (us_AccountID assistant)))"

definition Backfill :: "'a user_env \<Rightarrow> (('a, 'z) user_world_scheme, string \<times> string \<times> int) act" where
  "Backfill E =
     andThen (ensureAssistant E) (\<lambda>(assistant, agentID).
     andThen (Repo_ListByAccountType ''user'') (\<lambda>humans.
     andThen (for_each (\<lambda>human. if us_AccountID human = us_AccountID assistant then ret ()
         else ensureFriendship (ue_now E) (us_AccountID human) (us_AccountID assistant)) humans) (\<lambda>_.
     ret (us_AccountID assistant, agentID, int (length humans)))))"

section \<open>Handlers\<close>

record CreateUserRequest =
  cu_Identifier :: string
  cu_Email :: string
  cu_EmailVerifiedAt :: string
  cu_DisplayName :: string
  cu_Name :: string
  cu_Gender :: string
  cu_BirthDate :: string
  cu_Region :: string
  cu_AccountType :: string

text \<open>The rows that a request asks for, or what is wrong with it.\<close>

definition user_rows :: "'a user_env \<Rightarrow> CreateUserRequest \<Rightarrow> (Accounts \<times> ProfileInsert) result" where
  "user_rows E req =
     (case validateIdentifier (cu_Identifier req) of Inl e \<Rightarrow> Inl e | Inr identifier \<Rightarrow>
      case resolveNames (cu_DisplayName req) (cu_Name req) identifier of Inl e \<Rightarrow> Inl e | Inr (displayName, name) \<Rightarrow>
      case validateGender (cu_Gender req) of Inl e \<Rightarrow> Inl e | Inr gender \<Rightarrow>
      case validateRegion (cu_Region req) of Inl e \<Rightarrow> Inl e | Inr region \<Rightarrow>
      case accountTypeToDB (cu_AccountType req) of Inl e \<Rightarrow> Inl e | Inr accountTypeDB \<Rightarrow>
      case ue_mint E (facetForAccountType accountTypeDB) of Inl e \<Rightarrow> Inl e | Inr accountID \<Rightarrow>
      case parseEmailVerifiedAt (ue_lib E) (cu_EmailVerifiedAt req) of Inl e \<Rightarrow> Inl e | Inr emailVerifiedAt \<Rightarrow>
      Inr (\<lparr>a_AccountId = accountID, a_Identifier = identifier, a_AccountType = accountTypeDB,
            a_EmailNormalized = TrimSpace (cu_Email req), a_EmailVerifiedAt = emailVerifiedAt,
            a_CreatedAt = ue_now E, a_UpdatedAt = ue_now E\<rparr>,
           \<lparr>pi_AccountID = accountID, pi_DisplayName = displayName, pi_Name = name, pi_Gender = genderToDB gender,
            pi_BirthDate = TrimSpace (cu_BirthDate req), pi_Region = region, pi_AvatarMediaID = 0, pi_AvatarURL = []\<rparr>))"

definition CreateUser :: "'a user_env \<Rightarrow> CreateUserRequest \<Rightarrow> (('a, 'z) user_world_scheme, UserEntity) act" where
  "CreateUser E req =
     with_status (
     andThen (lift_result (user_rows E req)) (\<lambda>(a, i).
     andThen (map_error mapAccountWriteError (transact (create_rows (ue_lib E) (ue_now E) a i))) (\<lambda>created.
     andThen (if ap_AccountType created = AccountTypeUser then EnsureForUser E (ap_AccountID created) else ret ()) (\<lambda>_.
     ret (toUserEntity created)))))"

definition test_rows :: "'a user_env \<Rightarrow> string \<Rightarrow> string \<Rightarrow> string \<Rightarrow> (Accounts \<times> ProfileInsert) result" where
  "test_rows E identifier displayName name =
     (case ue_mint E (facetForAccountType AccountTypeTest) of Inl e \<Rightarrow> Inl e | Inr accountID \<Rightarrow>
      Inr (\<lparr>a_AccountId = accountID, a_Identifier = identifier, a_AccountType = AccountTypeTest, a_EmailNormalized = [],
            a_EmailVerifiedAt = None, a_CreatedAt = ue_now E, a_UpdatedAt = ue_now E\<rparr>,
           \<lparr>pi_AccountID = accountID, pi_DisplayName = displayName, pi_Name = name, pi_Gender = GenderUnknown,
            pi_BirthDate = [], pi_Region = [], pi_AvatarMediaID = 0, pi_AvatarURL = []\<rparr>))"

text \<open>The result says whether the account was there already.\<close>

definition CreateTestAccount :: "'a user_env \<Rightarrow> string \<Rightarrow> string \<Rightarrow> (('a, 'z) user_world_scheme, UserEntity \<times> bool) act" where
  "CreateTestAccount E rawIdentifier rawDisplayName =
     with_status (
     andThen (lift_result (validateIdentifier rawIdentifier)) (\<lambda>identifier.
     andThen (lift_result (resolveNames rawDisplayName [] identifier)) (\<lambda>(displayName, name).
     andThen (found (FindAccountProfileByIdentifier identifier)) (\<lambda>existing. case existing of
         Some ap \<Rightarrow>
           if ap_AccountType ap \<noteq> AccountTypeTest then raise (AlreadyExists ''identifier already exists as non-test account'')
           else ret (toUserEntity ap, True)
       | None \<Rightarrow>
           andThen (lift_result (test_rows E identifier displayName name)) (\<lambda>(a, i).
           andThen (map_error mapAccountWriteError (transact (create_rows (ue_lib E) (ue_now E) a i))) (\<lambda>created.
           andThen (EnsureForUser E (ap_AccountID created)) (\<lambda>_.
           ret (toUserEntity created, False))))))))"

definition ExistsByIdentifier :: "string \<Rightarrow> (('a, 'z) user_world_scheme, string \<times> bool) act" where
  "ExistsByIdentifier rawIdentifier =
     with_status (
     andThen (lift_result (validateIdentifier rawIdentifier)) (\<lambda>identifier.
     andThen (Accounts_ExistsByIdentifier identifier) (\<lambda>exists. ret (identifier, exists))))"

definition GetUserByID :: "string \<Rightarrow> (('a, 'z) user_world_scheme, UserEntity) act" where
  "GetUserByID rawUser =
     with_status (
     let userID = TrimSpace rawUser
     in if userID = [] then raise (InvalidArgument ''user_id is required'')
        else andThen (map_error mapReadError (FindAccountProfileByID userID)) (\<lambda>ap. ret (toUserEntity ap)))"

definition GetUserByIdentifier :: "string \<Rightarrow> (('a, 'z) user_world_scheme, UserEntity) act" where
  "GetUserByIdentifier rawIdentifier =
     with_status (
     andThen (lift_result (validateIdentifier rawIdentifier)) (\<lambda>identifier.
     andThen (map_error mapReadError (FindAccountProfileByIdentifier identifier)) (\<lambda>ap. ret (toUserEntity ap))))"

definition GetUsersByIDs :: "string list \<Rightarrow> (('a, 'z) user_world_scheme, UserEntity list) act" where
  "GetUsersByIDs rawIDs =
     with_status (
     andThen (ListAccountProfilesByIDs (filter (\<lambda>i. i \<noteq> []) (map TrimSpace rawIDs))) (\<lambda>rows. ret (map toUserEntity rows)))"

definition CountAccounts :: "(('a, 'z) user_world_scheme, int) act" where
  "CountAccounts = with_status Accounts_CountAccounts"

record UpdateUserProfileRequest =
  up_UserId :: string
  up_DisplayName :: "string option"
  up_Name :: "string option"
  up_Gender :: "string option"
  up_BirthDate :: "string option"
  up_Region :: "string option"

definition optional :: "('x \<Rightarrow> 'y result) \<Rightarrow> 'x option \<Rightarrow> 'y option result" where
  "optional f v = (case v of None \<Rightarrow> Inr None | Some x \<Rightarrow> map_sum id Some (f x))"

definition buildProfilePatch :: "UpdateUserProfileRequest \<Rightarrow> ProfilePatch result" where
  "buildProfilePatch req =
     (case optional (\<lambda>v. validateProfileName v ''display_name'') (up_DisplayName req) of Inl e \<Rightarrow> Inl e | Inr displayName \<Rightarrow>
      case optional (\<lambda>v. validateProfileName v ''name'') (up_Name req) of Inl e \<Rightarrow> Inl e | Inr name \<Rightarrow>
      case optional (\<lambda>v. map_sum id genderToDB (validateGender v)) (up_Gender req) of Inl e \<Rightarrow> Inl e | Inr gender \<Rightarrow>
      case optional validateRegion (up_Region req) of Inl e \<Rightarrow> Inl e | Inr region \<Rightarrow>
      Inr \<lparr>pp_DisplayName = (if displayName = None then name else displayName), pp_Name = (if name = None then displayName else name),
           pp_Gender = gender, pp_BirthDate = map_option TrimSpace (up_BirthDate req), pp_Region = region\<rparr>)"

definition UpdateUserProfile :: "'a user_env \<Rightarrow> UpdateUserProfileRequest \<Rightarrow> (('a, 'z) user_world_scheme, UserEntity) act" where
  "UpdateUserProfile E req =
     with_status (
     let userID = TrimSpace (up_UserId req)
     in if userID = [] then raise (InvalidArgument ''user_id is required'')
        else andThen (lift_result (buildProfilePatch req)) (\<lambda>patch.
             andThen (map_error mapReadError (UpdateProfileFields (ue_lib E) (ue_now E) userID patch)) (\<lambda>_.
             andThen (map_error mapReadError (FindAccountProfileByID userID)) (\<lambda>ap. ret (toUserEntity ap)))))"

text \<open>\<open>verdict\<close> is the answer of media-rpc, whose error is passed on as it is.\<close>

definition UpdateUserAvatar ::
  "'a user_env \<Rightarrow> (string \<Rightarrow> string \<Rightarrow> goerror option) \<Rightarrow> string \<Rightarrow> string \<Rightarrow> (('a, 'z) user_world_scheme, UserEntity) act" where
  "UpdateUserAvatar E verdict rawUser rawMedia =
     andThen transport (\<lambda>_. andThen (check (map_option over_wire (verdict rawUser rawMedia))) (\<lambda>_.
     with_status (
     let userID = TrimSpace rawUser; mediaID = TrimSpace rawMedia
     in if userID = [] then raise (InvalidArgument ''user_id is required'')
        else if mediaID = [] then raise (InvalidArgument ''media_id is required'')
        else (case ParseAvatarMediaID mediaID of
            None \<Rightarrow> raise (InvalidArgument ''avatar_media_id must be a decimal media id'')
          | Some avatarMediaID \<Rightarrow>
              andThen (map_error mapReadError (UpdateAvatar (ue_now E) userID avatarMediaID (DurableAvatarURL (ue_lib E) mediaID))) (\<lambda>_.
              andThen (map_error mapReadError (FindAccountProfileByID userID)) (\<lambda>ap. ret (toUserEntity ap)))))))"

section \<open>Well-formed tables\<close>

text \<open>An id as \<^verbatim>\<open>idgen.NewAccountString\<close> returns it, and requests that are given such ids.\<close>

definition minted :: "int \<Rightarrow> string \<Rightarrow> bool" where
  "minted f i \<longleftrightarrow> (\<exists>g clk n g' clk'. Account_wf g \<and> Account_Next g f clk = Some (Inr n, g', clk') \<and> n \<noteq> 0 \<and> i = FormatInt n)"

definition mints_accounts :: "'a user_env \<Rightarrow> bool" where
  "mints_accounts E \<longleftrightarrow> (\<forall>f i. ue_mint E f = Inr i \<longrightarrow> minted f i)"

lemma mint_facet: "mints_accounts E \<Longrightarrow> ue_mint E f = Inr i \<Longrightarrow> IsAgentAccountID i \<longleftrightarrow> f = FacetAgent"
  unfolding mints_accounts_def minted_def using Account_Next_facet by blast

text \<open>The rules that every row of an account and of a profile obeys, and the tables.\<close>

definition account_ok :: "Accounts \<Rightarrow> bool" where
  "account_ok a \<longleftrightarrow> validateIdentifier (a_Identifier a) = Inr (a_Identifier a)
     \<and> a_AccountType a \<in> {AccountTypeAdmin, AccountTypeUser, AccountTypeAgent, AccountTypeTest}
     \<and> (IsAgentAccountID (a_AccountId a) \<longleftrightarrow> a_AccountType a = AccountTypeAgent)"

definition name_ok :: "string \<Rightarrow> bool" where
  "name_ok s \<longleftrightarrow> s \<noteq> [] \<and> rune_count s \<le> 64"

definition gender_ok :: "int \<Rightarrow> bool" where
  "gender_ok g \<longleftrightarrow> g \<in> {GenderUnknown, GenderMale, GenderFemale, GenderOther}"

definition profile_ok :: "Profiles \<Rightarrow> bool" where
  "profile_ok p \<longleftrightarrow> name_ok (p_DisplayName p) \<and> name_ok (p_Name p) \<and> rune_count (p_Region p) \<le> 128
     \<and> gender_ok (p_Gender p)"

definition account_wf :: "('a, 'z) user_world_scheme \<Rightarrow> bool" where
  "account_wf w \<longleftrightarrow>
     distinct (map fst (accounts w)) \<and> dom (map_of (profiles w)) = dom (map_of (accounts w))
     \<and> (\<forall>k a. map_of (accounts w) k = Some a \<longrightarrow> a_AccountId a = k \<and> account_ok a)
     \<and> (\<forall>k a j b. map_of (accounts w) k = Some a \<longrightarrow> map_of (accounts w) j = Some b \<longrightarrow> account_clash a b \<longrightarrow> k = j)
     \<and> (\<forall>k p. map_of (profiles w) k = Some p \<longrightarrow> profile_ok p)"

lemma account_wfD:
  assumes "account_wf w" "map_of (accounts w) k = Some a"
  shows "a_AccountId a = k" "account_ok a"
    and "map_of (accounts w) j = Some b \<Longrightarrow> account_clash a b \<Longrightarrow> k = j"
    and "\<exists>p. map_of (profiles w) k = Some p \<and> profile_ok p"
  using assms unfolding account_wf_def by (blast, blast, blast, metis domD domI)

lemma account_wf_other [simp]:
  "account_wf (w\<lparr>friends_tables := t\<rparr>) = account_wf w" "account_wf (w\<lparr>agent_tables := u\<rparr>) = account_wf w"
  by (simp_all add: account_wf_def)

text \<open>What the rules let through.\<close>

lemma lower_ident: "is_letter c \<or> is_digit c \<or> c = CHR ''_'' \<Longrightarrow> lower_byte c = c \<and> printable c \<and> c \<noteq> CHR 0xC4 \<and> c \<noteq> CHR 0xE2"
  by (auto simp: is_letter_def is_digit_def lower_byte_def printable_def)

lemma ToLower_ident: "list_all (\<lambda>c. is_letter c \<or> is_digit c \<or> c = CHR ''_'') s \<Longrightarrow> ToLower s = s"
proof (induction s)
  case (Cons c s)
  then have "lower_byte c = c \<and> c \<noteq> CHR 0xC4 \<and> c \<noteq> CHR 0xE2" using lower_ident [of c] by simp
  then show ?case using Cons by simp
qed simp

lemma validateIdentifier_idem: "validateIdentifier raw = Inr i \<Longrightarrow> validateIdentifier i = Inr i"
proof -
  assume v: "validateIdentifier raw = Inr i"
  then have l: "list_all (\<lambda>c. is_letter c \<or> is_digit c \<or> c = CHR ''_'') i" and n: "i \<noteq> []"
    by (auto simp: validateIdentifier_def Let_def split: if_splits)
  have "printable (hd i)" "printable (last i)" using l n lower_ident by (auto simp: list_all_iff)
  then have "ToLower (TrimSpace i) = i" using l n by (simp add: TrimSpace_printable ToLower_ident)
  with v show ?thesis by (auto simp: validateIdentifier_def Let_def split: if_splits)
qed

lemma resolveNames_ok: "resolveNames d n f = Inr (d', n') \<Longrightarrow> name_ok d' \<and> name_ok n'"
  by (auto simp: resolveNames_def Let_def validateProfileName_def name_ok_def split: sum.splits prod.splits if_splits)

lemma accountTypeToDB_ok: "accountTypeToDB s = Inr t \<Longrightarrow> t \<in> {AccountTypeAdmin, AccountTypeUser, AccountTypeAgent, AccountTypeTest}"
  by (auto simp: accountTypeToDB_def split: option.splits if_splits)

lemma gender_ok_values: "gender_ok (genderToDB g)" "gender_ok GenderUnknown"
  by (simp_all add: genderToDB_def gender_ok_def)

definition insert_ok :: "Accounts \<Rightarrow> ProfileInsert \<Rightarrow> bool" where
  "insert_ok a i \<longleftrightarrow> account_ok a \<and> pi_AccountID i = a_AccountId a \<and> name_ok (pi_DisplayName i) \<and> name_ok (pi_Name i)
     \<and> rune_count (pi_Region i) \<le> 128 \<and> gender_ok (pi_Gender i)"

lemma user_rows_ok:
  assumes "user_rows E req = Inr (a, i)" "mints_accounts E"
  shows "insert_ok a i \<and> validateIdentifier (cu_Identifier req) = Inr (a_Identifier a) \<and> a_EmailNormalized a = TrimSpace (cu_Email req)
    \<and> accountTypeToDB (cu_AccountType req) = Inr (a_AccountType a)"
  using assms(1) mint_facet [OF assms(2)]
  by (auto simp: user_rows_def insert_ok_def account_ok_def facetForAccountType_def validateIdentifier_idem gender_ok_values
      validateRegion_def Let_def FacetAgent_def FacetHuman_def dest: resolveNames_ok accountTypeToDB_ok
      split: sum.splits prod.splits if_splits)

lemma test_rows_ok:
  assumes "test_rows E identifier d n = Inr (a, i)" "mints_accounts E" "validateIdentifier raw = Inr identifier" "resolveNames x y z = Inr (d, n)"
  shows "insert_ok a i \<and> a_Identifier a = identifier \<and> a_EmailNormalized a = []"
  using assms(1) mint_facet [OF assms(2)] validateIdentifier_idem [OF assms(3)] resolveNames_ok [OF assms(4)]
  by (auto simp: test_rows_def insert_ok_def account_ok_def facetForAccountType_def gender_ok_values account_type_consts
      FacetAgent_def FacetHuman_def split: sum.splits)

text \<open>The transaction that creates an account.\<close>

lemma create_rows_okD:
  assumes wf: "account_wf w" and ok: "insert_ok a i" and run: "create_rows L now a i (w, fs) = (Inr ap, (w', fs'))"
  shows "account_wf w' \<and> map_of (accounts w) (a_AccountId a) = None
    \<and> (\<forall>k b. map_of (accounts w) k = Some b \<longrightarrow> \<not> account_clash a b)
    \<and> (\<exists>p. w' = w\<lparr>accounts := (a_AccountId a, a) # accounts w, profiles := (a_AccountId a, p) # profiles w\<rparr> \<and> ap = join_row a p)"
proof -
  obtain w1 fs1 w2 fs2 where 1: "Accounts_Insert a (w, fs) = (Inr (), (w1, fs1))"
    and 2: "InsertProfile L now i (w1, fs1) = (Inr (), (w2, fs2))"
    and 3: "FindAccountProfileByID (a_AccountId a) (w2, fs2) = (Inr ap, (w', fs'))"
    using run unfolding create_rows_def by (auto simp: runs)
  let ?k = "a_AccountId a"
  have ne: "\<forall>x\<in>set (accounts w). \<not> account_clash a (snd x)" and w1: "w1 = w\<lparr>accounts := (?k, a) # accounts w\<rparr>"
    using stmt_okD [OF 1 [unfolded Accounts_Insert_def]] by (auto simp: list_ex_iff account_clash_def split: if_splits)
  let ?p = "\<lambda>birth. \<lparr>p_DisplayName = pi_DisplayName i, p_Name = pi_Name i, p_Gender = pi_Gender i,
      p_BirthDate = birth, p_Region = pi_Region i, p_AvatarMediaId = pi_AvatarMediaID i, p_AvatarUrl = pi_AvatarURL i,
      p_CreatedAt = now, p_UpdatedAt = now\<rparr>"
  obtain birth where birth: "w2 = w1\<lparr>profiles := (?k, ?p birth) # profiles w1\<rparr>"
    using stmt_okD [OF 2 [unfolded InsertProfile_def]] ok by (auto simp: insert_ok_def split: sum.splits if_splits)
  define p where "p = ?p birth"
  have p: "profile_ok p" and w2: "w2 = w1\<lparr>profiles := (?k, p) # profiles w1\<rparr>"
    using ok birth by (simp_all add: insert_ok_def profile_ok_def p_def)
  have no: "\<not> account_clash a b" if "map_of (accounts w) k = Some b" for k b
    using ne map_of_SomeD [OF that] by force
  have fresh: "map_of (accounts w) ?k = None"
  proof (rule ccontr)
    assume "map_of (accounts w) ?k \<noteq> None"
    then obtain b where b: "map_of (accounts w) ?k = Some b" by auto
    with wf have "a_AccountId b = ?k" by (rule account_wfD)
    with no [OF b] show False by (simp add: account_clash_def)
  qed
  have sym: "account_clash b a \<longleftrightarrow> account_clash a b" for b by (auto simp: account_clash_def)
  have acc: "accounts w2 = (?k, a) # accounts w" and look: "map_of (accounts w2) = (map_of (accounts w))(?k \<mapsto> a)"
    and prof: "map_of (profiles w2) = (map_of (profiles w))(?k \<mapsto> p)" by (simp_all add: w2 w1)
  have a: "account_ok a" using ok by (simp add: insert_ok_def)
  have "distinct (map fst (accounts w2))" using wf fresh by (simp add: acc account_wf_def map_of_eq_None_iff)
  moreover have "dom (map_of (profiles w2)) = dom (map_of (accounts w2))" using wf by (simp add: look prof account_wf_def)
  moreover have "\<forall>k b. map_of (accounts w2) k = Some b \<longrightarrow> a_AccountId b = k \<and> account_ok b"
    using account_wfD(1,2) [OF wf] a by (simp add: look)
  moreover have "k = j" if "map_of (accounts w2) k = Some b" "map_of (accounts w2) j = Some c" "account_clash b c" for k b j c
    using that no account_wfD(3) [OF wf] sym [of b] by (auto simp: look split: if_splits)
  moreover have "\<forall>k q. map_of (profiles w2) k = Some q \<longrightarrow> profile_ok q" using wf p by (simp add: prof account_wf_def)
  ultimately have wf2: "account_wf w2" unfolding account_wf_def by blast
  moreover have w': "w' = w2" "ap = join_row a p"
    using query_okD [OF 3 [unfolded FindAccountProfileByID_def]] by (auto simp: joined_rows_def first_row_def w2 w1 List.map_filter_def)
  ultimately show ?thesis using fresh no w2 w1 by auto
qed

text \<open>
  What creating an account does to the tables: a row that clashes with none is added, with a profile. It is the only way a row
  of another identifier or type appears.
\<close>

definition grown :: "('a, 'z) user_world_scheme \<Rightarrow> ('a, 'z) user_world_scheme \<Rightarrow> Accounts \<Rightarrow> bool" where
  "grown w w' a \<longleftrightarrow> account_wf w' \<and> map_of (accounts w) (a_AccountId a) = None
     \<and> (\<forall>k b. map_of (accounts w) k = Some b \<longrightarrow> \<not> account_clash a b) \<and> accounts w' = (a_AccountId a, a) # accounts w"

lemma keeps_map_error [keeps_intros]: "keeps I m \<Longrightarrow> keeps I (map_error f m)"
  unfolding keeps_def valid_def map_error_def by (fastforce split: sum.splits prod.splits)

lemma map_error_ok [runs]: "map_error f m w = (Inr x, w') \<longleftrightarrow> m w = (Inr x, w')"
  by (auto simp: map_error_def split: prod.splits sum.splits)

lemma keeps_create:
  assumes "insert_ok a i"
    and "\<And>w w' p. I w \<Longrightarrow> account_wf w \<Longrightarrow> w' = w\<lparr>accounts := (a_AccountId a, a) # accounts w, profiles := (a_AccountId a, p) # profiles w\<rparr>
      \<Longrightarrow> grown w w' a \<Longrightarrow> I w'"
    and "\<And>w. I w \<Longrightarrow> account_wf w"
  shows "keeps I (transact (create_rows L now a i))"
proof (rule keeps_transact_okD)
  fix w fs ap w' fs'
  assume I: "I w" and run: "create_rows L now a i (w, fs) = (Inr ap, (w', fs'))"
  from create_rows_okD [OF assms(3) [OF I] assms(1) run] assms(2) [OF I assms(3) [OF I]] show "I w'"
    by (auto simp: grown_def)
qed

lemma insert_ok_assistant:
  assumes "mints_accounts E" "ue_mint E FacetAgent = Inr i"
  shows "insert_ok \<lparr>a_AccountId = i, a_Identifier = defaultAssistantIdentifier, a_AccountType = AccountTypeAgent, a_EmailNormalized = [],
      a_EmailVerifiedAt = None, a_CreatedAt = now, a_UpdatedAt = now\<rparr>
    \<lparr>pi_AccountID = i, pi_DisplayName = defaultAssistantDisplayName, pi_Name = defaultAssistantIdentifier, pi_Gender = GenderUnknown,
     pi_BirthDate = [], pi_Region = [], pi_AvatarMediaID = 0, pi_AvatarURL = []\<rparr>"
proof -
  have "validateIdentifier defaultAssistantIdentifier = Inr defaultAssistantIdentifier" "name_ok defaultAssistantIdentifier"
    "name_ok defaultAssistantDisplayName"
    by code_simp+
  then show ?thesis using mint_facet [OF assms] by (simp add: insert_ok_def account_ok_def gender_ok_values)
qed

text \<open>
  An invariant of the tables that every kind of write keeps: creating an account, giving the assistant its identifier, and changing a profile.
\<close>

definition table_invariant :: "(('a, 'z) user_world_scheme \<Rightarrow> bool) \<Rightarrow> bool" where
  "table_invariant I \<longleftrightarrow>
     (\<forall>w. I w \<longrightarrow> account_wf w)
     \<and> (\<forall>w a p. I w \<longrightarrow> grown w (w\<lparr>accounts := (a_AccountId a, a) # accounts w, profiles := (a_AccountId a, p) # profiles w\<rparr>) a \<longrightarrow>
          I (w\<lparr>accounts := (a_AccountId a, a) # accounts w, profiles := (a_AccountId a, p) # profiles w\<rparr>))
     \<and> (\<forall>w k a now. I w \<longrightarrow> map_of (accounts w) k = Some a \<longrightarrow> a_Identifier a = defaultAssistantLegacyIdentifier \<longrightarrow>
          list_all (\<lambda>(_, b). a_Identifier b \<noteq> defaultAssistantIdentifier) (accounts w) \<longrightarrow>
          I (w\<lparr>accounts := AList.update k (a\<lparr>a_Identifier := defaultAssistantIdentifier, a_UpdatedAt := now\<rparr>) (accounts w)\<rparr>))
     \<and> (\<forall>w k p q. I w \<longrightarrow> map_of (profiles w) k = Some p \<longrightarrow> profile_ok q \<longrightarrow> I (w\<lparr>profiles := AList.update k q (profiles w)\<rparr>))
     \<and> (\<forall>w t u. I w \<longrightarrow> I (w\<lparr>friends_tables := t\<rparr>) \<and> I (w\<lparr>agent_tables := u\<rparr>))"

lemma table_invariantD:
  assumes "table_invariant I" "I w"
  shows "account_wf w"
    and "grown w (w\<lparr>accounts := (a_AccountId a, a) # accounts w, profiles := (a_AccountId a, p) # profiles w\<rparr>) a \<Longrightarrow>
      I (w\<lparr>accounts := (a_AccountId a, a) # accounts w, profiles := (a_AccountId a, p) # profiles w\<rparr>)"
    and "map_of (accounts w) k = Some b \<Longrightarrow> a_Identifier b = defaultAssistantLegacyIdentifier \<Longrightarrow>
      list_all (\<lambda>(_, b). a_Identifier b \<noteq> defaultAssistantIdentifier) (accounts w) \<Longrightarrow>
      I (w\<lparr>accounts := AList.update k (b\<lparr>a_Identifier := defaultAssistantIdentifier, a_UpdatedAt := now\<rparr>) (accounts w)\<rparr>)"
    and "map_of (profiles w) k = Some q \<Longrightarrow> profile_ok q' \<Longrightarrow> I (w\<lparr>profiles := AList.update k q' (profiles w)\<rparr>)"
    and "I (w\<lparr>friends_tables := t\<rparr>)" "I (w\<lparr>agent_tables := u\<rparr>)"
  using assms unfolding table_invariant_def by blast+

lemma readonly_more [readonly_intros]: "readonly m \<Longrightarrow> readonly (attempt m)" "readonly m \<Longrightarrow> readonly (map_error f m)"
proof -
  have "fst (snd (attempt m W)) = fst (snd (m W))" "fst (snd (map_error f m W)) = fst (snd (m W))" for W
    by (auto simp: attempt_def map_error_def split: prod.splits sum.splits)
  then show "readonly m \<Longrightarrow> readonly (attempt m)" "readonly m \<Longrightarrow> readonly (map_error f m)" by (simp_all add: readonly_def)
qed

lemma readonly_finders [readonly_intros]:
  "readonly (FindAccountProfileByID i)" "readonly (FindAccountProfileByIdentifier i)" "readonly (Repo_GetByID i)"
  "readonly (Repo_GetByIdentifier i)" "readonly (Accounts_ExistsByIdentifier i)"
  unfolding FindAccountProfileByID_def FindAccountProfileByIdentifier_def Repo_GetByID_def Repo_GetByIdentifier_def Accounts_ExistsByIdentifier_def
  by (intro readonly_intros)+

lemma keeps_readonly: "readonly m \<Longrightarrow> keeps I m"
  unfolding keeps_def by (rule validI) (auto dest: readonlyD)

lemma keeps_finders [keeps_intros]:
  "keeps I (FindAccountProfileByID i)" "keeps I (FindAccountProfileByIdentifier i)" "keeps I (Repo_GetByID i)"
  "keeps I (Repo_GetByIdentifier i)" "keeps I (Accounts_ExistsByIdentifier i)"
  by (intro keeps_readonly readonly_finders)+

lemma keeps_after_read:
  assumes "readonly m" "\<And>w fs x fs'. m (w, fs) = (Inr x, (w, fs')) \<Longrightarrow> keeps I (f x)"
  shows "keeps I (andThen m f)"
  unfolding keeps_def
proof (rule validI)
  have end_state: "I w'" if I: "I w" and run: "andThen m f (w, fs) = (r, (w', fs'))" for w fs r w' fs'
    using run
  proof (rule andThen_reads [OF assms(1)])
    show "I w'" if "w' = w" using that I by simp
    show "I w'" if m: "m (w, fs) = (Inr x, (w, fs1))" and f: "f x (w, fs1) = (r, (w', fs'))" for x fs1
      by (rule keepsD [OF assms(2) [OF m] I f])
  qed
  show "I w'" if "I w" "andThen m f (w, fs) = (Inr x, (w', fs'))" for w fs x w' fs' using that by (rule end_state)
  show "I w'" if "I w" "andThen m f (w, fs) = (Inl e, (w', fs'))" for w fs e w' fs' using that by (rule end_state)
qed

lemma keeps_after_read_at:
  assumes "readonly m"
    and "\<And>w fs x fs1 r w' fs'. I w \<Longrightarrow> m (w, fs) = (Inr x, (w, fs1)) \<Longrightarrow> f x (w, fs1) = (r, (w', fs')) \<Longrightarrow> I w'"
  shows "keeps I (andThen m f)"
proof -
  have "I w'" if I: "I w" and run: "andThen m f (w, fs) = (r, (w', fs'))" for w fs r w' fs'
    using run by (rule andThen_reads [OF assms(1)]) (use I assms(2) [OF I] in auto)
  then show ?thesis unfolding keeps_def by (intro validI)
qed

definition patch_ok :: "ProfilePatch \<Rightarrow> bool" where
  "patch_ok patch \<longleftrightarrow> (\<forall>v. pp_DisplayName patch = Some v \<longrightarrow> name_ok v) \<and> (\<forall>v. pp_Name patch = Some v \<longrightarrow> name_ok v)
     \<and> (\<forall>v. pp_Gender patch = Some v \<longrightarrow> gender_ok v) \<and> (\<forall>v. pp_Region patch = Some v \<longrightarrow> rune_count v \<le> 128)"

lemma patch_value_ok: "(\<And>v. x = Some v \<Longrightarrow> P v) \<Longrightarrow> P old \<Longrightarrow> P (patch_value x old)"
  by (simp add: patch_value_def split: option.split)

lemma patched_ok:
  assumes "patch_ok patch" "profile_ok p" "patched L now patch p = Inr q"
  shows "profile_ok q"
proof -
  let ?p = "p\<lparr>p_DisplayName := patch_value (pp_DisplayName patch) (p_DisplayName p), p_Name := patch_value (pp_Name patch) (p_Name p),
      p_Gender := patch_value (pp_Gender patch) (p_Gender p), p_Region := patch_value (pp_Region patch) (p_Region p), p_UpdatedAt := now\<rparr>"
  have base: "profile_ok ?p"
    using assms(1,2) patch_value_ok [of "pp_DisplayName patch" name_ok] patch_value_ok [of "pp_Name patch" name_ok]
      patch_value_ok [of "pp_Gender patch" gender_ok] patch_value_ok [of "pp_Region patch" "\<lambda>s. rune_count s \<le> 128"]
    by (simp add: profile_ok_def patch_ok_def)
  have "q = ?p \<or> (\<exists>birth. q = ?p\<lparr>p_BirthDate := birth\<rparr>)"
  proof (cases "pp_BirthDate patch")
    case None
    then show ?thesis using assms(3) by (simp add: patched_def)
  next
    case (Some s)
    then show ?thesis using assms(3)
      by (cases "if TrimSpace s = [] then Inr None else date_column L s") (auto simp: patched_def Let_def)
  qed
  with base show ?thesis by (auto simp: profile_ok_def)
qed

lemma keeps_UpdateProfileFields:
  assumes "table_invariant I" "patch_ok patch"
  shows "keeps I (UpdateProfileFields L now k patch)"
  unfolding UpdateProfileFields_def
proof (cases "pp_DisplayName patch = None \<and> pp_Name patch = None \<and> pp_Gender patch = None \<and> pp_BirthDate patch = None \<and> pp_Region patch = None")
  case False
  have "I w'" if I: "I w" and f: "(case map_of (profiles w) k of None \<Rightarrow> Inl ErrNotFound
        | Some p \<Rightarrow> map_sum id (\<lambda>p'. ((), w\<lparr>profiles := AList.update k p' (profiles w)\<rparr>)) (patched L now patch p)) = Inr (x, w')" for w w' x
  proof -
    from f obtain p q where p: "map_of (profiles w) k = Some p" "patched L now patch p = Inr q"
      and w': "w' = w\<lparr>profiles := AList.update k q (profiles w)\<rparr>"
    proof (cases "map_of (profiles w) k")
      case (Some p)
      then show ?thesis using f that by (cases "patched L now patch p") auto
    qed simp
    have "profile_ok p" using table_invariantD(1) [OF assms(1) I] p(1) by (auto simp: account_wf_def)
    then show "I w'" unfolding w' using table_invariantD(4) [OF assms(1) I p(1)] patched_ok [OF assms(2) _ p(2)] by blast
  qed
  then show "keeps I (if pp_DisplayName patch = None \<and> pp_Name patch = None \<and> pp_Gender patch = None \<and> pp_BirthDate patch = None \<and> pp_Region patch = None
      then query (\<lambda>w. case map_of (profiles w) k of None \<Rightarrow> Inl ErrNotFound | Some _ \<Rightarrow> Inr ())
      else exec_row (\<lambda>w. case map_of (profiles w) k of None \<Rightarrow> Inl ErrNotFound
        | Some p \<Rightarrow> map_sum id (\<lambda>p'. ((), w\<lparr>profiles := AList.update k p' (profiles w)\<rparr>)) (patched L now patch p)))"
    unfolding if_not_P [OF False] by (intro keeps_exec_row)
qed (simp add: keeps_query)

lemma keeps_UpdateAvatar:
  assumes "table_invariant I"
  shows "keeps I (UpdateAvatar now k m url)"
  unfolding UpdateAvatar_def
proof (rule keeps_exec_row)
  fix w w' and u :: unit
  assume I: "I w" and f: "(case map_of (profiles w) k of None \<Rightarrow> Inl ErrNotFound | Some p \<Rightarrow> Inr ((), w\<lparr>profiles := AList.update k
       (p\<lparr>p_AvatarMediaId := m, p_AvatarUrl := url, p_UpdatedAt := now\<rparr>) (profiles w)\<rparr>)) = Inr (u, w')"
  then obtain p where p: "map_of (profiles w) k = Some p" by (auto split: option.splits)
  have "profile_ok p" using table_invariantD(1) [OF assms I] p by (auto simp: account_wf_def)
  then have "profile_ok (p\<lparr>p_AvatarMediaId := m, p_AvatarUrl := url, p_UpdatedAt := now\<rparr>)" by (simp add: profile_ok_def)
  from table_invariantD(4) [OF assms I p this] f p show "I w'" by auto
qed

lemma keeps_create_table:
  assumes "table_invariant I" "insert_ok a i"
  shows "keeps I (transact (create_rows L now a i))"
proof (rule keeps_create [OF assms(2)])
  show "account_wf w" if "I w" for w using table_invariantD(1) [OF assms(1) that] .
  show "I w'" if I: "I w" and w': "w' = w\<lparr>accounts := (a_AccountId a, a) # accounts w, profiles := (a_AccountId a, p) # profiles w\<rparr>"
    and g: "grown w w' a" for w w' p
    using table_invariantD(2) [OF assms(1) I] g unfolding w' by blast
qed

lemma first_row_joined:
  "first_row (joined_rows P w) = Inr ap \<Longrightarrow> \<exists>k a p. (k, a) \<in> set (accounts w) \<and> P a \<and> map_of (profiles w) k = Some p \<and> ap = join_row a p"
proof -
  assume "first_row (joined_rows P w) = Inr ap"
  then have "ap \<in> set (joined_rows P w)" by (auto simp: first_row_def split: list.splits)
  then show ?thesis by (auto simp: joined_rows_def List.map_filter_def split: if_splits) blast
qed

lemma Repo_GetByIdentifier_okD:
  "Repo_GetByIdentifier i (w, fs) = (Inr u, (w', fs')) \<Longrightarrow> us_Identifier u = i"
  unfolding Repo_GetByIdentifier_def FindAccountProfileByIdentifier_def
  by (auto simp: runs toShareUser_def join_row_def dest!: query_okD first_row_joined)

lemma keeps_Repo_Rename:
  assumes "table_invariant I"
  shows "keeps I (Repo_RenameIdentifier now defaultAssistantLegacyIdentifier defaultAssistantIdentifier)"
proof -
  have ids: "ToLower (TrimSpace defaultAssistantLegacyIdentifier) = defaultAssistantLegacyIdentifier"
    "ToLower (TrimSpace defaultAssistantIdentifier) = defaultAssistantIdentifier" by code_simp+
  have "keeps I (exec_row (\<lambda>w. case find (\<lambda>(_, a). a_Identifier a = defaultAssistantLegacyIdentifier) (accounts w) of
         None \<Rightarrow> Inl ErrNotFound
       | Some (k, a) \<Rightarrow>
           if list_ex (\<lambda>(j, b). j \<noteq> k \<and> a_Identifier b = defaultAssistantIdentifier) (accounts w) then Inl pgUniqueViolation
           else Inr (k, w\<lparr>accounts := AList.update k (a\<lparr>a_Identifier := defaultAssistantIdentifier, a_UpdatedAt := now\<rparr>) (accounts w)\<rparr>)))"
    (is "keeps I (exec_row ?f)")
  proof (rule keeps_exec_row)
    fix w x w'
    assume I: "I w" and "?f w = Inr (x, w')"
    then obtain k a where k: "find (\<lambda>(_, a). a_Identifier a = defaultAssistantLegacyIdentifier) (accounts w) = Some (k, a)"
      and no: "\<not> list_ex (\<lambda>(j, b). j \<noteq> k \<and> a_Identifier b = defaultAssistantIdentifier) (accounts w)"
      and w': "w' = w\<lparr>accounts := AList.update k (a\<lparr>a_Identifier := defaultAssistantIdentifier, a_UpdatedAt := now\<rparr>) (accounts w)\<rparr>"
      by (auto split: option.splits if_splits)
    have wf: "account_wf w" by (rule table_invariantD(1) [OF assms I])
    have a: "a_Identifier a = defaultAssistantLegacyIdentifier" "(k, a) \<in> set (accounts w)"
      using k by (auto simp: find_Some_iff) (metis nth_mem)
    then have ma: "map_of (accounts w) k = Some a" using wf by (simp add: account_wf_def)
    have "list_all (\<lambda>(_, b). a_Identifier b \<noteq> defaultAssistantIdentifier) (accounts w)"
    proof -
      have "a_Identifier b \<noteq> defaultAssistantIdentifier" if b: "(j, b) \<in> set (accounts w)" for j b
      proof (cases "j = k")
        case True
        then have "b = a" using b wf ma by (simp add: account_wf_def)
        then show ?thesis using a(1) by (simp add: defaultAssistantLegacyIdentifier_def defaultAssistantIdentifier_def)
      next
        case False
        then show ?thesis using no b by (fastforce simp: list_ex_iff)
      qed
      then show ?thesis by (auto simp: list_all_iff)
    qed
    then show "I w'" unfolding w' by (rule table_invariantD(3) [OF assms I ma a(1)])
  qed
  then show ?thesis unfolding Repo_RenameIdentifier_def RenameIdentifier_def ids
    by (intro keeps_intros)
qed

lemma keeps_ensureAssistantProfile: "table_invariant I \<Longrightarrow> keeps I (ensureAssistantProfile E u)"
proof -
  assume I: "table_invariant I"
  have "name_ok defaultAssistantDisplayName" "name_ok defaultAssistantIdentifier" by code_simp+
  then show ?thesis unfolding ensureAssistantProfile_def Repo_UpdateProfile_def
    by (auto intro!: keeps_intros keeps_UpdateProfileFields [OF I] simp: patch_ok_def)
qed

lemma new_assistant_rows:
  "accountTypeToDB (us_AccountType new_assistant) = Inr AccountTypeAgent" "TrimSpace (us_AccountID new_assistant) = []"
  "facetForAccountType AccountTypeAgent = FacetAgent" "ParseAvatarMediaID (us_AvatarMediaID new_assistant) = Some 0"
  "TrimSpace (us_Email new_assistant) = []" "genderToDB (us_Gender new_assistant) = GenderUnknown" "TrimSpace (us_AvatarURL new_assistant) = []"
  by code_simp+

lemma keeps_ensureAssistantAccount:
  assumes I: "table_invariant I" and m: "mints_accounts E"
  shows "keeps I (ensureAssistantAccount E)"
proof -
  have create: "keeps I (Repo_Create E new_assistant)"
  proof (cases "ue_mint E FacetAgent")
    case (Inl e)
    have [simp]: "andThen (lift_result (Inl e)) f = raise e" for f :: "string \<Rightarrow> (('a, 'z) user_world_scheme, User) act"
      by (simp add: lift_result_def andThen_def raise_def fun_eq_iff)
    show ?thesis unfolding Repo_Create_def by (simp add: new_assistant_rows Inl keeps_raise)
  next
    case (Inr i)
    have [simp]: "lift_result (Inr i) = ret i" "andThen (ret i) f = f i" for f :: "string \<Rightarrow> (('a, 'z) user_world_scheme, User) act"
      by (simp_all add: lift_result_def andThen_def ret_def fun_eq_iff)
    show ?thesis unfolding Repo_Create_def
      by (simp add: new_assistant_rows Inr)
        (use insert_ok_assistant [OF m Inr] in \<open>auto intro!: keeps_intros keeps_create_table [OF I] simp: new_assistant_def\<close>)
  qed
  have legacy: "keeps I (case q of
               Inr account \<Rightarrow>
                 andThen (Repo_RenameIdentifier (ue_now E) (us_Identifier account) defaultAssistantIdentifier)
                   (\<lambda>renamed. ensureAssistantProfile E renamed)
             | Inl legacyErr \<Rightarrow> if \<not> isAppNotFound legacyErr then raise legacyErr else Repo_Create E new_assistant)"
    if "attempt (Repo_GetByIdentifier defaultAssistantLegacyIdentifier) (w, fs) = (Inr q, (w', fs'))"
    for q and w w' :: "('a, 'z) user_world_scheme" and fs fs'
  proof (cases q)
    case (Inr account)
    then have "us_Identifier account = defaultAssistantLegacyIdentifier"
      using that by (auto simp: attempt_def split: prod.splits dest: Repo_GetByIdentifier_okD)
    then show ?thesis using Inr keeps_Repo_Rename [OF I] keeps_ensureAssistantProfile [OF I] by (auto intro: keeps_intros)
  qed (auto intro: keeps_intros create)
  have "keeps I (case q of Inr account \<Rightarrow> ensureAssistantProfile E account
      | Inl err \<Rightarrow> if \<not> isAppNotFound err then raise err
           else andThen (attempt (Repo_GetByIdentifier defaultAssistantLegacyIdentifier)) (\<lambda>legacy. case legacy of
               Inr account \<Rightarrow>
                 andThen (Repo_RenameIdentifier (ue_now E) (us_Identifier account) defaultAssistantIdentifier)
                   (\<lambda>renamed. ensureAssistantProfile E renamed)
             | Inl legacyErr \<Rightarrow> if \<not> isAppNotFound legacyErr then raise legacyErr else Repo_Create E new_assistant))" for q
    using keeps_ensureAssistantProfile [OF I] legacy
    by (cases q) (auto intro!: keeps_raise keeps_after_read readonly_intros)
  then show ?thesis unfolding ensureAssistantAccount_def by (intro keeps_intros)
qed

lemma keeps_provision:
  assumes "table_invariant I" "mints_accounts E"
  shows "keeps I (ensureAssistant E)" "keeps I (ensureFriendship now u v)" "keeps I (EnsureForUser E i)" "keeps I (Backfill E)"
proof -
  have other: "keeps I (on_agents m)" "keeps I (on_friends n)" for m :: "('a, 'r) act" and n :: "(friend_db, 's) act"
    unfolding on_agents_def on_friends_def by (auto intro!: keeps_zoom dest: table_invariantD(5,6) [OF assms(1)])
  show a: "keeps I (ensureAssistant E)" unfolding ensureAssistant_def
    by (intro keeps_intros keeps_ensureAssistantAccount [OF assms] other)
  show f: "keeps I (ensureFriendship now u v)" for now u v unfolding ensureFriendship_def by (intro keeps_intros other)
  show "keeps I (EnsureForUser E i)" unfolding EnsureForUser_def
    by (auto intro!: keeps_intros a f split: prod.splits)
  show "keeps I (Backfill E)" unfolding Backfill_def Repo_ListByAccountType_def ListAccountProfilesByType_def
    by (auto intro!: keeps_intros a f keeps_for_each split: prod.splits)
qed

text \<open>A new account is there after the transaction, whatever becomes of the assistant.\<close>

definition created_row :: "('a, 'z) user_world_scheme \<Rightarrow> Accounts \<Rightarrow> ('a, 'z) user_world_scheme \<Rightarrow> bool" where
  "created_row w a w' \<longleftrightarrow> (\<exists>p w1. w1 = w\<lparr>accounts := (a_AccountId a, a) # accounts w, profiles := (a_AccountId a, p) # profiles w\<rparr>
     \<and> grown w w1 a \<and> (\<forall>I. table_invariant I \<longrightarrow> I w1 \<longrightarrow> I w'))"

lemma created_rowD: "created_row w a w' \<Longrightarrow> table_invariant I \<Longrightarrow> I w \<Longrightarrow> I w'"
  unfolding created_row_def using table_invariantD(2) by blast

lemma created_row_step: "created_row w a w1 \<Longrightarrow> (\<And>I. table_invariant I \<Longrightarrow> I w1 \<Longrightarrow> I w') \<Longrightarrow> created_row w a w'"
  unfolding created_row_def by blast

lemma create_transact:
  assumes wf: "account_wf w" and ok: "insert_ok a i"
    and run: "map_error f (transact (create_rows L now a i)) (w, fs) = (r, (w', fs'))"
  shows "w' = w \<and> isl r \<or> created_row w a w' \<and> (\<forall>ap. r = Inr ap \<longrightarrow> ap_AccountID ap = a_AccountId a \<and> ap_AccountType ap = a_AccountType a)"
proof -
  obtain q where q: "transact (create_rows L now a i) (w, fs) = (q, (w', fs'))" "isl q \<longleftrightarrow> isl r" "\<forall>ap. r = Inr ap \<longrightarrow> q = Inr ap"
    using run by (cases "transact (create_rows L now a i) (w, fs)"; cases "fst (transact (create_rows L now a i) (w, fs))")
      (auto simp: map_error_def)
  have row: "created_row w a w' \<and> ap_AccountID ap = a_AccountId a \<and> ap_AccountType ap = a_AccountType a"
    if "create_rows L now a i (w, fs) = (Inr ap, (w', fs1))" for ap fs1
    using create_rows_okD [OF wf ok that] unfolding created_row_def grown_def by (auto simp: join_row_def)
  show ?thesis using transact_cases [OF q(1)] q(2,3) row by (cases r) auto
qed

lemma CreateUser_cases:
  fixes w w' :: "('a, 'z) user_world_scheme"
  assumes wf: "account_wf w" and m: "mints_accounts E" and run: "CreateUser E req (w, fs) = (r, (w', fs'))"
  shows "w' = w \<and> isl r \<or> (\<exists>a i. user_rows E req = Inr (a, i) \<and> created_row w a w' \<and> (\<forall>u. r = Inr u \<longrightarrow> u_UserId u = a_AccountId a))"
proof (cases "user_rows E req")
  case (Inl e)
  then have "w' = w \<and> isl r" using run by (auto simp: CreateUser_def with_status_def andThen_def lift_result_def raise_def)
  then show ?thesis by blast
next
  case (Inr ai)
  obtain a i where ai: "ai = (a, i)" by (cases ai)
  note rows = Inr [unfolded ai]
  have ok: "insert_ok a i" using user_rows_ok [OF rows m] by blast
  let ?t = "map_error mapAccountWriteError (transact (create_rows (ue_lib E) (ue_now E) a i))"
  obtain q w1 fs1 where q: "?t (w, fs) = (q, (w1, fs1))" by (rule runE)
  note t = create_transact [OF wf ok q]
  show ?thesis
  proof (cases q)
    case (Inl e)
    then have "w' = w1 \<and> isl r" using run rows q by (auto simp: CreateUser_def with_status_def andThen_def lift_result_def ret_def)
    with t rows Inl show ?thesis by auto
  next
    case (Inr ap)
    define M :: "AccountProfile \<Rightarrow> (('a, 'z) user_world_scheme, unit) act" where
      "M = (\<lambda>ap. if ap_AccountType ap = AccountTypeUser then EnsureForUser E (ap_AccountID ap) else ret ())"
    obtain v w2 fs2 where v: "M ap (w1, fs1) = (v, (w2, fs2))" by (rule runE)
    have "CreateUser E req = with_status (andThen (lift_result (Inr (a, i))) (\<lambda>(a, i).
        andThen (map_error mapAccountWriteError (transact (create_rows (ue_lib E) (ue_now E) a i))) (\<lambda>created.
        andThen (M created) (\<lambda>_. ret (toUserEntity created)))))"
      unfolding CreateUser_def rows M_def ..
    then have "(case v of Inl e \<Rightarrow> (Inl (ToStatus e), (w2, fs2)) | Inr _ \<Rightarrow> (Inr (toUserEntity ap), (w2, fs2))) = (r, (w', fs'))"
      using run q Inr v by (cases v) (simp_all add: with_status_def andThen_def lift_result_def ret_def)
    then have w2: "w' = w2" and r: "\<And>u. r = Inr u \<Longrightarrow> u = toUserEntity ap" by (auto split: sum.splits)
    have "I w2" if "table_invariant I" "I w1" for I
    proof -
      have "keeps I (M ap)" using keeps_provision(3) [OF that(1) m] by (simp add: M_def keeps_ret)
      then show ?thesis using that(2) v by (rule keepsD)
    qed
    note more = this
    have t': "created_row w a w1" "ap_AccountID ap = a_AccountId a" using t Inr by auto
    have "created_row w a w'" unfolding w2 by (rule created_row_step [OF t'(1) more])
    moreover have "u_UserId u = a_AccountId a" if "r = Inr u" for u
      unfolding r [OF that] by (simp add: toUserEntity_def t'(2))
    ultimately show ?thesis using rows by blast
  qed
qed

lemma map_sum_InrE: "map_sum id f r = Inr y \<Longrightarrow> (\<And>x. r = Inr x \<Longrightarrow> y = f x \<Longrightarrow> P) \<Longrightarrow> P"
  by (cases r) auto

lemma optional_okD: "optional f v = Inr (Some y) \<Longrightarrow> \<exists>x. v = Some x \<and> f x = Inr y"
  by (cases v; cases "f (the v)") (auto simp: optional_def)

lemma buildProfilePatch_ok:
  assumes "buildProfilePatch req = Inr patch"
  shows "patch_ok patch"
proof -
  obtain d n g rg where "optional (\<lambda>v. validateProfileName v ''display_name'') (up_DisplayName req) = Inr d"
    "optional (\<lambda>v. validateProfileName v ''name'') (up_Name req) = Inr n"
    and g: "optional (\<lambda>v. map_sum id genderToDB (validateGender v)) (up_Gender req) = Inr g"
    and "optional validateRegion (up_Region req) = Inr rg"
    and patch: "patch = \<lparr>pp_DisplayName = (if d = None then n else d), pp_Name = (if n = None then d else n),
           pp_Gender = g, pp_BirthDate = map_option TrimSpace (up_BirthDate req), pp_Region = rg\<rparr>"
    using assms by (auto simp: buildProfilePatch_def split: sum.splits)
  moreover have "gender_ok v" if "g = Some v" for v
    using optional_okD [OF g [unfolded that]] by (auto simp: gender_ok_values elim!: map_sum_InrE)
  ultimately show ?thesis
    by (auto simp: patch_ok_def validateProfileName_def name_ok_def validateRegion_def Let_def dest!: optional_okD split: if_splits)
qed

lemma keeps_user_handlers:
  assumes I: "table_invariant I" and m: "mints_accounts E"
  shows "keeps I (CreateUser E req)" "keeps I (CreateTestAccount E idf dn)" "keeps I (UpdateUserProfile E preq)"
    "keeps I (UpdateUserAvatar E verdict u media)"
proof -
  show "keeps I (CreateUser E req)" unfolding CreateUser_def
    by (intro keeps_with_status keeps_after_read readonly_basic)
      (auto simp: runs intro!: keeps_intros keeps_create_table [OF I] keeps_provision(3) [OF I m] dest: user_rows_ok [OF _ m])
  show "keeps I (UpdateUserProfile E preq)" unfolding UpdateUserProfile_def Let_def
    by (auto intro!: keeps_with_status keeps_raise keeps_after_read [OF readonly_basic(3)])
      (auto intro!: keeps_intros keeps_UpdateProfileFields [OF I] simp: runs dest: buildProfilePatch_ok)
  show "keeps I (UpdateUserAvatar E verdict u media)" unfolding UpdateUserAvatar_def Let_def
    by (auto intro!: keeps_intros keeps_UpdateAvatar [OF I] split: option.splits)
  have "keeps I (andThen (lift_result (test_rows E i d n)) (\<lambda>(a, i).
           andThen (map_error mapAccountWriteError (transact (create_rows (ue_lib E) (ue_now E) a i))) (\<lambda>created.
           andThen (EnsureForUser E (ap_AccountID created)) (\<lambda>_. ret (toUserEntity created, False)))))"
    if "validateIdentifier idf = Inr i" "resolveNames dn [] i = Inr (d, n)" for i d n
    by (intro keeps_after_read readonly_basic)
      (auto simp: runs intro!: keeps_intros keeps_create_table [OF I] keeps_provision(3) [OF I m] dest: test_rows_ok [OF _ m that])
  then show "keeps I (CreateTestAccount E idf dn)" unfolding CreateTestAccount_def
    by (intro keeps_with_status keeps_after_read readonly_basic)
      (auto simp: runs intro!: keeps_after_read readonly_basic keeps_andThen keeps_found keeps_finders keeps_raise keeps_ret split: option.split)
qed

end
