(* ===== verification/Auth_Svc.thy ===== *)
theory Auth_Svc
  imports Accounts Auth_Token
begin

text \<open>
  The auth service (\<^verbatim>\<open>service/auth/rpc/internal\<close>): registration with a code sent by mail, login, and the tokens and sessions
  of \<^verbatim>\<open>Auth_Token\<close>. It owns the tables of credentials and of codes and calls user-rpc (\<^verbatim>\<open>Accounts\<close>), whose
  database it shares. Bcrypt and the parser of addresses are parameters, as is the mail service, of which the
  model keeps what it was asked to send. The defaults \<^verbatim>\<open>now()\<close> of columns are the clock of the request.
\<close>

section \<open>Rules\<close>

text \<open>\<open>al_lower\<close> is \<^verbatim>\<open>strings.ToLower\<close> on addresses, which may hold runes beyond ASCII.\<close>

record auth_lib =
  al_ParseAddress :: "string \<Rightarrow> string option"
  al_lower :: "string \<Rightarrow> string"
  GenerateFromPassword :: "string \<Rightarrow> string result"
  CompareHashAndPassword :: "string \<Rightarrow> string \<Rightarrow> bool"

definition registrationCodeTTL :: int where "registrationCodeTTL = 10 * 60 * 10 ^ 9"
definition registrationSendCooldown :: int where "registrationSendCooldown = 60 * 10 ^ 9"
definition maxVerificationAttempts :: int where "maxVerificationAttempts = 5"
definition registrationCodeLength :: nat where "registrationCodeLength = 6"
definition PasswordAlgoBcrypt :: int where "PasswordAlgoBcrypt = 1"
definition EmailVerificationPurposeRegister :: int where "EmailVerificationPurposeRegister = 1"

lemmas code_consts =
  registrationCodeTTL_def registrationSendCooldown_def maxVerificationAttempts_def registrationCodeLength_def
  PasswordAlgoBcrypt_def EmailVerificationPurposeRegister_def

definition normalizeEmail :: "auth_lib \<Rightarrow> string \<Rightarrow> string result" where
  "normalizeEmail A rawEmail =
     (let email = TrimSpace rawEmail
      in if email = [] then Inl (InvalidArgument ''email is required'')
         else case al_ParseAddress A email of
             None \<Rightarrow> Inl (InvalidArgument ''email is invalid'')
           | Some address \<Rightarrow>
               (let normalized = al_lower A (TrimSpace address)
                in if TrimSpace address = [] \<or> CHR 0x40 \<notin> set normalized then Inl (InvalidArgument ''email is invalid'')
                   else Inr normalized))"

text \<open>The same rule as \<^const>\<open>validateIdentifier\<close> of the user service, written twice in the code.\<close>

definition normalizeIdentifier :: "string \<Rightarrow> string result" where
  "normalizeIdentifier identifier =
     (let normalized = ToLower (TrimSpace identifier)
      in if length normalized < 3 \<or> 32 < length normalized then Inl (InvalidArgument ''identifier must be 3 to 32 characters'')
         else if \<not> is_letter (hd normalized) \<and> \<not> is_digit (hd normalized)
         then Inl (InvalidArgument ''identifier must start with a letter or digit'')
         else if \<not> list_all (\<lambda>c. is_letter c \<or> is_digit c \<or> c = CHR ''_'') normalized
         then Inl (InvalidArgument ''identifier can only contain letters, digits, and underscore'')
         else Inr normalized)"

definition bad_code :: goerror where
  "bad_code = InvalidArgument ''email verification code is invalid or expired''"

definition validateVerificationCodeFormat :: "string \<Rightarrow> goerror option" where
  "validateVerificationCodeFormat code =
     (if length code \<noteq> registrationCodeLength \<or> \<not> list_all is_digit code then Some bad_code else None)"

text \<open>The code for a number below a million.\<close>

definition generateNumericRegistrationCode :: "nat \<Rightarrow> string" where
  "generateNumericRegistrationCode v = (let d = decimal v in replicate (6 - length d) (CHR ''0'') @ d)"

definition validatePassword :: "string \<Rightarrow> goerror option" where
  "validatePassword password =
     (if TrimSpace password = [] then Some (InvalidArgument ''password is required'')
      else if rune_count password < 8 \<or> 128 < rune_count password then Some (InvalidArgument ''password must be 8 to 128 characters'')
      else None)"

definition hashPassword :: "auth_lib \<Rightarrow> string \<Rightarrow> string result" where
  "hashPassword A password = (case GenerateFromPassword A password of Inl _ \<Rightarrow> Inl (Internal ''password hash failed'') | Inr h \<Rightarrow> Inr h)"

definition verifyPassword :: "auth_lib \<Rightarrow> string \<Rightarrow> string \<Rightarrow> int \<Rightarrow> bool" where
  "verifyPassword A password hash algo \<longleftrightarrow> algo = PasswordAlgoBcrypt \<and> CompareHashAndPassword A hash password"

section \<open>Tables\<close>

record AuthEmailVerificationTokens =
  ev_Purpose :: int
  ev_EmailNormalized :: string
  ev_CodeHash :: string
  ev_CodeHashAlgo :: int
  ev_ExpiresAt :: int
  ev_AttemptCount :: int
  ev_LastSentAt :: int
  ev_ConsumedAt :: "int option"
  ev_CreatedAt :: int
  ev_UpdatedAt :: int

record AuthCredentials =
  cr_PasswordHash :: string
  cr_PasswordAlgo :: int

text \<open>The auth tables by primary key, the session store, and the mails sent: address and code.\<close>

record 'a auth_world = "'a user_world" +
  credentials :: "(string \<times> AuthCredentials) list"
  codes :: "(string \<times> AuthEmailVerificationTokens) list"
  sessions :: redis
  mails :: "(string \<times> string) list"

type_synonym ('a, 'z, 'r) auth_act = "(('a, 'z) auth_world_scheme, 'r) act"

definition newer_code :: "string \<times> AuthEmailVerificationTokens \<Rightarrow> string \<times> AuthEmailVerificationTokens \<Rightarrow> bool" where
  "newer_code a b \<longleftrightarrow> ev_CreatedAt (snd b) < ev_CreatedAt (snd a) \<or> ev_CreatedAt (snd a) = ev_CreatedAt (snd b) \<and> fst b < fst a"

fun newest_code :: "(string \<times> AuthEmailVerificationTokens) list \<Rightarrow> (string \<times> AuthEmailVerificationTokens) option" where
  "newest_code [] = None"
| "newest_code (r # rs) = (case newest_code rs of None \<Rightarrow> Some r | Some b \<Rightarrow> Some (if newer_code r b then r else b))"

definition Latest :: "int \<Rightarrow> string \<Rightarrow> ('a, 'z, string \<times> AuthEmailVerificationTokens) auth_act" where
  "Latest purpose emailNormalized = query (\<lambda>w.
     case newest_code (filter (\<lambda>(_, r). ev_Purpose r = purpose \<and> ev_EmailNormalized r = emailNormalized) (codes w)) of
       None \<Rightarrow> Inl ErrNotFound | Some r \<Rightarrow> Inr r)"

definition supersede :: "int \<Rightarrow> int \<Rightarrow> string \<Rightarrow> AuthEmailVerificationTokens \<Rightarrow> AuthEmailVerificationTokens" where
  "supersede now purpose email r =
     (if ev_Purpose r = purpose \<and> ev_EmailNormalized r = email \<and> ev_ConsumedAt r = None
      then r\<lparr>ev_ConsumedAt := Some now, ev_UpdatedAt := now\<rparr> else r)"

definition SupersedeAndInsert :: "string \<Rightarrow> AuthEmailVerificationTokens \<Rightarrow> ('a, 'z, unit) auth_act" where
  "SupersedeAndInsert i row = transact (
     andThen (stmt (\<lambda>w. Inr (w\<lparr>codes := map (\<lambda>(k, r).
         (k, supersede (ev_CreatedAt row) (ev_Purpose row) (ev_EmailNormalized row) r)) (codes w)\<rparr>))) (\<lambda>_.
     stmt (\<lambda>w. if i \<in> fst ` set (codes w) then Inl pgUniqueViolation else Inr (w\<lparr>codes := (i, row) # codes w\<rparr>))))"

definition IncrementAttempts :: "string \<Rightarrow> int \<Rightarrow> ('a, 'z, int) auth_act" where
  "IncrementAttempts i now = exec_row (\<lambda>w. case map_of (codes w) i of
     None \<Rightarrow> Inl ErrNotFound
   | Some r \<Rightarrow> Inr (ev_AttemptCount r + 1,
       w\<lparr>codes := AList.update i (r\<lparr>ev_AttemptCount := ev_AttemptCount r + 1, ev_UpdatedAt := now\<rparr>) (codes w)\<rparr>))"

definition Consume :: "string \<Rightarrow> int \<Rightarrow> ('a, 'z, int) auth_act" where
  "Consume i now = exec_row (\<lambda>w. case map_of (codes w) i of
     None \<Rightarrow> Inl ErrNotFound
   | Some r \<Rightarrow>
       if ev_ConsumedAt r \<noteq> None \<or> \<not> now < ev_ExpiresAt r then Inl ErrNotFound
       else Inr (now, w\<lparr>codes := AList.update i
         (r\<lparr>ev_ConsumedAt := Some now, ev_AttemptCount := ev_AttemptCount r + 1, ev_UpdatedAt := now\<rparr>) (codes w)\<rparr>))"

definition InsertCredential :: "string \<Rightarrow> string \<Rightarrow> int \<Rightarrow> ('a, 'z, unit) auth_act" where
  "InsertCredential accountID passwordHash passwordAlgo =
     map_error (\<lambda>e. if IsUniqueViolation e then AlreadyExists ''auth credential already exists'' else e)
       (stmt (\<lambda>w. if accountID \<in> fst ` set (credentials w) then Inl pgUniqueViolation
          else Inr (w\<lparr>credentials := (accountID, \<lparr>cr_PasswordHash = passwordHash, cr_PasswordAlgo = passwordAlgo\<rparr>) # credentials w\<rparr>)))"

text \<open>Both say whether the row is new.\<close>

definition UpsertPassword :: "string \<Rightarrow> string \<Rightarrow> int \<Rightarrow> ('a, 'z, bool) auth_act" where
  "UpsertPassword accountID passwordHash passwordAlgo = exec_row (\<lambda>w. Inr (accountID \<notin> fst ` set (credentials w),
     w\<lparr>credentials := AList.update accountID \<lparr>cr_PasswordHash = passwordHash, cr_PasswordAlgo = passwordAlgo\<rparr> (credentials w)\<rparr>))"

definition InsertPasswordIfAbsent :: "string \<Rightarrow> string \<Rightarrow> int \<Rightarrow> ('a, 'z, bool) auth_act" where
  "InsertPasswordIfAbsent accountID passwordHash passwordAlgo = exec_row (\<lambda>w.
     if accountID \<in> fst ` set (credentials w) then Inr (False, w)
     else Inr (True, w\<lparr>credentials := AList.update accountID \<lparr>cr_PasswordHash = passwordHash, cr_PasswordAlgo = passwordAlgo\<rparr> (credentials w)\<rparr>))"

definition credentials_of :: "(Accounts \<Rightarrow> bool) \<Rightarrow> ('a, 'z) auth_world_scheme \<Rightarrow> (string \<times> AuthCredentials) list" where
  "credentials_of P w =
     filter (\<lambda>(k, _). case map_of (accounts w) k of None \<Rightarrow> False | Some a \<Rightarrow> P a) (credentials w)"

definition FindAuthByIdentifier :: "string \<Rightarrow> ('a, 'z, string \<times> AuthCredentials) auth_act" where
  "FindAuthByIdentifier identifier = query (\<lambda>w. first_row (credentials_of (\<lambda>a. a_Identifier a = identifier) w))"

definition EmailExists :: "string \<Rightarrow> ('a, 'z, bool) auth_act" where
  "EmailExists emailNormalized =
     query (\<lambda>w. Inr (credentials_of (\<lambda>a. a_EmailNormalized a = emailNormalized \<and> a_EmailNormalized a \<noteq> []) w \<noteq> []))"

definition FindAccountTypeByID :: "string \<Rightarrow> ('a, 'z, int) auth_act" where
  "FindAccountTypeByID accountID =
     query (\<lambda>w. case map_of (accounts w) accountID of None \<Rightarrow> Inl ErrNotFound | Some a \<Rightarrow> Inr (a_AccountType a))"

section \<open>Handlers\<close>

text \<open>
  What one request runs with: the libraries, the environment of the calls to user-rpc it makes, whose clock it shares, the random values it draws,
  the token manager and the rounding of times to live by the Redis client.
\<close>

record 'a auth_env =
  ae_lib :: auth_lib
  ae_user :: "'a user_env"
  ae_code :: "nat result"
  ae_tokenID :: "string result"
  ae_tokens :: HMACTokenManager
  ae_token_lib :: token_lib
  ae_jti :: string
  ae_life :: "int \<Rightarrow> int"

abbreviation ae_now :: "'a auth_env \<Rightarrow> int" where
  "ae_now E \<equiv> ue_now (ae_user E)"

record AuthResponse =
  ar_UserId :: string
  ar_Identifier :: string
  ar_User :: UserEntity
  ar_Token :: string
  ar_ExpiresAt :: string

definition issueToken :: "'a auth_env \<Rightarrow> UserEntity \<Rightarrow> string \<Rightarrow> string \<Rightarrow> ('a, 'z, AuthResponse) auth_act" where
  "issueToken E user device loginIP =
     andThen (lift_result (Issue (ae_token_lib E) (ae_tokens E) (ae_now E) (ae_jti E) (u_UserId user) (u_Identifier user) device loginIP))
       (\<lambda>(rawToken, claims).
     andThen (zoom sessions (\<lambda>s w. w\<lparr>sessions := s\<rparr>)
         (SetActive (ae_life E) (ae_now E) (cl_UserID claims) (cl_Device claims) (cl_JTI claims) (cl_ExpiresAt claims - cl_IssuedAt claims))) (\<lambda>_.
     ret \<lparr>ar_UserId = cl_UserID claims, ar_Identifier = cl_Identifier claims, ar_User = user, ar_Token = rawToken,
          ar_ExpiresAt = FormatRFC3339 (ue_lib (ae_user E)) (cl_ExpiresAt claims)\<rparr>))"

text \<open>What a request does with the row it has read: the check of the code, and its consumption.\<close>

definition judge_code :: "auth_lib \<Rightarrow> int \<Rightarrow> string \<Rightarrow> string \<times> AuthEmailVerificationTokens \<Rightarrow> ('a, 'z, int) auth_act" where
  "judge_code A now code verification =
     (let (i, v) = verification
      in if ev_ConsumedAt v \<noteq> None \<or> \<not> now < ev_ExpiresAt v then raise bad_code
         else if maxVerificationAttempts \<le> ev_AttemptCount v then raise (RateLimited ''email verification attempts exceeded'')
         else if \<not> verifyPassword A code (ev_CodeHash v) (ev_CodeHashAlgo v) then
           andThen (IncrementAttempts i now) (\<lambda>attempts.
             if maxVerificationAttempts \<le> attempts then raise (RateLimited ''email verification attempts exceeded'') else raise bad_code)
         else map_error (\<lambda>e. if e = ErrNotFound then bad_code else e) (Consume i now))"

definition consumeRegistrationEmailCode :: "'a auth_env \<Rightarrow> string \<Rightarrow> string \<Rightarrow> ('a, 'z, int) auth_act" where
  "consumeRegistrationEmailCode E email code =
     andThen (check (validateVerificationCodeFormat code)) (\<lambda>_.
     andThen (map_error (\<lambda>e. if e = ErrNotFound then bad_code else e) (Latest EmailVerificationPurposeRegister email)) (\<lambda>verification.
     judge_code (ae_lib E) (ae_now E) code verification))"

definition ensureEmailAvailable :: "string \<Rightarrow> ('a, 'z, unit) auth_act" where
  "ensureEmailAvailable email =
     andThen (EmailExists email) (\<lambda>exists. if exists then raise (AlreadyExists ''email already exists'') else ret ())"

record RegisterRequest =
  rg_Identifier :: string
  rg_Password :: string
  rg_DisplayName :: string
  rg_Name :: string
  rg_Gender :: string
  rg_BirthDate :: string
  rg_Region :: string
  rg_Email :: string
  rg_EmailVerificationCode :: string
  rg_Device :: string
  rg_LoginIp :: string

definition create_request :: "'a auth_env \<Rightarrow> RegisterRequest \<Rightarrow> string \<Rightarrow> string \<Rightarrow> int \<Rightarrow> CreateUserRequest" where
  "create_request E req identifier email verifiedAt =
     \<lparr>cu_Identifier = identifier, cu_Email = email, cu_EmailVerifiedAt = FormatRFC3339 (ue_lib (ae_user E)) verifiedAt,
      cu_DisplayName = rg_DisplayName req, cu_Name = rg_Name req, cu_Gender = rg_Gender req, cu_BirthDate = rg_BirthDate req,
      cu_Region = rg_Region req, cu_AccountType = []\<rparr>"

definition Register :: "'a auth_env \<Rightarrow> RegisterRequest \<Rightarrow> ('a, 'z, AuthResponse) auth_act" where
  "Register E req =
     with_status (
     andThen (check (validatePassword (rg_Password req))) (\<lambda>_.
     andThen (lift_result (normalizeEmail (ae_lib E) (rg_Email req))) (\<lambda>email.
     let code = TrimSpace (rg_EmailVerificationCode req)
     in if code = [] then raise (InvalidArgument ''email verification code is required'')
        else
          andThen (rpc (remote (ExistsByIdentifier (rg_Identifier req)))) (\<lambda>(identifier, exists).
          andThen (if exists then raise (AlreadyExists ''identifier already exists'') else ret ()) (\<lambda>_.
          andThen (ensureEmailAvailable email) (\<lambda>_.
          andThen (consumeRegistrationEmailCode E email code) (\<lambda>verifiedAt.
          andThen (rpc (remote (CreateUser (ae_user E) (create_request E req identifier email verifiedAt)))) (\<lambda>user.
          andThen (lift_result (hashPassword (ae_lib E) (rg_Password req))) (\<lambda>hash.
          andThen (InsertCredential (u_UserId user) hash PasswordAlgoBcrypt) (\<lambda>_.
          issueToken E user (rg_Device req) (rg_LoginIp req)))))))))))"

record LoginRequest =
  lg_Identifier :: string
  lg_Password :: string
  lg_Device :: string
  lg_LoginIp :: string

definition Login :: "'a auth_env \<Rightarrow> LoginRequest \<Rightarrow> ('a, 'z, AuthResponse) auth_act" where
  "Login E req =
     with_status (
     andThen (lift_result (normalizeIdentifier (lg_Identifier req))) (\<lambda>identifier.
     andThen (check (validatePassword (lg_Password req))) (\<lambda>_.
     andThen (map_error (\<lambda>e. if e = ErrNotFound then Unauthenticated ''invalid identifier or password'' else e)
         (FindAuthByIdentifier identifier)) (\<lambda>(accountID, cred).
     if \<not> verifyPassword (ae_lib E) (lg_Password req) (cr_PasswordHash cred) (cr_PasswordAlgo cred)
     then raise (Unauthenticated ''invalid identifier or password'')
     else andThen (rpc (remote (GetUserByID accountID))) (\<lambda>user. issueToken E user (lg_Device req) (lg_LoginIp req))))))"

text \<open>The service always has a mail client, so the first check of the code passes.\<close>

definition SendTemplateEmail :: "string \<Rightarrow> string \<Rightarrow> ('a, 'z, unit) auth_act" where
  "SendTemplateEmail email code = remote (call ''send mail'' (\<lambda>w. ((), w\<lparr>mails := mails w @ [(email, code)]\<rparr>)))"

definition new_code_row :: "int \<Rightarrow> string \<Rightarrow> string \<Rightarrow> AuthEmailVerificationTokens" where
  "new_code_row now email codeHash =
     \<lparr>ev_Purpose = EmailVerificationPurposeRegister, ev_EmailNormalized = email, ev_CodeHash = codeHash,
      ev_CodeHashAlgo = PasswordAlgoBcrypt, ev_ExpiresAt = now + registrationCodeTTL, ev_AttemptCount = 0, ev_LastSentAt = now,
      ev_ConsumedAt = None, ev_CreatedAt = now, ev_UpdatedAt = now\<rparr>"

definition RequestRegistrationEmailCode :: "'a auth_env \<Rightarrow> string \<Rightarrow> ('a, 'z, string \<times> int) auth_act" where
  "RequestRegistrationEmailCode E rawEmail =
     with_status (
     andThen (lift_result (normalizeEmail (ae_lib E) rawEmail)) (\<lambda>email.
     andThen (found (Latest EmailVerificationPurposeRegister email)) (\<lambda>latest.
     andThen (case latest of
         Some (_, r) \<Rightarrow> if ae_now E - registrationSendCooldown < ev_LastSentAt r
                        then raise (RateLimited ''registration email code was sent too recently'') else ret ()
       | None \<Rightarrow> ret ()) (\<lambda>_.
     andThen (map_error (\<lambda>_. Internal ''generate verification code failed'') (lift_result (map_sum id generateNumericRegistrationCode (ae_code E)))) (\<lambda>code.
     andThen (check (map_option (\<lambda>_. Internal ''generate verification code failed'') (validateVerificationCodeFormat code))) (\<lambda>_.
     andThen (map_error (\<lambda>_. Internal ''hash verification code failed'') (lift_result (hashPassword (ae_lib E) code))) (\<lambda>codeHash.
     andThen (map_error (\<lambda>_. Internal ''generate verification token failed'') (lift_result (ae_tokenID E))) (\<lambda>tokenID.
     andThen (map_error (\<lambda>_. ServiceUnavailable ''mail service is unavailable'') (SendTemplateEmail email code)) (\<lambda>_.
     andThen (SupersedeAndInsert tokenID (new_code_row (ae_now E) email codeHash)) (\<lambda>_.
     ret (email, registrationCodeTTL div (60 * 10 ^ 9))))))))))))"

definition EnsureTestCredential :: "'a auth_env \<Rightarrow> string \<Rightarrow> string \<Rightarrow> string \<Rightarrow> ('a, 'z, string \<times> string \<times> bool) auth_act" where
  "EnsureTestCredential E rawUser identifier password =
     with_status (
     let userID = TrimSpace rawUser
     in if userID = [] then raise (InvalidArgument ''user_id is required'')
        else andThen (check (validatePassword password)) (\<lambda>_.
             andThen (map_error (\<lambda>e. if e = ErrNotFound then NotFound ''account not found'' else e) (FindAccountTypeByID userID)) (\<lambda>accountType.
             if accountType \<noteq> AccountTypeTest then raise (Forbidden ''credential ensure is only allowed for test accounts'')
             else andThen (lift_result (hashPassword (ae_lib E) password)) (\<lambda>hash.
                  andThen (UpsertPassword userID hash PasswordAlgoBcrypt) (\<lambda>created.
                  ret (userID, TrimSpace identifier, \<not> created))))))"

definition EnsureAdminCredential :: "'a auth_env \<Rightarrow> string \<Rightarrow> string \<Rightarrow> string \<Rightarrow> ('a, 'z, string \<times> string \<times> bool) auth_act" where
  "EnsureAdminCredential E rawUser identifier password =
     with_status (
     let userID = TrimSpace rawUser
     in if userID = [] then raise (InvalidArgument ''user_id is required'')
        else andThen (check (validatePassword password)) (\<lambda>_.
             andThen (map_error (\<lambda>e. if e = ErrNotFound then NotFound ''account not found'' else e) (FindAccountTypeByID userID)) (\<lambda>accountType.
             if accountType \<noteq> AccountTypeAdmin then raise (Forbidden ''credential ensure is only allowed for admin accounts'')
             else andThen (lift_result (hashPassword (ae_lib E) password)) (\<lambda>hash.
                  andThen (InsertPasswordIfAbsent userID hash PasswordAlgoBcrypt) (\<lambda>created.
                  ret (userID, TrimSpace identifier, created))))))"

text \<open>\<^verbatim>\<open>ValidateToken\<close> and \<^verbatim>\<open>ParseToken\<close> are the same call.\<close>

definition ValidateToken_call :: "'a auth_env \<Rightarrow> string \<Rightarrow> ('a, 'z, Claims) auth_act" where
  "ValidateToken_call E raw =
     with_status (zoom sessions (\<lambda>s w. w\<lparr>sessions := s\<rparr>) (authenticate_token (ae_token_lib E) (ae_tokens E) (ae_now E) raw))"

section \<open>Histories\<close>

text \<open>
  The requests of both services, each one step: handlers that change a table, the start of user-rpc, and whatever friends-rpc and agent-rpc do to
  their own tables. A request may meet any faults.
\<close>

datatype 'a request =
    OnRegister "'a auth_env" RegisterRequest
  | OnLogin "'a auth_env" LoginRequest
  | OnEmailCode "'a auth_env" string
  | OnTestCredential "'a auth_env" string string string
  | OnAdminCredential "'a auth_env" string string string
  | OnCreateUser "'a user_env" CreateUserRequest
  | OnCreateTestAccount "'a user_env" string string
  | OnUpdateProfile "'a user_env" UpdateUserProfileRequest
  | OnUpdateAvatar "'a user_env" "string \<Rightarrow> string \<Rightarrow> goerror option" string string
  | OnStart "'a user_env"
  | OnOther friend_db 'a

definition ignoring :: "('w, 'r) act \<Rightarrow> ('w, unit) act" where
  "ignoring m = andThen m (\<lambda>_. ret ())"

fun perform :: "'a request \<Rightarrow> ('a, 'z, unit) auth_act" where
  "perform (OnRegister E req) = ignoring (Register E req)"
| "perform (OnLogin E req) = ignoring (Login E req)"
| "perform (OnEmailCode E email) = ignoring (RequestRegistrationEmailCode E email)"
| "perform (OnTestCredential E u i p) = ignoring (EnsureTestCredential E u i p)"
| "perform (OnAdminCredential E u i p) = ignoring (EnsureAdminCredential E u i p)"
| "perform (OnCreateUser E req) = ignoring (CreateUser E req)"
| "perform (OnCreateTestAccount E i d) = ignoring (CreateTestAccount E i d)"
| "perform (OnUpdateProfile E req) = ignoring (UpdateUserProfile E req)"
| "perform (OnUpdateAvatar E verdict u m) = ignoring (UpdateUserAvatar E verdict u m)"
| "perform (OnStart E) = ignoring (Backfill E)"
| "perform (OnOther t a) = (\<lambda>(w, fs). (Inr (), (w\<lparr>friends_tables := t, agent_tables := a\<rparr>, fs)))"

fun env_of :: "'a request \<Rightarrow> 'a user_env option" where
  "env_of (OnRegister E _) = Some (ae_user E)"
| "env_of (OnLogin E _) = Some (ae_user E)"
| "env_of (OnEmailCode E _) = Some (ae_user E)"
| "env_of (OnTestCredential E _ _ _) = Some (ae_user E)"
| "env_of (OnAdminCredential E _ _ _) = Some (ae_user E)"
| "env_of (OnCreateUser E _) = Some E"
| "env_of (OnCreateTestAccount E _ _) = Some E"
| "env_of (OnUpdateProfile E _) = Some E"
| "env_of (OnUpdateAvatar E _ _ _) = Some E"
| "env_of (OnStart E) = Some E"
| "env_of (OnOther _ _) = None"

inductive auth_step :: "'a auth_world \<Rightarrow> 'a auth_world \<Rightarrow> bool" where
  step: "(\<And>E. env_of req = Some E \<Longrightarrow> mints_accounts E) \<Longrightarrow> perform req (w, fs) = (r, (w', fs')) \<Longrightarrow> auth_step w w'"

definition new_auth_world :: "'a \<Rightarrow> 'a auth_world" where
  "new_auth_world agents =
     \<lparr>accounts = [], profiles = [], friends_tables = \<lparr>friendships = []\<rparr>, agent_tables = agents, credentials = [], codes = [],
      sessions = \<lparr>r_hash = Map.empty, r_set = Map.empty, r_str = Map.empty\<rparr>, mails = []\<rparr>"

section \<open>Invariants\<close>

text \<open>An invariant of all the tables: one of the tables of user-rpc that each kind of write of auth-rpc keeps as well.\<close>

definition auth_invariant :: "('a auth_world \<Rightarrow> bool) \<Rightarrow> bool" where
  "auth_invariant I \<longleftrightarrow> table_invariant I
     \<and> (\<forall>w c. I w \<longrightarrow> I (w\<lparr>codes := c\<rparr>)) \<and> (\<forall>w s. I w \<longrightarrow> I (w\<lparr>sessions := s\<rparr>)) \<and> (\<forall>w m. I w \<longrightarrow> I (w\<lparr>mails := m\<rparr>))
     \<and> (\<forall>w k a c. I w \<longrightarrow> map_of (accounts w) k = Some a \<longrightarrow> a_AccountType a \<in> {AccountTypeTest, AccountTypeAdmin} \<longrightarrow>
          I (w\<lparr>credentials := AList.update k c (credentials w)\<rparr>))
     \<and> (\<forall>w w' a c. I w \<longrightarrow> I w' \<longrightarrow> created_row w a w' \<longrightarrow> I (w'\<lparr>credentials := (a_AccountId a, c) # credentials w'\<rparr>))"

lemma auth_invariantD:
  assumes "auth_invariant I"
  shows "table_invariant I" "I w \<Longrightarrow> I (w\<lparr>codes := c\<rparr>)" "I w \<Longrightarrow> I (w\<lparr>sessions := s\<rparr>)" "I w \<Longrightarrow> I (w\<lparr>mails := m\<rparr>)"
    and "I w \<Longrightarrow> map_of (accounts w) k = Some a \<Longrightarrow> a_AccountType a \<in> {AccountTypeTest, AccountTypeAdmin} \<Longrightarrow>
          I (w\<lparr>credentials := AList.update k cr (credentials w)\<rparr>)"
    and "I w \<Longrightarrow> I w' \<Longrightarrow> created_row w a w' \<Longrightarrow> I (w'\<lparr>credentials := (a_AccountId a, cr) # credentials w'\<rparr>)"
  using assms unfolding auth_invariant_def by blast+

lemma keeps_ignoring: "keeps I m \<Longrightarrow> keeps I (ignoring m)"
  unfolding ignoring_def by (intro keeps_intros)

lemma readonly_auth [readonly_intros]:
  "readonly (Latest purpose email)" "readonly (FindAuthByIdentifier i)" "readonly (EmailExists email)" "readonly (FindAccountTypeByID k)"
  "readonly (ensureEmailAvailable email)" "readonly (ExistsByIdentifier raw)"
  unfolding Latest_def FindAuthByIdentifier_def EmailExists_def FindAccountTypeByID_def ensureEmailAvailable_def ExistsByIdentifier_def
  by (auto intro!: readonly_intros)

lemma keeps_auth_reads [keeps_intros]:
  "keeps I (Latest purpose email)" "keeps I (FindAuthByIdentifier i)" "keeps I (EmailExists email)"
  "keeps I (ensureEmailAvailable email)" "keeps I (ExistsByIdentifier raw)" "keeps I (GetUserByID k)"
  unfolding GetUserByID_def Let_def by (auto intro!: keeps_readonly readonly_intros)

lemma keeps_auth_writes:
  assumes I: "auth_invariant I"
  shows "keeps I (IncrementAttempts i now)" "keeps I (Consume i now)" "keeps I (SupersedeAndInsert i row)"
    "keeps I (issueToken E user device ip)" "keeps I (SendTemplateEmail email code)"
    "keeps I (judge_code A now code v)" "keeps I (consumeRegistrationEmailCode E email code)"
proof -
  note D = auth_invariantD [OF I]
  show i: "keeps I (IncrementAttempts i now)" for i now unfolding IncrementAttempts_def
    by (intro keeps_exec_row) (auto intro: D split: option.splits)
  show c: "keeps I (Consume i now)" for i now unfolding Consume_def
    by (intro keeps_exec_row) (auto intro: D split: option.splits if_splits)
  show "keeps I (SupersedeAndInsert i row)" unfolding SupersedeAndInsert_def
    by (intro keeps_transact keeps_andThen keeps_stmt) (auto intro: D split: if_splits)
  show "keeps I (issueToken E user device ip)" unfolding issueToken_def
    by (auto intro!: keeps_intros keeps_zoom D split: prod.splits)
  show "keeps I (SendTemplateEmail email code)" unfolding SendTemplateEmail_def
    by (intro keeps_intros keeps_call) (simp add: D)
  show j: "keeps I (judge_code A now code v)" for A now code v unfolding judge_code_def Let_def
    by (auto intro!: keeps_intros i c split: prod.splits)
  show "keeps I (consumeRegistrationEmailCode E email code)" unfolding consumeRegistrationEmailCode_def
    by (intro keeps_intros j)
qed

text \<open>The last part of a registration: the account, its credential, the token.\<close>

definition register_account :: "'a auth_env \<Rightarrow> RegisterRequest \<Rightarrow> CreateUserRequest \<Rightarrow> ('a, 'z, AuthResponse) auth_act" where
  "register_account E req creq =
     andThen (rpc (remote (CreateUser (ae_user E) creq))) (\<lambda>user.
     andThen (lift_result (hashPassword (ae_lib E) (rg_Password req))) (\<lambda>hash.
     andThen (InsertCredential (u_UserId user) hash PasswordAlgoBcrypt) (\<lambda>_.
     issueToken E user (rg_Device req) (rg_LoginIp req))))"

lemma remote_CreateUser_cases:
  assumes wf: "account_wf w" and m: "mints_accounts E" and run: "rpc (remote (CreateUser E req)) (w, fs) = (r, (w', fs'))"
  shows "w' = w \<and> isl r \<or> (\<exists>a i. user_rows E req = Inr (a, i) \<and> created_row w a w' \<and> (\<forall>u. r = Inr u \<longrightarrow> u_UserId u = a_AccountId a))"
proof -
  obtain q where q: "remote (CreateUser E req) (w, fs) = (q, (w', fs'))" and qr: "\<forall>x. r = Inr x \<longrightarrow> q = Inr x"
    using rpc_state [OF run] by blast
  have lr: "isl q \<Longrightarrow> isl r" using qr by (cases r) auto
  from remote_cases [OF q] show ?thesis
  proof (elim disjE conjE exE)
    assume "w' = w" "isl q"
    with lr show ?thesis by blast
  next
    fix fs1 v fs2
    assume "CreateUser E req (w, fs1) = (v, (w', fs2))" and vq: "\<forall>x. q = Inr x \<longrightarrow> v = Inr x"
    then have c: "w' = w \<and> isl v \<or> (\<exists>a i. user_rows E req = Inr (a, i) \<and> created_row w a w' \<and> (\<forall>u. v = Inr u \<longrightarrow> u_UserId u = a_AccountId a))"
      by (intro CreateUser_cases [OF wf m])
    have "isl v \<Longrightarrow> isl r" using qr vq by (cases r) auto
    with c qr vq show ?thesis by blast
  qed
qed

lemma InsertCredential_cases:
  assumes "InsertCredential k h algo (w, fs) = (r, (w', fs'))"
  shows "w' = w \<or> (\<exists>c. w' = w\<lparr>credentials := (k, c) # credentials w\<rparr>)"
  using assms
  by (auto simp: InsertCredential_def map_error_def stmt_def andThen_def call_def ret_def raise_def
      split: list.splits fault.splits sum.splits if_splits)

lemma keeps_register_account:
  assumes I: "auth_invariant I" and m: "mints_accounts (ae_user E)"
  shows "keeps I (register_account E req creq)"
proof -
  have "I w'" if w: "I w" and run: "register_account E req creq (w, fs) = (r, (w', fs'))" for w fs r w' fs'
  proof -
    obtain q w1 fs1 where q: "rpc (remote (CreateUser (ae_user E) creq)) (w, fs) = (q, (w1, fs1))" by (rule runE)
    have wf: "account_wf w" using table_invariantD(1) [OF auth_invariantD(1) [OF I] w] .
    note c = remote_CreateUser_cases [OF wf m q]
    have w1: "I w1" using c w by (auto intro: created_rowD auth_invariantD(1) [OF I])
    show ?thesis
    proof (cases q)
      case (Inl e)
      then show ?thesis using run q w1 by (simp add: register_account_def andThen_def)
    next
      case (Inr u)
      with c obtain a where a: "created_row w a w1" "u_UserId u = a_AccountId a" by auto
      let ?rest = "\<lambda>hash. andThen (InsertCredential (u_UserId u) hash PasswordAlgoBcrypt) (\<lambda>_.
        issueToken E u (rg_Device req) (rg_LoginIp req))"
      have rest: "andThen (lift_result (hashPassword (ae_lib E) (rg_Password req))) ?rest (w1, fs1) = (r, (w', fs'))"
        using run q Inr by (simp add: register_account_def andThen_def)
      show ?thesis
      proof (cases "hashPassword (ae_lib E) (rg_Password req)")
        case (Inl e)
        then show ?thesis using rest w1 by (simp add: lift_result_def andThen_def raise_def)
      next
        case (Inr hash)
        obtain v w2 fs2 where v: "InsertCredential (u_UserId u) hash PasswordAlgoBcrypt (w1, fs1) = (v, (w2, fs2))" by (rule runE)
        have w2: "I w2" using InsertCredential_cases [OF v] w1 auth_invariantD(6) [OF I w w1 a(1)] a(2) by auto
        show ?thesis
        proof (cases v)
          case (Inl e)
          then show ?thesis using rest v Inr w2 by (simp add: lift_result_def andThen_def ret_def)
        next
          case (Inr x)
          then have "issueToken E u (rg_Device req) (rg_LoginIp req) (w2, fs2) = (r, (w', fs'))"
            using rest v \<open>hashPassword _ _ = Inr hash\<close> by (simp add: lift_result_def andThen_def ret_def)
          then show ?thesis by (rule keepsD [OF keeps_auth_writes(4) [OF I] w2])
        qed
      qed
    qed
  qed
  then show ?thesis unfolding keeps_def by (intro validI)
qed

lemma keeps_auth_handlers:
  assumes I: "auth_invariant I"
  shows "mints_accounts (ae_user E) \<Longrightarrow> keeps I (Register E req)" "keeps I (Login E lreq)" "keeps I (RequestRegistrationEmailCode E email)"
    "keeps I (EnsureTestCredential E u i p)" "keeps I (EnsureAdminCredential E u i p)"
proof -
  note W = keeps_auth_writes [OF I]
  show "keeps I (Register E req)" if "mints_accounts (ae_user E)"
    unfolding Register_def Let_def
    by (auto intro!: keeps_intros W keeps_register_account [OF I that, unfolded register_account_def] split: prod.splits)
  show "keeps I (Login E lreq)" unfolding Login_def
    by (auto intro!: keeps_intros W split: prod.splits)
  show "keeps I (RequestRegistrationEmailCode E email)" unfolding RequestRegistrationEmailCode_def
    by (auto intro!: keeps_intros W split: option.splits prod.splits)
  have cred: "keeps I (andThen (map_error f (FindAccountTypeByID k)) (\<lambda>t. if t \<noteq> T then raise e
      else andThen (lift_result h) (\<lambda>hash. andThen (store hash) (\<lambda>created. ret (g created)))))"
    if T: "T \<in> {AccountTypeTest, AccountTypeAdmin}"
      and store: "\<And>hash w fs v w' fs'. store hash (w, fs) = (v, (w', fs')) \<Longrightarrow> w' = w \<or> (\<exists>c. w' = w\<lparr>credentials := AList.update k c (credentials w)\<rparr>)"
    for f k T e h and store :: "string \<Rightarrow> ('a, unit, bool) auth_act" and g :: "bool \<Rightarrow> string \<times> string \<times> bool"
  proof (rule keeps_after_read_at)
    show "readonly (map_error f (FindAccountTypeByID k) :: ('a, unit, int) auth_act)" by (intro readonly_intros)
    fix w w' :: "'a auth_world" and fs t fs1 r fs'
    assume w: "I w" and t: "map_error f (FindAccountTypeByID k) (w, fs) = (Inr t, (w, fs1))"
      and run: "(if t \<noteq> T then raise e else andThen (lift_result h) (\<lambda>hash. andThen (store hash) (\<lambda>created. ret (g created)))) (w, fs1) = (r, (w', fs'))"
    from t obtain a where a: "map_of (accounts w) k = Some a" "t = a_AccountType a"
      by (auto simp: runs FindAccountTypeByID_def dest!: query_okD split: option.splits)
    consider "w' = w" | hash v fs2 where "t = T" "store hash (w, fs1) = (v, (w', fs2))"
    proof (cases "t = T")
      case True
      show ?thesis
      proof (cases h)
        case (Inl x)
        then show ?thesis using run True that(1) by (simp add: lift_result_def andThen_def raise_def)
      next
        case (Inr hash)
        obtain v w2 fs2 where v: "store hash (w, fs1) = (v, (w2, fs2))" by (rule runE)
        then have "w' = w2" using run True Inr by (cases v) (simp_all add: lift_result_def andThen_def ret_def)
        then show ?thesis using that(2) True v by blast
      qed
    qed (use run that(1) in \<open>simp add: raise_def\<close>)
    then show "I w'"
    proof cases
      case 2
      from store [OF 2(2)] show ?thesis using w auth_invariantD(5) [OF I w a(1)] T 2(1) a(2) by auto
    qed (simp add: w)
  qed
  have upsert: "UpsertPassword k h algo (w, fs) = (v, (w', fs')) \<Longrightarrow> w' = w \<or> (\<exists>c. w' = w\<lparr>credentials := AList.update k c (credentials w)\<rparr>)"
    for k h algo fs v fs' and w w' :: "'a auth_world"
    unfolding UpsertPassword_def by (drule exec_row_cases) auto
  have absent: "InsertPasswordIfAbsent k h algo (w, fs) = (v, (w', fs')) \<Longrightarrow> w' = w \<or> (\<exists>c. w' = w\<lparr>credentials := AList.update k c (credentials w)\<rparr>)"
    for k h algo fs v fs' and w w' :: "'a auth_world"
    unfolding InsertPasswordIfAbsent_def by (drule exec_row_cases) (auto split: if_splits)
  show "keeps I (EnsureTestCredential E u i p)" unfolding EnsureTestCredential_def Let_def
    by (auto intro!: keeps_with_status keeps_raise keeps_check cred upsert keeps_andThen [OF keeps_check])
  show "keeps I (EnsureAdminCredential E u i p)" unfolding EnsureAdminCredential_def Let_def
    by (auto intro!: keeps_with_status keeps_raise keeps_check cred absent keeps_andThen [OF keeps_check])
qed

lemma auth_step_keeps:
  assumes I: "auth_invariant I" and w: "I w" and st: "auth_step w w'"
  shows "I w'"
  using st
proof cases
  case (step req fs r fs')
  note T = auth_invariantD(1) [OF I]
  have "keeps I (perform req :: ('a, unit, unit) auth_act)"
  proof (cases req)
    case (OnOther t a)
    then show ?thesis using table_invariantD(5,6) [OF T]
      by (auto simp: keeps_def valid_def)
  qed (use step(1) keeps_auth_handlers [OF I] keeps_user_handlers [OF T] keeps_provision(4) [OF T] in \<open>auto intro!: keeps_ignoring\<close>)
  then show ?thesis using w step(2) by (rule keepsD)
qed

lemma auth_steps_keep: "auth_step\<^sup>*\<^sup>* w w' \<Longrightarrow> auth_invariant I \<Longrightarrow> I w \<Longrightarrow> I w'"
  by (induction rule: rtranclp_induct) (auto intro: auth_step_keeps)

text \<open>The credentials belong to accounts.\<close>

definition auth_wf :: "('a, 'z) auth_world_scheme \<Rightarrow> bool" where
  "auth_wf w \<longleftrightarrow> account_wf w \<and> distinct (map fst (credentials w)) \<and> dom (map_of (credentials w)) \<subseteq> dom (map_of (accounts w))"

lemma renamed_wf:
  assumes wf: "account_wf w" and a: "map_of (accounts w) k = Some a" "a_Identifier a = defaultAssistantLegacyIdentifier"
    and no: "list_all (\<lambda>(_, b). a_Identifier b \<noteq> defaultAssistantIdentifier) (accounts w)"
  shows "account_wf (w\<lparr>accounts := AList.update k (a\<lparr>a_Identifier := defaultAssistantIdentifier, a_UpdatedAt := now\<rparr>) (accounts w)\<rparr>)"
    (is "account_wf ?w")
proof -
  let ?a = "a\<lparr>a_Identifier := defaultAssistantIdentifier, a_UpdatedAt := now\<rparr>"
  have look: "map_of (AList.update k ?a (accounts w)) j = (if j = k then Some ?a else map_of (accounts w) j)" for j by (simp add: update_conv')
  have "validateIdentifier defaultAssistantIdentifier = Inr defaultAssistantIdentifier" by code_simp
  then have ok: "account_ok ?a" "a_AccountId ?a = k" using account_wfD(1,2) [OF wf a(1)] by (auto simp: account_ok_def)
  have clash: "account_clash a b" if "account_clash ?a b" "map_of (accounts w) j = Some b" for j b
    using that no map_of_SomeD [OF that(2)] by (fastforce simp: account_clash_def list_all_iff)
  have clash': "account_clash b a" if "account_clash b ?a" "map_of (accounts w) j = Some b" for j b
    using that no map_of_SomeD [OF that(2)] by (fastforce simp: account_clash_def list_all_iff)
  have "i = j" if "map_of (accounts ?w) i = Some b" "map_of (accounts ?w) j = Some c" "account_clash b c" for i b j c
    using that clash clash' account_wfD(3) [OF wf] a(1) by (auto simp: look split: if_splits)
  moreover have "dom (map_of (profiles ?w)) = dom (map_of (accounts ?w))"
  proof -
    have "dom (map_of (accounts ?w)) = dom (map_of (accounts w))" using a(1) by (auto simp: dom_def look)
    then show ?thesis using wf by (simp add: account_wf_def)
  qed
  moreover have "distinct (map fst (accounts ?w))" using wf by (simp add: account_wf_def distinct_update)
  moreover have "\<forall>j b. map_of (accounts ?w) j = Some b \<longrightarrow> a_AccountId b = j \<and> account_ok b"
    using ok account_wfD(1,2) [OF wf] by (simp add: look)
  moreover have "\<forall>j p. map_of (profiles ?w) j = Some p \<longrightarrow> profile_ok p" using wf by (simp add: account_wf_def)
  ultimately show ?thesis unfolding account_wf_def by blast
qed

lemma reprofiled_wf: "account_wf w \<Longrightarrow> map_of (profiles w) k = Some p \<Longrightarrow> profile_ok q \<Longrightarrow> account_wf (w\<lparr>profiles := AList.update k q (profiles w)\<rparr>)"
  by (auto simp: account_wf_def update_conv' split: if_splits)

lemma table_invariant_wf: "table_invariant account_wf"
  unfolding table_invariant_def using renamed_wf reprofiled_wf by (auto simp: grown_def)

lemma account_wf_rest [simp]:
  "account_wf (w\<lparr>credentials := c\<rparr>) = account_wf w" "account_wf (w\<lparr>codes := d\<rparr>) = account_wf w"
  "account_wf (w\<lparr>sessions := s\<rparr>) = account_wf w" "account_wf (w\<lparr>mails := m\<rparr>) = account_wf w"
  by (simp_all add: account_wf_def)

lemma table_invariant_stays:
  assumes "\<And>w w'. I w \<Longrightarrow> account_wf w' \<Longrightarrow> credentials w' = credentials w
    \<Longrightarrow> (\<forall>k a. map_of (accounts w) k = Some a \<longrightarrow> (\<exists>b. map_of (accounts w') k = Some b \<and> a_AccountType b = a_AccountType a
        \<and> a_EmailNormalized b = a_EmailNormalized a \<and> (a_Identifier a \<noteq> defaultAssistantLegacyIdentifier \<longrightarrow> a_Identifier b = a_Identifier a)))
    \<Longrightarrow> I w'"
    and wf: "\<And>w. I w \<Longrightarrow> account_wf w"
  shows "table_invariant (I :: ('a, 'z) auth_world_scheme \<Rightarrow> bool)"
  unfolding table_invariant_def
proof (intro conjI allI impI)
  fix w :: "('a, 'z) auth_world_scheme" and a p k q t u now
  assume I: "I w"
  show "account_wf w" by (rule wf [OF I])
  show "I (w\<lparr>accounts := (a_AccountId a, a) # accounts w, profiles := (a_AccountId a, p) # profiles w\<rparr>)"
    if "grown w (w\<lparr>accounts := (a_AccountId a, a) # accounts w, profiles := (a_AccountId a, p) # profiles w\<rparr>) a"
    by (rule assms(1) [OF I]) (use that in \<open>auto simp: grown_def\<close>)
  show "I (w\<lparr>accounts := AList.update k (a\<lparr>a_Identifier := defaultAssistantIdentifier, a_UpdatedAt := now\<rparr>) (accounts w)\<rparr>)"
    if "map_of (accounts w) k = Some a" "a_Identifier a = defaultAssistantLegacyIdentifier"
      "list_all (\<lambda>(_, b). a_Identifier b \<noteq> defaultAssistantIdentifier) (accounts w)"
    by (rule assms(1) [OF I renamed_wf [OF wf [OF I] that]]) (use that in \<open>auto simp: update_conv'\<close>)
  show "I (w\<lparr>profiles := AList.update k q (profiles w)\<rparr>)" if "map_of (profiles w) k = Some p" "profile_ok q"
    by (rule assms(1) [OF I reprofiled_wf [OF wf [OF I] that]]) auto
  show "I (w\<lparr>friends_tables := t\<rparr>)" by (rule assms(1) [OF I]) (use wf [OF I] in auto)
  show "I (w\<lparr>agent_tables := u\<rparr>)" by (rule assms(1) [OF I]) (use wf [OF I] in auto)
qed

lemma created_row_facts:
  fixes w w' :: "('a, 'z) auth_world_scheme"
  assumes w: "auth_wf w" and c: "created_row w a w'"
  shows "map_of (accounts w) (a_AccountId a) = None" "map_of (credentials w') (a_AccountId a) = None"
    and "\<exists>b. map_of (accounts w') (a_AccountId a) = Some b"
proof -
  let ?k = "a_AccountId a"
  show fresh: "map_of (accounts w) ?k = None" using c by (auto simp: created_row_def grown_def)
  have "table_invariant (\<lambda>w :: ('a, 'z) auth_world_scheme. account_wf w \<and> map_of (credentials w) ?k = None)"
    by (rule table_invariant_stays) auto
  moreover have "map_of (credentials w) ?k = None" using w fresh unfolding auth_wf_def by (metis domIff subsetD)
  ultimately show "map_of (credentials w') ?k = None" using created_rowD [OF c] w by (auto simp: auth_wf_def)
  have "table_invariant (\<lambda>w :: ('a, 'z) auth_world_scheme. account_wf w \<and> (\<exists>b. map_of (accounts w) ?k = Some b))"
    by (rule table_invariant_stays) auto
  then show "\<exists>b. map_of (accounts w') ?k = Some b" using c by (force simp: created_row_def grown_def)
qed

lemma auth_invariant_wf: "auth_invariant (auth_wf :: 'a auth_world \<Rightarrow> bool)"
proof -
  have T: "table_invariant (auth_wf :: 'a auth_world \<Rightarrow> bool)"
  proof (rule table_invariant_stays)
    fix w w' :: "'a auth_world"
    assume w: "auth_wf w" and w': "account_wf w'" "credentials w' = credentials w"
      and stays: "\<forall>k a. map_of (accounts w) k = Some a \<longrightarrow> (\<exists>b. map_of (accounts w') k = Some b \<and> a_AccountType b = a_AccountType a
        \<and> a_EmailNormalized b = a_EmailNormalized a \<and> (a_Identifier a \<noteq> defaultAssistantLegacyIdentifier \<longrightarrow> a_Identifier b = a_Identifier a))"
    have "dom (map_of (accounts w)) \<subseteq> dom (map_of (accounts w'))" using stays by (auto simp: domIff)
    then show "auth_wf w'" using w w' unfolding auth_wf_def by (metis subset_trans)
  qed (simp add: auth_wf_def)
  have new: "auth_wf (w'\<lparr>credentials := (a_AccountId a, c) # credentials w'\<rparr>)"
    if "auth_wf w" "auth_wf w'" "created_row w a w'" for w w' :: "'a auth_world" and a c
    using that(2) created_row_facts [OF that(1,3)] by (auto simp: auth_wf_def map_of_eq_None_iff)
  have upd: "auth_wf (w\<lparr>credentials := AList.update k c (credentials w)\<rparr>)" if "auth_wf w" "map_of (accounts w) k = Some a"
    for w :: "'a auth_world" and k a c
  proof -
    have "dom (map_of (AList.update k c (credentials w))) = insert k (dom (map_of (credentials w)))" by (simp add: update_conv')
    then show ?thesis using that unfolding auth_wf_def by (simp add: distinct_update domI)
  qed
  have rest: "auth_wf (w\<lparr>codes := d\<rparr>)" "auth_wf (w\<lparr>sessions := s\<rparr>)" "auth_wf (w\<lparr>mails := m\<rparr>)" if "auth_wf w"
    for w :: "'a auth_world" and d s m
    using that by (simp_all add: auth_wf_def)
  from T new upd rest show ?thesis unfolding auth_invariant_def by blast
qed

text \<open>
  C25: the tables of the user and auth services stay well-formed. After any history of requests of both services, with any faults, in which account ids
  come from the id generator: accounts and profiles are the same set of ids; no two accounts share an identifier or an address; every identifier, name, region,
  gender and account type obeys its rule; the id of an account says that it is an agent exactly when its row does; and every credential is of an account.
\<close>

theorem account_tables_well_formed:
  assumes "auth_step\<^sup>*\<^sup>* (new_auth_world agents) w"
  shows "dom (map_of (profiles w)) = dom (map_of (accounts w)) \<and> dom (map_of (credentials w)) \<subseteq> dom (map_of (accounts w))
    \<and> (\<forall>k a. map_of (accounts w) k = Some a \<longrightarrow>
          a_AccountId a = k \<and> validateIdentifier (a_Identifier a) = Inr (a_Identifier a)
          \<and> a_AccountType a \<in> {AccountTypeAdmin, AccountTypeUser, AccountTypeAgent, AccountTypeTest}
          \<and> (IsAgentAccountID k \<longleftrightarrow> a_AccountType a = AccountTypeAgent)
          \<and> (\<forall>j b. map_of (accounts w) j = Some b \<longrightarrow> j \<noteq> k \<longrightarrow> a_Identifier b \<noteq> a_Identifier a
               \<and> (a_EmailNormalized a \<noteq> [] \<longrightarrow> a_EmailNormalized b \<noteq> a_EmailNormalized a)))
    \<and> (\<forall>k p. map_of (profiles w) k = Some p \<longrightarrow>
          p_DisplayName p \<noteq> [] \<and> rune_count (p_DisplayName p) \<le> 64 \<and> p_Name p \<noteq> [] \<and> rune_count (p_Name p) \<le> 64
          \<and> rune_count (p_Region p) \<le> 128 \<and> p_Gender p \<in> {GenderUnknown, GenderMale, GenderFemale, GenderOther})"
proof -
  have "auth_wf (new_auth_world agents)" by (simp add: auth_wf_def account_wf_def new_auth_world_def)
  with assms auth_invariant_wf have wf: "auth_wf w" by (rule auth_steps_keep)
  then have acc: "account_wf w" by (simp add: auth_wf_def)
  have row: "a_AccountId a = k \<and> account_ok a \<and> (IsAgentAccountID k \<longleftrightarrow> a_AccountType a = AccountTypeAgent)"
    if "map_of (accounts w) k = Some a" for k a
    using account_wfD(1,2) [OF acc that] by (auto simp: account_ok_def)
  have uniq: "a_Identifier b \<noteq> a_Identifier a \<and> (a_EmailNormalized a \<noteq> [] \<longrightarrow> a_EmailNormalized b \<noteq> a_EmailNormalized a)"
    if "map_of (accounts w) k = Some a" "map_of (accounts w) j = Some b" "j \<noteq> k" for k a j b
    using account_wfD(3) [OF acc that(1,2)] that(3) by (auto simp: account_clash_def)
  have prof: "profile_ok p" if "map_of (profiles w) k = Some p" for k p using acc that unfolding account_wf_def by blast
  have doms: "dom (map_of (profiles w)) = dom (map_of (accounts w))" "dom (map_of (credentials w)) \<subseteq> dom (map_of (accounts w))"
    using wf unfolding auth_wf_def account_wf_def by blast+
  show ?thesis
    by (intro conjI allI impI; use row uniq prof doms in \<open>simp add: account_ok_def profile_ok_def name_ok_def gender_ok_def\<close>)
qed

section \<open>Accounts without a credential\<close>

text \<open>An account that was created, with an address, and has no credential.\<close>

definition stranded :: "string \<Rightarrow> string \<Rightarrow> string \<Rightarrow> ('a, 'z) auth_world_scheme \<Rightarrow> bool" where
  "stranded i e k w \<longleftrightarrow> auth_wf w \<and> map_of (credentials w) k = None
     \<and> (\<exists>a. map_of (accounts w) k = Some a \<and> a_Identifier a = i \<and> a_EmailNormalized a = e \<and> a_AccountType a = AccountTypeUser)"

lemma auth_invariant_stranded:
  assumes i: "i \<noteq> defaultAssistantLegacyIdentifier"
  shows "auth_invariant (stranded i e k :: 'a auth_world \<Rightarrow> bool)"
proof -
  note wf = auth_invariant_wf [where 'a = 'a]
  have T: "table_invariant (stranded i e k :: 'a auth_world \<Rightarrow> bool)"
  proof (rule table_invariant_stays)
    fix w w' :: "'a auth_world"
    assume w: "stranded i e k w" and w': "account_wf w'" "credentials w' = credentials w"
      and stays: "\<forall>k a. map_of (accounts w) k = Some a \<longrightarrow> (\<exists>b. map_of (accounts w') k = Some b \<and> a_AccountType b = a_AccountType a
        \<and> a_EmailNormalized b = a_EmailNormalized a \<and> (a_Identifier a \<noteq> defaultAssistantLegacyIdentifier \<longrightarrow> a_Identifier b = a_Identifier a))"
    have "dom (map_of (accounts w)) \<subseteq> dom (map_of (accounts w'))" using stays by (auto simp: domIff)
    then have "auth_wf w'" using w w' unfolding auth_wf_def stranded_def by (metis subset_trans)
    with w w' stays i show "stranded i e k w'" unfolding stranded_def by metis
  qed (simp add: stranded_def auth_wf_def)
  have upd: "stranded i e k (w\<lparr>credentials := AList.update j c (credentials w)\<rparr>)"
    if w: "stranded i e k w" "map_of (accounts w) j = Some a" "a_AccountType a \<in> {AccountTypeTest, AccountTypeAdmin}"
    for w :: "'a auth_world" and j a c
  proof -
    have "j \<noteq> k" using w by (auto simp: stranded_def account_type_consts)
    then show ?thesis using w auth_invariantD(5) [OF wf _ w(2,3)] by (auto simp: stranded_def update_conv')
  qed
  have new: "stranded i e k (w'\<lparr>credentials := (a_AccountId a, c) # credentials w'\<rparr>)"
    if w: "stranded i e k w" "stranded i e k w'" "created_row w a w'" for w w' :: "'a auth_world" and a c
  proof -
    have aw: "auth_wf w" "auth_wf w'" using w by (simp_all add: stranded_def)
    have "a_AccountId a \<noteq> k" using created_row_facts(1) [OF aw(1) w(3)] w(1) by (auto simp: stranded_def)
    then show ?thesis using w(2) auth_invariantD(6) [OF wf aw w(3)] by (auto simp: stranded_def)
  qed
  have rest: "stranded i e k (w\<lparr>codes := d\<rparr>)" "stranded i e k (w\<lparr>sessions := s\<rparr>)" "stranded i e k (w\<lparr>mails := m\<rparr>)"
    if "stranded i e k w" for w :: "'a auth_world" and d s m
    using that by (simp_all add: stranded_def auth_wf_def)
  from T upd new rest show ?thesis unfolding auth_invariant_def by blast
qed

lemma consume_codes:
  assumes "consumeRegistrationEmailCode E email code (w, fs) = (r, (w', fs'))"
  shows "\<exists>c. w' = w\<lparr>codes := c\<rparr>"
proof -
  let ?I = "\<lambda>v. \<exists>c. v = w\<lparr>codes := c\<rparr>"
  have i: "keeps ?I (IncrementAttempts k now)" for k now unfolding IncrementAttempts_def
    by (rule keeps_exec_row) (auto split: option.splits)
  have c: "keeps ?I (Consume k now)" for k now unfolding Consume_def
    by (rule keeps_exec_row) (auto split: option.splits if_splits)
  have "keeps ?I (consumeRegistrationEmailCode E email code)" unfolding consumeRegistrationEmailCode_def judge_code_def Let_def
    by (auto intro!: keeps_intros i c split: prod.splits)
  moreover have "w = w\<lparr>codes := codes w\<rparr>" by simp
  ultimately show ?thesis using assms by (blast dest: keepsD)
qed

text \<open>A registration ends before it creates the account, or goes on to create it, with an identifier that nobody has.\<close>

lemma auth_status_run: "with_status m W = (r, W') \<Longrightarrow> \<exists>q. m W = (q, W') \<and> (isl q \<longleftrightarrow> isl r)"
  by (cases "m W"; cases "fst (m W)") (auto simp: with_status_def)

lemma readonly_exists: "readonly (rpc (remote (ExistsByIdentifier raw)))"
proof -
  have m: "readonly (ExistsByIdentifier raw)" by (rule readonly_auth)
  have "w' = w" if run: "rpc (remote (ExistsByIdentifier raw)) (w, fs) = (r, (w', fs'))" for w w' :: "('a, 'z) user_world_scheme" and fs r fs'
  proof -
    obtain q where "remote (ExistsByIdentifier raw) (w, fs) = (q, (w', fs'))" using rpc_state [OF run] by blast
    from remote_cases [OF this] show ?thesis using readonlyD [OF m] by blast
  qed
  then show ?thesis unfolding readonly_def by (metis surj_pair fst_conv snd_conv)
qed

lemma exists_okD:
  assumes "rpc (remote (ExistsByIdentifier raw)) (w, fs) = (Inr (i, b), (w', fs'))"
  shows "validateIdentifier raw = Inr i \<and> (b \<longleftrightarrow> (\<exists>(k, a)\<in>set (accounts w). a_Identifier a = i))"
proof -
  have "remote (ExistsByIdentifier raw) (w, fs) = (Inr (i, b), (w', fs'))" using assms by (simp add: runs)
  from remote_cases [OF this] obtain fs1 fs2 where "ExistsByIdentifier raw (w, fs1) = (Inr (i, b), (w', fs2))" by auto
  then show ?thesis unfolding ExistsByIdentifier_def Accounts_ExistsByIdentifier_def
    by (auto simp: runs list_ex_iff dest!: query_okD)
qed

lemma Register_stages:
  assumes run: "Register E req (w, fs) = (r, (w', fs'))"
  shows "isl r \<and> (\<exists>c. w' = w\<lparr>codes := c\<rparr>) \<or>
    (\<exists>email i t c fs1 q. normalizeEmail (ae_lib E) (rg_Email req) = Inr email \<and> validateIdentifier (rg_Identifier req) = Inr i
       \<and> (\<forall>k a. map_of (accounts w) k = Some a \<longrightarrow> a_Identifier a \<noteq> i)
       \<and> register_account E req (create_request E req i email t) (w\<lparr>codes := c\<rparr>, fs1) = (q, (w', fs')) \<and> (isl q \<longleftrightarrow> isl r))"
    (is ?goal)
proof -
  let ?code = "TrimSpace (rg_EmailVerificationCode req)"
  let ?create = "\<lambda>i email t. register_account E req (create_request E req i email t)"
  let ?consume = "\<lambda>i email. andThen (consumeRegistrationEmailCode E email ?code) (?create i email)"
  obtain q where qr: "isl q \<longleftrightarrow> isl r" and q: "andThen (check (validatePassword (rg_Password req))) (\<lambda>_.
     andThen (lift_result (normalizeEmail (ae_lib E) (rg_Email req))) (\<lambda>email.
       if ?code = [] then raise (InvalidArgument ''email verification code is required'')
       else andThen (rpc (remote (ExistsByIdentifier (rg_Identifier req)))) (\<lambda>(i, exists).
         andThen (if exists then raise (AlreadyExists ''identifier already exists'') else ret ()) (\<lambda>_.
         andThen (ensureEmailAvailable email) (\<lambda>_. ?consume i email))))) (w, fs) = (q, (w', fs'))"
    using auth_status_run [OF run [unfolded Register_def Let_def]] unfolding register_account_def by auto
  have stop: ?goal if "w' = w" "isl q"
  proof -
    have "w' = w\<lparr>codes := codes w\<rparr>" using that by simp
    then show ?goal using that qr by blast
  qed
  from q show ?goal
  proof (rule andThen_reads [OF readonly_basic(4)])
    fix u fs1
    assume "andThen (lift_result (normalizeEmail (ae_lib E) (rg_Email req))) (\<lambda>email.
       if ?code = [] then raise (InvalidArgument ''email verification code is required'')
       else andThen (rpc (remote (ExistsByIdentifier (rg_Identifier req)))) (\<lambda>(i, exists).
         andThen (if exists then raise (AlreadyExists ''identifier already exists'') else ret ()) (\<lambda>_.
         andThen (ensureEmailAvailable email) (\<lambda>_. ?consume i email)))) (w, fs1) = (q, (w', fs'))"
    then show ?goal
    proof (rule andThen_reads [OF readonly_basic(3)])
      fix email fs2
      assume "lift_result (normalizeEmail (ae_lib E) (rg_Email req)) (w, fs1) = (Inr email, (w, fs2))"
      then have email: "normalizeEmail (ae_lib E) (rg_Email req) = Inr email" by (simp add: runs)
      assume rest: "(if ?code = [] then raise (InvalidArgument ''email verification code is required'')
       else andThen (rpc (remote (ExistsByIdentifier (rg_Identifier req)))) (\<lambda>(i, exists).
         andThen (if exists then raise (AlreadyExists ''identifier already exists'') else ret ()) (\<lambda>_.
         andThen (ensureEmailAvailable email) (\<lambda>_. ?consume i email)))) (w, fs2) = (q, (w', fs'))"
      show ?goal
      proof (cases "?code = []")
        case True
        then show ?goal using rest by (intro stop) (auto simp: raise_def)
      next
        case False
        from rest [unfolded if_not_P [OF False]] show ?goal
        proof (rule andThen_reads [OF readonly_exists])
          fix ib fs3
          assume ex: "rpc (remote (ExistsByIdentifier (rg_Identifier req))) (w, fs2) = (Inr ib, (w, fs3))"
            and rest: "(case ib of (i, exists) \<Rightarrow> andThen (if exists then raise (AlreadyExists ''identifier already exists'') else ret ())
              (\<lambda>_. andThen (ensureEmailAvailable email) (\<lambda>_. ?consume i email))) (w, fs3) = (q, (w', fs'))"
          obtain i b where ib: "ib = (i, b)" by (cases ib)
          note e = exists_okD [OF ex [unfolded ib]]
          show ?goal
          proof (cases b)
            case True
            then show ?goal using rest ib by (intro stop) (auto simp: raise_def andThen_def)
          next
            case False
            have free: "\<forall>k a. map_of (accounts w) k = Some a \<longrightarrow> a_Identifier a \<noteq> i" using e False by (auto dest!: map_of_SomeD)
            have "andThen (ensureEmailAvailable email) (\<lambda>_. ?consume i email) (w, fs3) = (q, (w', fs'))"
              using rest ib False by (simp add: andThen_def ret_def)
            then show ?goal
            proof (rule andThen_reads [OF readonly_auth(5)])
              fix v fs4
              assume c: "?consume i email (w, fs4) = (q, (w', fs'))"
              obtain t w1 fs5 where t: "consumeRegistrationEmailCode E email ?code (w, fs4) = (t, (w1, fs5))" by (rule runE)
              obtain cs where w1: "w1 = w\<lparr>codes := cs\<rparr>" using consume_codes [OF t] by blast
              show ?goal
              proof (cases t)
                case (Inl err)
                then show ?goal using c t w1 qr by (auto simp: andThen_def)
              next
                case (Inr at)
                then have "?create i email at (w\<lparr>codes := cs\<rparr>, fs5) = (q, (w', fs'))" using c t w1 by (simp add: andThen_def)
                then show ?goal using email e free qr by blast
              qed
            qed (rule stop)
          qed
        qed (rule stop)
      qed
    qed (rule stop)
  qed (rule stop)
qed

lemma strip_leading_keeps: "x \<in> set s \<Longrightarrow> \<forall>v\<in>set ws. x \<notin> set v \<Longrightarrow> x \<in> set (strip_leading ws s)"
proof (induction ws s rule: strip_leading.induct)
  case (1 ws s)
  show ?case
  proof (cases "find (\<lambda>v. v \<noteq> [] \<and> starts_with s v) ws")
    case None
    then show ?thesis using 1 by (simp add: strip_leading.simps [of ws s])
  next
    case (Some v)
    then have v: "starts_with s v" "x \<notin> set v" using 1(3) by (auto simp: find_Some_iff)
    have "x \<in> set (drop (length v) s)" using v 1(2) unfolding starts_with_def by (metis append_take_drop_id set_append Un_iff)
    then show ?thesis using 1(1) [OF Some _ 1(3)] Some by (simp add: strip_leading.simps [of ws s])
  qed
qed

lemma address_trimmed: "normalizeEmail A raw = Inr m \<Longrightarrow> TrimSpace m \<noteq> []"
proof -
  assume "normalizeEmail A raw = Inr m"
  then have m: "CHR 0x40 \<in> set m" by (auto simp: normalizeEmail_def Let_def split: if_splits option.splits)
  have "\<forall>v\<in>set space_runes. CHR 0x40 \<notin> set v" "\<forall>v\<in>set (map rev space_runes). CHR 0x40 \<notin> set v" by (simp_all add: space_runes_def)
  note ws = this
  have "CHR 0x40 \<in> set (rev (strip_leading space_runes m))" using strip_leading_keeps [OF m ws(1)] by simp
  from strip_leading_keeps [OF this ws(2)] have "CHR 0x40 \<in> set (TrimSpace m)" unfolding TrimSpace_def by simp
  then show ?thesis by force
qed

lemma register_row:
  assumes "user_rows (ae_user E) (create_request E req i m t) = Inr (a, pr)" "mints_accounts (ae_user E)" "validateIdentifier raw = Inr i"
  shows "a_Identifier a = i" "a_EmailNormalized a = TrimSpace m" "a_AccountType a = AccountTypeUser"
proof -
  have "accountTypeToDB [] = Inr AccountTypeUser" by code_simp
  then show "a_Identifier a = i" "a_EmailNormalized a = TrimSpace m" "a_AccountType a = AccountTypeUser"
    using user_rows_ok [OF assms(1,2)] validateIdentifier_idem [OF assms(3)] by (simp_all add: create_request_def)
qed

lemma auth_wf_codes [simp]: "auth_wf (w\<lparr>codes := c\<rparr>) = auth_wf w"
  by (simp add: auth_wf_def)

lemma register_account_cases:
  assumes wf: "account_wf w" and m: "mints_accounts (ae_user E)" and run: "register_account E req creq (w, fs) = (q, (w', fs'))"
  shows "isl q \<or> (\<exists>a pr w1. user_rows (ae_user E) creq = Inr (a, pr) \<and> created_row w a w1)"
proof -
  obtain u w1 fs1 where u: "rpc (remote (CreateUser (ae_user E) creq)) (w, fs) = (u, (w1, fs1))" by (rule runE)
  have "isl q" if "isl u" using that run u by (cases u) (auto simp: register_account_def andThen_def)
  with remote_CreateUser_cases [OF wf m u] show ?thesis by blast
qed

lemma Register_blocked:
  assumes st: "stranded i e k w" and m: "mints_accounts (ae_user E)"
    and same: "validateIdentifier (rg_Identifier req) = Inr i \<or> (\<exists>m. normalizeEmail (ae_lib E) (rg_Email req) = Inr m \<and> TrimSpace m = e)"
  shows "isl (fst (Register E req (w, fs)))"
proof -
  obtain r w' fs' where run: "Register E req (w, fs) = (r, (w', fs'))" by (rule runE)
  obtain b where b: "map_of (accounts w) k = Some b" "a_Identifier b = i" "a_EmailNormalized b = e" and wf: "auth_wf w"
    using st by (auto simp: stranded_def)
  from Register_stages [OF run] have "isl r"
  proof (elim disjE conjE exE)
    fix m1 j t c fs1 q
    assume n: "normalizeEmail (ae_lib E) (rg_Email req) = Inr m1" and j: "validateIdentifier (rg_Identifier req) = Inr j"
      and free: "\<forall>k a. map_of (accounts w) k = Some a \<longrightarrow> a_Identifier a \<noteq> j"
      and reg: "register_account E req (create_request E req j m1 t) (w\<lparr>codes := c\<rparr>, fs1) = (q, (w', fs'))" and qr: "isl q \<longleftrightarrow> isl r"
    have e: "TrimSpace m1 = e" using same n j free b(1,2) by auto
    have "account_wf (w\<lparr>codes := c\<rparr>)" using wf by (simp add: auth_wf_def)
    from register_account_cases [OF this m reg] show "isl r"
    proof (elim disjE exE conjE)
      fix a pr w1
      assume rows: "user_rows (ae_user E) (create_request E req j m1 t) = Inr (a, pr)" and cr: "created_row (w\<lparr>codes := c\<rparr>) a w1"
      have "\<not> account_clash a b" using cr b(1) by (auto simp: created_row_def grown_def)
      moreover have "a_EmailNormalized a = e" using register_row(2) [OF rows m j] e by simp
      moreover have "e \<noteq> []" using address_trimmed [OF n] e by simp
      ultimately show "isl r" using b(3) by (simp add: account_clash_def)
    qed (simp add: qr)
  qed simp
  with run show ?thesis by simp
qed

lemma Login_blocked:
  assumes st: "stranded i e k w" and raw: "normalizeIdentifier (lg_Identifier req) = Inr i"
  shows "isl (fst (Login E req (w, fs)))"
proof (rule ccontr)
  assume "\<not> ?thesis"
  then obtain x w' fs' where "Login E req (w, fs) = (Inr x, (w', fs'))"
    by (cases "Login E req (w, fs)"; cases "fst (Login E req (w, fs))") auto
  then have "\<exists>jc w2 fs2. FindAuthByIdentifier i (w, fs) = (Inr jc, (w2, fs2))" using raw unfolding Login_def by (auto simp: runs)
  then obtain j c w2 fs2 where "FindAuthByIdentifier i (w, fs) = (Inr (j, c), (w2, fs2))" by auto
  then have "first_row (credentials_of (\<lambda>a. a_Identifier a = i) w) = Inr (j, c)"
    unfolding FindAuthByIdentifier_def by (auto dest!: query_okD)
  then have "(j, c) \<in> set (credentials_of (\<lambda>a. a_Identifier a = i) w)" by (auto simp: first_row_def split: list.splits)
  then obtain a where a: "(j, c) \<in> set (credentials w)" "map_of (accounts w) j = Some a" "a_Identifier a = i"
    by (auto simp: credentials_of_def split: option.splits)
  from st obtain b where b: "map_of (accounts w) k = Some b" "a_Identifier b = i" "account_wf w" "map_of (credentials w) k = None"
    by (auto simp: stranded_def auth_wf_def)
  have "j = k" using account_wfD(3) [OF b(3) a(2) b(1)] a(3) b(2) by (simp add: account_clash_def)
  then have "k \<in> fst ` set (credentials w)" using a(1) by force
  then show False using b(4) by (simp add: map_of_eq_None_iff)
qed

text \<open>
  C26: a registration can lock an identifier and an address for ever. Passwords may have up to 128 characters, but bcrypt refuses to hash more than 72
  bytes, and the password is hashed only after the account is committed. A registration with such a password, if it gets as far as creating the account, fails, and from then on,
  whatever requests follow, nobody can log in with the identifier and nobody can register with the identifier or with the address.
\<close>

theorem long_password_strands_account:
  assumes bcrypt: "\<forall>p. 72 < length p \<longrightarrow> isl (GenerateFromPassword (ae_lib E) p)"
    and w: "auth_step\<^sup>*\<^sup>* (new_auth_world agents) w" and m: "mints_accounts (ae_user E)"
    and long: "72 < length (rg_Password req)" and run: "Register E req (w, fs) = (r, (w', fs'))"
    and i: "validateIdentifier (rg_Identifier req) = Inr i" "i \<noteq> defaultAssistantLegacyIdentifier"
    and created: "i \<notin> (a_Identifier \<circ> snd) ` set (accounts w)" "i \<in> (a_Identifier \<circ> snd) ` set (accounts w')"
    and later: "auth_step\<^sup>*\<^sup>* w' w2"
  shows "isl r
    \<and> (\<forall>E' req' fs2. mints_accounts (ae_user E') \<longrightarrow>
         validateIdentifier (rg_Identifier req') = Inr i \<or> normalizeEmail (ae_lib E') (rg_Email req') = normalizeEmail (ae_lib E) (rg_Email req) \<longrightarrow>
         isl (fst (Register E' req' (w2, fs2))))
    \<and> (\<forall>E' req' fs2. normalizeIdentifier (lg_Identifier req') = Inr i \<longrightarrow> isl (fst (Login E' req' (w2, fs2))))"
proof -
  have "auth_wf (new_auth_world agents)" by (simp add: auth_wf_def account_wf_def new_auth_world_def)
  with w auth_invariant_wf have wf: "auth_wf w" by (rule auth_steps_keep)
  obtain h where h: "hashPassword (ae_lib E) (rg_Password req) = Inl h"
    using bcrypt long by (cases "GenerateFromPassword (ae_lib E) (rg_Password req)") (auto simp: hashPassword_def)
  obtain e k where fail: "isl r" and e: "\<exists>m. normalizeEmail (ae_lib E) (rg_Email req) = Inr m \<and> TrimSpace m = e" and st: "stranded i e k w'"
    using Register_stages [OF run]
  proof (elim disjE conjE exE)
    fix c assume "w' = w\<lparr>codes := c\<rparr>"
    then show ?thesis using created by simp
  next
    fix m1 j t c fs1 q
    assume n: "normalizeEmail (ae_lib E) (rg_Email req) = Inr m1" and j: "validateIdentifier (rg_Identifier req) = Inr j"
      and reg: "register_account E req (create_request E req j m1 t) (w\<lparr>codes := c\<rparr>, fs1) = (q, (w', fs'))" and qr: "isl q \<longleftrightarrow> isl r"
    have ij: "j = i" using i(1) j by simp
    obtain u w1 fs3 where u: "rpc (remote (CreateUser (ae_user E) (create_request E req j m1 t))) (w\<lparr>codes := c\<rparr>, fs1) = (u, (w1, fs3))" by (rule runE)
    have end_state: "w' = w1 \<and> isl q" using reg u h by (cases u) (auto simp: register_account_def andThen_def lift_result_def raise_def)
    have wfc: "auth_wf (w\<lparr>codes := c\<rparr>)" using wf by simp
    then have "account_wf (w\<lparr>codes := c\<rparr>)" by (simp add: auth_wf_def)
    from remote_CreateUser_cases [OF this m u] show ?thesis
    proof (elim disjE conjE exE)
      assume "w1 = w\<lparr>codes := c\<rparr>"
      then show ?thesis using created end_state by simp
    next
      fix a pr
      assume rows: "user_rows (ae_user E) (create_request E req j m1 t) = Inr (a, pr)" and cr: "created_row (w\<lparr>codes := c\<rparr>) a w1"
      note row = register_row [OF rows m j]
      from cr obtain p v where v: "v = w\<lparr>codes := c, accounts := (a_AccountId a, a) # accounts w, profiles := (a_AccountId a, p) # profiles w\<rparr>"
        and g: "grown (w\<lparr>codes := c\<rparr>) v a" and to: "\<forall>I. table_invariant I \<longrightarrow> I v \<longrightarrow> I w1"
        unfolding created_row_def by auto
      have no: "map_of (credentials w) (a_AccountId a) = None"
        using g wf unfolding grown_def auth_wf_def by simp (metis domIff subsetD)
      have "account_wf v" using g by (simp add: grown_def)
      moreover have "dom (map_of (credentials v)) \<subseteq> dom (map_of (accounts v))" "distinct (map fst (credentials v))"
        using wf unfolding v auth_wf_def by auto
      ultimately have "stranded i (TrimSpace m1) (a_AccountId a) v"
        using no row ij unfolding stranded_def auth_wf_def by (simp add: v)
      with to auth_invariantD(1) [OF auth_invariant_stranded [OF i(2)]] have "stranded i (TrimSpace m1) (a_AccountId a) w1" by blast
      with end_state n qr show ?thesis by (intro that) auto
    qed
  qed
  have st2: "stranded i e k w2" by (rule auth_steps_keep [OF later auth_invariant_stranded [OF i(2)] st])
  have "isl (fst (Register E' req' (w2, fs2)))" if "mints_accounts (ae_user E')"
    "validateIdentifier (rg_Identifier req') = Inr i \<or> normalizeEmail (ae_lib E') (rg_Email req') = normalizeEmail (ae_lib E) (rg_Email req)" for E' req' fs2
    using that e by (intro Register_blocked [OF st2]) auto
  with fail Login_blocked [OF st2] show ?thesis by blast
qed

section \<open>Examples\<close>

definition demo_user_env :: "unit user_env" where
  "demo_user_env =
     \<lparr>ue_lib = \<lparr>pg_date = Some, ParseRFC3339 = \<lambda>_. Some 0, FormatRFC3339 = \<lambda>_. ''t'', PathEscape = \<lambda>s. s\<rparr>, ue_now = 1000,
      ue_mint = \<lambda>f. if f = FacetHuman then Inr ''21496832'' else if f = FacetAgent then Inr ''20972544'' else Inl (PlainError ''facet''),
      ue_agent = \<lambda>_. ret ''1''\<rparr>"

definition demo_auth_env :: "unit auth_env" where
  "demo_auth_env =
     \<lparr>ae_lib = \<lparr>al_ParseAddress = Some, al_lower = \<lambda>s. s,
        GenerateFromPassword = \<lambda>p. if 72 < length p then Inl (PlainError ''too long'') else Inr p,
        CompareHashAndPassword = \<lambda>h p. h = p\<rparr>,
      ae_user = demo_user_env, ae_code = Inr 7, ae_tokenID = Inr ''t1'', ae_tokens = NewHMACTokenManager ''s'' 0,
      ae_token_lib = demo_token_lib, ae_jti = ''j'', ae_life = \<lambda>t. t\<rparr>"

definition demo_register :: RegisterRequest where
  "demo_register =
     \<lparr>rg_Identifier = ''alice'', rg_Password = replicate 73 (CHR ''p''), rg_DisplayName = [], rg_Name = [], rg_Gender = [], rg_BirthDate = [],
      rg_Region = [], rg_Email = ''a@b'', rg_EmailVerificationCode = ''000007'', rg_Device = [], rg_LoginIp = []\<rparr>"

definition demo_coded :: "unit auth_world" where
  "demo_coded = fst (snd (perform (OnEmailCode demo_auth_env ''a@b'') (new_auth_world (), [])))"

definition demo_stranded :: "unit auth_world" where
  "demo_stranded = fst (snd (Register demo_auth_env demo_register (demo_coded, [])))"

lemma demo_mints: "mints_accounts demo_user_env"
proof -
  have wf: "Account_wf \<lparr>ag_machineID = 1, ag_lastMs = -1, ag_sequence = 0\<rparr>" by (simp add: Account_wf_def stamp_wf_def)
  have h: "Account_Next \<lparr>ag_machineID = 1, ag_lastMs = -1, ag_sequence = 0\<rparr> FacetHuman [1767225600005]
      = Some (Inr 21496832, \<lparr>ag_machineID = 1, ag_lastMs = 1767225600005, ag_sequence = 0\<rparr>, [])" by code_simp
  have a: "Account_Next \<lparr>ag_machineID = 1, ag_lastMs = -1, ag_sequence = 0\<rparr> FacetAgent [1767225600005]
      = Some (Inr 20972544, \<lparr>ag_machineID = 1, ag_lastMs = 1767225600005, ag_sequence = 0\<rparr>, [])" by code_simp
  have "minted FacetHuman ''21496832''" unfolding minted_def using wf h
    by (intro exI conjI) (assumption+, simp_all add: FormatInt_def decimal.simps)
  moreover have "minted FacetAgent ''20972544''" unfolding minted_def using wf a
    by (intro exI conjI) (assumption+, simp_all add: FormatInt_def decimal.simps)
  ultimately show ?thesis by (simp add: mints_accounts_def demo_user_env_def)
qed

lemma auth_step_result: "(\<And>E. env_of req = Some E \<Longrightarrow> mints_accounts E) \<Longrightarrow> auth_step w (fst (snd (perform req (w, fs))))"
  by (rule auth_step.step [where r = "fst (perform req (w, fs))" and fs' = "snd (snd (perform req (w, fs)))"]) simp_all

lemma demo_steps: "auth_step (new_auth_world ()) demo_coded" "auth_step demo_coded demo_stranded"
proof -
  have E: "ae_user demo_auth_env = demo_user_env" by (simp add: demo_auth_env_def)
  show "auth_step (new_auth_world ()) demo_coded" unfolding demo_coded_def
    by (rule auth_step_result) (simp add: E demo_mints)
  have "fst (snd (perform (OnRegister demo_auth_env demo_register) (demo_coded, []))) = demo_stranded"
    unfolding demo_stranded_def by (auto simp: ignoring_def andThen_def ret_def split: prod.splits sum.splits)
  then show "auth_step demo_coded demo_stranded"
    using auth_step_result [of "OnRegister demo_auth_env demo_register" demo_coded "[]"] by (simp add: E demo_mints del: perform.simps)
qed

lemma demo_run:
  "case Register demo_auth_env demo_register (demo_coded, []) of (r, (w', _)) \<Rightarrow>
     accounts demo_coded = [] \<and> r = Inl (StatusError codes_Internal ''password hash failed'')
     \<and> map (\<lambda>(k, a). (k, a_Identifier a, a_AccountType a)) (accounts w')
         = [(''20972544'', ''agent_creator'', AccountTypeAgent), (''21496832'', ''alice'', AccountTypeUser)]"
  by code_simp

lemma demo_rows:
  "accounts demo_coded = []" "fst (Register demo_auth_env demo_register (demo_coded, [])) = Inl (StatusError codes_Internal ''password hash failed'')"
  "\<exists>a b. accounts demo_stranded = [(''20972544'', a), (''21496832'', b)] \<and> a_Identifier b = ''alice''
     \<and> a_AccountType a = AccountTypeAgent \<and> a_AccountType b = AccountTypeUser"
  using demo_run unfolding demo_stranded_def by (auto split: prod.splits)

theorem long_password_strands_account_witness:
  "fst (Register demo_auth_env demo_register (demo_coded, [])) = Inl (StatusError codes_Internal ''password hash failed'')
    \<and> isl (fst (Register demo_auth_env (demo_register\<lparr>rg_Password := ''password'', rg_Identifier := ''bob''\<rparr>) (demo_stranded, [])))
    \<and> isl (fst (Login demo_auth_env \<lparr>lg_Identifier = ''alice'', lg_Password = ''password'', lg_Device = [], lg_LoginIp = []\<rparr> (demo_stranded, [])))"
proof -
  have E: "ae_user demo_auth_env = demo_user_env" by (simp add: demo_auth_env_def)
  have bcrypt: "\<forall>p. 72 < length p \<longrightarrow> isl (GenerateFromPassword (ae_lib demo_auth_env) p)" by (simp add: demo_auth_env_def)
  have reach: "auth_step\<^sup>*\<^sup>* (new_auth_world ()) demo_coded" using demo_steps(1) by blast
  have m: "mints_accounts (ae_user demo_auth_env)" by (simp add: E demo_mints)
  have long: "72 < length (rg_Password demo_register)" by (simp add: demo_register_def)
  obtain r fs' where run: "Register demo_auth_env demo_register (demo_coded, []) = (r, (demo_stranded, fs'))"
    unfolding demo_stranded_def by (metis surjective_pairing)
  have i: "validateIdentifier (rg_Identifier demo_register) = Inr ''alice''" "''alice'' \<noteq> defaultAssistantLegacyIdentifier" by code_simp+
  obtain a b where "accounts demo_stranded = [(''20972544'', a), (''21496832'', b)]" "a_Identifier b = ''alice''" using demo_rows(3) by blast
  then have created: "''alice'' \<notin> (a_Identifier \<circ> snd) ` set (accounts demo_coded)" "''alice'' \<in> (a_Identifier \<circ> snd) ` set (accounts demo_stranded)"
    using demo_rows(1) by simp_all
  note all = long_password_strands_account [OF bcrypt reach m long run i created rtranclp.rtrancl_refl]
  have "normalizeIdentifier ''alice'' = Inr ''alice''" by code_simp
  then show ?thesis using all demo_rows(2) m by simp
qed

theorem account_tables_well_formed_witness:
  "auth_step\<^sup>*\<^sup>* (new_auth_world ()) demo_stranded
    \<and> map_of (profiles demo_stranded) ''21496832'' \<noteq> None \<and> \<not> IsAgentAccountID ''21496832'' \<and> IsAgentAccountID ''20972544''"
proof -
  have steps: "auth_step\<^sup>*\<^sup>* (new_auth_world ()) demo_stranded" using demo_steps by (meson converse_rtranclp_into_rtranclp rtranclp.rtrancl_refl)
  obtain a b where "accounts demo_stranded = [(''20972544'', b), (''21496832'', a)]" and ab: "a_AccountType b = AccountTypeAgent" "a_AccountType a = AccountTypeUser"
    using demo_rows(3) by blast
  then have look: "map_of (accounts demo_stranded) ''21496832'' = Some a" "map_of (accounts demo_stranded) ''20972544'' = Some b" by simp_all
  note wf = account_tables_well_formed [OF steps]
  have "\<not> IsAgentAccountID ''21496832'' \<and> IsAgentAccountID ''20972544''"
    using wf ab look by (simp add: account_type_consts)
  moreover have "map_of (profiles demo_stranded) ''21496832'' \<noteq> None"
    using conjunct1 [OF wf] look(1) by (metis domD domI option.distinct(1))
  ultimately show ?thesis using steps by blast
qed

end
