(* ===== verification/Auth_Codes.thy ===== *)
theory Auth_Codes
  imports Auth_Svc
begin

text \<open>
  Registration codes when requests overlap. A request reads the newest row of its address and judges its code by what it read, while the row may
  change: the steps here are those of the model of \<^verbatim>\<open>Auth_Svc\<close>, interleaved in any order.
\<close>

text \<open>
  The steps on the table of codes: a code is issued; a request reads the newest row of its address; and, at any time later, a request judges a code by a
  row that was read. \<open>cd_accepted\<close> records the rows that were accepted, with the time and the code given.
\<close>

record 'a code_run =
  cd_world :: "'a auth_world"
  cd_read :: "(string \<times> AuthEmailVerificationTokens) list"
  cd_accepted :: "(string \<times> int \<times> string) list"

inductive code_step :: "auth_lib \<Rightarrow> 'a code_run \<Rightarrow> 'a code_run \<Rightarrow> bool" for A where
  issue: "SupersedeAndInsert i (new_code_row now email hash) (cd_world c, fs) = (r, (w', fs')) \<Longrightarrow> code_step A c (c\<lparr>cd_world := w'\<rparr>)"
| look: "Latest EmailVerificationPurposeRegister email (cd_world c, fs) = (Inr v, (w', fs')) \<Longrightarrow> code_step A c (c\<lparr>cd_read := v # cd_read c\<rparr>)"
| judge: "v \<in> set (cd_read c) \<Longrightarrow> judge_code A now code v (cd_world c, fs) = (r, (w', fs')) \<Longrightarrow>
    code_step A c (c\<lparr>cd_world := w', cd_accepted := (case r of Inl _ \<Rightarrow> cd_accepted c | Inr t \<Rightarrow> (fst v, t, code) # cd_accepted c)\<rparr>)"

definition no_codes :: "'a \<Rightarrow> 'a code_run" where
  "no_codes agents = \<lparr>cd_world = new_auth_world agents, cd_read = [], cd_accepted = []\<rparr>"

text \<open>What a row keeps for ever; consuming it cannot be undone.\<close>

definition row_later :: "AuthEmailVerificationTokens \<Rightarrow> AuthEmailVerificationTokens \<Rightarrow> bool" where
  "row_later r s \<longleftrightarrow> ev_ExpiresAt s = ev_ExpiresAt r \<and> ev_LastSentAt s = ev_LastSentAt r \<and> ev_CodeHash s = ev_CodeHash r
     \<and> ev_CodeHashAlgo s = ev_CodeHashAlgo r \<and> ev_AttemptCount r \<le> ev_AttemptCount s \<and> (ev_ConsumedAt r \<noteq> None \<longrightarrow> ev_ConsumedAt s \<noteq> None)"

definition codes_later :: "(string \<times> AuthEmailVerificationTokens) list \<Rightarrow> (string \<times> AuthEmailVerificationTokens) list \<Rightarrow> bool" where
  "codes_later cs cs' \<longleftrightarrow> (\<forall>i r. map_of cs i = Some r \<longrightarrow> (\<exists>s. map_of cs' i = Some s \<and> row_later r s))"

lemma row_later_refl [simp]: "row_later r r"
  by (simp add: row_later_def)

lemma row_later_trans: "row_later r s \<Longrightarrow> row_later s t \<Longrightarrow> row_later r t"
  by (auto simp: row_later_def)

lemma codes_later_refl [simp]: "codes_later cs cs"
  by (auto simp: codes_later_def)

lemma codes_later_trans: "codes_later a b \<Longrightarrow> codes_later b c \<Longrightarrow> codes_later a c"
  unfolding codes_later_def by (blast dest: row_later_trans)

definition row_issued :: "AuthEmailVerificationTokens \<Rightarrow> bool" where
  "row_issued r \<longleftrightarrow> ev_ExpiresAt r = ev_LastSentAt r + registrationCodeTTL"

definition codes_ok :: "(string \<times> AuthEmailVerificationTokens) list \<Rightarrow> bool" where
  "codes_ok cs \<longleftrightarrow> distinct (map fst cs) \<and> (\<forall>i r. map_of cs i = Some r \<longrightarrow> row_issued r)"

text \<open>What is known of a row that was read, and of one that was accepted.\<close>

definition read_ok :: "(string \<times> AuthEmailVerificationTokens) list \<Rightarrow> string \<times> AuthEmailVerificationTokens \<Rightarrow> bool" where
  "read_ok cs v \<longleftrightarrow> (\<exists>s. map_of cs (fst v) = Some s \<and> row_later (snd v) s)"

definition accepted_ok ::
  "auth_lib \<Rightarrow> (string \<times> AuthEmailVerificationTokens) list \<Rightarrow> (string \<times> AuthEmailVerificationTokens) list \<Rightarrow> string \<times> int \<times> string \<Rightarrow> bool" where
  "accepted_ok A cs rs x \<longleftrightarrow> (case x of (i, t, code) \<Rightarrow>
     (\<exists>s. map_of cs i = Some s \<and> ev_ConsumedAt s \<noteq> None \<and> t < ev_LastSentAt s + registrationCodeTTL
        \<and> verifyPassword A code (ev_CodeHash s) (ev_CodeHashAlgo s))
     \<and> (\<exists>r. (i, r) \<in> set rs \<and> ev_AttemptCount r < maxVerificationAttempts \<and> ev_ConsumedAt r = None))"

lemma read_ok_later: "read_ok cs v \<Longrightarrow> codes_later cs cs' \<Longrightarrow> read_ok cs' v"
  unfolding read_ok_def codes_later_def by (blast dest: row_later_trans)

lemma accepted_ok_later:
  assumes "accepted_ok A cs rs x" "codes_later cs cs'" "set rs \<subseteq> set rs'"
  shows "accepted_ok A cs' rs' x"
proof -
  obtain i t code where x: "x = (i, t, code)" by (cases x)
  from assms(1) obtain s r where s: "map_of cs i = Some s" "ev_ConsumedAt s \<noteq> None" "t < ev_LastSentAt s + registrationCodeTTL"
    "verifyPassword A code (ev_CodeHash s) (ev_CodeHashAlgo s)"
    and r: "(i, r) \<in> set rs" "ev_AttemptCount r < maxVerificationAttempts" "ev_ConsumedAt r = None"
    unfolding accepted_ok_def x by auto
  from s(1) assms(2) obtain s' where s': "map_of cs' i = Some s'" "row_later s s'" unfolding codes_later_def by blast
  then have "ev_ConsumedAt s' \<noteq> None" "t < ev_LastSentAt s' + registrationCodeTTL" "verifyPassword A code (ev_CodeHash s') (ev_CodeHashAlgo s')"
    using s by (auto simp: row_later_def)
  with s'(1) r assms(3) show ?thesis unfolding accepted_ok_def x by auto
qed

definition code_inv :: "auth_lib \<Rightarrow> 'a code_run \<Rightarrow> bool" where
  "code_inv A c \<longleftrightarrow> codes_ok (codes (cd_world c)) \<and> list_all (read_ok (codes (cd_world c))) (cd_read c)
     \<and> distinct (map fst (cd_accepted c)) \<and> list_all (accepted_ok A (codes (cd_world c)) (cd_read c)) (cd_accepted c)"

lemma code_inv_later:
  assumes "code_inv A c" "codes_later (codes (cd_world c)) (codes w')" "codes_ok (codes w')"
  shows "code_inv A (c\<lparr>cd_world := w'\<rparr>)"
  using assms read_ok_later accepted_ok_later unfolding code_inv_def list_all_iff by simp blast

text \<open>The statements.\<close>

lemma codes_update:
  assumes ok: "codes_ok cs" and i: "map_of cs i = Some r" and later: "row_later r s"
  shows "codes_ok (AList.update i s cs) \<and> codes_later cs (AList.update i s cs)"
proof -
  have "row_issued s" using ok i later by (auto simp: codes_ok_def row_issued_def row_later_def)
  moreover have "distinct (map fst (AList.update i s cs))" using ok by (simp add: codes_ok_def distinct_update)
  ultimately show ?thesis using ok i later by (auto simp: codes_ok_def codes_later_def update_conv' simp del: map_of_eq_Some_iff)
qed

lemma Consume_effect:
  assumes ok: "codes_ok (codes w)" and run: "Consume i now (w, fs) = (r, (w', fs'))"
  shows "codes_ok (codes w') \<and> codes_later (codes w) (codes w')
    \<and> (\<forall>t. r = Inr t \<longrightarrow> t = now \<and> (\<exists>v s. map_of (codes w) i = Some v \<and> ev_ConsumedAt v = None \<and> now < ev_ExpiresAt v
         \<and> map_of (codes w') i = Some s \<and> row_later v s \<and> ev_ConsumedAt s \<noteq> None))"
proof -
  let ?up = "\<lambda>v. v\<lparr>ev_ConsumedAt := Some now, ev_AttemptCount := ev_AttemptCount v + 1, ev_UpdatedAt := now\<rparr>"
  have "w' = w \<and> isl r \<or> (\<exists>v. map_of (codes w) i = Some v \<and> ev_ConsumedAt v = None \<and> now < ev_ExpiresAt v
      \<and> w' = w\<lparr>codes := AList.update i (?up v) (codes w)\<rparr> \<and> (\<forall>t. r = Inr t \<longrightarrow> t = now))"
    using run unfolding Consume_def exec_row_def
    by (auto simp: andThen_def call_def ret_def raise_def split: list.splits fault.splits option.splits if_splits)
  then show ?thesis
  proof (elim disjE conjE exE)
    fix v assume v: "map_of (codes w) i = Some v" "ev_ConsumedAt v = None" "now < ev_ExpiresAt v"
      and w': "w' = w\<lparr>codes := AList.update i (?up v) (codes w)\<rparr>" and t: "\<forall>t. r = Inr t \<longrightarrow> t = now"
    have later: "row_later v (?up v)" by (simp add: row_later_def)
    have "map_of (codes w') i = Some (?up v)" by (simp add: w' update_conv')
    with codes_update [OF ok v(1) later] v t later show ?thesis by (auto simp: w')
  qed (use ok in auto)
qed

lemma IncrementAttempts_effect:
  assumes ok: "codes_ok (codes w)" and run: "IncrementAttempts i now (w, fs) = (r, (w', fs'))"
  shows "codes_ok (codes w') \<and> codes_later (codes w) (codes w')"
proof -
  have "w' = w \<or> (\<exists>v. map_of (codes w) i = Some v
      \<and> w' = w\<lparr>codes := AList.update i (v\<lparr>ev_AttemptCount := ev_AttemptCount v + 1, ev_UpdatedAt := now\<rparr>) (codes w)\<rparr>)"
    using exec_row_cases [OF run [unfolded IncrementAttempts_def]] by (auto split: option.splits)
  then show ?thesis
  proof (elim disjE exE conjE)
    fix v assume v: "map_of (codes w) i = Some v"
      and w': "w' = w\<lparr>codes := AList.update i (v\<lparr>ev_AttemptCount := ev_AttemptCount v + 1, ev_UpdatedAt := now\<rparr>) (codes w)\<rparr>"
    have "row_later v (v\<lparr>ev_AttemptCount := ev_AttemptCount v + 1, ev_UpdatedAt := now\<rparr>)" by (simp add: row_later_def)
    from codes_update [OF ok v this] show ?thesis by (simp add: w')
  qed (use ok in simp)
qed

lemma judge_code_effect:
  assumes ok: "codes_ok (codes w)" and run: "judge_code A now code v (w, fs) = (r, (w', fs'))"
  shows "codes_ok (codes w') \<and> codes_later (codes w) (codes w')
    \<and> (\<forall>t. r = Inr t \<longrightarrow> t = now \<and> ev_ConsumedAt (snd v) = None \<and> now < ev_ExpiresAt (snd v)
         \<and> ev_AttemptCount (snd v) < maxVerificationAttempts \<and> verifyPassword A code (ev_CodeHash (snd v)) (ev_CodeHashAlgo (snd v))
         \<and> (\<exists>x s. map_of (codes w) (fst v) = Some x \<and> ev_ConsumedAt x = None \<and> map_of (codes w') (fst v) = Some s \<and> ev_ConsumedAt s \<noteq> None))"
proof -
  obtain i row where v: "v = (i, row)" by (cases v)
  consider (refused) "w' = w" "isl r"
    | (wrong) r0 where "IncrementAttempts i now (w, fs) = (r0, (w', fs'))" "isl r"
    | (right) r0 where "Consume i now (w, fs) = (r0, (w', fs'))" "\<forall>t. r = Inr t \<longrightarrow> r0 = Inr t" "ev_ConsumedAt row = None" "now < ev_ExpiresAt row"
        "ev_AttemptCount row < maxVerificationAttempts" "verifyPassword A code (ev_CodeHash row) (ev_CodeHashAlgo row)"
    using run unfolding judge_code_def v
    by (auto simp: andThen_def map_error_def raise_def ret_def Let_def not_le split: if_splits prod.splits sum.splits)
  then show ?thesis
  proof cases
    case refused then show ?thesis using ok by auto
  next
    case wrong then show ?thesis using IncrementAttempts_effect [OF ok wrong(1)] by auto
  next
    case right then show ?thesis using Consume_effect [OF ok right(1)] unfolding v by auto
  qed
qed

lemma newest_code_member: "newest_code rs = Some v \<Longrightarrow> v \<in> set rs"
  by (induction rs arbitrary: v) (auto split: option.splits if_splits)

lemma Latest_effect:
  assumes ok: "codes_ok (codes w)" and run: "Latest p e (w, fs) = (Inr v, (w', fs'))"
  shows "read_ok (codes w) v"
proof -
  have "v \<in> set (codes w)" using query_okD [OF run [unfolded Latest_def]] by (auto dest!: newest_code_member split: option.splits)
  then have "map_of (codes w) (fst v) = Some (snd v)" using ok by (simp add: codes_ok_def)
  then show ?thesis unfolding read_ok_def using row_later_refl by blast
qed

lemma supersede_later: "row_later r (supersede now p e r)"
  by (simp add: supersede_def row_later_def)

lemma SupersedeAndInsert_effect:
  assumes ok: "codes_ok (codes w)" and row: "row_issued row" and run: "SupersedeAndInsert i row (w, fs) = (r, (w', fs'))"
  shows "codes_ok (codes w') \<and> codes_later (codes w) (codes w')"
proof -
  let ?f = "supersede (ev_CreatedAt row) (ev_Purpose row) (ev_EmailNormalized row)"
  let ?cs = "map (\<lambda>(k, r). (k, ?f r)) (codes w)"
  have keys: "fst ` set ?cs = fst ` set (codes w)" "map fst ?cs = map fst (codes w)" by (force simp: comp_def case_prod_beta)+
  have body: "i \<notin> fst ` set ?cs \<and> codes w' = (i, row) # ?cs"
    if "andThen (stmt (\<lambda>w. Inr (w\<lparr>codes := map (\<lambda>(k, r). (k, ?f r)) (codes w)\<rparr>)))
        (\<lambda>_. stmt (\<lambda>w. if i \<in> fst ` set (codes w) then Inl pgUniqueViolation else Inr (w\<lparr>codes := (i, row) # codes w\<rparr>))) (w, fs) = (Inr u, (w', fs1))" for u fs1
    using that unfolding andThen_ok by (auto simp del: set_map dest!: stmt_okD split: if_splits) (force simp del: set_map)+
  have "w' = w \<or> i \<notin> fst ` set ?cs \<and> codes w' = (i, row) # ?cs"
  proof (cases r)
    case (Inl e)
    then have "isl r" by simp
    from conjunct1 [OF transact_cases [OF run [unfolded SupersedeAndInsert_def]], THEN mp, OF this] show ?thesis using body by blast
  next
    case (Inr u)
    from transact_okD [OF run [unfolded SupersedeAndInsert_def Inr]] show ?thesis using body by blast
  qed
  then show ?thesis
  proof (elim disjE conjE)
    assume i: "i \<notin> fst ` set ?cs" and w': "codes w' = (i, row) # ?cs"
    have look: "map_of (codes w') j = (if j = i then Some row else map_option ?f (map_of (codes w) j))" for j
      by (simp add: w' map_of_map)
    have old: "row_issued (?f x)" if "map_of (codes w) j = Some x" for j x
      using ok that supersede_later [of x] unfolding codes_ok_def by (auto simp: row_issued_def row_later_def simp del: map_of_eq_Some_iff)
    have "distinct (map fst (codes w'))" using ok i unfolding keys by (simp add: w' codes_ok_def keys del: map_map)
    moreover have "\<forall>j x. map_of (codes w') j = Some x \<longrightarrow> row_issued x" using row old by (auto simp: look simp del: map_of_eq_Some_iff)
    moreover have "map_of (codes w) i = None" using i unfolding keys by (simp add: map_of_eq_None_iff)
    then have "codes_later (codes w) (codes w')" using supersede_later
      unfolding codes_later_def look by (auto simp del: map_of_eq_Some_iff)
    ultimately show ?thesis by (simp add: codes_ok_def)
  qed (use ok in simp)
qed

section \<open>The invariant\<close>

lemma code_inv_start: "code_inv A (no_codes agents)"
  by (simp add: code_inv_def no_codes_def new_auth_world_def codes_ok_def)

lemma code_inv_accept:
  assumes inv: "code_inv A (c\<lparr>cd_world := w'\<rparr>)" and new: "fst x \<notin> fst ` set (cd_accepted c)" and x: "accepted_ok A (codes w') (cd_read c) x"
  shows "code_inv A (c\<lparr>cd_world := w', cd_accepted := x # cd_accepted c\<rparr>)"
  using assms by (simp add: code_inv_def)

lemma code_inv_step:
  assumes step: "code_step A c c'" and inv: "code_inv A c"
  shows "code_inv A c'"
proof -
  have ok: "codes_ok (codes (cd_world c))" using inv by (simp add: code_inv_def)
  from step show ?thesis
  proof cases
    case (issue i now email hash fs r w' fs')
    have "row_issued (new_code_row now email hash)" by (simp add: row_issued_def new_code_row_def)
    from SupersedeAndInsert_effect [OF ok this issue(2)] show ?thesis unfolding issue(1) by (intro code_inv_later [OF inv]) blast+
  next
    case (look email fs v w' fs')
    have "set (cd_read c) \<subseteq> set (v # cd_read c)" by auto
    then have "accepted_ok A (codes (cd_world c)) (v # cd_read c) x" if "x \<in> set (cd_accepted c)" for x
      using inv that accepted_ok_later [of A _ _ x, OF _ codes_later_refl] unfolding code_inv_def list_all_iff by blast
    then show ?thesis using inv Latest_effect [OF ok look(2)] unfolding look(1) by (simp add: code_inv_def list_all_iff)
  next
    case (judge v now code fs r w' fs')
    note eff = judge_code_effect [OF ok judge(3)]
    have step: "code_inv A (c\<lparr>cd_world := w'\<rparr>)" using eff by (intro code_inv_later [OF inv]) blast+
    show ?thesis
    proof (cases r)
      case (Inl e) with step show ?thesis by (simp add: judge(1))
    next
      case (Inr t)
      obtain i row where v: "v = (i, row)" by (cases v)
      obtain x s where t: "t = now" and row: "ev_ConsumedAt row = None" "now < ev_ExpiresAt row" "ev_AttemptCount row < maxVerificationAttempts"
          "verifyPassword A code (ev_CodeHash row) (ev_CodeHashAlgo row)"
        and x: "map_of (codes (cd_world c)) i = Some x" "ev_ConsumedAt x = None" and s: "map_of (codes w') i = Some s" "ev_ConsumedAt s \<noteq> None"
        using eff Inr by (auto simp: v simp del: map_of_eq_Some_iff)
      have "read_ok (codes w') v" using step judge(2) by (simp add: code_inv_def list_all_iff)
      then have later: "row_later row s" using s by (auto simp: read_ok_def v simp del: map_of_eq_Some_iff)
      have "row_issued s" using eff s(1) by (auto simp: codes_ok_def simp del: map_of_eq_Some_iff)
      with later row have "now < ev_LastSentAt s + registrationCodeTTL" "verifyPassword A code (ev_CodeHash s) (ev_CodeHashAlgo s)"
        by (auto simp: row_later_def row_issued_def)
      with s row judge(2) have acc: "accepted_ok A (codes w') (cd_read c) (i, t, code)"
        unfolding accepted_ok_def t v by (auto simp del: map_of_eq_Some_iff)
      have "i \<notin> fst ` set (cd_accepted c)"
      proof
        assume "i \<in> fst ` set (cd_accepted c)"
        then obtain y where y: "y \<in> set (cd_accepted c)" "fst y = i" by auto
        then have "accepted_ok A (codes (cd_world c)) (cd_read c) y" using inv by (simp add: code_inv_def list_all_iff)
        then show False using x y(2) by (auto simp: accepted_ok_def simp del: map_of_eq_Some_iff split: prod.splits)
      qed
      with code_inv_accept [OF step _ acc] show ?thesis by (simp add: judge(1) Inr v)
    qed
  qed
qed

lemma code_inv_run: "(code_step A)\<^sup>*\<^sup>* (no_codes agents) c \<Longrightarrow> code_inv A c"
  by (induction rule: rtranclp_induct) (auto simp: code_inv_start intro: code_inv_step)


section \<open>Example\<close>

definition demo_issued :: "unit code_run" where
  "demo_issued = (no_codes ())\<lparr>cd_world := fst (snd (SupersedeAndInsert ''t1'' (new_code_row 1000 ''a@b'' ''000007'')
     (cd_world (no_codes ()), [] :: fault list)))\<rparr>"

definition demo_row :: "string \<times> AuthEmailVerificationTokens" where
  "demo_row = (''t1'', new_code_row 1000 ''a@b'' ''000007'')"

definition demo_accepted :: "unit code_run" where
  "demo_accepted = demo_issued\<lparr>cd_read := [demo_row],
     cd_world := fst (snd (judge_code (ae_lib demo_auth_env) 2000 ''000007'' demo_row (cd_world demo_issued, [] :: fault list))),
     cd_accepted := [(''t1'', 2000, ''000007'')]\<rparr>"

lemma demo_code_values:
  "case SupersedeAndInsert ''t1'' (new_code_row 1000 ''a@b'' ''000007'') (cd_world (no_codes ()), [] :: fault list) of (r, (_, fs)) \<Rightarrow> r = Inr () \<and> fs = []"
  "case Latest EmailVerificationPurposeRegister ''a@b'' (cd_world demo_issued, [] :: fault list) of (r, (_, fs)) \<Rightarrow> r = Inr demo_row \<and> fs = []"
  "case judge_code (ae_lib demo_auth_env) 2000 ''000007'' demo_row (cd_world demo_issued, [] :: fault list) of (r, (_, fs)) \<Rightarrow> r = Inr 2000 \<and> fs = []"
  by code_simp+

lemma demo_code_runs:
  "SupersedeAndInsert ''t1'' (new_code_row 1000 ''a@b'' ''000007'') (cd_world (no_codes ()), [] :: fault list) = (Inr (), (cd_world demo_issued, []))"
  "\<exists>w. Latest EmailVerificationPurposeRegister ''a@b'' (cd_world demo_issued, [] :: fault list) = (Inr demo_row, (w, []))"
  "judge_code (ae_lib demo_auth_env) 2000 ''000007'' demo_row (cd_world demo_issued, [] :: fault list) = (Inr 2000, (cd_world demo_accepted, []))"
  using demo_code_values unfolding demo_accepted_def by (auto simp: demo_issued_def split: prod.splits)


end
