(* ===== verification/Agent_Store.thy ===== *)
theory Agent_Store
  imports Events Id_Gen
begin

text \<open>
  The private conversations of an agent (\<^verbatim>\<open>agent_private_conversations_model.go\<close> and \<^verbatim>\<open>privconv/store.go\<close> under
  \<^verbatim>\<open>service/agent/rpc/internal\<close>): the messages of a user that wait for a reply, the rounds that were answered, and the
  state that says whether a reply is under way. A row is keyed by its conversation; its JSON columns are kept as the values they
  encode. \<open>now\<close> is the clock of the database in milliseconds.
\<close>

record PendingMessage =
  pm_Seq :: int
  pm_Text :: string
  pm_ServerMsgID :: string
  pm_CreatedAtMs :: int

record Round =
  rd_User :: "string list"
  rd_Assistant :: string
  rd_SeqFrom :: int
  rd_SeqTo :: int
  rd_AgentRunID :: string

definition AgentPrivateConversationStateIdle :: string where "AgentPrivateConversationStateIdle = ''idle''"
definition AgentPrivateConversationStateRunning :: string where "AgentPrivateConversationStateRunning = ''running''"

lemma private_states [simp]:
  "AgentPrivateConversationStateIdle \<noteq> AgentPrivateConversationStateRunning" "AgentPrivateConversationStateRunning \<noteq> AgentPrivateConversationStateIdle"
  by (simp_all add: AgentPrivateConversationStateIdle_def AgentPrivateConversationStateRunning_def)

record AgentPrivateConversations =
  pc_AgentAccountId :: string
  pc_PeerAccountId :: string
  pc_Rounds :: "Round list"
  pc_Pending :: "PendingMessage list"
  pc_LastConsumedSeq :: int
  pc_State :: string
  pc_RunningUntil :: "int option"
  pc_Version :: int
  pc_LongTermMemory :: string
  pc_UserProfile :: string

type_synonym private_db = "string \<Rightarrow> AgentPrivateConversations option"

section \<open>Statements\<close>

text \<open>A statement on the row of a conversation: whether a row was affected, and the table after it.\<close>

definition affected :: "('w \<Rightarrow> bool \<times> 'w) \<Rightarrow> ('w, bool) act" where
  "affected f = call ''exec'' f"

definition update_row ::
  "string \<Rightarrow> (AgentPrivateConversations \<Rightarrow> bool) \<Rightarrow> (AgentPrivateConversations \<Rightarrow> AgentPrivateConversations) \<Rightarrow> private_db \<Rightarrow> bool \<times> private_db" where
  "update_row k cond f db = (case db k of None \<Rightarrow> (False, db) | Some r \<Rightarrow> if cond r then (True, db(k \<mapsto> f r)) else (False, db))"

record AppendPendingInput =
  ap_ConversationID :: string
  ap_AgentAccountID :: string
  ap_PeerAccountID :: string
  ap_Message :: PendingMessage
  ap_RunningTTLMillis :: int

abbreviation ap_Seq :: "AppendPendingInput \<Rightarrow> int" where
  "ap_Seq i \<equiv> pm_Seq (ap_Message i)"

text \<open>The three statements of \<^verbatim>\<open>AppendPending\<close>.\<close>

definition append_insert :: "int \<Rightarrow> AppendPendingInput \<Rightarrow> private_db \<Rightarrow> bool \<times> private_db" where
  "append_insert now i db =
     (if db (ap_ConversationID i) \<noteq> None then (False, db)
      else (True, db(ap_ConversationID i \<mapsto>
        \<lparr>pc_AgentAccountId = ap_AgentAccountID i, pc_PeerAccountId = ap_PeerAccountID i, pc_Rounds = [], pc_Pending = [ap_Message i],
         pc_LastConsumedSeq = ap_Seq i, pc_State = AgentPrivateConversationStateRunning,
         pc_RunningUntil = Some (now + max (ap_RunningTTLMillis i) 1), pc_Version = 0, pc_LongTermMemory = [], pc_UserProfile = []\<rparr>)))"

definition claimable :: "int \<Rightarrow> AgentPrivateConversations \<Rightarrow> bool" where
  "claimable now r \<longleftrightarrow> pc_State r = AgentPrivateConversationStateIdle
     \<or> (case pc_RunningUntil r of None \<Rightarrow> True | Some t \<Rightarrow> t \<le> now)"

definition append_claim :: "int \<Rightarrow> AppendPendingInput \<Rightarrow> private_db \<Rightarrow> bool \<times> private_db" where
  "append_claim now i = update_row (ap_ConversationID i) (\<lambda>r. ap_Seq i > pc_LastConsumedSeq r \<and> claimable now r)
     (\<lambda>r. r\<lparr>pc_Pending := pc_Pending r @ [ap_Message i], pc_LastConsumedSeq := ap_Seq i, pc_State := AgentPrivateConversationStateRunning,
        pc_RunningUntil := Some (now + max (ap_RunningTTLMillis i) 1), pc_Version := pc_Version r + 1\<rparr>)"

definition append_only :: "AppendPendingInput \<Rightarrow> private_db \<Rightarrow> bool \<times> private_db" where
  "append_only i = update_row (ap_ConversationID i) (\<lambda>r. ap_Seq i > pc_LastConsumedSeq r)
     (\<lambda>r. r\<lparr>pc_Pending := pc_Pending r @ [ap_Message i], pc_LastConsumedSeq := ap_Seq i, pc_Version := pc_Version r + 1\<rparr>)"

definition AppendPending :: "int \<Rightarrow> AppendPendingInput \<Rightarrow> (private_db, bool) act" where
  "AppendPending now i = transact (
     andThen (affected (append_insert now i)) (\<lambda>rows. if rows then ret True else
     andThen (affected (append_claim now i)) (\<lambda>rows. if rows then ret True else
     andThen (affected (append_only i)) (\<lambda>_. ret False))))"

text \<open>What is left of the messages that wait, and whether the row goes on running.\<close>

definition left_pending :: "int \<Rightarrow> PendingMessage list \<Rightarrow> PendingMessage list" where
  "left_pending seq = filter (\<lambda>m. pm_Seq m > seq)"

definition settle :: "int \<Rightarrow> int \<Rightarrow> int \<Rightarrow> AgentPrivateConversations \<Rightarrow> AgentPrivateConversations" where
  "settle now seq ttl r =
     (let more = left_pending seq (pc_Pending r) \<noteq> []
      in r\<lparr>pc_Pending := left_pending seq (pc_Pending r),
           pc_State := (if more then AgentPrivateConversationStateRunning else AgentPrivateConversationStateIdle),
           pc_RunningUntil := (if more then Some (now + max ttl 1) else None), pc_Version := pc_Version r + 1\<rparr>)"

definition keep_last :: "int \<Rightarrow> 'r list \<Rightarrow> 'r list" where
  "keep_last n xs = drop (length xs - nat n) xs"

definition row_update :: "string \<Rightarrow> (AgentPrivateConversations \<Rightarrow> AgentPrivateConversations) \<Rightarrow> (private_db, bool) act" where
  "row_update k f = exec_row (\<lambda>db. case db k of None \<Rightarrow> Inl ErrNotFound
     | Some r \<Rightarrow> Inr (pc_State (f r) = AgentPrivateConversationStateRunning, db(k \<mapsto> f r)))"

definition Model_CommitRound :: "int \<Rightarrow> string \<Rightarrow> Round \<Rightarrow> int \<Rightarrow> int \<Rightarrow> int \<Rightarrow> (private_db, bool) act" where
  "Model_CommitRound now k round consumed maxRounds ttl =
     row_update k (\<lambda>r. (settle now consumed ttl r)\<lparr>pc_Rounds := keep_last (max maxRounds 1) (pc_Rounds r @ [round])\<rparr>)"

definition Model_DiscardPending :: "int \<Rightarrow> string \<Rightarrow> int \<Rightarrow> int \<Rightarrow> (private_db, bool) act" where
  "Model_DiscardPending now k consumed ttl = row_update k (settle now consumed ttl)"

definition kept_rounds :: "int \<Rightarrow> Round list \<Rightarrow> Round list" where
  "kept_rounds cutoff = filter (\<lambda>x. cutoff \<le> 0 \<or> rd_SeqTo x > cutoff)"

definition summarized :: "string \<Rightarrow> string \<Rightarrow> int \<Rightarrow> AgentPrivateConversations \<Rightarrow> AgentPrivateConversations" where
  "summarized memory profile cutoff r =
     r\<lparr>pc_LongTermMemory := memory, pc_UserProfile := profile, pc_Rounds := kept_rounds cutoff (pc_Rounds r), pc_Version := pc_Version r + 1\<rparr>"

definition Model_ApplySummary :: "string \<Rightarrow> string \<Rightarrow> string \<Rightarrow> int \<Rightarrow> (private_db, unit) act" where
  "Model_ApplySummary k memory profile cutoff =
     andThen (affected (update_row k (\<lambda>_. True) (summarized memory profile cutoff)))
       (\<lambda>rows. if rows then ret () else raise ErrNotFound)"

section \<open>The store\<close>

definition SummarizeThreshold :: int where "SummarizeThreshold = 20"
definition KeepRoundsAfterSummary :: int where "KeepRoundsAfterSummary = 2"
definition MaxMemoryChars :: nat where "MaxMemoryChars = 4096"
definition MaxUserProfileChars :: nat where "MaxUserProfileChars = 2048"
definition DefaultMaxRounds :: int where "DefaultMaxRounds = 40"

definition validateID :: "string \<Rightarrow> string \<Rightarrow> goerror option" where
  "validateID value field = (if TrimSpace value = [] then Some (InvalidArgument (field @ '' is required'')) else None)"

text \<open>Durations are nanoseconds.\<close>

definition ttlMillis :: "int \<Rightarrow> int" where
  "ttlMillis ttl = (if ttl \<le> 0 then 0 else ttl div 1000000)"

text \<open>The first runes of a string, which PostgreSQL and JSON keep valid UTF-8; the conversion of invalid bytes is not modelled.\<close>

fun take_runes :: "nat \<Rightarrow> string \<Rightarrow> string" where
  "take_runes 0 s = []"
| "take_runes (Suc n) s = (if s = [] then [] else take (rune_width s) s @ take_runes n (drop (rune_width s) s))"

definition truncateChars :: "string \<Rightarrow> nat \<Rightarrow> string" where
  "truncateChars s maxChars = (if rune_count s \<le> maxChars then s else take_runes maxChars s)"

record AppendUserMessageInput =
  au_ConversationID :: string
  au_AgentAccountID :: string
  au_PeerAccountID :: string
  au_Message :: PendingMessage
  au_RunningTTL :: int

definition AppendUserMessage :: "int \<Rightarrow> AppendUserMessageInput \<Rightarrow> (private_db, bool) act" where
  "AppendUserMessage now i =
     andThen (check (validateID (au_ConversationID i) ''conversation_id'')) (\<lambda>_.
     andThen (check (validateID (au_AgentAccountID i) ''agent_account_id'')) (\<lambda>_.
     andThen (check (validateID (au_PeerAccountID i) ''peer_account_id'')) (\<lambda>_.
     if pm_Seq (au_Message i) \<le> 0 then raise (InvalidArgument ''message seq must be greater than 0'')
     else AppendPending now
       \<lparr>ap_ConversationID = au_ConversationID i, ap_AgentAccountID = au_AgentAccountID i, ap_PeerAccountID = au_PeerAccountID i,
        ap_Message = au_Message i, ap_RunningTTLMillis = ttlMillis (au_RunningTTL i)\<rparr>)))"

abbreviation no_conversation :: "(private_db, 'r) act \<Rightarrow> (private_db, 'r) act" where
  "no_conversation \<equiv> not_found_as ''agent private conversation not found''"

definition CommitRound :: "int \<Rightarrow> string \<Rightarrow> Round \<Rightarrow> int \<Rightarrow> int \<Rightarrow> int \<Rightarrow> (private_db, bool) act" where
  "CommitRound now k round consumed maxRounds ttl =
     andThen (check (validateID k ''conversation_id'')) (\<lambda>_.
     no_conversation (Model_CommitRound now k round consumed (if maxRounds \<le> 0 then DefaultMaxRounds else maxRounds) (ttlMillis ttl)))"

definition DiscardPending :: "int \<Rightarrow> string \<Rightarrow> int \<Rightarrow> int \<Rightarrow> (private_db, bool) act" where
  "DiscardPending now k consumed ttl =
     andThen (check (validateID k ''conversation_id'')) (\<lambda>_. no_conversation (Model_DiscardPending now k consumed (ttlMillis ttl)))"

definition ApplySummary :: "string \<Rightarrow> string \<Rightarrow> string \<Rightarrow> int \<Rightarrow> (private_db, unit) act" where
  "ApplySummary k memory profile cutoff =
     andThen (check (validateID k ''conversation_id'')) (\<lambda>_.
     no_conversation (Model_ApplySummary k (truncateChars memory MaxMemoryChars) (truncateChars profile MaxUserProfileChars) cutoff))"

text \<open>A snapshot is the row.\<close>

definition Load :: "string \<Rightarrow> (private_db, AgentPrivateConversations) act" where
  "Load k = andThen (check (validateID k ''conversation_id'')) (\<lambda>_.
     no_conversation (query (\<lambda>db. case db k of None \<Rightarrow> Inl ErrNotFound | Some r \<Rightarrow> Inr r)))"

definition MergeTexts :: "PendingMessage list \<Rightarrow> string" where
  "MergeTexts messages =
     (let parts = filter (\<lambda>t. t \<noteq> []) (map (\<lambda>m. TrimSpace (pm_Text m)) messages)
      in concat (case parts of [] \<Rightarrow> [] | p # ps \<Rightarrow> p # map (\<lambda>q. CHR 0x0A # q) ps))"

end
