(* ===== verification/Agent_Trigger.thy ===== *)
theory Agent_Trigger
  imports Events Id_Gen
begin

text \<open>
  Which messages wake which agents (\<^verbatim>\<open>service/agent/rpc/internal/trigger/judge.go\<close> and \<^verbatim>\<open>consumer/consumer.go\<close>): the
  judgement of an accepted event and the trigger that is handed on for each agent. Which agent hosts a conversation is read from the
  table of \<^verbatim>\<open>convhosting\<close>, whose unique index allows one enabled row of a conversation.
\<close>

section \<open>The hosting table\<close>

record HostingSetting =
  hs_OwnerAccountID :: string
  hs_ConversationID :: string
  hs_Enabled :: bool
  hs_MaxRecentMessages :: int
  hs_SummaryEnabled :: bool

definition FindEnabledByConversationId :: "string \<Rightarrow> (HostingSetting list, HostingSetting) act" where
  "FindEnabledByConversationId k = query (\<lambda>db.
     case find (\<lambda>s. hs_ConversationID s = k \<and> hs_Enabled s) db of None \<Rightarrow> Inl ErrNotFound | Some s \<Rightarrow> Inr s)"

definition GetEnabledConversationAIHosting :: "string \<Rightarrow> (HostingSetting list, HostingSetting) act" where
  "GetEnabledConversationAIHosting k = not_found_as ''enabled conversation AI hosting setting not found'' (FindEnabledByConversationId k)"

text \<open>The account that hosts a conversation, and whether one does.\<close>

definition HostingAgent :: "string \<Rightarrow> (HostingSetting list, string \<times> bool) act" where
  "HostingAgent k = (\<lambda>w. case GetEnabledConversationAIHosting k w of
       (Inl e, w') \<Rightarrow> (if fst (the (From (Some e))) = CodeNotFound then Inr ([], False) else Inl e, w')
     | (Inr s, w') \<Rightarrow> (if hs_Enabled s then Inr (hs_OwnerAccountID s, True) else Inr ([], False), w'))"

section \<open>The judge\<close>

datatype Kind = KindAgentInbox | KindHosting

record Trigger =
  tr_Kind :: Kind
  tr_AgentAccountID :: string
  tr_Event :: MessageEvent

definition recipientCandidates :: "MessageEvent \<Rightarrow> string list" where
  "recipientCandidates event =
     (if p_ReceiverID (Payload event) = [] then [] else [p_ReceiverID (Payload event)])
     @ p_ReceiverIDs (Payload event) @ p_VisibleUserIDs (Payload event)"

definition at_set :: "MessageEvent \<Rightarrow> string set option" where
  "at_set event = (if ChatType event = ChatTypeGroup then Some (set (p_AtUserIDs (Payload event))) else None)"

text \<open>The agents among the candidates that run, in order, each once.\<close>

fun inbox_agents :: "string \<Rightarrow> string set option \<Rightarrow> string set \<Rightarrow> string list \<Rightarrow> string list" where
  "inbox_agents sender atSet seen [] = []"
| "inbox_agents sender atSet seen (i # ids) =
     (if i = sender \<or> i \<in> seen \<or> \<not> IsAgentAccountID i \<or> (case atSet of None \<Rightarrow> False | Some s \<Rightarrow> i \<notin> s)
      then inbox_agents sender atSet seen ids
      else i # inbox_agents sender atSet (insert i seen) ids)"

definition Evaluate :: "MessageEvent \<Rightarrow> (HostingSetting list, Trigger list) act" where
  "Evaluate event =
     (if p_MessageOrigin (Payload event) = MessageOriginAI \<and> \<not> p_AllowRecursiveTrigger (Payload event) then ret []
      else let agents = inbox_agents (SenderID event) (at_set event) {} (recipientCandidates event);
               triggered = map (\<lambda>i. \<lparr>tr_Kind = KindAgentInbox, tr_AgentAccountID = i, tr_Event = event\<rparr>) agents
           in andThen (HostingAgent (ConversationID event)) (\<lambda>(agentID, hosted).
              ret (if hosted \<and> agentID \<noteq> [] \<and> agentID \<noteq> SenderID event \<and> agentID \<notin> set agents
                   then triggered @ [\<lparr>tr_Kind = KindHosting, tr_AgentAccountID = agentID, tr_Event = event\<rparr>] else triggered)))"

section \<open>Triggers for the runner\<close>

definition TriggerTypeUserPrivateMessage :: string where "TriggerTypeUserPrivateMessage = ''user_private_message''"
definition TriggerTypeGroupMention :: string where "TriggerTypeGroupMention = ''group_mention''"
definition TriggerTypeAdminManualRun :: string where "TriggerTypeAdminManualRun = ''admin_manual_run''"

record AgentTrigger =
  at_RequestID :: string
  at_EventID :: string
  at_OperationID :: string
  at_TraceID :: string
  at_TriggerType :: string
  at_AgentUserID :: string
  at_RequestingUserID :: string
  at_ConversationID :: string
  at_ConversationType :: string
  at_TriggerMessageID :: string
  at_TriggerSeq :: int
  at_PromptText :: string
  at_ReplyToMessageID :: string
  at_RecursiveTrigger :: bool
  at_SourceAgentRunID :: string
  at_SourceAgentUserID :: string
  at_SourceMessageID :: string
  at_SourceMessageSeq :: int
  at_SourceMessageText :: string
  at_SourceContentType :: string
  at_TargetAgentUserIDs :: "string list"
  at_PrivateConvContext :: bool

definition messageTriggerType :: "string \<Rightarrow> string result" where
  "messageTriggerType chatType =
     (if chatType = ChatTypeSingle then Inr TriggerTypeUserPrivateMessage
      else if chatType = ChatTypeGroup then Inr TriggerTypeGroupMention
      else Inl (PlainError ''unsupported chat_type''))"

definition agentTriggerFromJudged :: "Trigger \<Rightarrow> AgentTrigger result" where
  "agentTriggerFromJudged trig =
     (let event = tr_Event trig; recursive = (p_MessageOrigin (Payload event) = MessageOriginAI)
      in map_sum id (\<lambda>triggerType.
        \<lparr>at_RequestID = EventID event @ '':'' @ tr_AgentAccountID trig, at_EventID = EventID event, at_OperationID = [],
         at_TraceID = p_TraceID (Payload event), at_TriggerType = triggerType, at_AgentUserID = tr_AgentAccountID trig,
         at_RequestingUserID = SenderID event, at_ConversationID = ConversationID event, at_ConversationType = ChatType event,
         at_TriggerMessageID = ServerMsgID event, at_TriggerSeq = Seq event, at_PromptText = [], at_ReplyToMessageID = ServerMsgID event,
         at_RecursiveTrigger = recursive, at_SourceAgentRunID = p_AgentRunID (Payload event),
         at_SourceAgentUserID = (if recursive then SenderID event else []), at_SourceMessageID = ServerMsgID event,
         at_SourceMessageSeq = Seq event, at_SourceMessageText = [], at_SourceContentType = p_ContentType (Payload event),
         at_TargetAgentUserIDs = [tr_AgentAccountID trig], at_PrivateConvContext = False\<rparr>)
        (messageTriggerType (ChatType event)))"

section \<open>Lemmas on the judge\<close>

lemma set_inbox_agents:
  "set (inbox_agents sender atSet seen ids)
   = {i \<in> set ids. i \<noteq> sender \<and> i \<notin> seen \<and> IsAgentAccountID i \<and> (\<forall>s. atSet = Some s \<longrightarrow> i \<in> s)}"
  by (induction ids arbitrary: seen) (auto split: option.splits)

lemma distinct_inbox_agents: "distinct (inbox_agents sender atSet seen ids)"
  by (induction ids arbitrary: seen) (auto simp: set_inbox_agents)

lemma HostingAgent_db: "HostingAgent k (db, fs) = (r, (db', fs')) \<Longrightarrow> db' = db"
  by (auto simp: HostingAgent_def GetEnabledConversationAIHosting_def FindEnabledByConversationId_def not_found_as_def query_def andThen_def
        call_def ret_def raise_def split: prod.splits sum.splits list.splits fault.splits option.splits if_splits)

lemma query_not_missing: "PlainError ''query'' \<noteq> ErrNotFound" "fst (the (From (Some (PlainError ''query'')))) \<noteq> CodeNotFound"
  by (simp_all add: ErrNotFound_def From_def)

lemma HostingAgent_ok:
  assumes "HostingAgent k (db, fs) = (Inr (i, hosted), (db', fs'))"
  shows "if hosted then \<exists>s \<in> set db. hs_ConversationID s = k \<and> hs_Enabled s \<and> hs_OwnerAccountID s = i
         else \<forall>s \<in> set db. hs_ConversationID s = k \<longrightarrow> \<not> hs_Enabled s"
  using assms
  by (auto simp: HostingAgent_def GetEnabledConversationAIHosting_def FindEnabledByConversationId_def not_found_as_def query_def andThen_def
        call_def ret_def raise_def find_None_iff find_Some_iff query_not_missing split: prod.splits sum.splits list.splits fault.splits option.splits if_splits)

text \<open>
  C31: The judgement of an event is exact. An AI message that is not marked as recursive wakes nobody; otherwise exactly the agents among the recipients run, in a group those that
  are mentioned, and the account that hosts the conversation, each once and never the sender, whatever the lookups before it met.
\<close>

theorem judge_wakes_exactly:
  assumes run: "Evaluate event (db, fs) = (Inr ts, (db', fs'))"
    and unique: "\<forall>s \<in> set db. \<forall>s' \<in> set db. hs_ConversationID s = hs_ConversationID s' \<and> hs_Enabled s \<and> hs_Enabled s' \<longrightarrow> s = s'"
  shows "db' = db \<and> distinct (map tr_AgentAccountID ts) \<and> (\<forall>t \<in> set ts. tr_Event t = event)
    \<and> (if p_MessageOrigin (Payload event) = MessageOriginAI \<and> \<not> p_AllowRecursiveTrigger (Payload event) then ts = []
       else set (map tr_AgentAccountID ts) = {i. i \<noteq> SenderID event \<and>
         (i \<in> set (recipientCandidates event) \<and> IsAgentAccountID i \<and> (ChatType event = ChatTypeGroup \<longrightarrow> i \<in> set (p_AtUserIDs (Payload event)))
          \<or> i \<noteq> [] \<and> (\<exists>s \<in> set db. hs_ConversationID s = ConversationID event \<and> hs_Enabled s \<and> hs_OwnerAccountID s = i))})"
proof (cases "p_MessageOrigin (Payload event) = MessageOriginAI \<and> \<not> p_AllowRecursiveTrigger (Payload event)")
  case True
  with run show ?thesis by (simp add: Evaluate_def ret_def)
next
  case False
  let ?agents = "inbox_agents (SenderID event) (at_set event) {} (recipientCandidates event)"
  let ?t = "\<lambda>kind i. \<lparr>tr_Kind = kind, tr_AgentAccountID = i, tr_Event = event\<rparr>"
  obtain i hosted where look: "HostingAgent (ConversationID event) (db, fs) = (Inr (i, hosted), (db', fs'))"
    and ts: "ts = map (?t KindAgentInbox) ?agents
      @ (if hosted \<and> i \<noteq> [] \<and> i \<noteq> SenderID event \<and> i \<notin> set ?agents then [?t KindHosting i] else [])"
    using run False by (auto simp: Evaluate_def Let_def andThen_def ret_def split: prod.splits sum.splits if_splits)
  have ids: "map tr_AgentAccountID ts = ?agents @ (if hosted \<and> i \<noteq> [] \<and> i \<noteq> SenderID event \<and> i \<notin> set ?agents then [i] else [])"
    by (simp add: ts o_def)
  have agents: "set ?agents = {i \<in> set (recipientCandidates event). i \<noteq> SenderID event \<and> IsAgentAccountID i
      \<and> (ChatType event = ChatTypeGroup \<longrightarrow> i \<in> set (p_AtUserIDs (Payload event)))}"
    by (auto simp: set_inbox_agents at_set_def)
  have hosts: "(\<exists>s \<in> set db. hs_ConversationID s = ConversationID event \<and> hs_Enabled s \<and> hs_OwnerAccountID s = x) \<longleftrightarrow> hosted \<and> x = i" for x
  proof (cases hosted)
    case True
    then obtain s where s: "s \<in> set db" "hs_ConversationID s = ConversationID event" "hs_Enabled s" "hs_OwnerAccountID s = i"
      using HostingAgent_ok [OF look] by auto
    with unique have "s' = s" if "s' \<in> set db" "hs_ConversationID s' = ConversationID event" "hs_Enabled s'" for s' using that by metis
    with s True show ?thesis by blast
  next
    case False
    then show ?thesis using HostingAgent_ok [OF look] by (simp only: if_False) blast
  qed
  have "distinct (map tr_AgentAccountID ts)" by (simp only: ids distinct_append distinct_inbox_agents) auto
  moreover have "set (map tr_AgentAccountID ts) = {x. x \<noteq> SenderID event \<and>
      (x \<in> set (recipientCandidates event) \<and> IsAgentAccountID x \<and> (ChatType event = ChatTypeGroup \<longrightarrow> x \<in> set (p_AtUserIDs (Payload event)))
       \<or> x \<noteq> [] \<and> hosted \<and> x = i)}"
    unfolding ids by (auto simp: agents)
  ultimately show ?thesis using False HostingAgent_db [OF look] by (auto simp: ts hosts)
qed

text \<open>A person writes to a group of which two agents are members, mentions one of them and itself, and hosts the conversation.\<close>

definition demo_group_event :: MessageEvent where
  "demo_group_event =
     \<lparr>EventID = ''e'', EventType = ''message.accepted'', ConversationID = ''g'', ServerMsgID = ''m'', Seq = 1, SenderID = ''21496832'', ChatType = ChatTypeGroup,
      CreatedAt = 0, Payload =
        \<lparr>p_ClientMsgID = ''c'', p_ReceiverID = [], p_ReceiverIDs = [], p_GroupID = ''g'', p_ContentType = ''at'', p_Content = [],
         p_MessageOrigin = MessageOriginHuman, p_AgentAccountID = [], p_TriggerServerMsgID = [], p_AgentRunID = [], p_AllowRecursiveTrigger = False,
         p_UserID = [], p_HasReadSeq = 0, p_ReadAt = 0, p_VisibleUserIDs = [''21496832'', ''20972544'', ''20972548''],
         p_AtUserIDs = [''20972544'', ''21496832''], p_PayloadHash = [], p_SendTime = 0, p_TraceID = [], p_RequestID = [], p_TraceParent = [], p_TraceState = []\<rparr>\<rparr>"

definition demo_hosting :: "HostingSetting list" where
  "demo_hosting = [\<lparr>hs_OwnerAccountID = ''7'', hs_ConversationID = ''g'', hs_Enabled = True, hs_MaxRecentMessages = 0, hs_SummaryEnabled = False\<rparr>]"

lemma agent_decimal: "0 < i \<Longrightarrow> i < 2 ^ 63 \<Longrightarrow> IsAgentAccountID (FormatInt i) \<longleftrightarrow> IsAgent i"
  by (simp add: IsAgentAccountID_def ParseInt_FormatInt int64_def)

lemma demo_group_ids: "IsAgentAccountID ''20972544''" "IsAgentAccountID ''20972548''" "\<not> IsAgentAccountID ''21496832''"
proof -
  have t: "FormatInt 20972544 = ''20972544''" "FormatInt 20972548 = ''20972548''" "FormatInt 21496832 = ''21496832''"
    by (simp_all add: FormatInt_def decimal.simps)
  have "IsAgent 20972544" "IsAgent 20972548" "\<not> IsAgent 21496832" by code_simp+
  then show "IsAgentAccountID ''20972544''" "IsAgentAccountID ''20972548''" "\<not> IsAgentAccountID ''21496832''"
    using agent_decimal [of 20972544] agent_decimal [of 20972548] agent_decimal [of 21496832] unfolding t by simp_all
qed

theorem judge_wakes_exactly_witness:
  "\<exists>ts. Evaluate demo_group_event (demo_hosting, []) = (Inr ts, (demo_hosting, [])) \<and> set (map tr_AgentAccountID ts) = {''20972544'', ''7''}
     \<and> map tr_Kind ts = [KindAgentInbox, KindHosting]"
proof -
  note agents = demo_group_ids
  have "HostingAgent ''g'' (demo_hosting, []) = (Inr (''7'', True), (demo_hosting, []))"
    by (simp add: HostingAgent_def GetEnabledConversationAIHosting_def FindEnabledByConversationId_def not_found_as_def query_def andThen_def call_def ret_def demo_hosting_def)
  then have "\<exists>ts. Evaluate demo_group_event (demo_hosting, []) = (Inr ts, (demo_hosting, [])) \<and> map tr_Kind ts = [KindAgentInbox, KindHosting]"
    by (simp add: Evaluate_def Let_def andThen_def ret_def demo_group_event_def at_set_def recipientCandidates_def agents MessageOriginHuman_def MessageOriginAI_def)
  then obtain ts where "Evaluate demo_group_event (demo_hosting, []) = (Inr ts, (demo_hosting, [])) \<and> map tr_Kind ts = [KindAgentInbox, KindHosting]" by (rule exE)
  note ts = conjunct1 [OF this] conjunct2 [OF this]
  have "\<forall>s \<in> set demo_hosting. \<forall>s' \<in> set demo_hosting. hs_ConversationID s = hs_ConversationID s' \<and> hs_Enabled s \<and> hs_Enabled s' \<longrightarrow> s = s'"
    by (simp add: demo_hosting_def)
  note all = judge_wakes_exactly [OF ts(1) this]
  have fields: "SenderID demo_group_event = ''21496832''" "ChatType demo_group_event = ChatTypeGroup" "ConversationID demo_group_event = ''g''"
    "set (p_AtUserIDs (Payload demo_group_event)) = {''20972544'', ''21496832''}" "p_MessageOrigin (Payload demo_group_event) \<noteq> MessageOriginAI"
    "set (recipientCandidates demo_group_event) = {''21496832'', ''20972544'', ''20972548''}"
    by (simp_all add: demo_group_event_def recipientCandidates_def MessageOriginHuman_def MessageOriginAI_def)
  have host: "(\<exists>s \<in> set demo_hosting. hs_ConversationID s = ''g'' \<and> hs_Enabled s \<and> hs_OwnerAccountID s = i) \<longleftrightarrow> i = ''7''" for i
    by (auto simp: demo_hosting_def)
  note exact = conjunct2 [OF conjunct2 [OF conjunct2 [OF all]]]
  have "set (map tr_AgentAccountID ts) = {i. i \<noteq> ''21496832'' \<and> (i \<in> {''21496832'', ''20972544'', ''20972548''} \<and> IsAgentAccountID i
      \<and> i \<in> {''20972544'', ''21496832''} \<or> i \<noteq> [] \<and> i = ''7'')}"
    using exact unfolding fields host using fields(5) by (simp only: if_False simp_thms)
  also have "\<dots> = {''20972544'', ''7''}" using demo_group_ids(1) by auto
  finally have "set (map tr_AgentAccountID ts) = {''20972544'', ''7''}" .
  with ts show ?thesis by (intro exI [of _ ts] conjI)
qed

end
