(* ===== verification/Agent_Chat.thy ===== *)
theory Agent_Chat
  imports Agent_Store Agent_Trigger
begin

text \<open>
  Private chats with an agent (\<^verbatim>\<open>service/agent/rpc/internal/orchestrator/private_coalescer.go\<close>): messages that arrive while the agent
  answers wait and are answered together. The loop \<^verbatim>\<open>drive\<close> is cut at its calls into phases, so that arrivals and other loops
  can come between them. The runner, whose result is an error or a text and the id of a run, and the summarizer are interfaces of
  the source and stay arguments. Durations are nanoseconds, the clock of the database milliseconds.
\<close>

section \<open>The coalescer\<close>

record SummarizeInput =
  si_ExistingMemory :: string
  si_ExistingProfile :: string
  si_Rounds :: "Round list"
  si_MaxMemoryChars :: nat
  si_MaxProfileChars :: nat

record PrivateChatCoalescer =
  co_readMarker :: bool
  co_summarizer :: "(SummarizeInput \<Rightarrow> (string \<times> string) result) option"
  co_maxRounds :: int
  co_summarizeThreshold :: int
  co_keepRounds :: int
  co_runTimeout :: int
  co_runningTTL :: int

definition defaultAsyncTriggerRunTimeout :: int where
  "defaultAsyncTriggerRunTimeout = 2 * 60 * 10 ^ 9"

definition NewPrivateChatCoalescer ::
  "bool \<Rightarrow> (SummarizeInput \<Rightarrow> (string \<times> string) result) option \<Rightarrow> int \<Rightarrow> int \<Rightarrow> int \<Rightarrow> int \<Rightarrow> PrivateChatCoalescer" where
  "NewPrivateChatCoalescer readMarker summarizer maxRounds threshold keepRounds runTimeout =
     (let t = (if runTimeout \<le> 0 then defaultAsyncTriggerRunTimeout else runTimeout)
      in \<lparr>co_readMarker = readMarker, co_summarizer = summarizer,
          co_maxRounds = (if maxRounds \<le> 0 then DefaultMaxRounds else maxRounds),
          co_summarizeThreshold = (if threshold \<le> 0 then SummarizeThreshold else threshold),
          co_keepRounds = (if keepRounds \<le> 0 then KeepRoundsAfterSummary else keepRounds),
          co_runTimeout = t, co_runningTTL = t + 60 * 10 ^ 9\<rparr>)"

text \<open>The result says whether the message starts a loop.\<close>

definition OnUserMessage :: "PrivateChatCoalescer \<Rightarrow> int \<Rightarrow> AgentTrigger \<Rightarrow> PendingMessage \<Rightarrow> (private_db, bool) act" where
  "OnUserMessage C now base m =
     (if at_ConversationType base \<noteq> ChatTypeSingle then raise (InvalidArgument ''private chat coalescer only supports single conversations'')
      else if pm_Seq m \<le> 0 then raise (InvalidArgument ''message seq must be greater than 0'')
      else let peerID = TrimSpace (at_RequestingUserID base); agentID = TrimSpace (at_AgentUserID base)
        in if peerID = [] \<or> agentID = [] then raise (InvalidArgument ''private chat requires agent_user_id and requesting_user_id'')
           else AppendUserMessage now
             \<lparr>au_ConversationID = at_ConversationID base, au_AgentAccountID = agentID, au_PeerAccountID = peerID,
              au_Message = m, au_RunningTTL = co_runningTTL C\<rparr>)"

text \<open>What the runner returns.\<close>

record RunResult =
  rr_FinalText :: string
  rr_RunID :: string

definition pendingTexts :: "PendingMessage list \<Rightarrow> string list" where
  "pendingTexts batch = filter (\<lambda>t. t \<noteq> []) (map (\<lambda>m. TrimSpace (pm_Text m)) batch)"

definition batchTrigger :: "AgentTrigger \<Rightarrow> PendingMessage list \<Rightarrow> AgentTrigger" where
  "batchTrigger base batch =
     (let m = last batch
      in base\<lparr>at_RequestID := at_RequestID base @ '':b'' @ FormatInt (pm_Seq m), at_TriggerType := TriggerTypeUserPrivateMessage,
              at_ConversationType := ChatTypeSingle, at_TriggerMessageID := pm_ServerMsgID m, at_TriggerSeq := pm_Seq m,
              at_ReplyToMessageID := pm_ServerMsgID m, at_PromptText := MergeTexts batch, at_PrivateConvContext := True,
              at_TargetAgentUserIDs := [at_AgentUserID base]\<rparr>)"

definition batch_round :: "PendingMessage list \<Rightarrow> RunResult \<Rightarrow> Round" where
  "batch_round batch result =
     \<lparr>rd_User = pendingTexts batch, rd_Assistant = TrimSpace (rr_FinalText result), rd_SeqFrom = pm_Seq (hd batch),
      rd_SeqTo = pm_Seq (last batch), rd_AgentRunID = TrimSpace (rr_RunID result)\<rparr>"

text \<open>The rounds that \<^verbatim>\<open>maybeSummarize\<close> folds into the memory, if there are enough.\<close>

definition rounds_to_fold :: "PrivateChatCoalescer \<Rightarrow> Round list \<Rightarrow> Round list option" where
  "rounds_to_fold C rounds =
     (let n = int (length rounds); keep = max (co_keepRounds C) 0
      in if n < co_summarizeThreshold C \<or> keep \<ge> n then None else Some (take (nat (n - keep)) rounds))"

text \<open>
  Where a loop stands: about to load the messages that wait, or to release a row without any; running a batch; about to settle it;
  about to fold rounds; about to write a summary. After a fold, \<open>again\<close> says whether it goes on.
\<close>

datatype phase =
    Loading
  | Releasing
  | Running "PendingMessage list"
  | Settling "PendingMessage list" "RunResult result"
  | Folding bool
  | Applying string string int bool

definition go_on :: "bool \<Rightarrow> phase option" where
  "go_on again = (if again then Some Loading else None)"

text \<open>The next phase, none when the loop returns; \<open>res\<close> is what the runner returns in this step.\<close>

fun drive_next :: "PrivateChatCoalescer \<Rightarrow> AgentTrigger \<Rightarrow> int \<Rightarrow> RunResult result \<Rightarrow> phase \<Rightarrow> (private_db, phase option) act" where
  "drive_next C base now res Loading =
     andThen (Load (at_ConversationID base)) (\<lambda>snapshot. ret (Some (if pc_Pending snapshot = [] then Releasing else Running (pc_Pending snapshot))))"
| "drive_next C base now res Releasing =
     andThen (DiscardPending now (at_ConversationID base) 0 (co_runningTTL C)) (\<lambda>_. ret None)"
| "drive_next C base now res (Running batch) = ret (Some (Settling batch res))"
| "drive_next C base now res (Settling batch result) =
     (let discard = andThen (DiscardPending now (at_ConversationID base) (pm_Seq (last batch)) (co_runningTTL C)) (\<lambda>again. ret (go_on again))
      in case result of
        Inl _ \<Rightarrow> discard
      | Inr r \<Rightarrow>
          if rd_Assistant (batch_round batch r) = [] then discard
          else andThen (CommitRound now (at_ConversationID base) (batch_round batch r) (pm_Seq (last batch)) (co_maxRounds C) (co_runningTTL C))
                 (\<lambda>again. ret (Some (Folding again))))"
| "drive_next C base now res (Folding again) =
     (case co_summarizer C of
        None \<Rightarrow> ret (go_on again)
      | Some summarize \<Rightarrow> (\<lambda>w. case Load (at_ConversationID base) w of
            (Inl _, w') \<Rightarrow> (Inr (go_on again), w')
          | (Inr snapshot, w') \<Rightarrow> (Inr (case rounds_to_fold C (pc_Rounds snapshot) of
                None \<Rightarrow> go_on again
              | Some toSummarize \<Rightarrow> (case summarize
                    \<lparr>si_ExistingMemory = pc_LongTermMemory snapshot, si_ExistingProfile = pc_UserProfile snapshot, si_Rounds = toSummarize,
                     si_MaxMemoryChars = MaxMemoryChars, si_MaxProfileChars = MaxUserProfileChars\<rparr> of
                    Inl _ \<Rightarrow> go_on again
                  | Inr (memory, profile) \<Rightarrow>
                      if TrimSpace memory = [] then go_on again
                      else Some (Applying (TrimSpace memory) (TrimSpace profile) (rd_SeqTo (last toSummarize)) again))), w')))"
| "drive_next C base now res (Applying memory profile cutoff again) =
     (\<lambda>w. case ApplySummary (at_ConversationID base) memory profile cutoff w of (_, w') \<Rightarrow> (Inr (go_on again), w'))"

section \<open>Runs of one conversation\<close>

text \<open>
  Beside the table: the loops under way, the messages that were accepted, the triggers the runner was given and
  the batches that were settled, the read marks, and how many loops were cut short by an error or a crash.
\<close>

record chat =
  ch_db :: private_db
  ch_loops :: "(AgentTrigger \<times> phase) list"
  ch_accepted :: "PendingMessage list"
  ch_ran :: "AgentTrigger list"
  ch_batches :: "PendingMessage list list"
  ch_settled :: "PendingMessage list list"
  ch_marks :: "(string \<times> int) list"
  ch_cut :: nat

definition new_chat :: chat where
  "new_chat = \<lparr>ch_db = (\<lambda>_. None), ch_loops = [], ch_accepted = [], ch_ran = [], ch_batches = [], ch_settled = [], ch_marks = [], ch_cut = 0\<rparr>"

text \<open>A loop owns the row unless it has given it back and only summarizes.\<close>

fun owns :: "phase \<Rightarrow> bool" where
  "owns (Folding again) = again"
| "owns (Applying _ _ _ again) = again"
| "owns _ = True"

definition owners :: "chat \<Rightarrow> (AgentTrigger \<times> phase) list" where
  "owners c = filter (\<lambda>(_, p). owns p) (ch_loops c)"

definition accepts :: "string \<Rightarrow> PendingMessage \<Rightarrow> private_db \<Rightarrow> bool" where
  "accepts k m db = (case db k of None \<Rightarrow> True | Some r \<Rightarrow> pm_Seq m > pc_LastConsumedSeq r)"

text \<open>The lease: while a loop owns the row, the row cannot be claimed.\<close>

definition lease_held :: "string \<Rightarrow> int \<Rightarrow> chat \<Rightarrow> bool" where
  "lease_held k now c \<longleftrightarrow> owners c = [] \<or> (case ch_db c k of None \<Rightarrow> True | Some r \<Rightarrow> \<not> claimable now r)"

fun batch_started :: "phase \<Rightarrow> PendingMessage list list" where
  "batch_started (Running b) = [b]"
| "batch_started _ = []"

fun batch_settled :: "phase \<Rightarrow> PendingMessage list list" where
  "batch_settled (Settling b _) = [b]"
| "batch_settled _ = []"

definition read_marks :: "PrivateChatCoalescer \<Rightarrow> AgentTrigger \<Rightarrow> phase \<Rightarrow> (string \<times> int) list" where
  "read_marks C base p = (if co_readMarker C then map (\<lambda>b. (at_AgentUserID base, pm_Seq (last b))) (filter (\<lambda>b. 0 < pm_Seq (last b)) (batch_started p)) else [])"

text \<open>A step of a loop, and any step: an arrival, whose transaction is one step here, a step of a loop, or a loop that is cut short.\<close>

inductive loop_step :: "PrivateChatCoalescer \<Rightarrow> string \<Rightarrow> chat \<Rightarrow> chat \<Rightarrow> bool" for C k where
  drive: "ch_loops c = ds @ (base, p) # ds' \<Longrightarrow> drive_next C base now res p (ch_db c, []) = (Inr q, (db', [])) \<Longrightarrow>
    loop_step C k c (c\<lparr>ch_db := db', ch_loops := ds @ map (Pair base) (case q of None \<Rightarrow> [] | Some p' \<Rightarrow> [p']) @ ds',
      ch_ran := ch_ran c @ map (batchTrigger base) (batch_started p), ch_batches := ch_batches c @ batch_started p,
      ch_settled := ch_settled c @ batch_settled p, ch_marks := ch_marks c @ read_marks C base p\<rparr>)"

inductive chat_step :: "PrivateChatCoalescer \<Rightarrow> string \<Rightarrow> chat \<Rightarrow> chat \<Rightarrow> bool" for C k where
  arrive: "at_ConversationID base = k \<Longrightarrow> lease_held k now c \<Longrightarrow> OnUserMessage C now base m (ch_db c, []) = (Inr fired, (db', [])) \<Longrightarrow>
    chat_step C k c (c\<lparr>ch_db := db', ch_loops := ch_loops c @ (if fired then [(base, Loading)] else []),
      ch_accepted := ch_accepted c @ (if accepts k m (ch_db c) then [m] else [])\<rparr>)"
| loop: "loop_step C k c c' \<Longrightarrow> chat_step C k c c'"
| stop: "ch_loops c = ds @ d # ds' \<Longrightarrow> chat_step C k c (c\<lparr>ch_loops := ds @ ds', ch_cut := ch_cut c + 1\<rparr>)"

section \<open>Effects\<close>

definition new_row :: "PrivateChatCoalescer \<Rightarrow> int \<Rightarrow> AgentTrigger \<Rightarrow> PendingMessage \<Rightarrow> AgentPrivateConversations" where
  "new_row C now base m =
     \<lparr>pc_AgentAccountId = TrimSpace (at_AgentUserID base), pc_PeerAccountId = TrimSpace (at_RequestingUserID base), pc_Rounds = [],
      pc_Pending = [m], pc_LastConsumedSeq = pm_Seq m, pc_State = AgentPrivateConversationStateRunning,
      pc_RunningUntil = Some (now + max (ttlMillis (co_runningTTL C)) 1), pc_Version = 0, pc_LongTermMemory = [], pc_UserProfile = []\<rparr>"

definition claimed_row :: "PrivateChatCoalescer \<Rightarrow> int \<Rightarrow> PendingMessage \<Rightarrow> AgentPrivateConversations \<Rightarrow> AgentPrivateConversations" where
  "claimed_row C now m r = r\<lparr>pc_Pending := pc_Pending r @ [m], pc_LastConsumedSeq := pm_Seq m, pc_State := AgentPrivateConversationStateRunning,
     pc_RunningUntil := Some (now + max (ttlMillis (co_runningTTL C)) 1), pc_Version := pc_Version r + 1\<rparr>"

definition added_row :: "PendingMessage \<Rightarrow> AgentPrivateConversations \<Rightarrow> AgentPrivateConversations" where
  "added_row m r = r\<lparr>pc_Pending := pc_Pending r @ [m], pc_LastConsumedSeq := pm_Seq m, pc_Version := pc_Version r + 1\<rparr>"

lemma OnUserMessage_effect:
  assumes "OnUserMessage C now base m (db, []) = (Inr fired, (db', []))" "at_ConversationID base = k"
  shows "0 < pm_Seq m" "TrimSpace k \<noteq> []"
    "(fired, db') = (case db k of None \<Rightarrow> (True, db(k \<mapsto> new_row C now base m))
      | Some r \<Rightarrow> if pm_Seq m \<le> pc_LastConsumedSeq r then (False, db)
          else if claimable now r then (True, db(k \<mapsto> claimed_row C now m r)) else (False, db(k \<mapsto> added_row m r)))"
  using assms
  by (auto simp: OnUserMessage_def AppendUserMessage_def AppendPending_def append_insert_def append_claim_def append_only_def update_row_def
        transact_def affected_def call_def check_def validateID_def andThen_def ret_def raise_def Let_def
        new_row_def claimed_row_def added_row_def split: if_splits option.splits)

lemma row_update_clean:
  "row_update k f (db, []) = (case db k of None \<Rightarrow> (Inl ErrNotFound, (db, []))
     | Some r \<Rightarrow> (Inr (pc_State (f r) = AgentPrivateConversationStateRunning), (db(k \<mapsto> f r), [])))"
  by (auto simp: row_update_def exec_row_def andThen_def call_def ret_def raise_def split: option.splits)

lemma Load_clean: "TrimSpace k \<noteq> [] \<Longrightarrow> db k = Some r \<Longrightarrow> Load k (db, []) = (Inr r, (db, []))"
  by (simp add: Load_def check_def validateID_def not_found_as_def query_def andThen_def call_def ret_def)

lemma settle_running [simp]:
  "pc_State (settle now seq ttl r) = AgentPrivateConversationStateRunning \<longleftrightarrow> left_pending seq (pc_Pending r) \<noteq> []"
  "pc_State (settle now seq ttl r) = AgentPrivateConversationStateIdle \<longleftrightarrow> left_pending seq (pc_Pending r) = []"
  "pc_Pending (settle now seq ttl r) = left_pending seq (pc_Pending r)"
  "pc_LastConsumedSeq (settle now seq ttl r) = pc_LastConsumedSeq r"
  by (auto simp: settle_def Let_def)

text \<open>Settling a batch changes the rounds and gives back the row unless messages are left.\<close>

lemma Settling_effect:
  assumes run: "drive_next C base now res (Settling b result) (db, []) = (Inr q, (db', []))"
    and k: "TrimSpace k \<noteq> []" "db k = Some r" "at_ConversationID base = k"
  shows "\<exists>rounds. db' = db(k \<mapsto> (settle now (pm_Seq (last b)) (ttlMillis (co_runningTTL C)) r)\<lparr>pc_Rounds := rounds\<rparr>)
    \<and> (q = go_on (left_pending (pm_Seq (last b)) (pc_Pending r) \<noteq> []) \<or> q = Some (Folding (left_pending (pm_Seq (last b)) (pc_Pending r) \<noteq> [])))"
proof -
  let ?s = "settle now (pm_Seq (last b)) (ttlMillis (co_runningTTL C)) r"
  have same: "?s = ?s\<lparr>pc_Rounds := pc_Rounds r\<rparr>" by (simp add: settle_def Let_def)
  have discard: "DiscardPending now k (pm_Seq (last b)) (co_runningTTL C) (db, [])
      = (Inr (left_pending (pm_Seq (last b)) (pc_Pending r) \<noteq> []), (db(k \<mapsto> ?s), []))"
    using k by (simp add: DiscardPending_def Model_DiscardPending_def check_def validateID_def not_found_as_def andThen_def ret_def row_update_clean)
  have commit: "\<exists>rounds. CommitRound now k (batch_round b x) (pm_Seq (last b)) (co_maxRounds C) (co_runningTTL C) (db, [])
      = (Inr (left_pending (pm_Seq (last b)) (pc_Pending r) \<noteq> []), (db(k \<mapsto> ?s\<lparr>pc_Rounds := rounds\<rparr>), []))" for x
    using k by (simp add: CommitRound_def Model_CommitRound_def check_def validateID_def not_found_as_def andThen_def ret_def row_update_clean) blast
  show ?thesis
  proof (cases "\<exists>x. result = Inr x \<and> rd_Assistant (batch_round b x) \<noteq> []")
    case True
    then obtain x where x: "result = Inr x" "rd_Assistant (batch_round b x) \<noteq> []" by blast
    from commit [of x] obtain rounds where "CommitRound now k (batch_round b x) (pm_Seq (last b)) (co_maxRounds C) (co_runningTTL C) (db, [])
      = (Inr (left_pending (pm_Seq (last b)) (pc_Pending r) \<noteq> []), (db(k \<mapsto> ?s\<lparr>pc_Rounds := rounds\<rparr>), []))" by blast
    with run x k(3) have "db' = db(k \<mapsto> ?s\<lparr>pc_Rounds := rounds\<rparr>)" "q = Some (Folding (left_pending (pm_Seq (last b)) (pc_Pending r) \<noteq> []))"
      by (auto simp: ret_def Let_def)
    then show ?thesis by blast
  next
    case False
    then have "db' = db(k \<mapsto> ?s)" "q = go_on (left_pending (pm_Seq (last b)) (pc_Pending r) \<noteq> [])"
      using run discard k(3) by (auto simp: ret_def Let_def split: sum.splits)
    then show ?thesis using same by metis
  qed
qed

text \<open>Folding and writing a summary change neither the messages nor the state.\<close>

lemma Folding_effect:
  assumes run: "drive_next C base now res (Folding again) (db, []) = (Inr q, (db', []))" and k: "TrimSpace k \<noteq> []" "db k = Some r" "at_ConversationID base = k"
  shows "db' = db \<and> (q = go_on again \<or> (\<exists>memory profile cutoff. q = Some (Applying memory profile cutoff again)))"
  using run k by (auto simp: Load_clean ret_def split: option.splits sum.splits if_splits)

lemma Applying_effect:
  assumes run: "drive_next C base now res (Applying memory profile cutoff again) (db, []) = (Inr q, (db', []))"
    and k: "TrimSpace k \<noteq> []" "db k = Some r" "at_ConversationID base = k"
  shows "q = go_on again" "db' = db(k \<mapsto> summarized (truncateChars memory MaxMemoryChars) (truncateChars profile MaxUserProfileChars) cutoff r)"
  using run k
  by (auto simp: ApplySummary_def Model_ApplySummary_def check_def validateID_def not_found_as_def andThen_def ret_def affected_def call_def update_row_def)

section \<open>The invariant\<close>

fun phase_ok :: "phase \<Rightarrow> PendingMessage list \<Rightarrow> bool" where
  "phase_ok (Running b) pending \<longleftrightarrow> b \<noteq> [] \<and> prefix b pending"
| "phase_ok (Settling b _) pending \<longleftrightarrow> b \<noteq> [] \<and> prefix b pending"
| "phase_ok Releasing _ \<longleftrightarrow> False"
| "phase_ok _ _ \<longleftrightarrow> True"

definition in_flight :: "(AgentTrigger \<times> phase) list \<Rightarrow> PendingMessage list list" where
  "in_flight os = concat (map (\<lambda>(_, p). batch_settled p) os)"

text \<open>The owner of a row, if any, and what it is about.\<close>

fun owner_ok :: "nat \<Rightarrow> PendingMessage list \<Rightarrow> (AgentTrigger \<times> phase) list \<Rightarrow> bool" where
  "owner_ok n pending [] \<longleftrightarrow> pending \<noteq> [] \<longrightarrow> 0 < n"
| "owner_ok n pending [(b, p)] \<longleftrightarrow> pending \<noteq> [] \<and> phase_ok p pending"
| "owner_ok n pending _ \<longleftrightarrow> False"

definition row_ok :: "chat \<Rightarrow> AgentPrivateConversations \<Rightarrow> bool" where
  "row_ok c r \<longleftrightarrow> ch_accepted c = concat (ch_settled c) @ pc_Pending r
     \<and> sorted_wrt (<) (map pm_Seq (ch_accepted c)) \<and> (\<forall>m \<in> set (ch_accepted c). 0 < pm_Seq m \<and> pm_Seq m \<le> pc_LastConsumedSeq r)
     \<and> pc_State r = (if pc_Pending r = [] then AgentPrivateConversationStateIdle else AgentPrivateConversationStateRunning)
     \<and> owner_ok (ch_cut c) (pc_Pending r) (owners c)
     \<and> (ch_cut c = 0 \<longrightarrow> ch_batches c = ch_settled c @ in_flight (owners c))"

definition chat_ok :: "string \<Rightarrow> chat \<Rightarrow> bool" where
  "chat_ok k c \<longleftrightarrow> (case ch_db c k of
       None \<Rightarrow> ch_loops c = [] \<and> ch_accepted c = [] \<and> ch_settled c = [] \<and> ch_batches c = []
     | Some r \<Rightarrow> TrimSpace k \<noteq> [] \<and> (\<forall>(b, _) \<in> set (ch_loops c). at_ConversationID b = k) \<and> row_ok c r)"

lemma owners_append [simp]:
  "filter (\<lambda>(_, p). owns p) (ds @ (b, p) # ds')
   = filter (\<lambda>(_, p). owns p) ds @ (if owns p then [(b, p)] else []) @ filter (\<lambda>(_, p). owns p) ds'"
  by simp

text \<open>An owner is the only one.\<close>

lemma owner_ok_single: "owner_ok n pending (xs @ (b, p) # ys) \<longleftrightarrow> xs = [] \<and> ys = [] \<and> pending \<noteq> [] \<and> phase_ok p pending"
proof (cases xs)
  case Nil
  then show ?thesis by (cases ys) auto
next
  case (Cons x xs')
  then show ?thesis by (cases xs') auto
qed

lemma left_pending_prefix:
  assumes sorted: "sorted_wrt (<) (map pm_Seq (b @ rest))" and b: "b \<noteq> []"
  shows "left_pending (pm_Seq (last b)) (b @ rest) = rest"
proof -
  obtain b' m where b': "b = b' @ [m]" using b by (metis append_butlast_last_id)
  have "\<forall>x \<in> set b. \<not> pm_Seq x > pm_Seq m" "\<forall>x \<in> set rest. pm_Seq x > pm_Seq m"
    using sorted by (auto simp: b' sorted_wrt_append)
  then show ?thesis by (simp add: left_pending_def b')
qed

text \<open>Messages that are added keep what is known of the owner.\<close>

lemma phase_ok_more: "phase_ok p pending \<Longrightarrow> phase_ok p (pending @ xs)"
  by (cases p) (auto simp: prefix_def)

lemma owner_ok_more: "os \<noteq> [] \<Longrightarrow> owner_ok n pending os \<Longrightarrow> owner_ok n' (pending @ xs) os"
  by (cases "(n, pending, os)" rule: owner_ok.cases) (auto intro: phase_ok_more)

lemma arrive_ok:
  assumes inv: "chat_ok k c" and k: "at_ConversationID base = k" and lease: "lease_held k now c"
    and run: "OnUserMessage C now base m (ch_db c, []) = (Inr fired, (db', []))"
  shows "chat_ok k (c\<lparr>ch_db := db', ch_loops := ch_loops c @ (if fired then [(base, Loading)] else []),
      ch_accepted := ch_accepted c @ (if accepts k m (ch_db c) then [m] else [])\<rparr>)" (is "chat_ok k ?c")
proof -
  note eff = OnUserMessage_effect [OF run k]
  show ?thesis
  proof (cases "ch_db c k")
    case None
    then have "fired" "db' k = Some (new_row C now base m)" using eff(3) by simp_all
    moreover have "accepts k m (ch_db c)" using None by (simp add: accepts_def)
    moreover have "ch_loops c = []" "ch_accepted c = []" "ch_settled c = []" "ch_batches c = []" using inv None by (simp_all add: chat_ok_def)
    ultimately show ?thesis using eff(1,2) k
      by (simp add: chat_ok_def row_ok_def new_row_def owners_def in_flight_def)
  next
    case (Some r)
    have row: "row_ok c r" and bases: "\<forall>(b, _) \<in> set (ch_loops c). at_ConversationID b = k" using inv Some by (simp_all add: chat_ok_def)
    show ?thesis
    proof (cases "pm_Seq m \<le> pc_LastConsumedSeq r")
      case True
      then have "\<not> fired" "db' = ch_db c" "\<not> accepts k m (ch_db c)" using eff(3) Some by (simp_all add: accepts_def)
      with inv show ?thesis by simp
    next
      case new: False
      then have acc: "accepts k m (ch_db c)" using Some by (simp add: accepts_def)
      have sorted: "sorted_wrt (<) (map pm_Seq (ch_accepted c @ [m]))" "\<forall>x \<in> set (ch_accepted c @ [m]). 0 < pm_Seq x \<and> pm_Seq x \<le> pm_Seq m"
      proof -
        have "sorted_wrt (<) (map pm_Seq (ch_accepted c))" "\<forall>x \<in> set (ch_accepted c). 0 < pm_Seq x \<and> pm_Seq x \<le> pc_LastConsumedSeq r"
          using row unfolding row_ok_def by blast+
        then show "sorted_wrt (<) (map pm_Seq (ch_accepted c @ [m]))" "\<forall>x \<in> set (ch_accepted c @ [m]). 0 < pm_Seq x \<and> pm_Seq x \<le> pm_Seq m"
          using new eff(1) by (auto simp: sorted_wrt_append)
      qed
      show ?thesis
      proof (cases "claimable now r")
        case True
        then have none: "owners c = []" using lease Some by (simp add: lease_held_def)
        from True have fired: "fired" and db': "db' k = Some (claimed_row C now m r)" using eff(3) Some new by simp_all
        have "ch_cut c = 0 \<longrightarrow> ch_batches c = ch_settled c" using row none by (simp add: row_ok_def in_flight_def)
        with row sorted fired db' acc k bases none eff(2) show ?thesis
          by (auto simp: chat_ok_def row_ok_def claimed_row_def owners_def in_flight_def)
      next
        case False
        then have state: "pc_Pending r \<noteq> []" using row by (auto simp: row_ok_def claimable_def split: if_splits)
        from False have fired: "\<not> fired" and db': "db' k = Some (added_row m r)" using eff(3) Some new by simp_all
        have "owner_ok (ch_cut c) (pc_Pending r @ [m]) (owners c)"
          using row state owner_ok_more [of "owners c"] by (cases "owners c = []") (auto simp: row_ok_def)
        then have "row_ok ?c (added_row m r)" using row sorted state fired acc
          by (simp add: row_ok_def added_row_def owners_def)
        with db' bases fired eff(2) show ?thesis by (simp add: chat_ok_def)
      qed
    qed
  qed
qed

text \<open>A loop that moves on without settling.\<close>

lemma row_ok_move:
  assumes row: "row_ok c r" and loops: "ch_loops c = ds @ (base, p) # ds'" and none: "batch_settled p = []"
    and same: "pc_Pending r' = pc_Pending r" "pc_State r' = pc_State r" "pc_LastConsumedSeq r' = pc_LastConsumedSeq r"
    and next': "owns p \<Longrightarrow> pc_Pending r \<noteq> [] \<Longrightarrow> phase_ok p (pc_Pending r) \<Longrightarrow>
      \<exists>p'. q = Some p' \<and> owns p' \<and> phase_ok p' (pc_Pending r) \<and> batch_settled p' = batch_started p"
    and quiet: "\<not> owns p \<Longrightarrow> batch_started p = [] \<and> (\<forall>p'. q = Some p' \<longrightarrow> \<not> owns p')"
  shows "row_ok (c\<lparr>ch_db := db', ch_loops := ds @ map (Pair base) (case q of None \<Rightarrow> [] | Some p' \<Rightarrow> [p']) @ ds',
      ch_ran := runs, ch_batches := ch_batches c @ batch_started p, ch_settled := ch_settled c @ batch_settled p, ch_marks := marks\<rparr>) r'"
proof (cases "owns p")
  case True
  let ?os = "\<lambda>ds. filter (\<lambda>(_, p). owns p) ds"
  have "owner_ok (ch_cut c) (pc_Pending r) (?os ds @ (base, p) # ?os ds')" using row True by (simp add: row_ok_def owners_def loops)
  then have only: "?os ds = []" "?os ds' = []" "pc_Pending r \<noteq> []" "phase_ok p (pc_Pending r)" unfolding owner_ok_single by blast+
  then obtain p' where "q = Some p'" "owns p'" "phase_ok p' (pc_Pending r)" "batch_settled p' = batch_started p" using next' [OF True] by blast
  then show ?thesis using row True only same none by (auto simp: row_ok_def owners_def loops in_flight_def)
next
  case False
  then show ?thesis using row same none quiet by (auto simp: row_ok_def owners_def loops in_flight_def split: option.splits)
qed

text \<open>The phases of a loop, counted down to its next return to loading; a message that waits outweighs them all.\<close>

fun rank :: "phase \<Rightarrow> nat" where
  "rank (Folding _) = 5"
| "rank (Applying _ _ _ _) = 4"
| "rank Loading = 3"
| "rank (Running _) = 2"
| "rank (Settling _ _) = 1"
| "rank Releasing = 1"

definition work :: "string \<Rightarrow> chat \<Rightarrow> nat" where
  "work k c = (case ch_db c k of None \<Rightarrow> 0 | Some r \<Rightarrow> 6 * length (pc_Pending r)) + sum_list (map (\<lambda>(_, p). rank p) (ch_loops c))"

lemma settled_ok:
  assumes row: "row_ok c r" and loops: "ch_loops c = ds @ (base, Settling b result) # ds'"
    and r': "r' = (settle now (pm_Seq (last b)) ttl r)\<lparr>pc_Rounds := rounds\<rparr>"
    and q: "q = go_on (left_pending (pm_Seq (last b)) (pc_Pending r) \<noteq> []) \<or> q = Some (Folding (left_pending (pm_Seq (last b)) (pc_Pending r) \<noteq> []))"
  shows "row_ok (c\<lparr>ch_db := db', ch_loops := ds @ map (Pair base) (case q of None \<Rightarrow> [] | Some p' \<Rightarrow> [p']) @ ds',
      ch_ran := runs, ch_batches := ch_batches c, ch_settled := ch_settled c @ [b], ch_marks := marks\<rparr>) r'"
    "length (pc_Pending r') < length (pc_Pending r)"
proof -
  let ?os = "\<lambda>ds. filter (\<lambda>(_, p). owns p) ds"
  have "owner_ok (ch_cut c) (pc_Pending r) (?os ds @ (base, Settling b result) # ?os ds')" using row by (simp add: row_ok_def owners_def loops)
  then have only: "?os ds = []" "?os ds' = []" "b \<noteq> []" "prefix b (pc_Pending r)" unfolding owner_ok_single by simp_all
  then obtain rest where rest: "pc_Pending r = b @ rest" by (auto simp: prefix_def)
  have "sorted_wrt (<) (map pm_Seq (b @ rest))" using row by (auto simp: row_ok_def rest sorted_wrt_append)
  then have left: "left_pending (pm_Seq (last b)) (pc_Pending r) = rest" unfolding rest using only(3) by (rule left_pending_prefix)
  have pending: "pc_Pending r' = rest" by (simp add: r' left)
  then show "length (pc_Pending r') < length (pc_Pending r)" using only(3) by (simp add: rest)
  have state: "pc_State r' = (if rest = [] then AgentPrivateConversationStateIdle else AgentPrivateConversationStateRunning)"
    "pc_LastConsumedSeq r' = pc_LastConsumedSeq r"
    by (simp_all add: r' left settle_def Let_def)
  let ?new = "map (Pair base) (case q of None \<Rightarrow> [] | Some p' \<Rightarrow> [p'])"
  have own: "?os ?new = (if rest = [] then [] else ?new)" "rest \<noteq> [] \<Longrightarrow> \<exists>p'. ?new = [(base, p')] \<and> phase_ok p' rest"
      "in_flight (?os ?new) = []"
    using q unfolding left by (auto simp: go_on_def in_flight_def split: if_splits)
  have batches: "ch_cut c = 0 \<longrightarrow> ch_batches c = ch_settled c @ [b]"
    using row only(1,2) by (simp add: row_ok_def owners_def loops in_flight_def)
  have owner: "owner_ok (ch_cut c) rest (?os ?new)" using own by (cases "rest = []") auto
  have known: "ch_accepted c = concat (ch_settled c @ [b]) @ rest" "sorted_wrt (<) (map pm_Seq (ch_accepted c))"
    "\<forall>m \<in> set (ch_accepted c). 0 < pm_Seq m \<and> pm_Seq m \<le> pc_LastConsumedSeq r"
  proof -
    show "ch_accepted c = concat (ch_settled c @ [b]) @ rest" using row by (simp add: row_ok_def rest)
  qed (use row in \<open>unfold row_ok_def, blast+\<close>)
  show "row_ok (c\<lparr>ch_db := db', ch_loops := ds @ ?new @ ds', ch_ran := runs, ch_batches := ch_batches c, ch_settled := ch_settled c @ [b], ch_marks := marks\<rparr>) r'"
    (is "row_ok ?c r'")
  proof -
    have "owners ?c = ?os ?new" using only(1,2) by (simp add: owners_def)
    then have "row_ok ?c r' \<longleftrightarrow> ch_accepted c = concat (ch_settled c @ [b]) @ rest \<and> sorted_wrt (<) (map pm_Seq (ch_accepted c))
        \<and> (\<forall>m \<in> set (ch_accepted c). 0 < pm_Seq m \<and> pm_Seq m \<le> pc_LastConsumedSeq r)
        \<and> owner_ok (ch_cut c) rest (?os ?new) \<and> (ch_cut c = 0 \<longrightarrow> ch_batches c = ch_settled c @ [b])"
      using own(3) by (simp add: row_ok_def pending state)
    then show ?thesis using known owner batches by blast
  qed
qed

lemma loop_ok:
  assumes step: "loop_step C k c c'" and inv: "chat_ok k c"
  shows "chat_ok k c' \<and> work k c' < work k c"
  using step
proof cases
  case (drive ds base p ds' now res q db')
  note loops = drive(2) and run = drive(3)
  from inv loops obtain r where r: "ch_db c k = Some r" "row_ok c r" and k: "TrimSpace k \<noteq> []" and bases: "\<forall>(b, _) \<in> set (ch_loops c). at_ConversationID b = k"
    by (auto simp: chat_ok_def split: option.splits)
  then have base: "at_ConversationID base = k" using loops by auto
  have all: "\<forall>(b, _) \<in> set (ds @ map (Pair base) (case q of None \<Rightarrow> [] | Some p' \<Rightarrow> [p']) @ ds'). at_ConversationID b = k"
    using bases base loops by (auto split: option.splits)
  have move: "chat_ok k c' \<and> work k c' < work k c"
    if row: "row_ok c' r'" and db': "db' k = Some r'" and less: "6 * length (pc_Pending r') + (case q of None \<Rightarrow> 0 | Some p' \<Rightarrow> rank p') < 6 * length (pc_Pending r) + rank p" for r'
    using row db' less all k r unfolding drive(1) by (simp add: chat_ok_def work_def loops split: option.splits)
  have rows: "db' k = Some r" if "db' = ch_db c" using that r(1) by simp
  show ?thesis
  proof (cases p)
    case Loading
    have load: "Load k (ch_db c, []) = (Inr r, (ch_db c, []))" using k r(1) by (rule Load_clean)
    have q: "q = Some (if pc_Pending r = [] then Releasing else Running (pc_Pending r))" "db' = ch_db c"
      using run load base by (auto simp: Loading ret_def)
    have "row_ok c' r" unfolding drive(1) by (rule row_ok_move [OF r(2) loops]) (auto simp: Loading q)
    then show ?thesis by (rule move) (auto simp: q r Loading)
  next
    case Releasing
    have "\<not> row_ok c r" by (simp add: row_ok_def owners_def loops Releasing owner_ok_single)
    with r(2) show ?thesis by blast
  next
    case (Running b)
    have q: "q = Some (Settling b res)" "db' = ch_db c" using run by (auto simp: Running ret_def)
    have "row_ok c' r" unfolding drive(1) by (rule row_ok_move [OF r(2) loops]) (auto simp: Running q)
    then show ?thesis by (rule move) (auto simp: q r Running)
  next
    case (Settling b result)
    obtain rounds where db': "db' = (ch_db c)(k \<mapsto> (settle now (pm_Seq (last b)) (ttlMillis (co_runningTTL C)) r)\<lparr>pc_Rounds := rounds\<rparr>)"
      and q: "q = go_on (left_pending (pm_Seq (last b)) (pc_Pending r) \<noteq> []) \<or> q = Some (Folding (left_pending (pm_Seq (last b)) (pc_Pending r) \<noteq> []))"
      using Settling_effect [OF run [unfolded Settling] k r(1) base] by blast
    have q5: "(case q of None \<Rightarrow> 0 | Some p' \<Rightarrow> rank p') \<le> 5" using q by (auto simp: go_on_def split: option.splits if_splits)
    note ok = settled_ok [OF r(2) loops [unfolded Settling] refl q]
    show ?thesis
    proof (rule move)
      show "row_ok c' ((settle now (pm_Seq (last b)) (ttlMillis (co_runningTTL C)) r)\<lparr>pc_Rounds := rounds\<rparr>)"
        unfolding drive(1) using ok(1) [where db' = db' and runs = "ch_ran c" and marks = "ch_marks c @ read_marks C base p"] by (simp add: Settling)
      show "6 * length (pc_Pending ((settle now (pm_Seq (last b)) (ttlMillis (co_runningTTL C)) r)\<lparr>pc_Rounds := rounds\<rparr>))
          + (case q of None \<Rightarrow> 0 | Some p' \<Rightarrow> rank p') < 6 * length (pc_Pending r) + rank p"
        using ok(2) [where ttl = "ttlMillis (co_runningTTL C)" and rounds = rounds and now = now] q5 by (simp only: Settling rank.simps)
    qed (simp add: db')
  next
    case (Folding again)
    have q: "db' = ch_db c" "q = go_on again \<or> (\<exists>memory profile cutoff. q = Some (Applying memory profile cutoff again))"
      using Folding_effect [OF run [unfolded Folding] k r(1) base] by blast+
    have "row_ok c' r" unfolding drive(1)
      by (rule row_ok_move [OF r(2) loops]) (use q(2) in \<open>auto simp: Folding go_on_def split: if_splits\<close>)
    then show ?thesis by (rule move) (use q in \<open>auto simp: r Folding go_on_def split: if_splits\<close>)
  next
    case (Applying memory profile cutoff again)
    note eff = Applying_effect [OF run [unfolded Applying] k r(1) base]
    have "row_ok c' (summarized (truncateChars memory MaxMemoryChars) (truncateChars profile MaxUserProfileChars) cutoff r)"
      unfolding drive(1) by (rule row_ok_move [OF r(2) loops]) (auto simp: Applying eff(1) go_on_def summarized_def split: if_splits)
    then show ?thesis by (rule move) (auto simp: eff Applying go_on_def summarized_def split: if_splits)
  qed
qed

end
