(* ===== verification/Agent_Runs.thy ===== *)
theory Agent_Runs
  imports Agent_Chat
begin

text \<open>
  What holds in every run of a private chat, and that its loops end. An arrival is one step here; \<^verbatim>\<open>Agent_Races\<close> looks at its statements.
\<close>

lemma stop_ok:
  assumes inv: "chat_ok k c" and loops: "ch_loops c = ds @ d # ds'"
  shows "chat_ok k (c\<lparr>ch_loops := ds @ ds', ch_cut := ch_cut c + 1\<rparr>)"
proof -
  obtain base p where d: "d = (base, p)" by (cases d)
  obtain r where r: "ch_db c k = Some r" "TrimSpace k \<noteq> []" "\<forall>(b, _) \<in> set (ch_loops c). at_ConversationID b = k" "row_ok c r"
    using inv loops by (auto simp: chat_ok_def split: option.splits)
  let ?os = "\<lambda>ds. filter (\<lambda>(_, p). owns p) ds"
  have owner: "owner_ok (ch_cut c) (pc_Pending r) (?os ds @ (if owns p then [(base, p)] else []) @ ?os ds')"
  proof -
    have "owners c = ?os ds @ (if owns p then [(base, p)] else []) @ ?os ds'" by (simp add: owners_def loops d)
    with r(4) show ?thesis unfolding row_ok_def by metis
  qed
  have "owner_ok (ch_cut c + 1) (pc_Pending r) (?os ds @ ?os ds')"
  proof (cases "owns p")
    case True
    with owner owner_ok_single [of "ch_cut c" "pc_Pending r" "?os ds" base p "?os ds'"] show ?thesis by simp
  next
    case False
    with owner show ?thesis by (cases "(ch_cut c, pc_Pending r, ?os ds @ ?os ds')" rule: owner_ok.cases) auto
  qed
  with r show ?thesis by (auto simp: chat_ok_def row_ok_def owners_def loops)
qed

lemma chat_step_ok: "chat_step C k c c' \<Longrightarrow> chat_ok k c \<Longrightarrow> chat_ok k c'"
proof (induction rule: chat_step.induct)
  case arrive
  then show ?case by (intro arrive_ok)
next
  case loop
  then show ?case using loop_ok by blast
next
  case stop
  then show ?case using stop_ok by blast
qed

lemma chat_run_ok: "(chat_step C k)\<^sup>*\<^sup>* new_chat c \<Longrightarrow> chat_ok k c"
proof (induction rule: rtranclp_induct)
  case base
  show ?case by (simp add: chat_ok_def new_chat_def)
qed (rule chat_step_ok)

text \<open>What the runner is given are the batches.\<close>

definition given :: "AgentTrigger \<Rightarrow> PendingMessage list \<Rightarrow> bool" where
  "given t b \<longleftrightarrow> at_PromptText t = MergeTexts b \<and> at_TriggerSeq t = pm_Seq (last b) \<and> at_TriggerMessageID t = pm_ServerMsgID (last b)"

lemma given_started [simp]: "list_all2 given (map (batchTrigger base) (batch_started p)) (batch_started p)"
  by (cases p) (simp_all add: given_def batchTrigger_def Let_def)

lemma chat_run_given: "(chat_step C k)\<^sup>*\<^sup>* new_chat c \<Longrightarrow> list_all2 given (ch_ran c) (ch_batches c)"
proof (induction rule: rtranclp_induct)
  case (step c c')
  from step(2,3) show ?case by (auto elim!: chat_step.cases loop_step.cases intro!: list_all2_appendI)
qed (simp add: new_chat_def)


section \<open>Termination\<close>

lemma loop_progress:
  assumes inv: "chat_ok k c" and loops: "ch_loops c = (base, p) # ds'"
  shows "\<exists>c'. loop_step C k c c'"
proof -
  obtain r where r: "ch_db c k = Some r" "TrimSpace k \<noteq> []" and base: "at_ConversationID base = k"
    using inv loops by (auto simp: chat_ok_def split: option.splits)
  have "\<exists>q db'. drive_next C base now (Inl ErrNotFound) p (ch_db c, []) = (Inr q, (db', []))" for now
    using r base
    by (cases p)
       (auto simp: Load_clean DiscardPending_def Model_DiscardPending_def CommitRound_def Model_CommitRound_def ApplySummary_def Model_ApplySummary_def
          check_def validateID_def not_found_as_def andThen_def ret_def row_update_clean affected_def call_def update_row_def Let_def
          split: option.splits sum.splits)
  with loop_step.drive [of c "[]" base p ds'] loops show ?thesis by (metis append_Nil)
qed

lemma loop_steps_bounded: "(loop_step C k ^^ n) c c' \<Longrightarrow> chat_ok k c \<Longrightarrow> chat_ok k c' \<and> n + work k c' \<le> work k c"
proof (induction n arbitrary: c')
  case (Suc n)
  then obtain d where d: "(loop_step C k ^^ n) c d" "loop_step C k d c'" by auto
  from Suc.IH [OF d(1) Suc.prems(2)] loop_ok [OF d(2)] show ?case by auto
qed simp


section \<open>Runs by schedule\<close>

text \<open>An arrival, or a turn of a loop with what the runner returns.\<close>

datatype event = Arrive int AgentTrigger PendingMessage | Turn nat int "RunResult result"

fun exec_event :: "PrivateChatCoalescer \<Rightarrow> string \<Rightarrow> event \<Rightarrow> chat \<Rightarrow> chat option" where
  "exec_event C k (Arrive now base m) c =
     (if at_ConversationID base = k \<and> lease_held k now c then
        (case OnUserMessage C now base m (ch_db c, []) of
           (Inr fired, (db', [])) \<Rightarrow> Some (c\<lparr>ch_db := db', ch_loops := ch_loops c @ (if fired then [(base, Loading)] else []),
             ch_accepted := ch_accepted c @ (if accepts k m (ch_db c) then [m] else [])\<rparr>)
         | _ \<Rightarrow> None)
      else None)"
| "exec_event C k (Turn i now res) c =
     (case drop i (ch_loops c) of
        [] \<Rightarrow> None
      | (base, p) # ds' \<Rightarrow> (case drive_next C base now res p (ch_db c, []) of
           (Inr q, (db', [])) \<Rightarrow> Some (c\<lparr>ch_db := db', ch_loops := take i (ch_loops c) @ map (Pair base) (case q of None \<Rightarrow> [] | Some p' \<Rightarrow> [p']) @ ds',
             ch_ran := ch_ran c @ map (batchTrigger base) (batch_started p), ch_batches := ch_batches c @ batch_started p,
             ch_settled := ch_settled c @ batch_settled p, ch_marks := ch_marks c @ read_marks C base p\<rparr>)
         | _ \<Rightarrow> None))"

fun exec_chat :: "PrivateChatCoalescer \<Rightarrow> string \<Rightarrow> event list \<Rightarrow> chat \<Rightarrow> chat option" where
  "exec_chat C k [] c = Some c"
| "exec_chat C k (e # es) c = (case exec_event C k e c of None \<Rightarrow> None | Some c' \<Rightarrow> exec_chat C k es c')"

lemma exec_event_step: "exec_event C k e c = Some c' \<Longrightarrow> chat_step C k c c'"
proof (cases e)
  case (Arrive now base m)
  assume "exec_event C k e c = Some c'"
  then show ?thesis using chat_step.arrive [of base k now c C m] unfolding Arrive
    by (auto split: if_splits prod.splits sum.splits list.splits)
next
  case (Turn i now res)
  assume run: "exec_event C k e c = Some c'"
  obtain base p ds' where d: "drop i (ch_loops c) = (base, p) # ds'"
    using run Turn by (cases "drop i (ch_loops c)") auto
  then have "ch_loops c = take i (ch_loops c) @ (base, p) # ds'" by (metis append_take_drop_id)
  from loop_step.drive [OF this, of C now res] show ?thesis
    using run unfolding Turn by (auto simp: d intro: chat_step.loop split: prod.splits sum.splits list.splits)
qed

lemma exec_chat_run: "exec_chat C k es c = Some c' \<Longrightarrow> (chat_step C k)\<^sup>*\<^sup>* c c'"
  by (induction es arbitrary: c) (auto split: option.splits intro: converse_rtranclp_into_rtranclp dest!: exec_event_step)

definition demo_base :: AgentTrigger where
  "demo_base =
     \<lparr>at_RequestID = ''e:2'', at_EventID = ''e'', at_OperationID = [], at_TraceID = [], at_TriggerType = TriggerTypeUserPrivateMessage,
      at_AgentUserID = ''2'', at_RequestingUserID = ''1'', at_ConversationID = ''s'', at_ConversationType = ChatTypeSingle,
      at_TriggerMessageID = ''m'', at_TriggerSeq = 1, at_PromptText = [], at_ReplyToMessageID = ''m'', at_RecursiveTrigger = False,
      at_SourceAgentRunID = [], at_SourceAgentUserID = [], at_SourceMessageID = ''m'', at_SourceMessageSeq = 1, at_SourceMessageText = [],
      at_SourceContentType = ''text'', at_TargetAgentUserIDs = [''2''], at_PrivateConvContext = False\<rparr>"

definition demo_msg :: "int \<Rightarrow> string \<Rightarrow> PendingMessage" where
  "demo_msg n t = \<lparr>pm_Seq = n, pm_Text = t, pm_ServerMsgID = ''m'', pm_CreatedAtMs = 0\<rparr>"

definition demo_reply :: "RunResult result" where
  "demo_reply = Inr \<lparr>rr_FinalText = ''ok'', rr_RunID = ''r''\<rparr>"

text \<open>The first message starts a loop; the second arrives while it runs.\<close>

definition demo_schedule :: "event list" where
  "demo_schedule = [Arrive 0 demo_base (demo_msg 1 ''a''), Turn 0 1 demo_reply, Arrive 2 demo_base (demo_msg 2 ''b''), Turn 0 3 demo_reply]"

definition demo_coalescer :: PrivateChatCoalescer where
  "demo_coalescer = NewPrivateChatCoalescer True None 0 0 0 0"

definition demo_chat :: chat where
  "demo_chat = the (exec_chat demo_coalescer ''s'' demo_schedule new_chat)"

lemma demo_chat_values:
  "(case exec_chat demo_coalescer ''s'' demo_schedule new_chat of None \<Rightarrow> False | Some c \<Rightarrow>
      map (\<lambda>r. map pm_Seq (pc_Pending r)) (case ch_db c ''s'' of None \<Rightarrow> [] | Some r \<Rightarrow> [r]) = [[1, 2]]
      \<and> map (map pm_Seq) (ch_batches c) = [[1]] \<and> length (ch_loops c) = 1 \<and> ch_cut c = 0 \<and> ch_settled c = [])"
  by code_simp

lemma demo_chat_run: "(chat_step demo_coalescer ''s'')\<^sup>*\<^sup>* new_chat demo_chat"
  using demo_chat_values by (auto simp: demo_chat_def intro: exec_chat_run split: option.splits)

lemma demo_chat_row:
  obtains r where "ch_db demo_chat ''s'' = Some r" "map pm_Seq (pc_Pending r) = [1, 2]"
    "map (map pm_Seq) (ch_batches demo_chat) = [[1]]" "length (ch_loops demo_chat) = 1" "ch_cut demo_chat = 0" "ch_settled demo_chat = []"
proof -
  obtain c where c: "exec_chat demo_coalescer ''s'' demo_schedule new_chat = Some c"
    using demo_chat_values by (cases "exec_chat demo_coalescer ''s'' demo_schedule new_chat") simp_all
  have vs: "map (\<lambda>r. map pm_Seq (pc_Pending r)) (case ch_db c ''s'' of None \<Rightarrow> [] | Some r \<Rightarrow> [r]) = [[1, 2]]"
    "map (map pm_Seq) (ch_batches c) = [[1]]" "length (ch_loops c) = 1" "ch_cut c = 0" "ch_settled c = []"
    using demo_chat_values unfolding c by simp_all
  have chat: "demo_chat = c" by (simp add: demo_chat_def c)
  obtain r where "ch_db c ''s'' = Some r" using vs by (cases "ch_db c ''s''") simp_all
  with vs that [of r] show ?thesis by (simp add: chat)
qed



end
