(* ===== verification/Agent_Races.thy ===== *)
theory Agent_Races
  imports Agent_Runs
begin

text \<open>
  Private chats when requests overlap inside what \<^verbatim>\<open>Agent_Runs\<close> takes as one step: the statements of an append, between which a
  round may be committed (the default isolation of PostgreSQL gives every statement a snapshot of its own, and an update that finds no
  row takes no lock), and summaries of two loops, the first of which has given the row back.
\<close>

section \<open>An append beside a commit\<close>

lemma left_pending_none: "\<forall>m \<in> set pending. pm_Seq m \<le> seq \<Longrightarrow> left_pending seq pending = []"
  by (auto simp: left_pending_def filter_empty_conv)


definition demo_append :: AppendPendingInput where
  "demo_append = \<lparr>ap_ConversationID = ''s'', ap_AgentAccountID = ''2'', ap_PeerAccountID = ''1'', ap_Message = demo_msg 2 ''b'', ap_RunningTTLMillis = 1000\<rparr>"

definition demo_running :: AgentPrivateConversations where
  "demo_running =
     \<lparr>pc_AgentAccountId = ''2'', pc_PeerAccountId = ''1'', pc_Rounds = [], pc_Pending = [demo_msg 1 ''a''], pc_LastConsumedSeq = 1,
      pc_State = AgentPrivateConversationStateRunning, pc_RunningUntil = Some 1000, pc_Version = 0, pc_LongTermMemory = [], pc_UserProfile = []\<rparr>"

definition demo_round :: Round where
  "demo_round = \<lparr>rd_User = [''a''], rd_Assistant = ''ok'', rd_SeqFrom = 1, rd_SeqTo = 1, rd_AgentRunID = ''r''\<rparr>"


section \<open>Two summaries\<close>

text \<open>A chat that can get to a table and loops without a loop being cut short.\<close>

definition reaches :: "PrivateChatCoalescer \<Rightarrow> string \<Rightarrow> chat \<Rightarrow> private_db \<Rightarrow> (AgentTrigger \<times> phase) list \<Rightarrow> bool" where
  "reaches C k c db ls \<longleftrightarrow> (\<exists>c'. (chat_step C k)\<^sup>*\<^sup>* c c' \<and> ch_cut c' = ch_cut c \<and> ch_db c' = db \<and> ch_loops c' = ls)"

lemma reaches_refl: "reaches C k c (ch_db c) (ch_loops c)"
  unfolding reaches_def by blast

lemma reaches_turn:
  assumes "reaches C k c db (ds @ (base, p) # ds')" "drive_next C base now res p (db, []) = (Inr q, (db', []))"
  shows "reaches C k c db' (ds @ map (Pair base) (case q of None \<Rightarrow> [] | Some p' \<Rightarrow> [p']) @ ds')"
proof -
  obtain c1 where c1: "(chat_step C k)\<^sup>*\<^sup>* c c1" "ch_cut c1 = ch_cut c" "ch_db c1 = db" "ch_loops c1 = ds @ (base, p) # ds'"
    using assms(1) unfolding reaches_def by blast
  from loop_step.drive [OF c1(4), of C now res q db' k] assms(2) c1(3) have "loop_step C k c1 (c1\<lparr>ch_db := db',
      ch_loops := ds @ map (Pair base) (case q of None \<Rightarrow> [] | Some p' \<Rightarrow> [p']) @ ds',
      ch_ran := ch_ran c1 @ map (batchTrigger base) (batch_started p), ch_batches := ch_batches c1 @ batch_started p,
      ch_settled := ch_settled c1 @ batch_settled p, ch_marks := ch_marks c1 @ read_marks C base p\<rparr>)" (is "loop_step C k c1 ?c2") by simp
  then have "(chat_step C k)\<^sup>*\<^sup>* c ?c2" using c1(1) by (meson chat_step.loop rtranclp.rtrancl_into_rtrancl)
  moreover have "ch_cut ?c2 = ch_cut c" "ch_db ?c2 = db'" using c1(2) by simp_all
  moreover have "ch_loops ?c2 = ds @ map (Pair base) (case q of None \<Rightarrow> [] | Some p' \<Rightarrow> [p']) @ ds'" by simp
  ultimately show ?thesis unfolding reaches_def by blast
qed

lemma reaches_arrive:
  assumes "reaches C k c db ls" "at_ConversationID base = k" "filter (\<lambda>(_, p). owns p) ls = []"
    "OnUserMessage C now base m (db, []) = (Inr True, (db', []))"
  shows "reaches C k c db' (ls @ [(base, Loading)])"
proof -
  obtain c1 where c1: "(chat_step C k)\<^sup>*\<^sup>* c c1" "ch_cut c1 = ch_cut c" "ch_db c1 = db" "ch_loops c1 = ls" using assms(1) unfolding reaches_def by blast
  have "lease_held k now c1" using assms(3) c1(4) by (simp add: lease_held_def owners_def)
  from chat_step.arrive [OF assms(2) this, of C m True db'] assms(4) c1(3)
  have "chat_step C k c1 (c1\<lparr>ch_db := db', ch_loops := ch_loops c1 @ [(base, Loading)],
      ch_accepted := ch_accepted c1 @ (if accepts k m (ch_db c1) then [m] else [])\<rparr>)" (is "chat_step C k c1 ?c2") by simp
  then have "(chat_step C k)\<^sup>*\<^sup>* c ?c2" using c1(1) by (meson rtranclp.rtrancl_into_rtrancl)
  moreover have "ch_cut ?c2 = ch_cut c" "ch_db ?c2 = db'" "ch_loops ?c2 = ls @ [(base, Loading)]" using c1(2,4) by simp_all
  ultimately show ?thesis unfolding reaches_def by blast
qed

text \<open>What a loop folds, when it folds.\<close>

abbreviation fold_input :: "AgentPrivateConversations \<Rightarrow> Round list \<Rightarrow> SummarizeInput" where
  "fold_input r rs \<equiv> \<lparr>si_ExistingMemory = pc_LongTermMemory r, si_ExistingProfile = pc_UserProfile r, si_Rounds = rs,
     si_MaxMemoryChars = MaxMemoryChars, si_MaxProfileChars = MaxUserProfileChars\<rparr>"

lemma Folding_folds:
  assumes f: "co_summarizer C = Some f" and row: "db k = Some r" "TrimSpace k \<noteq> []" "at_ConversationID base = k"
    and fold: "rounds_to_fold C (pc_Rounds r) = Some rs"
    and result: "f (fold_input r rs) = Inr (memory, profile)" "TrimSpace memory \<noteq> []"
  shows "drive_next C base now res (Folding again) (db, [])
    = (Inr (Some (Applying (TrimSpace memory) (TrimSpace profile) (rd_SeqTo (last rs)) again)), (db, []))"
  using assms by (simp add: Load_clean)

lemma Applying_applies:
  assumes "db k = Some r" "TrimSpace k \<noteq> []" "at_ConversationID base = k"
  shows "drive_next C base now res (Applying memory profile cutoff False) (db, [])
    = (Inr None, (db(k \<mapsto> summarized (truncateChars memory MaxMemoryChars) (truncateChars profile MaxUserProfileChars) cutoff r), []))"
  using assms
  by (simp add: ApplySummary_def Model_ApplySummary_def check_def validateID_def not_found_as_def andThen_def ret_def affected_def call_def update_row_def go_on_def)

text \<open>A message that arrives at an idle row and is answered by a loop of its own, up to the summary.\<close>

lemma reaches_answer:
  assumes c: "reaches C k c db ls" and quiet: "filter (\<lambda>(_, p). owns p) ls = []"
    and row: "db k = Some r" "TrimSpace k \<noteq> []" "pc_State r = AgentPrivateConversationStateIdle" "pc_Pending r = []"
    and base: "at_ConversationID base = k" "at_ConversationType base = ChatTypeSingle" "TrimSpace (at_RequestingUserID base) \<noteq> []"
      "TrimSpace (at_AgentUserID base) \<noteq> []"
    and m: "0 < pm_Seq m" "pc_LastConsumedSeq r < pm_Seq m" and res: "TrimSpace (rr_FinalText x) \<noteq> []"
    and room: "int (length (pc_Rounds r)) < co_maxRounds C"
  shows "\<exists>db' r'. reaches C k c db' (ls @ [(base, Folding False)]) \<and> db' k = Some r'
    \<and> pc_Rounds r' = pc_Rounds r @ [batch_round [m] x] \<and> pc_LongTermMemory r' = pc_LongTermMemory r \<and> pc_UserProfile r' = pc_UserProfile r"
proof -
  let ?r1 = "claimed_row C 0 m r"
  let ?db1 = "db(k \<mapsto> ?r1)"
  have "OnUserMessage C 0 base m (db, []) = (Inr True, (?db1, []))"
    using row base m
    by (simp add: OnUserMessage_def AppendUserMessage_def AppendPending_def append_insert_def append_claim_def update_row_def claimable_def claimed_row_def
        transact_def affected_def call_def check_def validateID_def andThen_def ret_def Let_def)
  from reaches_arrive [OF c base(1) quiet this] have 1: "reaches C k c ?db1 (ls @ (base, Loading) # [])" by simp
  have pending: "pc_Pending ?r1 = [m]" using row(4) by (simp add: claimed_row_def)
  have load: "drive_next C base 0 (Inr x) Loading (?db1, []) = (Inr (Some (Running [m])), (?db1, []))"
    using base(1) row(2) pending by (simp add: Load_clean ret_def)
  from reaches_turn [OF 1 load] have 2: "reaches C k c ?db1 (ls @ (base, Running [m]) # [])" by simp
  have run: "drive_next C base 0 (Inr x) (Running [m]) (?db1, []) = (Inr (Some (Settling [m] (Inr x))), (?db1, []))" by (simp add: ret_def)
  from reaches_turn [OF 2 run] have 3: "reaches C k c ?db1 (ls @ (base, Settling [m] (Inr x)) # [])" by simp
  let ?r2 = "(settle 0 (pm_Seq m) (ttlMillis (co_runningTTL C)) ?r1)\<lparr>pc_Rounds := keep_last (max (co_maxRounds C) 1) (pc_Rounds ?r1 @ [batch_round [m] x])\<rparr>"
  have left: "left_pending (pm_Seq m) (pc_Pending ?r1) = []" by (simp add: pending left_pending_def)
  have max: "0 < co_maxRounds C" using room by linarith
  have commit: "drive_next C base 0 (Inr x) (Settling [m] (Inr x)) (?db1, []) = (Inr (Some (Folding False)), (?db1(k \<mapsto> ?r2), []))"
    using base(1) row(2) res left max
    by (simp add: Let_def CommitRound_def Model_CommitRound_def check_def validateID_def not_found_as_def andThen_def ret_def row_update_clean)
       (simp add: batch_round_def)
  from reaches_turn [OF 3 commit] have "reaches C k c (?db1(k \<mapsto> ?r2)) (ls @ [(base, Folding False)])" by simp
  moreover have "pc_Rounds ?r1 = pc_Rounds r" by (simp add: claimed_row_def)
  then have "pc_Rounds ?r2 = pc_Rounds r @ [batch_round [m] x]" using room by (simp add: keep_last_def)
  moreover have "pc_LongTermMemory ?r2 = pc_LongTermMemory r" "pc_UserProfile ?r2 = pc_UserProfile r"
    by (simp_all add: settle_def Let_def claimed_row_def)
  ultimately show ?thesis by (intro exI [of _ "?db1(k \<mapsto> ?r2)"] exI [of _ ?r2]) simp
qed

lemma folds:
  assumes "co_summarizeThreshold C \<le> int (length R)" "0 \<le> co_keepRounds C" "co_keepRounds C < int (length R)"
  shows "rounds_to_fold C R = Some (take (length R - nat (co_keepRounds C)) R)"
  using assms by (simp add: rounds_to_fold_def Let_def nat_diff_distrib' max_def)

text \<open>
  C33: A round can get lost between two summaries. A loop that has answered its last message folds the rounds after it has given the row back; if meanwhile another message is answered
  and that loop folds one round more and writes its summary first, the first summary overwrites the memory with one that was made without that round, which is gone from the rounds.
  No loop fails in this, and it can happen from any state in which a loop is about to fold.
\<close>

theorem overlapping_summaries_lose_rounds:
  fixes base :: AgentTrigger and m :: PendingMessage
  assumes f: "co_summarizer C = Some f" "f (fold_input r (take j R)) = Inr (mem1, prof1)" "TrimSpace mem1 \<noteq> []"
      "f (fold_input r (take (j + 1) R)) = Inr (mem2, prof2)" "TrimSpace mem2 \<noteq> []"
    and sizes: "co_summarizeThreshold C \<le> int (length R)" "1 \<le> co_keepRounds C" "co_keepRounds C < int (length R)" "int (length R) < co_maxRounds C"
    and chat: "ch_loops c = [(base1, Folding False)]" "ch_db c k = Some r" "pc_Rounds r = R" "pc_State r = AgentPrivateConversationStateIdle"
      "pc_Pending r = []" "TrimSpace k \<noteq> []" "at_ConversationID base1 = k"
    and order: "sorted_wrt (<) (map rd_SeqTo R)" "\<forall>x \<in> set R. 0 < rd_SeqTo x \<and> rd_SeqTo x \<le> pc_LastConsumedSeq r"
    and base: "at_ConversationID base = k" "at_ConversationType base = ChatTypeSingle" "TrimSpace (at_RequestingUserID base) \<noteq> []"
      "TrimSpace (at_AgentUserID base) \<noteq> []"
    and m: "pc_LastConsumedSeq r < pm_Seq m"
    and j: "j = length R - nat (co_keepRounds C)"
  shows "\<exists>c' r'. (chat_step C k)\<^sup>*\<^sup>* c c' \<and> ch_cut c' = ch_cut c \<and> ch_loops c' = [] \<and> ch_db c' k = Some r'
    \<and> pc_LongTermMemory r' = truncateChars (TrimSpace mem1) MaxMemoryChars \<and> R ! j \<notin> set (take j R) \<and> R ! j \<notin> set (pc_Rounds r')"
proof -
  have jn: "j < length R" "0 < j" using sizes by (auto simp: j)
  have pos: "0 \<le> co_keepRounds C" using sizes by linarith
  have fold1: "rounds_to_fold C (pc_Rounds r) = Some (take j R)" unfolding chat(3) j using sizes(1) pos sizes(3) by (rule folds)
  let ?a1 = "Applying (TrimSpace mem1) (TrimSpace prof1) (rd_SeqTo (last (take j R))) False"
  have step1: "drive_next C base1 0 (Inl ErrNotFound) (Folding False) (ch_db c, []) = (Inr (Some ?a1), (ch_db c, []))"
    using f(1) chat(2) chat(6,7) fold1 f(2,3) by (rule Folding_folds)
  have "reaches C k c (ch_db c) ([] @ (base1, Folding False) # [])" using reaches_refl [of C k c] chat(1) by simp
  from reaches_turn [OF this step1] have one: "reaches C k c (ch_db c) [(base1, ?a1)]" by simp
  define x where "x = \<lparr>rr_FinalText = ''ok'', rr_RunID = []\<rparr>"
  have x: "TrimSpace (rr_FinalText x) \<noteq> []" unfolding x_def by code_simp
  have new: "0 < pm_Seq m" using m order(2) jn by (cases R) auto
  have room: "int (length (pc_Rounds r)) < co_maxRounds C" using sizes(4) chat(3) by simp
  obtain db2 q where two: "reaches C k c db2 ([(base1, ?a1)] @ [(base, Folding False)])" and q: "db2 k = Some q" "pc_Rounds q = R @ [batch_round [m] x]"
      "pc_LongTermMemory q = pc_LongTermMemory r" "pc_UserProfile q = pc_UserProfile r"
    using reaches_answer [OF one _ chat(2) chat(6) chat(4,5) base new m x room] chat(3) by auto
  have "rounds_to_fold C (pc_Rounds q) = Some (take (length (R @ [batch_round [m] x]) - nat (co_keepRounds C)) (R @ [batch_round [m] x]))"
    unfolding q(2) using sizes pos by (intro folds) auto
  moreover have "length (R @ [batch_round [m] x]) - nat (co_keepRounds C) = j + 1" using sizes(3) pos by (simp add: j Suc_diff_le)
  ultimately have fold2: "rounds_to_fold C (pc_Rounds q) = Some (take (j + 1) R)" using jn by simp
  let ?c2 = "rd_SeqTo (last (take (j + 1) R))"
  have cut2: "?c2 = rd_SeqTo (R ! j)" using jn by (simp add: take_Suc_conv_app_nth)
  have r2: "f (fold_input q (take (j + 1) R)) = Inr (mem2, prof2)" using f(4) q(3,4) by simp
  let ?a2 = "Applying (TrimSpace mem2) (TrimSpace prof2) ?c2 False"
  have step2: "drive_next C base 0 (Inl ErrNotFound) (Folding False) (db2, []) = (Inr (Some ?a2), (db2, []))"
    using f(1) q(1) chat(6) base(1) fold2 r2 f(5) by (rule Folding_folds)
  have "reaches C k c db2 ([(base1, ?a1)] @ (base, Folding False) # [])" using two by simp
  from reaches_turn [OF this step2] have three: "reaches C k c db2 ([(base1, ?a1)] @ (base, ?a2) # [])" by simp
  let ?q3 = "summarized (truncateChars (TrimSpace mem2) MaxMemoryChars) (truncateChars (TrimSpace prof2) MaxUserProfileChars) ?c2 q"
  let ?db3 = "db2(k \<mapsto> ?q3)"
  have step3: "drive_next C base 0 (Inl ErrNotFound) ?a2 (db2, []) = (Inr None, (?db3, []))"
    using q(1) chat(6) base(1) by (rule Applying_applies)
  from reaches_turn [OF three this] have four: "reaches C k c ?db3 ([] @ (base1, ?a1) # [])" by simp
  have row3: "?db3 k = Some ?q3" by simp
  let ?q4 = "summarized (truncateChars (TrimSpace mem1) MaxMemoryChars) (truncateChars (TrimSpace prof1) MaxUserProfileChars) (rd_SeqTo (last (take j R))) ?q3"
  have step4: "drive_next C base1 0 (Inl ErrNotFound) ?a1 (?db3, []) = (Inr None, (?db3(k \<mapsto> ?q4), []))"
    using row3 chat(6,7) by (rule Applying_applies)
  from reaches_turn [OF four this] have five: "reaches C k c (?db3(k \<mapsto> ?q4)) []" by simp
  have "distinct R" using order(1) by (metis distinct_map strict_sorted_iff)
  then have "R ! j \<notin> set (take j R)" using jn by (auto simp: in_set_conv_nth nth_eq_iff_index_eq)
  moreover have "0 < ?c2" using cut2 order(2) jn by simp
  then have "R ! j \<notin> set (kept_rounds ?c2 (pc_Rounds q))" using cut2 unfolding kept_rounds_def set_filter by force
  then have "R ! j \<notin> set (pc_Rounds ?q4)" unfolding summarized_def by (simp add: kept_rounds_def)
  moreover have "pc_LongTermMemory ?q4 = truncateChars (TrimSpace mem1) MaxMemoryChars" by (simp add: summarized_def)
  moreover obtain c' where "(chat_step C k)\<^sup>*\<^sup>* c c'" "ch_cut c' = ch_cut c" "ch_loops c' = []" "ch_db c' k = Some ?q4"
    using five unfolding reaches_def by (metis fun_upd_same)
  ultimately show ?thesis by blast
qed

text \<open>A summarizer that adds what the user wrote to the memory; two messages, each answered on its own, and the second loop about to fold.\<close>

definition demo_summarizer :: "SummarizeInput \<Rightarrow> (string \<times> string) result" where
  "demo_summarizer i = Inr (si_ExistingMemory i @ concat (map (\<lambda>x. concat (rd_User x)) (si_Rounds i)), [])"

definition folding_coalescer :: PrivateChatCoalescer where
  "folding_coalescer = NewPrivateChatCoalescer True (Some demo_summarizer) 40 2 1 0"

definition folding_schedule :: "event list" where
  "folding_schedule =
     Arrive 0 demo_base (demo_msg 1 ''a'') # replicate 4 (Turn 0 1 demo_reply) @
     Arrive 2 demo_base (demo_msg 2 ''b'') # replicate 3 (Turn 0 3 demo_reply)"

definition folding_rounds :: "Round list" where
  "folding_rounds =
     [\<lparr>rd_User = [''a''], rd_Assistant = ''ok'', rd_SeqFrom = 1, rd_SeqTo = 1, rd_AgentRunID = ''r''\<rparr>,
      \<lparr>rd_User = [''b''], rd_Assistant = ''ok'', rd_SeqFrom = 2, rd_SeqTo = 2, rd_AgentRunID = ''r''\<rparr>]"

lemma folding_chat_values:
  "(case exec_chat folding_coalescer ''s'' folding_schedule new_chat of None \<Rightarrow> False | Some c \<Rightarrow>
      map (\<lambda>r. (pc_Rounds r, pc_State r, pc_Pending r, pc_LastConsumedSeq r, pc_LongTermMemory r)) (case ch_db c ''s'' of None \<Rightarrow> [] | Some r \<Rightarrow> [r])
        = [(folding_rounds, AgentPrivateConversationStateIdle, [], 2, [])]
      \<and> map snd (ch_loops c) = [Folding False] \<and> map fst (ch_loops c) = [demo_base] \<and> ch_cut c = 0)"
  by code_simp

theorem overlapping_summaries_lose_rounds_witness:
  "\<exists>c' r'. (chat_step folding_coalescer ''s'')\<^sup>*\<^sup>* new_chat c' \<and> ch_cut c' = 0 \<and> ch_loops c' = [] \<and> ch_db c' ''s'' = Some r'
    \<and> pc_LongTermMemory r' = ''a'' \<and> folding_rounds ! 1 \<notin> set (pc_Rounds r')"
proof -
  obtain c where c: "exec_chat folding_coalescer ''s'' folding_schedule new_chat = Some c"
    using folding_chat_values by (cases "exec_chat folding_coalescer ''s'' folding_schedule new_chat") simp_all
  have vs: "map (\<lambda>r. (pc_Rounds r, pc_State r, pc_Pending r, pc_LastConsumedSeq r, pc_LongTermMemory r)) (case ch_db c ''s'' of None \<Rightarrow> [] | Some r \<Rightarrow> [r])
        = [(folding_rounds, AgentPrivateConversationStateIdle, [], 2, [])]"
    "map snd (ch_loops c) = [Folding False]" "map fst (ch_loops c) = [demo_base]" "ch_cut c = 0"
    using folding_chat_values unfolding c by simp_all
  obtain r where r: "ch_db c ''s'' = Some r" using vs(1) by (cases "ch_db c ''s''") simp_all
  with vs(1) have row: "pc_Rounds r = folding_rounds" "pc_State r = AgentPrivateConversationStateIdle" "pc_Pending r = []"
    "pc_LastConsumedSeq r = 2" "pc_LongTermMemory r = []" by simp_all
  have loops: "ch_loops c = [(demo_base, Folding False)]" using vs(2,3) by (cases "ch_loops c") auto
  have C: "co_summarizer folding_coalescer = Some demo_summarizer" "co_summarizeThreshold folding_coalescer = 2"
    "co_keepRounds folding_coalescer = 1" "co_maxRounds folding_coalescer = 40"
    by (simp_all add: folding_coalescer_def NewPrivateChatCoalescer_def Let_def)
  have folded: "demo_summarizer (fold_input r (take 1 folding_rounds)) = Inr (''a'', [])" "demo_summarizer (fold_input r (take (1 + 1) folding_rounds)) = Inr (''ab'', [])"
    by (simp_all add: demo_summarizer_def row(5) folding_rounds_def)
  have texts: "TrimSpace ''a'' = ''a''" "TrimSpace ''ab'' \<noteq> []" "TrimSpace ''s'' \<noteq> []" "TrimSpace ''1'' \<noteq> []" "TrimSpace ''2'' \<noteq> []" "truncateChars ''a'' MaxMemoryChars = ''a''"
    by code_simp+
  have R: "length folding_rounds = 2" "sorted_wrt (<) (map rd_SeqTo folding_rounds)" "\<forall>x \<in> set folding_rounds. 0 < rd_SeqTo x \<and> rd_SeqTo x \<le> 2"
    by (simp_all add: folding_rounds_def)
  have "\<exists>c' r'. (chat_step folding_coalescer ''s'')\<^sup>*\<^sup>* c c' \<and> ch_cut c' = ch_cut c \<and> ch_loops c' = [] \<and> ch_db c' ''s'' = Some r'
      \<and> pc_LongTermMemory r' = truncateChars (TrimSpace ''a'') MaxMemoryChars \<and> folding_rounds ! 1 \<notin> set (take 1 folding_rounds) \<and> folding_rounds ! 1 \<notin> set (pc_Rounds r')"
    by (rule overlapping_summaries_lose_rounds [where f = demo_summarizer and r = r and base = demo_base and ?base1.0 = demo_base and m = "demo_msg 3 ''c''",
          OF C(1) folded(1) _ folded(2)])
       (use C R row r loops texts in \<open>simp_all add: demo_base_def demo_msg_def\<close>)
  moreover have "(chat_step folding_coalescer ''s'')\<^sup>*\<^sup>* new_chat c" using c by (rule exec_chat_run)
  ultimately show ?thesis using vs(4) texts(1,6) by (auto intro: rtranclp_trans)
qed

end
