(* ===== verification/Agent_Consumer.thy ===== *)
theory Agent_Consumer
  imports Agent_Runs
begin

text \<open>
  The consumer of \<^verbatim>\<open>agent.trigger.v1\<close> (\<^verbatim>\<open>service/agent/rpc/internal/consumer/consumer.go\<close>): each accepted event is judged, and
  each trigger goes to the private chat of the conversation or to the scheduler. Errors are logged and the batch still commits. The
  scheduler is an interface of the source and stays an argument with a state of its own; the loops that were started are recorded.
\<close>

record 's agent_world =
  aw_hosting :: "HostingSetting list"
  aw_private :: private_db
  aw_driven :: "AgentTrigger list"
  aw_scheduler :: 's

definition MessageContentTypeImage :: string where "MessageContentTypeImage = ''image''"
definition MessageContentTypeFile :: string where "MessageContentTypeFile = ''file''"

text \<open>Placeholders, in UTF-8.\<close>

definition bytes_text :: "nat list \<Rightarrow> string" where
  "bytes_text bs = map char_of bs"

definition decodeMessageText :: "json_lib \<Rightarrow> string \<Rightarrow> string \<Rightarrow> string" where
  "decodeMessageText js contentType raw =
     (if TrimSpace contentType = MessageContentTypeImage then bytes_text [0x5B, 0xE5, 0x9B, 0xBE, 0xE7, 0x89, 0x87, 0xE6, 0xB6, 0x88, 0xE6, 0x81, 0xAF, 0x5D]
      else if TrimSpace contentType = MessageContentTypeFile then bytes_text [0x5B, 0xE6, 0x96, 0x87, 0xE4, 0xBB, 0xB6, 0xE6, 0xB6, 0x88, 0xE6, 0x81, 0xAF, 0x5D]
      else let body = (case text_decode js raw of None \<Rightarrow> [] | Some t \<Rightarrow> TrimSpace t)
        in if body \<noteq> [] then body
           else if TrimSpace raw \<noteq> [] then TrimSpace raw
           else bytes_text [0x5B, 0xE9, 0x9D, 0x9E, 0xE6, 0x96, 0x87, 0xE6, 0x9C, 0xAC, 0xE6, 0xB6, 0x88, 0xE6, 0x81, 0xAF, 0x5D])"

definition private_message :: "json_lib \<Rightarrow> MessageEvent \<Rightarrow> PendingMessage" where
  "private_message js event =
     \<lparr>pm_Seq = Seq event, pm_Text = decodeMessageText js (p_ContentType (Payload event)) (p_Content (Payload event)),
      pm_ServerMsgID = ServerMsgID event, pm_CreatedAtMs = CreatedAt event\<rparr>"

text \<open>What happens to one trigger.\<close>

definition dispatch_trigger ::
  "json_lib \<Rightarrow> PrivateChatCoalescer option \<Rightarrow> (AgentTrigger \<Rightarrow> ('s, bool) act) \<Rightarrow> int \<Rightarrow> Trigger \<Rightarrow> ('s agent_world, unit) act" where
  "dispatch_trigger js coalescer schedule now trig =
     (case agentTriggerFromJudged trig of
        Inl _ \<Rightarrow> ret ()
      | Inr t \<Rightarrow>
          (case (if tr_Kind trig = KindAgentInbox \<and> at_ConversationType t = ChatTypeSingle then coalescer else None) of
             Some C \<Rightarrow> andThen (attempt (zoom aw_private (\<lambda>db w. w\<lparr>aw_private := db\<rparr>) (OnUserMessage C now t (private_message js (tr_Event trig)))))
               (\<lambda>r (w, fs). (Inr (), (if r = Inr True then w\<lparr>aw_driven := aw_driven w @ [t]\<rparr> else w, fs)))
           | None \<Rightarrow> andThen (attempt (zoom aw_scheduler (\<lambda>s w. w\<lparr>aw_scheduler := s\<rparr>) (schedule t))) (\<lambda>_. ret ())))"

definition handleEvent ::
  "json_lib \<Rightarrow> PrivateChatCoalescer option \<Rightarrow> (AgentTrigger \<Rightarrow> ('s, bool) act) \<Rightarrow> int \<Rightarrow> MessageEvent \<Rightarrow> ('s agent_world, unit) act" where
  "handleEvent js coalescer schedule now event =
     andThen (attempt (zoom aw_hosting (\<lambda>t w. w\<lparr>aw_hosting := t\<rparr>) (Evaluate event)))
       (\<lambda>r. case r of Inl _ \<Rightarrow> ret () | Inr triggers \<Rightarrow> for_each (dispatch_trigger js coalescer schedule now) triggers)"

definition Agent_HandleBatch ::
  "json_lib \<Rightarrow> PrivateChatCoalescer option \<Rightarrow> (AgentTrigger \<Rightarrow> ('s, bool) act) \<Rightarrow> int \<Rightarrow> string list \<Rightarrow> ('s agent_world, unit) act" where
  "Agent_HandleBatch js coalescer schedule now = for_each (\<lambda>record. case UnmarshalMessageEvent js record of
       Inl _ \<Rightarrow> ret ()
     | Inr event \<Rightarrow> if EventType event \<noteq> EventTypeMessageAccepted then ret () else handleEvent js coalescer schedule now event)"

section \<open>A message to an agent\<close>

text \<open>The row of a private chat after a new message, and whether it starts a loop.\<close>

definition message_added :: "PrivateChatCoalescer \<Rightarrow> int \<Rightarrow> AgentTrigger \<Rightarrow> PendingMessage \<Rightarrow> AgentPrivateConversations option \<Rightarrow> bool \<times> AgentPrivateConversations option" where
  "message_added C now base m row = (case row of
       None \<Rightarrow> (True, Some (new_row C now base m))
     | Some r \<Rightarrow> if pm_Seq m \<le> pc_LastConsumedSeq r then (False, row)
         else if claimable now r then (True, Some (claimed_row C now m r)) else (False, Some (added_row m r)))"

lemma OnUserMessage_clean:
  assumes "at_ConversationType base = ChatTypeSingle" "0 < pm_Seq m" "TrimSpace (at_RequestingUserID base) \<noteq> []" "TrimSpace (at_AgentUserID base) \<noteq> []"
    "TrimSpace (at_ConversationID base) \<noteq> []"
  shows "OnUserMessage C now base m (db, []) =
    (Inr (fst (message_added C now base m (db (at_ConversationID base)))),
     (db(at_ConversationID base := snd (message_added C now base m (db (at_ConversationID base)))), []))"
  using assms
  by (auto simp: message_added_def OnUserMessage_def AppendUserMessage_def AppendPending_def append_insert_def append_claim_def append_only_def update_row_def
        transact_def affected_def call_def check_def validateID_def andThen_def ret_def raise_def Let_def
        new_row_def claimed_row_def added_row_def split: option.splits)

text \<open>A message from a person to an agent.\<close>

definition to_agent :: "MessageEvent \<Rightarrow> string \<Rightarrow> bool" where
  "to_agent event a \<longleftrightarrow> EventType event = EventTypeMessageAccepted \<and> ChatType event = ChatTypeSingle
     \<and> p_MessageOrigin (Payload event) \<noteq> MessageOriginAI \<and> p_ReceiverID (Payload event) = a \<and> IsAgentAccountID a \<and> a \<noteq> SenderID event
     \<and> set (p_ReceiverIDs (Payload event) @ p_VisibleUserIDs (Payload event)) \<subseteq> {SenderID event, a}
     \<and> 0 < Seq event \<and> TrimSpace a \<noteq> [] \<and> TrimSpace (SenderID event) \<noteq> [] \<and> TrimSpace (ConversationID event) \<noteq> []"

definition private_trigger :: "MessageEvent \<Rightarrow> string \<Rightarrow> AgentTrigger" where
  "private_trigger event a =
     \<lparr>at_RequestID = EventID event @ '':'' @ a, at_EventID = EventID event, at_OperationID = [],
      at_TraceID = p_TraceID (Payload event), at_TriggerType = TriggerTypeUserPrivateMessage, at_AgentUserID = a,
      at_RequestingUserID = SenderID event, at_ConversationID = ConversationID event, at_ConversationType = ChatTypeSingle,
      at_TriggerMessageID = ServerMsgID event, at_TriggerSeq = Seq event, at_PromptText = [], at_ReplyToMessageID = ServerMsgID event,
      at_RecursiveTrigger = False, at_SourceAgentRunID = p_AgentRunID (Payload event), at_SourceAgentUserID = [],
      at_SourceMessageID = ServerMsgID event, at_SourceMessageSeq = Seq event, at_SourceMessageText = [],
      at_SourceContentType = p_ContentType (Payload event), at_TargetAgentUserIDs = [a], at_PrivateConvContext = False\<rparr>"

lemma to_agent_trigger:
  "to_agent event a \<Longrightarrow> agentTriggerFromJudged \<lparr>tr_Kind = kind, tr_AgentAccountID = a, tr_Event = event\<rparr> = Inr (private_trigger event a)"
  by (simp add: to_agent_def agentTriggerFromJudged_def messageTriggerType_def private_trigger_def Let_def)

lemma to_agent_judged:
  assumes "to_agent event a" "\<forall>s \<in> set hosts. hs_ConversationID s = ConversationID event \<longrightarrow> \<not> hs_Enabled s"
  shows "Evaluate event (hosts, []) = (Inr [\<lparr>tr_Kind = KindAgentInbox, tr_AgentAccountID = a, tr_Event = event\<rparr>], (hosts, []))"
proof -
  have none: "inbox_agents (SenderID event) None {a} (p_ReceiverIDs (Payload event) @ p_VisibleUserIDs (Payload event)) = []"
    using assms(1) unfolding set_empty [symmetric] set_inbox_agents by (auto simp: to_agent_def)
  have "a \<noteq> []" using assms(1) by (auto simp: to_agent_def)
  then have agents: "inbox_agents (SenderID event) (at_set event) {} (recipientCandidates event) = [a]"
    using assms(1) none by (simp add: to_agent_def at_set_def recipientCandidates_def ChatTypeSingle_def ChatTypeGroup_def)
  have "find (\<lambda>s. hs_ConversationID s = ConversationID event \<and> hs_Enabled s) hosts = None" using assms(2) by (auto simp: find_None_iff)
  then have "HostingAgent (ConversationID event) (hosts, []) = (Inr ([], False), (hosts, []))"
    by (simp add: HostingAgent_def GetEnabledConversationAIHosting_def FindEnabledByConversationId_def not_found_as_def query_def andThen_def call_def ret_def raise_def From_def ErrNotFound_def)
  then show ?thesis using assms(1) by (simp add: Evaluate_def agents Let_def andThen_def ret_def to_agent_def)
qed

lemma private_message_handled:
  assumes "to_agent event a" "\<forall>s \<in> set (aw_hosting w). hs_ConversationID s = ConversationID event \<longrightarrow> \<not> hs_Enabled s"
    and rec: "UnmarshalMessageEvent js record = Inr event"
    and res: "message_added C now (private_trigger event a) (private_message js event) (aw_private w (ConversationID event)) = (fired, row)"
  shows "Agent_HandleBatch js (Some C) schedule now [record] (w, []) = (Inr (),
    (w\<lparr>aw_private := (aw_private w)(ConversationID event := row), aw_driven := aw_driven w @ (if fired then [private_trigger event a] else [])\<rparr>, []))"
proof -
  have parts: "at_ConversationType (private_trigger event a) = ChatTypeSingle" "at_ConversationID (private_trigger event a) = ConversationID event"
    "at_RequestingUserID (private_trigger event a) = SenderID event" "at_AgentUserID (private_trigger event a) = a" "pm_Seq (private_message js event) = Seq event"
    by (simp_all add: private_trigger_def private_message_def)
  have "OnUserMessage C now (private_trigger event a) (private_message js event) (aw_private w, [])
      = (Inr fired, ((aw_private w)(ConversationID event := row), []))"
    using OnUserMessage_clean [of "private_trigger event a" "private_message js event" C now "aw_private w"] assms(1) res by (simp add: parts to_agent_def)
  moreover have "EventType event = EventTypeMessageAccepted" using assms(1) by (simp add: to_agent_def)
  ultimately show ?thesis
    using to_agent_judged [OF assms(1,2)] to_agent_trigger [OF assms(1)]
    by (simp add: Agent_HandleBatch_def handleEvent_def dispatch_trigger_def rec attempt_def zoom_def andThen_def ret_def parts)
qed

text \<open>
  C30: A message from a person to an agent reaches its private chat exactly once: the consumer appends it, as plain text, to the messages that wait, starts a loop for it exactly
  when no reply is under way, hands nothing to the scheduler and commits; when the record is delivered again, at any time, nothing changes.
\<close>

theorem private_message_reaches_chat:
  assumes to: "to_agent event a" and hosted: "\<forall>s \<in> set (aw_hosting w). hs_ConversationID s = ConversationID event \<longrightarrow> \<not> hs_Enabled s"
    and rec: "UnmarshalMessageEvent js record = Inr event"
    and new: "\<forall>r. aw_private w (ConversationID event) = Some r \<longrightarrow> pc_LastConsumedSeq r < Seq event"
  shows "\<exists>w' r'. Agent_HandleBatch js (Some C) schedule now [record] (w, []) = (Inr (), (w', []))
    \<and> aw_private w' = (aw_private w)(ConversationID event \<mapsto> r')
    \<and> pc_Pending r' = (case aw_private w (ConversationID event) of None \<Rightarrow> [] | Some r \<Rightarrow> pc_Pending r) @ [private_message js event]
    \<and> pc_LastConsumedSeq r' = Seq event
    \<and> aw_driven w' = aw_driven w @ (if \<forall>r. aw_private w (ConversationID event) = Some r \<longrightarrow> claimable now r then [private_trigger event a] else [])
    \<and> aw_hosting w' = aw_hosting w \<and> aw_scheduler w' = aw_scheduler w
    \<and> (\<forall>later. Agent_HandleBatch js (Some C) schedule later [record] (w', []) = (Inr (), (w', [])))"
proof -
  let ?k = "ConversationID event"
  let ?add = "\<lambda>now. message_added C now (private_trigger event a) (private_message js event)"
  have seq: "pm_Seq (private_message js event) = Seq event" by (simp add: private_message_def)
  have "\<exists>fired r'. ?add now (aw_private w ?k) = (fired, Some r') \<and> pc_LastConsumedSeq r' = Seq event
      \<and> pc_Pending r' = (case aw_private w ?k of None \<Rightarrow> [] | Some r \<Rightarrow> pc_Pending r) @ [private_message js event]
      \<and> (fired \<longleftrightarrow> (\<forall>r. aw_private w ?k = Some r \<longrightarrow> claimable now r))"
  proof (cases "aw_private w ?k")
    case None
    then show ?thesis using seq by (intro exI [of _ True] exI [of _ "new_row C now (private_trigger event a) (private_message js event)"])
        (simp add: message_added_def new_row_def)
  next
    case (Some r)
    then have "\<not> Seq event \<le> pc_LastConsumedSeq r" using new by simp
    with Some show ?thesis using seq by (cases "claimable now r") (simp_all add: message_added_def claimed_row_def added_row_def, blast+)
  qed
  then obtain fired r' where add: "?add now (aw_private w ?k) = (fired, Some r')" "pc_LastConsumedSeq r' = Seq event"
      "pc_Pending r' = (case aw_private w ?k of None \<Rightarrow> [] | Some r \<Rightarrow> pc_Pending r) @ [private_message js event]"
      "fired \<longleftrightarrow> (\<forall>r. aw_private w ?k = Some r \<longrightarrow> claimable now r)" by blast
  note first = private_message_handled [OF to hosted rec add(1), of schedule]
  let ?w' = "w\<lparr>aw_private := (aw_private w)(?k := Some r'), aw_driven := aw_driven w @ (if fired then [private_trigger event a] else [])\<rparr>"
  have again: "Agent_HandleBatch js (Some C) schedule later [record] (?w', []) = (Inr (), (?w', []))" for later
  proof -
    have "?add later (aw_private ?w' ?k) = (False, Some r')" using add(2) seq by (simp add: message_added_def)
    from private_message_handled [OF to _ rec this, of schedule] hosted show ?thesis by simp
  qed
  show ?thesis using first again add(2-4) by (intro exI [of _ ?w'] exI [of _ r']) simp
qed

definition demo_private_event :: MessageEvent where
  "demo_private_event = demo_group_event\<lparr>ConversationID := ''s'', ChatType := ChatTypeSingle, CreatedAt := 5, Payload := (Payload demo_group_event)
     \<lparr>p_ReceiverID := ''20972544'', p_GroupID := [], p_ContentType := ''text'', p_Content := ''thi'', p_VisibleUserIDs := [''20972544'', ''21496832''], p_AtUserIDs := []\<rparr>\<rparr>"

definition demo_agent_world :: "unit agent_world" where
  "demo_agent_world = \<lparr>aw_hosting = demo_hosting, aw_private = (\<lambda>_. None), aw_driven = [], aw_scheduler = ()\<rparr>"

theorem private_message_reaches_chat_witness:
  "\<exists>w' r'. Agent_HandleBatch (demo_json\<lparr>event_decode := \<lambda>_. Inr demo_private_event\<rparr>) (Some demo_coalescer) (\<lambda>_. ret True) 0 [''r''] (demo_agent_world, []) = (Inr (), (w', []))
    \<and> aw_private w' ''s'' = Some r' \<and> map (\<lambda>m. (pm_Seq m, pm_Text m)) (pc_Pending r') = [(1, ''hi'')] \<and> map at_AgentUserID (aw_driven w') = [''20972544'']"
proof -
  let ?js = "demo_json\<lparr>event_decode := \<lambda>_. Inr demo_private_event\<rparr>"
  have ids: "TrimSpace ''20972544'' \<noteq> []" "TrimSpace ''21496832'' \<noteq> []" "TrimSpace ''s'' \<noteq> []" "decodeMessageText ?js ''text'' ''thi'' = ''hi''" by code_simp+
  have to: "to_agent demo_private_event ''20972544''"
    using ids by (simp add: to_agent_def demo_private_event_def demo_group_event_def demo_group_ids event_consts)
  have rec: "UnmarshalMessageEvent ?js ''r'' = Inr demo_private_event"
    by (simp add: UnmarshalMessageEvent_def Validate_def Let_def demo_private_event_def demo_group_event_def demo_json_def event_consts)
  have k: "ConversationID demo_private_event = ''s''" "Seq demo_private_event = 1" by (simp_all add: demo_private_event_def demo_group_event_def)
  obtain w' r' where run: "Agent_HandleBatch ?js (Some demo_coalescer) (\<lambda>_. ret True) 0 [''r''] (demo_agent_world, []) = (Inr (), (w', []))"
    and row: "aw_private w' = (aw_private demo_agent_world)(''s'' \<mapsto> r')" "pc_Pending r' = [private_message ?js demo_private_event]"
    and driven: "aw_driven w' = [private_trigger demo_private_event ''20972544'']"
    using private_message_reaches_chat [OF to _ rec, of demo_agent_world demo_coalescer "\<lambda>_. ret True" 0, unfolded k]
    by (auto simp: demo_agent_world_def demo_hosting_def)
  have "pm_Text (private_message ?js demo_private_event) = ''hi''" "pm_Seq (private_message ?js demo_private_event) = 1"
    using ids(4) by (simp_all add: private_message_def demo_private_event_def demo_group_event_def)
  then show ?thesis using run row driven by (intro exI [of _ w'] exI [of _ r']) (simp add: private_trigger_def)
qed

end
