(* ===== verification/Spec2Isabelle.thy ===== *)
theory Spec2Isabelle
  imports Msg_Send Pipeline Reads Group_Svc Friends Presence Gateway Ws_Commands Push Auth_Codes Agent_Races Agent_Consumer
begin

text \<open>
  A verification of the server side of \<^verbatim>\<open>agents_im\<close>, an instant-messaging system of Go services around Kafka, PostgreSQL
  and Redis. Paths are relative to \<^verbatim>\<open>src/\<close>.

  The program. A client talks to \<^verbatim>\<open>msggateway\<close> over a WebSocket. A message it sends goes to \<^verbatim>\<open>msg-rpc\<close>, which checks it, gives
  it an id and publishes it to the topic \<^verbatim>\<open>msg.toTransfer.v1\<close>. \<^verbatim>\<open>msgtransfer\<close> numbers the messages of a conversation, and
  publishes them for the archive, for delivery and for the agents; a second consumer of it writes the archive in PostgreSQL.
  \<^verbatim>\<open>push\<close> reads the delivery topic and asks every gateway instance to write the message to the connections of the recipients,
  which the presence store knows; who is not online is handed to the offline channel. \<^verbatim>\<open>msg-rpc\<close> also serves history and read
  positions from the archive. \<^verbatim>\<open>groups-rpc\<close>, \<^verbatim>\<open>friends-rpc\<close>, \<^verbatim>\<open>user-rpc\<close> and \<^verbatim>\<open>auth-rpc\<close> keep groups, friendships,
  accounts and credentials. \<^verbatim>\<open>agent-rpc\<close> reads the topic of the agents, judges which agents a message wakes, and answers private
  chats in batches.

  How it is modelled. Go strings are lists of bytes; \<^verbatim>\<open>int64\<close> values are integers with their range or their wrap-around written
  out where it matters; times are integers. A Go struct is a record with the fields of the source, a table a list by primary key
  or a function, an error a value of \<open>goerror\<close>. An operation that touches the outside is a function from its state and a list of
  faults, one entry for each call it will make: the call succeeds, fails before its effect, or fails after it, its reply being lost.
  A transaction that fails leaves the tables as they were, but a lost reply to the commit may hide that it took place. When the
  list is used up every call succeeds, so that a theorem for all lists covers all patterns of failures, and the empty list is the
  undisturbed run. No fuel is needed anywhere else: every other loop is structural. Requests that overlap are modelled where the
  code takes several statements outside a transaction, by step relations or by splitting the operation at that point. What is
  not in the repository, or is not modelled, is a parameter: JSON, HMAC, bcrypt, SHA-256, the parsing of dates and addresses,
  media-rpc, and of agent-rpc the runner, the summarizer, the scheduler and the provisioning of agents.

  The theories.

  \<^verbatim>\<open>Prelude\<close>: the functions of \<^verbatim>\<open>strings\<close>, \<^verbatim>\<open>strconv\<close>, \<^verbatim>\<open>sort\<close> and \<^verbatim>\<open>utf8\<close> that the sources call, with their lemmas.
  \<^verbatim>\<open>App_Errors\<close>: \<^verbatim>\<open>pkg/apperror\<close> and \<^verbatim>\<open>pkg/rpcerror\<close>, the errors and what is left of them behind a gRPC call.
  \<^verbatim>\<open>Infra\<close>: the computations with faults, their Hoare triples (\<open>valid\<close>, \<open>keeps\<close>), transactions, calls between services.
  \<^verbatim>\<open>Id_Gen\<close>: \<^verbatim>\<open>pkg/idgen\<close>, the three generators with 64-bit arithmetic; no id is repeated, and the facet of an account id
  is read back from it.

  \<^verbatim>\<open>Events\<close>: \<^verbatim>\<open>pkg/messaging\<close>, the events, the log of the broker and the retry loop of a consumer.
  \<^verbatim>\<open>Msg_Model\<close>: the vocabulary of messages (\<^verbatim>\<open>service/msg/rpc/internal/model\<close>).
  \<^verbatim>\<open>Msg_Send\<close>: \<^verbatim>\<open>SendMessage\<close> of msg-rpc; an acknowledged send has published exactly one event, which matches it.
  \<^verbatim>\<open>Msg_Transfer\<close>: the hot path of msgtransfer, allocation, deduplication, cache and fan-out.
  \<^verbatim>\<open>Archive\<close>: the tables of the archive, the writer's transaction and the consumer; a batch is written as a whole or not at all.
  \<^verbatim>\<open>Pipeline\<close>: the reachable states of submission, transfer and archive together: numbers strictly increase, a committed batch
  is on all its topics, an undisturbed batch completes, and what a lost reply can do.
  \<^verbatim>\<open>Reads\<close>: the read path of msg-rpc on the archive's tables: who sees what, pages, read positions.

  \<^verbatim>\<open>Friends\<close> and \<^verbatim>\<open>Group_Svc\<close>: friends-rpc with a specification it refines, and groups-rpc with the invariant of its tables.
  \<^verbatim>\<open>Accounts\<close>, \<^verbatim>\<open>Auth_Token\<close>, \<^verbatim>\<open>Auth_Svc\<close>, \<^verbatim>\<open>Auth_Codes\<close>: user-rpc; signed tokens and active sessions; auth-rpc over user-rpc;
  and the table of registration codes under overlapping requests.
  \<^verbatim>\<open>Presence\<close>: the interface of the presence store as a locale, its two implementations, and the trace specification of both.
  \<^verbatim>\<open>Gateway\<close>, \<^verbatim>\<open>Gateway_Ws\<close>, \<^verbatim>\<open>Ws_Sessions\<close>, \<^verbatim>\<open>Ws_Commands\<close>: the connections of an instance and the dispatcher; the
  WebSocket server; its runs as a step relation; and its commands down to the tables of msg-rpc and groups-rpc.
  \<^verbatim>\<open>Push\<close>: the broadcaster and the two consumers over any number of gateways.

  \<^verbatim>\<open>Agent_Trigger\<close>, \<^verbatim>\<open>Agent_Consumer\<close>: which message wakes which agent, and the consumer of the topic of the agents.
  \<^verbatim>\<open>Agent_Store\<close>, \<^verbatim>\<open>Agent_Chat\<close>, \<^verbatim>\<open>Agent_Runs\<close>, \<^verbatim>\<open>Agent_Races\<close>: the table of the private conversations of an agent; the
  coalescer over it, whose loop is cut at its calls into the phases of a step relation; what holds in every run, and that the loops
  end; and the two races that the statements of the table leave open.

  What the lemmas show. Each component has its invariant and its preservation by every operation under any faults, the exact
  effect of the operations where they succeed, and theorems that compose components: the pipeline over the send path and the
  archive, the reads over the archive, the commands of the gateway over msg-rpc and groups-rpc, the push service over the gateways
  and the presence store, auth-rpc over user-rpc, the consumer of the agents over the private chats. Theorems of the kind "error" show on the model what the code does when it goes
  wrong: they name defects, not intentions.

  Not modelled: the agent runtime, its tools and its audit, the scheduler of triggers outside private chats, the administration console, media-rpc and the sending of mail, which
  stand behind parameters or are not called by the modelled parts; the HTTP gateways and the web client, which only translate;
  configuration, logging, metrics and tracing; the recent-conversation list and the counters of msg-rpc and the search of accounts,
  which read tables with queries of their own. Goroutines that the code starts within one request run one after another.
\<close>

end
